(* ===== verification/Prelude.thy ===== *)
theory Prelude
  imports Main "HOL-Library.Word" "HOL-Library.Monad_Syntax" "HOL-Library.Multiset"
begin

unbundle bit_operations_syntax

text \<open>
  Shared vocabulary of the development: the C integer types as words, the result and
  handle types of the system, the C string routines the sources call (over byte lists),
  byte views of word buffers, and the generic lemmas on lists and options that the
  component theories use.

  A C program here is modelled with explicit state passing. A trap (\<open>panic\<close>,
  \<open>__builtin_trap\<close>, \<open>svcBreak\<close>) ends the process and is the value \<^term>\<open>None\<close> of an
  option type; every other error return is an ordinary value.
\<close>

section \<open>Integer types\<close>

type_synonym u8 = "8 word"
type_synonym u16 = "16 word"
type_synonym u32 = "32 word"
type_synonym u64 = "64 word"
type_synonym result = "32 word"
type_synonym handle = "32 word"
type_synonym bytes = "8 word list"

text \<open>The results of the system are negative on failure (\<open>R_FAILED\<close>).\<close>

definition rfailed :: "result \<Rightarrow> bool" where
  "rfailed r \<longleftrightarrow> sint r < 0"

section \<open>Collections of facts\<close>

named_theorems store_simps \<open>selectors and updates of the intrusive list store\<close>
named_theorems inv_intros \<open>invariant preservation, one rule per operation\<close>

section \<open>C string routines on byte lists\<close>

text \<open>
  A buffer is the list of its bytes. \<open>strnlen s n\<close> counts the bytes before the first NUL,
  at most \<open>n\<close>; \<open>strncmp_eq a b n\<close> is \<open>strncmp(a, b, n) == 0\<close>; \<open>strncpy_n s n\<close> is the
  content of an \<open>n\<close>-byte destination after \<open>strncpy(dst, s, n)\<close>: the bytes before the
  first NUL, then zeros.
\<close>

definition strnlen :: "bytes \<Rightarrow> nat \<Rightarrow> nat" where
  "strnlen s n = length (takeWhile (\<lambda>c. c \<noteq> 0) (take n s))"

fun strncmp_eq :: "bytes \<Rightarrow> bytes \<Rightarrow> nat \<Rightarrow> bool" where
  "strncmp_eq a b 0 = True"
| "strncmp_eq (x # xs) (y # ys) (Suc n) = (x = y \<and> (x = 0 \<or> strncmp_eq xs ys n))"
| "strncmp_eq a b (Suc n) = (a = [] \<and> b = [])"

definition strncpy_n :: "bytes \<Rightarrow> nat \<Rightarrow> bytes" where
  "strncpy_n s n = (let t = take n (takeWhile (\<lambda>c. c \<noteq> 0) s) in t @ replicate (n - length t) 0)"

lemma length_strncpy_n [simp]: "length (strncpy_n s n) = n"
  by (simp add: strncpy_n_def Let_def)

lemma strnlen_le: "strnlen s n \<le> n"
  unfolding strnlen_def by (rule order_trans [OF length_takeWhile_le]) simp

lemma strncmp_eq_refl [simp]: "strncmp_eq a a n"
proof (induction n arbitrary: a)
  case (Suc n)
  then show ?case by (cases a) auto
qed simp

lemma strncmp_eq_sym: "strncmp_eq a b n = strncmp_eq b a n"
  by (induction a b n rule: strncmp_eq.induct) auto

text \<open>Without a NUL in the first \<open>n\<close> bytes the comparison is equality of the prefixes.\<close>

lemma strncmp_eq_take:
  "\<lbrakk>n \<le> length a; n \<le> length b; \<forall>c \<in> set (take n a). c \<noteq> 0\<rbrakk> \<Longrightarrow>
   strncmp_eq a b n \<longleftrightarrow> take n a = take n b"
proof (induction a b n rule: strncmp_eq.induct)
  case (2 x xs y ys n)
  then show ?case by auto
qed auto

lemma takeWhile_full: "length (takeWhile P xs) = length xs \<Longrightarrow> \<forall>x \<in> set xs. P x"
proof (induction xs)
  case (Cons x xs)
  then show ?case by (cases "P x") auto
qed simp

lemma strnlen_full: "n \<le> length s \<Longrightarrow> \<not> strnlen s n < n \<Longrightarrow> \<forall>c \<in> set (take n s). c \<noteq> 0"
  by (rule takeWhile_full)
     (metis length_take min.absorb2 nat_less_le strnlen_def strnlen_le)

lemma takeWhile_prefix:
  assumes "\<forall>c \<in> set (take n xs). P c"
  shows "takeWhile P xs = take n xs @ takeWhile P (drop n xs)"
proof -
  have "takeWhile P (take n xs @ drop n xs) = take n xs @ takeWhile P (drop n xs)"
    using assms by (intro takeWhile_append2) auto
  then show ?thesis by simp
qed

text \<open>The bytes of a string constant.\<close>

definition ascii :: "string \<Rightarrow> bytes" where
  "ascii s = map of_char s"

section \<open>Byte views of word buffers\<close>

text \<open>The processors are little-endian: a word's lowest byte has the lowest address.\<close>

definition word_bytes :: "u32 \<Rightarrow> bytes" where
  "word_bytes w = [ucast w, ucast (drop_bit 8 w), ucast (drop_bit 16 w), ucast (drop_bit 24 w)]"

definition bytes_of :: "u32 list \<Rightarrow> bytes" where
  "bytes_of ws = concat (map word_bytes ws)"

lemma length_word_bytes [simp]: "length (word_bytes w) = 4"
  by (simp add: word_bytes_def)

lemma length_bytes_of [simp]: "length (bytes_of ws) = 4 * length ws"
  by (induction ws) (simp_all add: bytes_of_def)

section \<open>Options and lists\<close>

text \<open>The first element of a list as a pointer, with the pointer that follows the list.\<close>

fun head_or :: "'a list \<Rightarrow> 'a option \<Rightarrow> 'a option" where
  "head_or [] n = n"
| "head_or (x # xs) n = Some x"

fun last_or :: "'a option \<Rightarrow> 'a list \<Rightarrow> 'a option" where
  "last_or p [] = p"
| "last_or p (x # xs) = last_or (Some x) xs"

lemma head_or_append [simp]: "head_or (xs @ ys) n = head_or xs (head_or ys n)"
  by (cases xs) auto

lemma last_or_append [simp]: "last_or p (xs @ ys) = last_or (last_or p xs) ys"
  by (induction xs arbitrary: p) auto

lemma head_or_None_iff [simp]: "head_or xs None = None \<longleftrightarrow> xs = []"
  by (cases xs) auto

lemma last_or_Some_iff: "last_or p xs = Some x \<longleftrightarrow> (if xs = [] then p = Some x else last xs = x)"
  by (induction xs arbitrary: p) auto

lemma last_or_None_iff [simp]: "last_or None xs = None \<longleftrightarrow> xs = []"
  by (cases "xs = []") (auto, metis last_or_Some_iff not_Some_eq)

lemma head_or_SomeD: "head_or xs n = Some x \<Longrightarrow> x \<in> set xs \<or> (xs = [] \<and> n = Some x)"
  by (cases xs) auto

lemma last_or_SomeD: "last_or p xs = Some x \<Longrightarrow> x \<in> set xs \<or> (xs = [] \<and> p = Some x)"
  by (auto simp: last_or_Some_iff split: if_splits)

lemma mset_remove1_split: "x \<notin> set as \<Longrightarrow> remove1 x (as @ x # bs) = as @ bs"
  by (simp add: remove1_append)

section \<open>Removal by moving the last element into the hole\<close>

text \<open>\<open>a[i] = a[--n]\<close> removes element \<open>i\<close> of the first \<open>n\<close>, as a multiset.\<close>

lemma swap_remove_mset:
  assumes n: "n \<le> length xs" and i: "i < n"
  shows "mset (take (n - 1) (xs[i := xs ! (n - 1)])) = mset (take n xs) - {#xs ! i#}"
proof -
  obtain m where m: "n = Suc m" "i \<le> m" "m < length xs" using n i by (cases n) auto
  have t: "take n xs = take m xs @ [xs ! m]" using m by (simp add: take_Suc_conv_app_nth)
  show ?thesis
  proof (cases "i = m")
    case True
    then show ?thesis by (simp add: m(1) t [unfolded m(1)])
  next
    case False
    with m have il: "i < length (take m xs)" by simp
    then have "mset ((take m xs)[i := xs ! m]) = add_mset (xs ! m) (mset (take m xs) - {#xs ! i#})"
      using mset_update [of i "take m xs" "xs ! m"] m False by simp
    moreover have "xs ! i \<in># mset (take m xs)"
      using il by (metis in_multiset_in_set nth_mem nth_take length_take min_less_iff_conj)
    ultimately show ?thesis
      by (subst t) (simp add: m take_update_swap)
  qed
qed

lemma submset_distinct:
  assumes "mset ys \<subseteq># mset xs" and "distinct xs"
  shows "distinct ys"
proof -
  have "count (mset ys) a = (if a \<in> set ys then 1 else 0)" for a
  proof (cases "a \<in> set ys")
    case True
    then have "0 < count (mset ys) a" by simp
    moreover have "count (mset ys) a \<le> count (mset xs) a" using assms(1) by (rule mset_subset_eq_count)
    moreover have "count (mset xs) a \<le> 1" using assms(2) by (simp add: distinct_count_atmost_1)
    ultimately have "count (mset ys) a = 1" by linarith
    with True show ?thesis by simp
  qed (simp add: count_mset_0_iff)
  then show ?thesis by (simp add: distinct_count_atmost_1)
qed

lemma swap_remove:
  assumes d: "distinct (take n xs)" and n: "n \<le> length xs" and i: "i < n"
  shows "distinct (take (n - 1) (xs[i := xs ! (n - 1)]))"
    and "set (take (n - 1) (xs[i := xs ! (n - 1)])) = set (take n xs) - {xs ! i}"
proof -
  let ?ys = "take (n - 1) (xs[i := xs ! (n - 1)])"
  have m: "mset ?ys = mset (take n xs) - {#xs ! i#}" by (rule swap_remove_mset [OF n i])
  then have "mset ?ys \<subseteq># mset (take n xs)" by simp
  then show "distinct ?ys" using d by (rule submset_distinct)
  have "set_mset (mset (take n xs) - {#xs ! i#}) = set (take n xs) - {xs ! i}"
    using d by (metis mset_remove1 set_mset_mset set_remove1_eq)
  then show "set ?ys = set (take n xs) - {xs ! i}" by (metis m set_mset_mset)
qed

end
