(* ===== verification/Sm_List.thy ===== *)
theory Sm_List
  imports Prelude
begin

text \<open>
  The intrusive doubly linked lists of the service manager, \<open>sysmodules/sm/source/list.c\<close>.
  Nodes are the elements of a static pool, named by their index; a pool belongs to a family
  of list heads, named by a type \<open>'l\<close>. The links of every node and the two ends of every
  head are fields of one store, so each assignment through a pointer in the C code is one
  function update. The payload of the nodes is kept by the clients.

  The second half states what a store represents (\<open>rep\<close>: one HOL list of nodes per head)
  and shows that every operation of \<open>list.c\<close> is the expected operation on those lists.
\<close>

section \<open>The store and its operations\<close>

record 'l lstore =
  node_prev :: "nat \<Rightarrow> nat option"
  node_next :: "nat \<Rightarrow> nat option"
  node_parent :: "nat \<Rightarrow> 'l"
  list_first :: "'l \<Rightarrow> nat option"
  list_last :: "'l \<Rightarrow> nat option"

text \<open>\<open>if(p != NULL) p->next = v;\<close> and \<open>if(p != NULL) p->prev = v;\<close>\<close>

fun set_next_opt :: "'l lstore \<Rightarrow> nat option \<Rightarrow> nat option \<Rightarrow> 'l lstore" where
  "set_next_opt s None v = s"
| "set_next_opt s (Some p) v = s\<lparr>node_next := (node_next s)(p := v)\<rparr>"

fun set_prev_opt :: "'l lstore \<Rightarrow> nat option \<Rightarrow> nat option \<Rightarrow> 'l lstore" where
  "set_prev_opt s None v = s"
| "set_prev_opt s (Some p) v = s\<lparr>node_prev := (node_prev s)(p := v)\<rparr>"

text \<open>One turn of the loop of \<open>buildList\<close>, and the function: the pool's nodes \<open>0..nb-1\<close> are
  chained in order.\<close>

definition build_node :: "nat \<Rightarrow> 'l \<Rightarrow> 'l lstore \<Rightarrow> nat \<Rightarrow> 'l lstore" where
  "build_node nb l s i = s\<lparr>
     node_prev := (node_prev s)(i := if i = 0 then None else Some (i - 1)),
     node_next := (node_next s)(i := if i = nb - 1 then None else Some (i + 1)),
     node_parent := (node_parent s)(i := l)\<rparr>"

definition buildList :: "'l lstore \<Rightarrow> 'l \<Rightarrow> nat \<Rightarrow> 'l lstore" where
  "buildList s l nb =
     (let s1 = foldl (build_node nb l) s [0..<nb]
      in s1\<lparr>list_first := (list_first s1)(l := Some 0),
            list_last := (list_last s1)(l := Some (nb - 1))\<rparr>)"

text \<open>The first half of \<open>moveNode\<close>: take the node out of its list.\<close>

definition unlink_node :: "'l lstore \<Rightarrow> nat \<Rightarrow> 'l \<Rightarrow> 'l lstore" where
  "unlink_node s x src =
     (let s1 = set_next_opt s (node_prev s x) (node_next s x);
          s2 = set_prev_opt s1 (node_next s1 x) (node_prev s1 x);
          s3 = (if list_first s2 src = Some x
                then s2\<lparr>list_first := (list_first s2)(src := node_next s2 x)\<rparr> else s2)
      in (if list_last s3 src = Some x
          then s3\<lparr>list_last := (list_last s3)(src := node_prev s3 x)\<rparr> else s3))"

text \<open>The second half: insert it in the destination and normalise the destination's ends.\<close>

definition link_back :: "'l lstore \<Rightarrow> nat \<Rightarrow> 'l \<Rightarrow> 'l lstore" where
  "link_back s x d =
     (let s1 = set_next_opt s (list_last s d) (Some x)
      in s1\<lparr>node_prev := (node_prev s1)(x := list_last s1 d),
            node_next := (node_next s1)(x := None),
            list_last := (list_last s1)(d := Some x)\<rparr>)"

definition link_front :: "'l lstore \<Rightarrow> nat \<Rightarrow> 'l \<Rightarrow> 'l lstore" where
  "link_front s x d =
     (let s1 = set_prev_opt s (list_first s d) (Some x)
      in s1\<lparr>node_next := (node_next s1)(x := list_first s1 d),
            node_prev := (node_prev s1)(x := None),
            list_first := (list_first s1)(d := Some x)\<rparr>)"

definition normalize_ends :: "'l lstore \<Rightarrow> 'l \<Rightarrow> 'l lstore" where
  "normalize_ends s d =
     (if list_first s d \<noteq> None \<and> list_last s d = None
      then s\<lparr>list_last := (list_last s)(d := list_first s d)\<rparr>
      else if list_first s d = None \<and> list_last s d \<noteq> None
      then s\<lparr>list_first := (list_first s)(d := list_last s d)\<rparr>
      else s)"

definition moveNode :: "'l lstore \<Rightarrow> nat \<Rightarrow> 'l \<Rightarrow> bool \<Rightarrow> 'l lstore" where
  "moveNode s x d back =
     (if d = node_parent s x then s
      else let s1 = unlink_node s x (node_parent s x);
               s2 = (if back then link_back s1 x d else link_front s1 x d);
               s3 = normalize_ends s2 d
           in s3\<lparr>node_parent := (node_parent s3)(x := d)\<rparr>)"

text \<open>\<open>allocateNode\<close> panics on an empty free list. The caller clears the payload of the node it
  gets (\<open>memset\<close>); the links are kept, as the code restores them.\<close>

definition allocateNode :: "'l lstore \<Rightarrow> 'l \<Rightarrow> 'l \<Rightarrow> bool \<Rightarrow> (nat \<times> 'l lstore) option" where
  "allocateNode s inUse free back =
     (case list_first s free of
        None \<Rightarrow> None
      | Some x \<Rightarrow> Some (x, moveNode s x inUse back))"

text \<open>
  Two loop shapes of the clients. \<open>find_loop\<close> is
  \<open>for(node = p; node != NULL && !P(node); node = node->next);\<close> and returns the node where it
  stops. \<open>move_loop\<close> is the loop that saves \<open>next\<close> first and then moves the node to the back
  of \<open>d\<close> when \<open>P\<close> holds, counting the moves. A link structure with a cycle would keep them
  running, so both take fuel and return \<open>None\<close> when it runs out.
\<close>

fun find_loop :: "(nat \<Rightarrow> nat option) \<Rightarrow> nat \<Rightarrow> (nat \<Rightarrow> bool) \<Rightarrow> nat option \<Rightarrow> nat option option" where
  "find_loop nxt fuel P None = Some None"
| "find_loop nxt 0 P (Some x) = None"
| "find_loop nxt (Suc fuel) P (Some x) =
     (if P x then Some (Some x) else find_loop nxt fuel P (nxt x))"

fun move_loop :: "('s \<Rightarrow> nat \<Rightarrow> nat option) \<Rightarrow> ('s \<Rightarrow> nat \<Rightarrow> 's) \<Rightarrow> nat \<Rightarrow> (nat \<Rightarrow> bool)
    \<Rightarrow> 's \<Rightarrow> nat option \<Rightarrow> nat \<Rightarrow> ('s \<times> nat) option" where
  "move_loop nxt mv fuel P s None n = Some (s, n)"
| "move_loop nxt mv 0 P s (Some x) n = None"
| "move_loop nxt mv (Suc fuel) P s (Some x) n =
     (let nx = nxt s x
      in if P x then move_loop nxt mv fuel P (mv s x) nx (Suc n)
         else move_loop nxt mv fuel P s nx n)"

section \<open>Chains of nodes\<close>

text \<open>\<open>seg s p xs n\<close>: the nodes \<open>xs\<close> are linked in order, \<open>p\<close> before the first, \<open>n\<close> after the
  last.\<close>

fun seg :: "'l lstore \<Rightarrow> nat option \<Rightarrow> nat list \<Rightarrow> nat option \<Rightarrow> bool" where
  "seg s p [] n = True"
| "seg s p (x # xs) n =
     (node_prev s x = p \<and> node_next s x = head_or xs n \<and> seg s (Some x) xs n)"

lemma seg_append [simp]:
  "seg s p (xs @ ys) n \<longleftrightarrow> seg s p xs (head_or ys n) \<and> seg s (last_or p xs) ys n"
  by (induction xs arbitrary: p) auto

lemma seg_cong:
  "(\<And>x. x \<in> set xs \<Longrightarrow> node_prev t x = node_prev s x \<and> node_next t x = node_next s x) \<Longrightarrow>
   seg t p xs n = seg s p xs n"
  by (induction xs arbitrary: p) auto

lemma set_opt_fields [simp]:
  "node_prev (set_next_opt s q v) = node_prev s"
  "node_parent (set_next_opt s q v) = node_parent s"
  "list_first (set_next_opt s q v) = list_first s"
  "list_last (set_next_opt s q v) = list_last s"
  "node_next (set_prev_opt s q v) = node_next s"
  "node_parent (set_prev_opt s q v) = node_parent s"
  "list_first (set_prev_opt s q v) = list_first s"
  "list_last (set_prev_opt s q v) = list_last s"
  by (cases q; simp)+

lemma node_next_set_next_opt [store_simps]:
  "node_next (set_next_opt s q v) y = (if q = Some y then v else node_next s y)"
  by (cases q) auto

lemma node_prev_set_prev_opt [store_simps]:
  "node_prev (set_prev_opt s q v) y = (if q = Some y then v else node_prev s y)"
  by (cases q) auto

text \<open>Changing what follows the last node, or what precedes the first.\<close>

lemma seg_set_last:
  "\<lbrakk>seg s p xs n; distinct xs;
    \<And>x. x \<in> set xs \<Longrightarrow> node_prev t x = node_prev s x;
    \<And>x. x \<in> set xs \<Longrightarrow> node_next t x = (if last xs = x then m else node_next s x)\<rbrakk> \<Longrightarrow>
   seg t p xs m"
proof (induction xs arbitrary: p)
  case (Cons x xs)
  show ?case
  proof (cases "xs = []")
    case True
    with Cons.prems show ?thesis by auto
  next
    case False
    with Cons.prems have "last xs \<noteq> x" by auto
    moreover have "seg t (Some x) xs m"
      using Cons.prems False by (intro Cons.IH) auto
    moreover have "head_or xs n = head_or xs m" using False by (cases xs) auto
    ultimately show ?thesis using Cons.prems False by auto
  qed
qed simp

lemma seg_set_first:
  assumes "seg s p xs n" "distinct xs"
    "\<And>x. x \<in> set xs \<Longrightarrow> node_next t x = node_next s x"
    "\<And>x. x \<in> set xs \<Longrightarrow> node_prev t x = (if hd xs = x then q else node_prev s x)"
  shows "seg t q xs n"
proof (cases xs)
  case (Cons y ys)
  moreover from assms Cons have "seg t (Some y) ys n = seg s (Some y) ys n"
    by (intro seg_cong) auto
  ultimately show ?thesis using assms by auto
qed simp

section \<open>What a store represents\<close>

definition rep_list :: "'l lstore \<Rightarrow> 'l \<Rightarrow> nat list \<Rightarrow> bool" where
  "rep_list s l xs \<longleftrightarrow>
     seg s None xs None \<and> list_first s l = head_or xs None \<and> list_last s l = last_or None xs \<and>
     distinct xs \<and> (\<forall>x \<in> set xs. node_parent s x = l)"

definition rep :: "'l lstore \<Rightarrow> ('l \<Rightarrow> nat list) \<Rightarrow> bool" where
  "rep s L \<longleftrightarrow> (\<forall>l. rep_list s l (L l))"

text \<open>The abstract move: out of the list \<open>src\<close>, to an end of the list \<open>d\<close>.\<close>

definition amove :: "('l \<Rightarrow> nat list) \<Rightarrow> 'l \<Rightarrow> nat \<Rightarrow> 'l \<Rightarrow> bool \<Rightarrow> ('l \<Rightarrow> nat list)" where
  "amove L src x d back =
     (if d = src then L
      else L(src := remove1 x (L src), d := (if back then L d @ [x] else x # L d)))"

lemma rep_listD:
  assumes "rep_list s l xs"
  shows "seg s None xs None" "list_first s l = head_or xs None" "list_last s l = last_or None xs"
    "distinct xs" "\<And>x. x \<in> set xs \<Longrightarrow> node_parent s x = l"
  using assms by (auto simp: rep_list_def)

lemma repD: "rep s L \<Longrightarrow> rep_list s l (L l)"
  by (simp add: rep_def)

lemma rep_parent: "rep s L \<Longrightarrow> x \<in> set (L l) \<Longrightarrow> node_parent s x = l"
  by (auto simp: rep_def rep_list_def)

lemma rep_distinct: "rep s L \<Longrightarrow> distinct (L l)"
  by (auto simp: rep_def rep_list_def)

lemma rep_disjoint: "rep s L \<Longrightarrow> x \<in> set (L l) \<Longrightarrow> x \<in> set (L l') \<Longrightarrow> l = l'"
  by (metis rep_parent)

lemma rep_first: "rep s L \<Longrightarrow> list_first s l = head_or (L l) None"
  by (auto simp: rep_def rep_list_def)

lemma rep_next: "rep s L \<Longrightarrow> L l = as @ x # bs \<Longrightarrow> node_next s x = head_or bs None"
  using rep_listD(1) [OF repD [of s L l]] by simp

lemma rep_prev: "rep s L \<Longrightarrow> L l = as @ x # bs \<Longrightarrow> node_prev s x = last_or None as"
  using rep_listD(1) [OF repD [of s L l]] by simp

text \<open>The store after the first half of \<open>moveNode\<close>, field by field.\<close>

lemma unlink_node_fields:
  assumes r: "rep s L" and l: "L src = as @ x # bs"
  shows "node_next (unlink_node s x src) y =
           (if last_or None as = Some y then head_or bs None else node_next s y)"
    and "node_prev (unlink_node s x src) y =
           (if head_or bs None = Some y then last_or None as else node_prev s y)"
    and "list_first (unlink_node s x src) =
           (list_first s)(src := head_or (as @ bs) None)"
    and "list_last (unlink_node s x src) = (list_last s)(src := last_or None (as @ bs))"
    and "node_parent (unlink_node s x src) = node_parent s"
proof -
  have d: "x \<notin> set as" "x \<notin> set bs" using rep_distinct [OF r, of src] l by auto
  have nx: "node_next s x = head_or bs None" and pv: "node_prev s x = last_or None as"
    using rep_next [OF r l] rep_prev [OF r l] by auto
  have la: "last_or None as \<noteq> Some x" using d by (auto dest!: last_or_SomeD)
  have f: "list_first s src = head_or (as @ x # bs) None"
    and e: "list_last s src = last_or None (as @ x # bs)"
    using repD [OF r, of src] l by (auto simp: rep_list_def)
  have ff: "list_first s src = Some x \<longleftrightarrow> as = []"
    using f d by (cases as) auto
  have ee: "list_last s src = Some x \<longleftrightarrow> bs = []"
    using e d by (cases "bs = []") (auto simp: last_or_Some_iff)
  have ee2: "last_or (Some x) bs = last_or (last_or None as) bs" if "bs \<noteq> []"
    using that by (cases bs) auto
  show "node_next (unlink_node s x src) y =
           (if last_or None as = Some y then head_or bs None else node_next s y)"
    by (simp add: unlink_node_def Let_def pv nx store_simps la)
  show "node_prev (unlink_node s x src) y =
           (if head_or bs None = Some y then last_or None as else node_prev s y)"
    by (simp add: unlink_node_def Let_def pv nx store_simps la)
  have ff2: "list_first s src = head_or (as @ bs) None" if "as \<noteq> []"
    using f that by (cases as) auto
  have nb: "head_or bs None \<noteq> Some x" using d by (auto dest!: head_or_SomeD)
  show "list_first (unlink_node s x src) = (list_first s)(src := head_or (as @ bs) None)"
    using ff ff2 by (cases "as = []") (auto simp: unlink_node_def Let_def pv nx la nb store_simps)
  show "list_last (unlink_node s x src) = (list_last s)(src := last_or None (as @ bs))"
    using ee ee2 e by (cases "bs = []") (auto simp: unlink_node_def Let_def pv nx la nb store_simps)
  show "node_parent (unlink_node s x src) = node_parent s"
    by (simp add: unlink_node_def Let_def)
qed

lemma unlink_node_rep:
  assumes r: "rep s L" and l: "L src = as @ x # bs"
  shows "rep (unlink_node s x src) (L(src := as @ bs))"
  unfolding rep_def
proof
  fix l
  let ?t = "unlink_node s x src"
  note F = unlink_node_fields [OF r l]
  have d: "distinct (as @ x # bs)" using rep_distinct [OF r, of src] l by simp
  have s: "seg s None as (Some x)" "seg s (Some x) bs None"
    using rep_listD(1) [OF repD [OF r, of src]] l by auto
  have lst: "\<And>y. y \<in> set as \<Longrightarrow> (last_or None as = Some y) = (last as = y)"
    by (auto simp: last_or_Some_iff)
  have hd: "\<And>y. y \<in> set bs \<Longrightarrow> (head_or bs None = Some y) = (hd bs = y)"
    by (cases bs) auto
  have nh: "\<And>y. y \<in> set as \<Longrightarrow> head_or bs None \<noteq> Some y"
    using d by (auto dest!: head_or_SomeD)
  have nl: "\<And>y. y \<in> set bs \<Longrightarrow> last_or None as \<noteq> Some y"
    using d by (auto dest!: last_or_SomeD)
  show "rep_list ?t l ((L(src := as @ bs)) l)"
  proof (cases "l = src")
    case True
    have "seg ?t None as (head_or bs None)"
      by (rule seg_set_last [OF s(1)]) (use d lst nh in \<open>auto simp: F\<close>)
    moreover have "seg ?t (last_or None as) bs None"
      by (rule seg_set_first [OF s(2)]) (use d hd nl in \<open>auto simp: F\<close>)
    ultimately show ?thesis
      using True d F rep_parent [OF r, of _ src] l by (auto simp: rep_list_def)
  next
    case False
    then have o: "y \<notin> set as \<and> y \<notin> set bs" if "y \<in> set (L l)" for y
      using rep_disjoint [OF r that, of src] l by auto
    then have "seg ?t None (L l) None = seg s None (L l) None"
      by (intro seg_cong) (auto simp: F dest!: head_or_SomeD last_or_SomeD)
    with False show ?thesis
      using repD [OF r, of l] by (auto simp: rep_list_def F)
  qed
qed

text \<open>The second half, from a store where the node is in no list.\<close>

lemma link_parent [simp]:
  "node_parent (normalize_ends s d) = node_parent s"
  "node_parent (link_back s x d) = node_parent s"
  "node_parent (link_front s x d) = node_parent s"
  by (simp_all add: normalize_ends_def link_back_def link_front_def Let_def)

lemma link_back_rep:
  assumes r: "rep s L" and x: "\<And>l. x \<notin> set (L l)"
  shows "rep ((normalize_ends (link_back s x d) d)\<lparr>node_parent := (node_parent s)(x := d)\<rparr>)
             (L(d := L d @ [x]))"
  unfolding rep_def
proof
  fix l
  let ?t = "(normalize_ends (link_back s x d) d)\<lparr>node_parent := (node_parent s)(x := d)\<rparr>"
  have ls: "list_last s d = last_or None (L d)" and fs: "list_first s d = head_or (L d) None"
    using repD [OF r, of d] by (auto simp: rep_list_def)
  have nz: "last_or None (L d) \<noteq> Some x" using x by (auto dest!: last_or_SomeD)
  have ne: "L d \<noteq> [] \<Longrightarrow> head_or (L d) m = head_or (L d) None" for m by (cases "L d") auto
  have F: "node_next ?t = (\<lambda>y. if y = x then None else if last_or None (L d) = Some y then Some x
             else node_next s y)"
    "node_prev ?t = (node_prev s)(x := last_or None (L d))"
    "list_last ?t = (list_last s)(d := Some x)"
    "list_first ?t = (list_first s)(d := head_or (L d @ [x]) None)"
    subgoal by (auto simp: normalize_ends_def link_back_def Let_def store_simps ls fun_eq_iff)
    subgoal by (simp add: normalize_ends_def link_back_def Let_def ls)
    subgoal by (simp add: normalize_ends_def link_back_def Let_def)
    subgoal using ne by (cases "L d") (auto simp: normalize_ends_def link_back_def Let_def fs)
    done
  have P: "node_parent ?t = (node_parent s)(x := d)" by simp
  show "rep_list ?t l ((L(d := L d @ [x])) l)"
  proof (cases "l = d")
    case True
    have lst: "\<And>y. y \<in> set (L d) \<Longrightarrow> (last_or None (L d) = Some y) = (last (L d) = y)"
      by (auto simp: last_or_Some_iff)
    have sg: "seg s None (L d) None" and di: "distinct (L d)"
      using repD [OF r, of d] by (auto simp: rep_list_def)
    have "seg ?t None (L d) (Some x)"
      by (rule seg_set_last [OF sg di]) (use lst x in \<open>auto simp only: F fun_upd_apply split: if_splits\<close>)
    then show ?thesis
      using True x di rep_parent [OF r, of _ d]
      unfolding rep_list_def F P by (auto simp: F)
  next
    case False
    then have "last_or None (L d) \<noteq> Some y \<and> y \<noteq> x" if "y \<in> set (L l)" for y
      using that x rep_disjoint [OF r that, of d] by (auto dest!: last_or_SomeD)
    then have "seg ?t None (L l) None = seg s None (L l) None"
      by (intro seg_cong) (auto simp: F)
    with False x show ?thesis
      using repD [OF r, of l] unfolding rep_list_def F P by auto
  qed
qed

lemma link_front_rep:
  assumes r: "rep s L" and x: "\<And>l. x \<notin> set (L l)"
  shows "rep ((normalize_ends (link_front s x d) d)\<lparr>node_parent := (node_parent s)(x := d)\<rparr>)
             (L(d := x # L d))"
  unfolding rep_def
proof
  fix l
  let ?t = "(normalize_ends (link_front s x d) d)\<lparr>node_parent := (node_parent s)(x := d)\<rparr>"
  have ls: "list_last s d = last_or None (L d)" and fs: "list_first s d = head_or (L d) None"
    using repD [OF r, of d] by (auto simp: rep_list_def)
  have nz: "head_or (L d) None \<noteq> Some x" using x by (auto dest!: head_or_SomeD)
  have cs: "last_or (Some x) (L d) = (if L d = [] then Some x else last_or None (L d))"
    by (cases "L d") auto
  have F: "node_prev ?t = (\<lambda>y. if y = x then None else if head_or (L d) None = Some y then Some x
             else node_prev s y)"
    "node_next ?t = (node_next s)(x := head_or (L d) None)"
    "list_first ?t = (list_first s)(d := Some x)"
    "list_last ?t = (list_last s)(d := last_or None (x # L d))"
    using ls fs cs by (auto simp: normalize_ends_def link_front_def Let_def store_simps fun_eq_iff)
  have P: "node_parent ?t = (node_parent s)(x := d)" by simp
  show "rep_list ?t l ((L(d := x # L d)) l)"
  proof (cases "l = d")
    case True
    have hd: "\<And>y. y \<in> set (L d) \<Longrightarrow> (head_or (L d) None = Some y) = (hd (L d) = y)"
      by (cases "L d") auto
    have sg: "seg s None (L d) None" and di: "distinct (L d)"
      using repD [OF r, of d] by (auto simp: rep_list_def)
    have "seg ?t (Some x) (L d) None"
      by (rule seg_set_first [OF sg di]) (use hd x in \<open>auto simp only: F fun_upd_apply split: if_splits\<close>)
    then show ?thesis
      using True x di rep_parent [OF r, of _ d]
      unfolding rep_list_def F P by (auto simp: F)
  next
    case False
    then have "head_or (L d) None \<noteq> Some y \<and> y \<noteq> x" if "y \<in> set (L l)" for y
      using that x rep_disjoint [OF r that, of d] by (auto dest!: head_or_SomeD)
    then have "seg ?t None (L l) None = seg s None (L l) None"
      by (intro seg_cong) (auto simp: F)
    with False x show ?thesis
      using repD [OF r, of l] unfolding rep_list_def F P by auto
  qed
qed

text \<open>\<open>moveNode\<close> is the abstract move. A node that is in no list of the store has no meaning for it;
  the source relies on the node's \<open>parent\<close>.\<close>

lemma moveNode_rep:
  assumes r: "rep s L" and x: "x \<in> set (L src)"
  shows "rep (moveNode s x d back) (amove L src x d back)"
proof (cases "d = src")
  case True
  then show ?thesis using r rep_parent [OF r x] by (simp add: moveNode_def amove_def)
next
  case False
  from x obtain as bs where l: "L src = as @ x # bs" and a: "x \<notin> set as"
    by (meson split_list_first)
  let ?u = "unlink_node s x src" and ?M = "L(src := as @ bs)"
  have u: "rep ?u ?M" by (rule unlink_node_rep [OF r l])
  have n: "x \<notin> set (?M l)" for l
    using rep_disjoint [OF r x, of l] rep_distinct [OF r, of src] l by (auto split: if_splits)
  have m: "amove L src x d back = ?M(d := if back then ?M d @ [x] else x # ?M d)"
    using False l a by (auto simp: amove_def remove1_append)
  have p: "node_parent s x = src" by (rule rep_parent [OF r x])
  show ?thesis
    using link_back_rep [OF u n, of d] link_front_rep [OF u n, of d] False
    unfolding m by (cases "back") (simp_all add: moveNode_def p Let_def del: fun_upd_apply)
qed

lemma allocateNode_rep:
  assumes "rep s L" and "allocateNode s inUse free back = Some (x, t)"
  shows "\<exists>xs. L free = x # xs \<and> rep t (amove L free x inUse back)"
proof -
  from assms obtain xs where "L free = x # xs" "t = moveNode s x inUse back"
    by (cases "L free") (auto simp: allocateNode_def rep_first split: option.splits)
  then show ?thesis using moveNode_rep [OF assms(1), of x free] by auto
qed

text \<open>\<open>buildList\<close> puts the whole pool in one list.\<close>

lemma foldl_build_fields:
  "node_prev (foldl (build_node nb l) s [0..<k]) i =
     (if i < k then if i = 0 then None else Some (i - 1) else node_prev s i)"
  "node_next (foldl (build_node nb l) s [0..<k]) i =
     (if i < k then if i = nb - 1 then None else Some (i + 1) else node_next s i)"
  "node_parent (foldl (build_node nb l) s [0..<k]) i = (if i < k then l else node_parent s i)"
  "list_first (foldl (build_node nb l) s [0..<k]) = list_first s"
  "list_last (foldl (build_node nb l) s [0..<k]) = list_last s"
  by (induction k) (auto simp: build_node_def less_Suc_eq)

lemma seg_upt:
  assumes "\<And>i. a \<le> i \<Longrightarrow> i < a + m \<Longrightarrow> node_prev s i = (if i = 0 then None else Some (i - 1))"
    and "\<And>i. a \<le> i \<Longrightarrow> i < a + m \<Longrightarrow> node_next s i = (if i = a + m - 1 then None else Some (i + 1))"
  shows "seg s (if a = 0 then None else Some (a - 1)) [a..<a + m] None"
  using assms
proof (induction m arbitrary: a)
  case (Suc m)
  have "seg s (if Suc a = 0 then None else Some (Suc a - 1)) [Suc a..<Suc a + m] None"
    by (rule Suc.IH) (use Suc.prems in auto)
  moreover have "[a..<a + Suc m] = a # [Suc a..<Suc a + m]" by (simp add: upt_rec)
  ultimately show ?case
    using Suc.prems(1) [of a] Suc.prems(2) [of a] by (cases m) (auto simp: upt_rec)
qed simp

lemma last_or_upt: "last_or p [0..<Suc n] = Some n"
  by (simp add: last_or_Some_iff)

lemma buildList_rep:
  assumes r: "rep s (\<lambda>_. [])" and nb: "0 < nb"
  shows "rep (buildList s l nb) ((\<lambda>_. [])(l := [0..<nb]))"
proof -
  let ?t = "buildList s l nb"
  have F: "node_prev ?t i = (if i < nb then if i = 0 then None else Some (i - 1) else node_prev s i)"
    "node_next ?t i = (if i < nb then if i = nb - 1 then None else Some (i + 1) else node_next s i)"
    "node_parent ?t i = (if i < nb then l else node_parent s i)"
    "list_first ?t = (list_first s)(l := Some 0)"
    "list_last ?t = (list_last s)(l := Some (nb - 1))" for i
    by (simp_all add: buildList_def Let_def foldl_build_fields)
  have "seg ?t None [0..<nb] None"
    using seg_upt [of 0 nb ?t] by (simp add: F)
  moreover have "head_or [0..<nb] None = Some 0" using nb by (simp add: upt_conv_Cons)
  moreover have "last_or None [0..<nb] = Some (nb - 1)"
    using nb last_or_upt [of None "nb - 1"] by simp
  ultimately show ?thesis
    using r by (auto simp: rep_def rep_list_def F)
qed

section \<open>The interface the clients use\<close>

text \<open>
  What the clients rely on: a store type with its pointer reads and its \<open>move\<close>, and the laws
  above. The two loops of the clients are proved once, here.
\<close>

locale node_lists =
  fixes repr :: "'s \<Rightarrow> ('l \<Rightarrow> nat list) \<Rightarrow> bool"
    and first :: "'s \<Rightarrow> 'l \<Rightarrow> nat option"
    and nxt :: "'s \<Rightarrow> nat \<Rightarrow> nat option"
    and mv :: "'s \<Rightarrow> nat \<Rightarrow> 'l \<Rightarrow> bool \<Rightarrow> 's"
  assumes first_law: "repr s L \<Longrightarrow> first s l = head_or (L l) None"
    and next_law: "repr s L \<Longrightarrow> L l = as @ x # bs \<Longrightarrow> nxt s x = head_or bs None"
    and move_law: "repr s L \<Longrightarrow> x \<in> set (L src) \<Longrightarrow> repr (mv s x d back) (amove L src x d back)"
    and distinct_law: "repr s L \<Longrightarrow> distinct (L l)"
begin

lemma find_loop_from:
  assumes "repr s L" and "L l = as @ bs" and "length bs \<le> fuel"
  shows "find_loop (nxt s) fuel P (head_or bs None) = Some (List.find P bs)"
  using assms(2,3)
proof (induction bs arbitrary: as fuel)
  case (Cons x bs)
  then obtain k where k: "fuel = Suc k" by (cases fuel) auto
  have "find_loop (nxt s) k P (head_or bs None) = Some (List.find P bs)"
    using Cons.IH [of "as @ [x]" k] Cons.prems k by simp
  then show ?case using next_law [OF assms(1) Cons.prems(1)] by (simp add: k)
qed simp

lemma find_loop_finds:
  "repr s L \<Longrightarrow> length (L l) \<le> fuel \<Longrightarrow>
   find_loop (nxt s) fuel P (first s l) = Some (List.find P (L l))"
  using find_loop_from [of s L l "[]" "L l" fuel P] by (simp add: first_law)

lemma move_loop_from:
  assumes "repr s L" and "L l = as @ bs" and "length bs \<le> fuel" and "d \<noteq> l"
    and "\<forall>x \<in> set as. \<not> P x"
  shows "\<exists>t. move_loop nxt (\<lambda>s x. mv s x d True) fuel P s (head_or bs None) n
                = Some (t, n + length (filter P bs)) \<and>
             repr t (L(l := filter (\<lambda>x. \<not> P x) (L l), d := L d @ filter P bs))"
  using assms
proof (induction bs arbitrary: as fuel s L n)
  case Nil
  have "filter (\<lambda>x. \<not> P x) (L l) = L l"
    using Nil.prems by (simp add: filter_id_conv)
  then have "L(l := filter (\<lambda>x. \<not> P x) (L l), d := L d @ filter P []) = L"
    by (simp add: fun_upd_idem)
  then have "repr s (L(l := filter (\<lambda>x. \<not> P x) (L l), d := L d @ filter P []))"
    using Nil.prems(1) by (simp only:)
  then show ?case by (intro exI [of _ s]) (simp del: fun_upd_apply)
next
  case (Cons x bs)
  then obtain k where k: "fuel = Suc k" by (cases fuel) auto
  have nx: "nxt s x = head_or bs None" by (rule next_law [OF Cons.prems(1,2)])
  have di: "distinct (as @ x # bs)" using distinct_law [OF Cons.prems(1), of l] Cons.prems(2) by simp
  show ?case
  proof (cases "P x")
    case False
    with Cons.IH [OF Cons.prems(1), of "as @ [x]" k n] Cons.prems k nx
    show ?thesis by simp
  next
    case True
    let ?s = "mv s x d True" and ?L = "amove L l x d True"
    have r: "repr ?s ?L" using move_law [OF Cons.prems(1), of x l d True] Cons.prems(2) by simp
    have Ll: "?L l = as @ bs" and Ld: "?L d = L d @ [x]"
      using Cons.prems(2,4) di by (auto simp: amove_def remove1_append)
    obtain t where t: "move_loop nxt (\<lambda>s x. mv s x d True) k P ?s (head_or bs None) (Suc n)
                = Some (t, Suc n + length (filter P bs))"
        "repr t (?L(l := filter (\<lambda>x. \<not> P x) (?L l), d := ?L d @ filter P bs))"
      using Cons.IH [OF r Ll, of k "Suc n"] Cons.prems(3,4,5) k
      by (auto simp del: fun_upd_apply)
    have "?L(l := filter (\<lambda>x. \<not> P x) (?L l), d := ?L d @ filter P bs) =
          L(l := filter (\<lambda>x. \<not> P x) (L l), d := L d @ filter P (x # bs))"
      using True Cons.prems(2,4) by (auto simp: Ll Ld fun_eq_iff) (auto simp: amove_def)
    with t show ?thesis using True by (simp add: k nx del: fun_upd_apply)
  qed
qed

lemma move_loop_moves:
  assumes "repr s L" and "length (L l) \<le> fuel" and "d \<noteq> l"
  shows "\<exists>t. move_loop nxt (\<lambda>s x. mv s x d True) fuel P s (first s l) n
                = Some (t, n + length (filter P (L l))) \<and>
             repr t (L(l := filter (\<lambda>x. \<not> P x) (L l), d := L d @ filter P (L l)))"
  using move_loop_from [of s L l "[]" "L l" fuel d P n] assms by (simp add: first_law)

end

interpretation sml: node_lists rep list_first node_next moveNode
  by unfold_locales (auto simp: rep_first rep_next moveNode_rep rep_distinct)

section \<open>Conservation\<close>

text \<open>The pool \<open>{..<n}\<close> is partitioned by the lists of the store.\<close>

definition pool_rep :: "nat \<Rightarrow> 'l lstore \<Rightarrow> ('l \<Rightarrow> nat list) \<Rightarrow> bool" where
  "pool_rep n s L \<longleftrightarrow> rep s L \<and> (\<Union>l. set (L l)) = {..<n}"

lemma amove_union:
  assumes "x \<in> set (L src)" and "distinct (L src)"
  shows "(\<Union>l. set (amove L src x d back l)) = (\<Union>l. set (L l))"
proof (cases "d = src")
  case False
  let ?A = "amove L src x d back"
  have "set (?A l) = (if l = d then insert x (set (L d))
      else if l = src then set (L src) - {x} else set (L l))" for l
    using False assms(2) by (auto simp: amove_def)
  with False assms(1) show ?thesis by (auto split: if_splits)
qed (simp add: amove_def)

lemma moveNode_pool [inv_intros]:
  "pool_rep n s L \<Longrightarrow> x \<in> set (L src) \<Longrightarrow> pool_rep n (moveNode s x d back) (amove L src x d back)"
  unfolding pool_rep_def
  by (elim conjE, intro conjI moveNode_rep) (simp_all only: amove_union rep_distinct)

lemma pool_length: "pool_rep n s L \<Longrightarrow> length (L l) \<le> n"
proof -
  assume p: "pool_rep n s L"
  then have "length (L l) = card (set (L l))"
    by (auto simp: pool_rep_def distinct_card rep_distinct)
  also have "\<dots> \<le> card {..<n}"
    by (rule card_mono) (use p in \<open>auto simp: pool_rep_def\<close>)
  finally show ?thesis by simp
qed

lemma buildList_pool:
  "rep s (\<lambda>_. []) \<Longrightarrow> 0 < nb \<Longrightarrow> pool_rep nb (buildList s l nb) ((\<lambda>_. [])(l := [0..<nb]))"
  by (auto simp: pool_rep_def buildList_rep)

end
