(* ===== verification/Sm_State.thy ===== *)
theory Sm_State
  imports Sm_List
begin

text \<open>
  The state of the service manager (\<open>sysmodules/sm/source/\<close>: \<open>common.h\<close>, \<open>processes.h\<close>,
  \<open>services.h\<close> and the globals of \<open>main.c\<close>, \<open>processes.c\<close>, \<open>services.c\<close>), and the
  environment it runs in.

  The kernel (the \<open>svc\<close> calls) and the libctru macros are not part of the repository: they
  are the fields of an environment record (\<open>svcCreatePort\<close> with a name and with the name NULL are
  two fields), over an abstract kernel state \<open>'k\<close>. What the code
  relies on about the macros is the predicate \<open>ctru_ok\<close>.
\<close>

section \<open>The environment\<close>

record 'k env =
  R_FAILED :: "result \<Rightarrow> bool"
  R_MODULE :: "result \<Rightarrow> u32"
  R_SUMMARY :: "result \<Rightarrow> u32"
  RM_SRV :: u32
  RS_WOULDBLOCK :: u32
  IPC_MakeHeader :: "u32 \<Rightarrow> u32 \<Rightarrow> u32 \<Rightarrow> u32"
  IPC_Desc_CurProcessId :: u32
  IPC_Desc_SharedHandles :: "u32 \<Rightarrow> u32"
  IPC_Desc_MoveHandles :: "u32 \<Rightarrow> u32"
  IPC_Desc_StaticBuffer :: "u32 \<Rightarrow> u32 \<Rightarrow> u32"
  IS_PRE_7X :: bool
  IS_PRE_93 :: bool
  svcCreateSemaphore :: "'k \<Rightarrow> u32 \<Rightarrow> u32 \<Rightarrow> result \<times> handle \<times> 'k"
  svcReleaseSemaphore :: "'k \<Rightarrow> handle \<Rightarrow> u32 \<Rightarrow> result \<times> 'k"
  CUR_PROCESS_HANDLE :: handle
  svcCreateNamedPort :: "'k \<Rightarrow> bytes \<Rightarrow> u32 \<Rightarrow> result \<times> handle \<times> handle \<times> 'k"
  svcCreatePort :: "'k \<Rightarrow> u32 \<Rightarrow> result \<times> handle \<times> handle \<times> 'k"
  svcCloseHandle :: "'k \<Rightarrow> handle \<Rightarrow> 'k"
  svcCreateSessionToPort :: "'k \<Rightarrow> handle \<Rightarrow> result \<times> handle \<times> 'k"
  svcGetProcessId :: "'k \<Rightarrow> handle \<Rightarrow> result \<times> u32 \<times> 'k"
  svcAcceptSession :: "'k \<Rightarrow> handle \<Rightarrow> result \<times> handle \<times> 'k"
  svcReplyAndReceive :: "'k \<Rightarrow> handle list \<Rightarrow> handle \<Rightarrow> u32 list \<Rightarrow> result \<times> int \<times> u32 list \<times> 'k"

text \<open>The documented reading of a result code: negative is failure, and the module and summary
  fields of the code.\<close>

definition ctru_ok :: "'k env \<Rightarrow> bool" where
  "ctru_ok e \<longleftrightarrow>
     (\<forall>r. R_FAILED e r \<longleftrightarrow> sint r < 0) \<and>
     (\<forall>r. R_MODULE e r = drop_bit 10 r AND 0xFF) \<and>
     (\<forall>r. R_SUMMARY e r = drop_bit 21 r AND 0x3F) \<and>
     RM_SRV e = 25 \<and> RS_WOULDBLOCK e = 2"

text \<open>The constants of the code.\<close>

definition SESS_POOL :: nat where "SESS_POOL = 76"
definition PROC_POOL :: nat where "PROC_POOL = 64"
definition MAX_SERVICES :: nat where "MAX_SERVICES = 0xA0"

section \<open>The state\<close>

datatype sess_list = SessInUse | SessFree | SessWaitRegister | SessWakeUp | SessWaitPortReady

datatype proc_list = ProcInUse | ProcFree

record session =
  s_pid :: u32
  replayCmdbuf :: "u32 list"
  busyClientPortHandle :: handle
  s_handle :: handle
  isSrvPm :: bool

record process =
  p_pid :: u32
  notificationSemaphore :: handle
  notificationEnabled :: bool
  receivedNotificationIndex :: nat
  pendingNotificationIndex :: nat
  nbPendingNotifications :: nat
  pendingNotifications :: "u32 list"
  nbSubscribed :: nat
  subscribedNotifications :: "u32 list"

record service =
  sv_name :: bytes
  clientPort :: handle
  sv_pid :: u32
  isNamedPort :: bool

record 'k sm =
  sl :: "sess_list lstore"
  pl :: "proc_list lstore"
  sess :: "nat \<Rightarrow> session"
  proc :: "nat \<Rightarrow> process"
  servicesInfo :: "service list"
  nbServices :: nat
  nbSection0Modules :: u32
  resumeSemaphore :: handle
  kern :: 'k

text \<open>A pool entry after \<open>memset(node, 0, elementSize)\<close>.\<close>

definition zero_session :: session where
  "zero_session = \<lparr>s_pid = 0, replayCmdbuf = replicate 4 0, busyClientPortHandle = 0, s_handle = 0,
     isSrvPm = False\<rparr>"

definition zero_process :: process where
  "zero_process = \<lparr>p_pid = 0, notificationSemaphore = 0, notificationEnabled = False,
     receivedNotificationIndex = 0, pendingNotificationIndex = 0, nbPendingNotifications = 0,
     pendingNotifications = replicate 16 0, nbSubscribed = 0,
     subscribedNotifications = replicate 17 0\<rparr>"

definition zero_service :: service where
  "zero_service = \<lparr>sv_name = replicate 8 0, clientPort = 0, sv_pid = 0, isNamedPort = False\<rparr>"

abbreviation upd_sess :: "'k sm \<Rightarrow> nat \<Rightarrow> (session \<Rightarrow> session) \<Rightarrow> 'k sm" where
  "upd_sess s x f \<equiv> s\<lparr>sess := (sess s)(x := f (sess s x))\<rparr>"

abbreviation upd_proc :: "'k sm \<Rightarrow> nat \<Rightarrow> (process \<Rightarrow> process) \<Rightarrow> 'k sm" where
  "upd_proc s x f \<equiv> s\<lparr>proc := (proc s)(x := f (proc s x))\<rparr>"

text \<open>\<open>assertSuccess\<close>: panic on a failed result.\<close>

definition assertSuccess :: "'k env \<Rightarrow> result \<Rightarrow> unit option" where
  "assertSuccess e r = (if R_FAILED e r then None else Some ())"

text \<open>
  The state \<open>initSystem\<close> leaves behind: both pools in their free lists, the wake-up semaphore
  created.
\<close>

definition empty_store :: "'l \<Rightarrow> 'l lstore" where
  "empty_store l = \<lparr>node_prev = (\<lambda>_. None), node_next = (\<lambda>_. None), node_parent = (\<lambda>_. l),
     list_first = (\<lambda>_. None), list_last = (\<lambda>_. None)\<rparr>"

definition initSystem :: "'k env \<Rightarrow> u32 \<Rightarrow> 'k \<Rightarrow> 'k sm option" where
  "initSystem e nbSec0 k =
     (let (r, h, k1) = svcCreateSemaphore e k 0 64
      in do {
        assertSuccess e r;
        Some \<lparr>sl = buildList (empty_store SessFree) SessFree SESS_POOL,
              pl = buildList (empty_store ProcFree) ProcFree PROC_POOL,
              sess = (\<lambda>_. zero_session), proc = (\<lambda>_. zero_process),
              servicesInfo = replicate MAX_SERVICES zero_service, nbServices = 0,
              nbSection0Modules = nbSec0, resumeSemaphore = h, kern = k1\<rparr>
      })"

section \<open>The list invariant\<close>

text \<open>Both pools are partitioned by their lists.\<close>

definition lists_ok :: "'k sm \<Rightarrow> (sess_list \<Rightarrow> nat list) \<Rightarrow> (proc_list \<Rightarrow> nat list) \<Rightarrow> bool" where
  "lists_ok s S P \<longleftrightarrow> pool_rep SESS_POOL (sl s) S \<and> pool_rep PROC_POOL (pl s) P"

lemma lists_okI: "pool_rep SESS_POOL (sl s) S \<Longrightarrow> pool_rep PROC_POOL (pl s) P \<Longrightarrow> lists_ok s S P"
  by (simp add: lists_ok_def)

lemma lists_ok_reps:
  assumes "lists_ok s S P"
  shows "rep (sl s) S" "rep (pl s) P"
  using assms by (auto simp: lists_ok_def pool_rep_def)

lemma lists_ok_bounds:
  assumes "lists_ok s S P"
  shows "length (S l) \<le> SESS_POOL" "length (P l') \<le> PROC_POOL"
    "x \<in> set (S l) \<Longrightarrow> x < SESS_POOL" "x \<in> set (P l') \<Longrightarrow> x < PROC_POOL"
  using assms pool_length [of SESS_POOL "sl s" S l] pool_length [of PROC_POOL "pl s" P l']
  by (auto simp: lists_ok_def pool_rep_def)

text \<open>Only the two stores matter to the invariant.\<close>

lemma lists_ok_cong [inv_intros]:
  "lists_ok s S P \<Longrightarrow> sl t = sl s \<Longrightarrow> pl t = pl s \<Longrightarrow> lists_ok t S P"
  by (simp add: lists_ok_def)

lemma empty_store_rep: "rep (empty_store l) (\<lambda>_. [])"
  by (simp add: rep_def rep_list_def empty_store_def)

lemma initSystem_lists:
  assumes "initSystem e n k = Some s"
  shows "lists_ok s ((\<lambda>_. [])(SessFree := [0..<SESS_POOL])) ((\<lambda>_. [])(ProcFree := [0..<PROC_POOL]))"
proof -
  from assms have "sl s = buildList (empty_store SessFree) SessFree SESS_POOL"
    "pl s = buildList (empty_store ProcFree) ProcFree PROC_POOL"
    by (auto simp: initSystem_def Let_def split: prod.splits bind_splits)
  then show ?thesis
    by (auto simp: lists_ok_def SESS_POOL_def PROC_POOL_def
        intro!: buildList_pool empty_store_rep simp del: fun_upd_apply)
qed

end
