(* ===== verification/Sm_Processes.thy ===== *)
theory Sm_Processes
  imports Sm_State
begin

text \<open>
  \<open>sysmodules/sm/source/processes.c\<close>: the table of processes that registered with the service
  manager. Lemmas: lookup is lookup in the abstract list of registered processes, the list
  invariant is kept, and unregistering a process removes exactly its services.
\<close>

section \<open>Operations\<close>

definition findProcessData :: "'k sm \<Rightarrow> u32 \<Rightarrow> nat option option" where
  "findProcessData s pid =
     find_loop (node_next (pl s)) PROC_POOL (\<lambda>x. p_pid (proc s x) = pid) (list_first (pl s) ProcInUse)"

definition doRegisterProcess :: "'k env \<Rightarrow> 'k sm \<Rightarrow> u32 \<Rightarrow> (nat \<times> 'k sm) option" where
  "doRegisterProcess e s pid = do {
     (x, l) \<leftarrow> allocateNode (pl s) ProcInUse ProcFree False;
     let s1 = s\<lparr>pl := l, proc := (proc s)(x := zero_process)\<rparr>;
     let (r, h, k) = svcCreateSemaphore e (kern s1) 0 0x10;
     let s2 = (upd_proc s1 x (\<lambda>p. p\<lparr>notificationSemaphore := h\<rparr>))\<lparr>kern := k\<rparr>;
     assertSuccess e r;
     Some (x, upd_proc s2 x (\<lambda>p. p\<lparr>p_pid := pid\<rparr>))
   }"

definition RegisterProcess :: "'k env \<Rightarrow> 'k sm \<Rightarrow> u32 \<Rightarrow> u32 \<Rightarrow> (result \<times> 'k sm) option" where
  "RegisterProcess e s pid serviceAccessListSize =
     (let size = serviceAccessListSize - serviceAccessListSize mod 8
      in do {
        p \<leftarrow> findProcessData s pid;
        if p \<noteq> None then Some (0xD9006403, s)
        else if size > 8 * (if IS_PRE_93 e then 32 else 34) then Some (0xD9006405, s)
        else do { (x, t) \<leftarrow> doRegisterProcess e s pid; Some (0, t) }
      })"

text \<open>The loop of \<open>UnregisterProcess\<close> over the service table: an entry of the process is
  replaced by the last entry and looked at again.\<close>

function unregister_loop :: "'k env \<Rightarrow> u32 \<Rightarrow> nat \<Rightarrow> service list \<Rightarrow> nat \<Rightarrow> 'k \<Rightarrow> service list \<times> nat \<times> 'k" where
  "unregister_loop e pid i svs nb k =
     (if i < nb then
        if sv_pid (svs ! i) = pid
        then unregister_loop e pid i (svs[i := svs ! (nb - 1)]) (nb - 1) (svcCloseHandle e k (clientPort (svs ! i)))
        else unregister_loop e pid (Suc i) svs nb k
      else (svs, nb, k))"
  by pat_completeness auto
termination
  by (relation "measure (\<lambda>(e, pid, i, svs, nb, k). nb - i)") auto

declare unregister_loop.simps [simp del]

definition UnregisterProcess :: "'k env \<Rightarrow> 'k sm \<Rightarrow> u32 \<Rightarrow> (result \<times> 'k sm) option" where
  "UnregisterProcess e s pid = do {
     p \<leftarrow> findProcessData s pid;
     (case p of
        None \<Rightarrow> Some (0xD8806404, s)
      | Some x \<Rightarrow>
          let k = svcCloseHandle e (kern s) (notificationSemaphore (proc s x));
              (svs, nb, k') = unregister_loop e pid 0 (servicesInfo s) (nbServices s) k
          in Some (0, s\<lparr>servicesInfo := svs, nbServices := nb, kern := k',
                       pl := moveNode (pl s) x ProcFree False\<rparr>))
   }"

section \<open>Correctness\<close>

text \<open>The abstract process list: the registered nodes, newest first.\<close>

lemma findProcessData_spec:
  "lists_ok s S P \<Longrightarrow> findProcessData s pid = Some (List.find (\<lambda>x. p_pid (proc s x) = pid) (P ProcInUse))"
  unfolding findProcessData_def
  by (rule sml.find_loop_finds) (auto dest: lists_ok_reps lists_ok_bounds)

lemma find_Some_in: "List.find P xs = Some x \<Longrightarrow> x \<in> set xs \<and> P x"
  by (auto simp: find_Some_iff)

lemma doRegisterProcess_lists [inv_intros]:
  assumes "lists_ok s S P" and "doRegisterProcess e s pid = Some (x, t)"
  shows "\<exists>fs. P ProcFree = x # fs \<and> lists_ok t S (P(ProcFree := fs, ProcInUse := x # P ProcInUse)) \<and>
    p_pid (proc t x) = pid \<and> (\<forall>y. y \<noteq> x \<longrightarrow> proc t y = proc s y) \<and>
    servicesInfo t = servicesInfo s \<and> nbServices t = nbServices s \<and> sess t = sess s"
proof -
  from assms(2) obtain l where a: "allocateNode (pl s) ProcInUse ProcFree False = Some (x, l)"
    and t: "pl t = l" "sl t = sl s" "p_pid (proc t x) = pid" "\<forall>y. y \<noteq> x \<longrightarrow> proc t y = proc s y"
      "servicesInfo t = servicesInfo s" "nbServices t = nbServices s" "sess t = sess s"
    by (auto simp: doRegisterProcess_def Let_def split: bind_splits prod.splits)
  obtain fs where fs: "P ProcFree = x # fs"
    using allocateNode_rep [OF lists_ok_reps(2) [OF assms(1)] a] by blast
  have l: "l = moveNode (pl s) x ProcInUse False"
    using a by (auto simp: allocateNode_def split: option.splits)
  have "pool_rep PROC_POOL l (amove P ProcFree x ProcInUse False)"
    unfolding l by (rule moveNode_pool) (use assms(1) fs in \<open>auto simp: lists_ok_def\<close>)
  moreover have "amove P ProcFree x ProcInUse False = P(ProcFree := fs, ProcInUse := x # P ProcInUse)"
    by (simp add: amove_def fs)
  ultimately show ?thesis
    using assms(1) t fs by (auto simp: lists_ok_def simp del: fun_upd_apply)
qed

lemma RegisterProcess_lists [inv_intros]:
  assumes "lists_ok s S P" and "RegisterProcess e s pid n = Some (r, t)"
  shows "\<exists>P'. lists_ok t S P'"
  using assms doRegisterProcess_lists [OF assms(1), of e pid]
  by (fastforce simp: RegisterProcess_def Let_def split: bind_splits if_splits prod.splits)

text \<open>The clean-up loop, as an operation on the multiset of registered services.\<close>

lemma unregister_loop_mset:
  assumes "i \<le> nb" and "nb \<le> length svs"
    and "unregister_loop e pid i svs nb k = (svs', nb', k')"
    and "\<forall>j<i. sv_pid (svs ! j) \<noteq> pid"
  shows "nb' \<le> nb \<and> length svs' = length svs \<and>
    mset (take nb' svs') = filter_mset (\<lambda>v. sv_pid v \<noteq> pid) (mset (take nb svs))"
  using assms
proof (induction e pid i svs nb k rule: unregister_loop.induct)
  case (1 e pid i svs nb k)
  show ?case
  proof (cases "i < nb")
    case False
    have "unregister_loop e pid i svs nb k = (svs, nb, k)"
      using False by (subst unregister_loop.simps) simp
    with False 1(3,5,6) have e: "i = nb" "svs' = svs" "nb' = nb" by auto
    have "\<forall>v \<in> set (take nb svs). sv_pid v \<noteq> pid"
    proof
      fix v
      assume "v \<in> set (take nb svs)"
      then obtain j where "j < nb" "v = svs ! j" by (auto simp: in_set_conv_nth)
      then show "sv_pid v \<noteq> pid" using 1(6) e by simp
    qed
    then have "filter (\<lambda>v. sv_pid v \<noteq> pid) (take nb svs) = take nb svs"
      by (simp add: filter_id_conv)
    then show ?thesis by (simp add: e mset_filter [symmetric] del: mset_filter)
  next
    case True
    show ?thesis
    proof (cases "sv_pid (svs ! i) = pid")
      case False
      with True 1(3-6) show ?thesis
        by (intro "1.IH"(2)) (auto simp: unregister_loop.simps [of e pid i] less_Suc_eq)
    next
      case hit: True
      let ?svs = "svs[i := svs ! (nb - 1)]"
      obtain m where m: "nb = Suc m" "i \<le> m" "m < length svs" using True 1(4) by (cases nb) auto
      have "mset (take m ?svs) = mset (take nb svs) - {#svs ! i#}"
        using swap_remove_mset [OF 1(4) True] m by simp
      moreover have "svs ! i \<in># mset (take nb svs)"
        using True 1(4) by (auto simp: in_set_conv_nth)
      ultimately have "filter_mset (\<lambda>v. sv_pid v \<noteq> pid) (mset (take m ?svs)) =
          filter_mset (\<lambda>v. sv_pid v \<noteq> pid) (mset (take nb svs))"
        using hit by (auto dest!: multi_member_split)
      moreover have "nb' \<le> m \<and> length svs' = length ?svs \<and>
          mset (take nb' svs') = filter_mset (\<lambda>v. sv_pid v \<noteq> pid) (mset (take m ?svs))"
        using "1.IH"(1) True hit 1(3-6) m
        by (auto simp: unregister_loop.simps [of e pid i])
      ultimately show ?thesis using m by simp
    qed
  qed
qed

lemma UnregisterProcess_lists [inv_intros]:
  assumes "lists_ok s S P" and "UnregisterProcess e s pid = Some (r, t)"
  shows "\<exists>P'. lists_ok t S P'"
proof (cases "List.find (\<lambda>x. p_pid (proc s x) = pid) (P ProcInUse)")
  case None
  with assms show ?thesis by (auto simp: UnregisterProcess_def findProcessData_spec)
next
  case (Some x)
  with assms have "pl t = moveNode (pl s) x ProcFree False" "sl t = sl s"
    by (auto simp: UnregisterProcess_def findProcessData_spec Let_def split: prod.splits)
  moreover have "pool_rep PROC_POOL (moveNode (pl s) x ProcFree False) (amove P ProcInUse x ProcFree False)"
    by (rule moveNode_pool) (use assms(1) find_Some_in [OF Some] in \<open>auto simp: lists_ok_def\<close>)
  ultimately show ?thesis using assms(1) by (auto simp: lists_ok_def)
qed

end
