(* ===== verification/Sm_Notifications.thy ===== *)
theory Sm_Notifications
  imports Sm_Processes
begin

text \<open>
  \<open>sysmodules/sm/source/notifications.c\<close>: subscriptions, and the ring buffer of pending
  notifications of each registered process. Lemmas: the ring is a FIFO queue of at most 16
  entries, the subscription array is a set of at most 17 entries, and every operation keeps
  the well-formedness of the process table.
\<close>

section \<open>Operations\<close>

text \<open>The three assignments that add an entry to the ring, and the three that take one out.\<close>

definition ring_push :: "process \<Rightarrow> u32 \<Rightarrow> process" where
  "ring_push p nid = p\<lparr>
     pendingNotifications := (pendingNotifications p)[pendingNotificationIndex p := nid],
     pendingNotificationIndex := (pendingNotificationIndex p + 1) mod 16,
     nbPendingNotifications := nbPendingNotifications p + 1\<rparr>"

definition ring_pop :: "process \<Rightarrow> u32 \<times> process" where
  "ring_pop p =
     (pendingNotifications p ! receivedNotificationIndex p,
      p\<lparr>nbPendingNotifications := nbPendingNotifications p - 1,
        receivedNotificationIndex := (receivedNotificationIndex p + 1) mod 16\<rparr>)"

definition already_pending :: "process \<Rightarrow> u32 \<Rightarrow> bool" where
  "already_pending p nid \<longleftrightarrow>
     (\<exists>i \<in> set [0..<nbPendingNotifications p].
        pendingNotifications p ! ((receivedNotificationIndex p + i) mod 16) = nid)"

definition doPublishNotification :: "'k env \<Rightarrow> 'k sm \<Rightarrow> nat \<Rightarrow> u32 \<Rightarrow> u32 \<Rightarrow> (bool \<times> 'k sm) option" where
  "doPublishNotification e s x nid flags =
     (let p = proc s x
      in if flags AND 1 \<noteq> 0 \<and> nbPendingNotifications p \<noteq> 0 \<and> already_pending p nid then Some (True, s)
         else if nbPendingNotifications p < 0x10 then
           let s1 = upd_proc s x (\<lambda>p. ring_push p nid);
               (r, k) = svcReleaseSemaphore e (kern s1) (notificationSemaphore (proc s1 x)) 1
           in do { assertSuccess e r; Some (True, s1\<lparr>kern := k\<rparr>) }
         else Some (flags AND 2 \<noteq> 0, s))"

definition EnableNotification :: "'k env \<Rightarrow> 'k sm \<Rightarrow> nat \<Rightarrow> (result \<times> handle \<times> 'k sm) option" where
  "EnableNotification e s sd = do {
     p \<leftarrow> findProcessData s (s_pid (sess s sd));
     (case p of
        Some x \<Rightarrow>
          let s1 = upd_proc s x (\<lambda>p. p\<lparr>notificationEnabled := True\<rparr>)
          in Some (0, notificationSemaphore (proc s1 x), s1)
      | None \<Rightarrow>
          if s_pid (sess s sd) < nbSection0Modules s then do {
            (x, t) \<leftarrow> doRegisterProcess e s (s_pid (sess s sd));
            let s1 = upd_proc t x (\<lambda>p. p\<lparr>notificationEnabled := True\<rparr>);
            Some (0, notificationSemaphore (proc s1 x), s1)
          } else Some (0xD8806404, 0, s))
   }"

definition subscribed :: "process \<Rightarrow> u32 \<Rightarrow> bool" where
  "subscribed p nid \<longleftrightarrow> nid \<in> set (take (nbSubscribed p) (subscribedNotifications p))"

definition subscribe_process :: "process \<Rightarrow> u32 \<Rightarrow> result \<times> process" where
  "subscribe_process p nid =
     (if subscribed p nid then (0xD9006403, p)
      else if nbSubscribed p < 0x11 then
        (0, p\<lparr>subscribedNotifications := (subscribedNotifications p)[nbSubscribed p := nid],
              nbSubscribed := nbSubscribed p + 1\<rparr>)
      else (0xD9006405, p))"

definition Subscribe :: "'k sm \<Rightarrow> nat \<Rightarrow> u32 \<Rightarrow> (result \<times> 'k sm) option" where
  "Subscribe s sd nid = do {
     p \<leftarrow> findProcessData s (s_pid (sess s sd));
     (case p of
        None \<Rightarrow> Some (0xD8806404, s)
      | Some x \<Rightarrow>
          if \<not> notificationEnabled (proc s x) then Some (0xD8806404, s)
          else let (r, q) = subscribe_process (proc s x) nid in Some (r, upd_proc s x (\<lambda>_. q)))
   }"

text \<open>The index search \<open>for(i = 0; i < nbSubscribed && a[i] != id; i++)\<close>.\<close>

fun index_of :: "u32 list \<Rightarrow> u32 \<Rightarrow> nat \<Rightarrow> nat" where
  "index_of [] nid i = i"
| "index_of (a # as) nid i = (if a \<noteq> nid then index_of as nid (i + 1) else i)"

definition unsubscribe_process :: "process \<Rightarrow> u32 \<Rightarrow> result \<times> process" where
  "unsubscribe_process p nid =
     (let i = index_of (take (nbSubscribed p) (subscribedNotifications p)) nid 0
      in if i = nbSubscribed p then (0xD8806404, p)
         else (0, p\<lparr>subscribedNotifications :=
                      (subscribedNotifications p)[i := subscribedNotifications p ! (nbSubscribed p - 1)],
                    nbSubscribed := nbSubscribed p - 1\<rparr>))"

definition Unsubscribe :: "'k sm \<Rightarrow> nat \<Rightarrow> u32 \<Rightarrow> (result \<times> 'k sm) option" where
  "Unsubscribe s sd nid = do {
     p \<leftarrow> findProcessData s (s_pid (sess s sd));
     (case p of
        None \<Rightarrow> Some (0xD8806404, s)
      | Some x \<Rightarrow>
          if \<not> notificationEnabled (proc s x) then Some (0xD8806404, s)
          else let (r, q) = unsubscribe_process (proc s x) nid in Some (r, upd_proc s x (\<lambda>_. q)))
   }"

text \<open>\<open>ReceiveNotification\<close> writes the identifier through a pointer, on some branches only: the
  second component is what it writes, \<^term>\<open>None\<close> when it leaves the caller's variable alone.\<close>

definition ReceiveNotification :: "'k sm \<Rightarrow> nat \<Rightarrow> (result \<times> u32 option \<times> 'k sm) option" where
  "ReceiveNotification s sd = do {
     p \<leftarrow> findProcessData s (s_pid (sess s sd));
     (case p of
        None \<Rightarrow> Some (0xD8806404, None, s)
      | Some x \<Rightarrow>
          if \<not> notificationEnabled (proc s x) \<or> nbPendingNotifications (proc s x) = 0 then
            Some (0xD8806404, if nbPendingNotifications (proc s x) \<noteq> 0 then Some 0 else None, s)
          else let (nid, q) = ring_pop (proc s x) in Some (0, Some nid, upd_proc s x (\<lambda>_. q)))
   }"

text \<open>The loop of the three \<open>Publish\<close> functions over the registered processes: processes that
  \<open>sel\<close> leaves out are skipped, the first that cannot take the notification ends the loop with an
  error. The identifiers of the processes reached are collected, at most 60 of them.
  \<open>isNotificationInhibited\<close> is constantly false.\<close>

fun publish_loop :: "'k env \<Rightarrow> (process \<Rightarrow> bool) \<Rightarrow> u32 \<Rightarrow> u32 \<Rightarrow> nat \<Rightarrow> 'k sm \<Rightarrow> nat option \<Rightarrow> u32 list
    \<Rightarrow> (result \<times> u32 list \<times> 'k sm) option" where
  "publish_loop e sel nid flags fuel s None pids = Some (0, pids, s)"
| "publish_loop e sel nid flags 0 s (Some x) pids = None"
| "publish_loop e sel nid flags (Suc fuel) s (Some x) pids =
     (if \<not> sel (proc s x) then publish_loop e sel nid flags fuel s (node_next (pl s) x) pids
      else do {
        (ok, t) \<leftarrow> doPublishNotification e s x nid flags;
        if \<not> ok then Some (0xD8606408, pids, t)
        else publish_loop e sel nid flags fuel t (node_next (pl t) x)
               (if length pids < 60 then pids @ [p_pid (proc t x)] else pids)
      })"

definition PublishToSubscriber :: "'k env \<Rightarrow> 'k sm \<Rightarrow> u32 \<Rightarrow> u32 \<Rightarrow> (result \<times> 'k sm) option" where
  "PublishToSubscriber e s nid flags = do {
     (r, pids, t) \<leftarrow> publish_loop e (\<lambda>p. notificationEnabled p \<and> subscribed p nid) nid flags PROC_POOL s
                      (list_first (pl s) ProcInUse) [];
     Some (r, t)
   }"

definition PublishAndGetSubscriber :: "'k env \<Rightarrow> 'k sm \<Rightarrow> u32 \<Rightarrow> u32 \<Rightarrow> (result \<times> u32 list \<times> 'k sm) option" where
  "PublishAndGetSubscriber e s nid flags =
     publish_loop e (\<lambda>p. notificationEnabled p \<and> subscribed p nid) nid flags PROC_POOL s
       (list_first (pl s) ProcInUse) []"

definition PublishToAll :: "'k env \<Rightarrow> 'k sm \<Rightarrow> u32 \<Rightarrow> (result \<times> 'k sm) option" where
  "PublishToAll e s nid = do {
     (r, pids, t) \<leftarrow> publish_loop e notificationEnabled nid 0 PROC_POOL s (list_first (pl s) ProcInUse) [];
     Some (r, t)
   }"

definition PublishToProcess :: "'k env \<Rightarrow> 'k sm \<Rightarrow> handle \<Rightarrow> u32 \<Rightarrow> (result \<times> 'k sm) option" where
  "PublishToProcess e s h nid =
     (let (r, pid, k) = svcGetProcessId e (kern s) h; s1 = s\<lparr>kern := k\<rparr>
      in if R_FAILED e r then Some (r, s1)
         else do {
           p \<leftarrow> findProcessData s1 pid;
           (r2, t) \<leftarrow>
             (case p of
                None \<Rightarrow> Some (0xD8806404, s1)
              | Some x \<Rightarrow>
                  if \<not> notificationEnabled (proc s1 x) then Some (0xD8806404, s1)
                  else do {
                    (ok, t) \<leftarrow> doPublishNotification e s1 x nid 0;
                    Some (if \<not> ok then 0xD8606408 else 0, t)
                  });
           Some (r2, t\<lparr>kern := svcCloseHandle e (kern t) h\<rparr>)
         })"

section \<open>The ring is a bounded FIFO queue\<close>

definition ring_ok :: "process \<Rightarrow> bool" where
  "ring_ok p \<longleftrightarrow>
     length (pendingNotifications p) = 16 \<and> receivedNotificationIndex p < 16 \<and>
     nbPendingNotifications p \<le> 16 \<and>
     pendingNotificationIndex p = (receivedNotificationIndex p + nbPendingNotifications p) mod 16"

definition ring_list :: "process \<Rightarrow> u32 list" where
  "ring_list p = map (\<lambda>i. pendingNotifications p ! ((receivedNotificationIndex p + i) mod 16))
                     [0..<nbPendingNotifications p]"

fun pop_many :: "('q \<Rightarrow> 'a \<times> 'q) \<Rightarrow> nat \<Rightarrow> 'q \<Rightarrow> 'a list \<times> 'q" where
  "pop_many pop 0 q = ([], q)"
| "pop_many pop (Suc n) q =
     (let (a, q') = pop q; (as, q'') = pop_many pop n q' in (a # as, q''))"

locale bounded_fifo =
  fixes ok :: "'q \<Rightarrow> bool"
    and content :: "'q \<Rightarrow> 'a list"
    and cap :: nat
    and push :: "'q \<Rightarrow> 'a \<Rightarrow> 'q"
    and pop :: "'q \<Rightarrow> 'a \<times> 'q"
  assumes push_ok: "ok q \<Longrightarrow> length (content q) < cap \<Longrightarrow> ok (push q a)"
    and push_content: "ok q \<Longrightarrow> length (content q) < cap \<Longrightarrow> content (push q a) = content q @ [a]"
    and pop_ok: "ok q \<Longrightarrow> content q \<noteq> [] \<Longrightarrow> ok (snd (pop q))"
    and pop_content: "ok q \<Longrightarrow> content q \<noteq> [] \<Longrightarrow> fst (pop q) # content (snd (pop q)) = content q"
begin

lemma push_many:
  "ok q \<Longrightarrow> length (content q) + length as \<le> cap \<Longrightarrow>
   ok (foldl push q as) \<and> content (foldl push q as) = content q @ as"
proof (induction as arbitrary: q)
  case (Cons a as)
  then have c: "ok (push q a)" "content (push q a) = content q @ [a]"
    by (auto intro: push_ok push_content)
  with Cons.IH [of "push q a"] Cons.prems show ?case by simp
qed simp

lemma pop_many_content:
  "ok q \<Longrightarrow> n \<le> length (content q) \<Longrightarrow>
   fst (pop_many pop n q) = take n (content q) \<and>
   content (snd (pop_many pop n q)) = drop n (content q) \<and> ok (snd (pop_many pop n q))"
proof (induction n arbitrary: q)
  case (Suc n)
  then have ne: "content q \<noteq> []" by auto
  obtain a q' where p: "pop q = (a, q')" by fastforce
  obtain as q'' where m: "pop_many pop n q' = (as, q'')" by fastforce
  have q': "ok q'" "content q = a # content q'"
    using pop_ok [OF Suc.prems(1) ne] pop_content [OF Suc.prems(1) ne] p by auto
  then show ?case using Suc.IH [OF q'(1)] Suc.prems(2) by (simp add: p m)
qed simp

lemma push_pop:
  assumes "ok q" and "length (content q) + length as \<le> cap"
  shows "fst (pop_many pop (length (content q) + length as) (foldl push q as)) = content q @ as"
  using push_many [OF assms] pop_many_content [of "foldl push q as" "length (content q) + length as"]
  by auto

end

lemma length_ring_list [simp]: "length (ring_list p) = nbPendingNotifications p"
  by (simp add: ring_list_def)

lemma mod16_neq: "i < n \<Longrightarrow> n < 16 \<Longrightarrow> (r + n) mod 16 \<noteq> (r + i) mod (16::nat)"
proof
  assume l: "i < n" "n < 16" and "(r + n) mod 16 = (r + i) mod (16::nat)"
  then have "16 dvd n - i" by (simp add: mod_eq_dvd_iff_nat)
  with l show False by (auto dest: dvd_imp_le)
qed

lemma mod16_pred: "0 < n \<Longrightarrow> (r + n) mod 16 = (Suc r mod 16 + (n - Suc 0)) mod (16::nat)"
  by (cases n) (simp_all add: mod_add_left_eq)

lemma ring_push_law:
  assumes "ring_ok p" and "length (ring_list p) < 16"
  shows "ring_ok (ring_push p a)" and "ring_list (ring_push p a) = ring_list p @ [a]"
proof -
  from assms show "ring_ok (ring_push p a)"
    by (auto simp: ring_ok_def ring_push_def mod_Suc_eq)
  have "(receivedNotificationIndex p + nbPendingNotifications p) mod 16 \<noteq>
        (receivedNotificationIndex p + i) mod 16"
    if "i < nbPendingNotifications p" for i
    using mod16_neq [OF that] assms(2) by simp
  then show "ring_list (ring_push p a) = ring_list p @ [a]"
    using assms by (auto simp: ring_ok_def ring_list_def ring_push_def)
qed

lemma ring_pop_law:
  assumes "ring_ok p" and "ring_list p \<noteq> []"
  shows "ring_ok (snd (ring_pop p))"
    and "fst (ring_pop p) # ring_list (snd (ring_pop p)) = ring_list p"
proof -
  have n: "0 < nbPendingNotifications p" using assms(2) by (simp add: ring_list_def)
  with assms(1) show "ring_ok (snd (ring_pop p))"
    using mod16_pred [OF n, of "receivedNotificationIndex p"]
    by (auto simp: ring_ok_def ring_pop_def)
  obtain m where m: "nbPendingNotifications p = Suc m" using n by (cases "nbPendingNotifications p") auto
  have "[0..<Suc m] = 0 # map Suc [0..<m]" by (simp add: upt_conv_Cons map_Suc_upt)
  moreover have "(Suc (receivedNotificationIndex p) mod 16 + i) mod 16 = Suc (receivedNotificationIndex p + i) mod 16" for i
    by (metis add_Suc mod_add_left_eq)
  ultimately show "fst (ring_pop p) # ring_list (snd (ring_pop p)) = ring_list p"
    using assms(1) by (auto simp: ring_ok_def ring_list_def ring_pop_def m simp del: upt_Suc)
qed

interpretation ring: bounded_fifo ring_ok ring_list 16 ring_push ring_pop
  by unfold_locales (auto simp: ring_push_law ring_pop_law)

lemma already_pending_iff: "already_pending p nid \<longleftrightarrow> nid \<in> set (ring_list p)"
  by (auto simp: already_pending_def ring_list_def)

section \<open>The subscription array is a set\<close>

definition subs_ok :: "process \<Rightarrow> bool" where
  "subs_ok p \<longleftrightarrow> length (subscribedNotifications p) = 17 \<and> nbSubscribed p \<le> 17 \<and>
     distinct (take (nbSubscribed p) (subscribedNotifications p))"

definition subs_set :: "process \<Rightarrow> u32 set" where
  "subs_set p = set (take (nbSubscribed p) (subscribedNotifications p))"

lemma index_of_bounds: "index_of xs nid i \<le> i + length xs"
  by (induction xs arbitrary: i) (auto, metis add_Suc)

lemma index_of_notin: "nid \<notin> set xs \<Longrightarrow> index_of xs nid i = i + length xs"
  by (induction xs arbitrary: i) auto

lemma index_of_in: "nid \<in> set xs \<Longrightarrow> \<exists>j<length xs. index_of xs nid i = i + j \<and> xs ! j = nid"
proof (induction xs arbitrary: i)
  case (Cons a xs)
  show ?case
  proof (cases "a = nid")
    case False
    with Cons obtain j where "j < length xs" "index_of xs nid (i + 1) = i + 1 + j" "xs ! j = nid"
      by fastforce
    with False show ?thesis by (intro exI [of _ "Suc j"]) simp
  qed auto
qed simp

lemma subscribe_process_spec:
  assumes "subs_ok p" and "subscribe_process p nid = (r, q)"
  shows "subs_ok q" and "r = 0 \<longleftrightarrow> nid \<notin> subs_set p \<and> nbSubscribed p < 17"
    and "subs_set q = (if r = 0 then insert nid (subs_set p) else subs_set p)"
  using assms
  by (auto simp: subscribe_process_def subs_ok_def subs_set_def subscribed_def take_Suc_conv_app_nth
      split: if_splits)

lemma unsubscribe_process_spec:
  assumes ok: "subs_ok p" and un: "unsubscribe_process p nid = (r, q)"
  shows "subs_ok q" and "r = 0 \<longleftrightarrow> nid \<in> subs_set p"
    and "subs_set q = subs_set p - {nid}"
proof -
  let ?n = "nbSubscribed p" and ?xs = "subscribedNotifications p"
  have n: "?n \<le> length ?xs" "distinct (take ?n ?xs)" "length ?xs = 17" "?n \<le> 17"
    using ok by (auto simp: subs_ok_def)
  have "subs_ok q \<and> (r = 0 \<longleftrightarrow> nid \<in> subs_set p) \<and> subs_set q = subs_set p - {nid}"
  proof (cases "nid \<in> set (take ?n ?xs)")
    case False
    with un n have "r = 0xD8806404" "q = p"
      by (auto simp: unsubscribe_process_def index_of_notin)
    with False ok show ?thesis by (simp add: subs_set_def)
  next
    case True
    from index_of_in [OF this, of 0] n obtain j
      where j: "j < ?n" "index_of (take ?n ?xs) nid 0 = j" "?xs ! j = nid" by auto
    have q: "r = 0" "q = p\<lparr>subscribedNotifications := ?xs[j := ?xs ! (?n - 1)], nbSubscribed := ?n - 1\<rparr>"
      using un j by (auto simp: unsubscribe_process_def)
    then show ?thesis
      using swap_remove [OF n(2,1) j(1)] True n j by (auto simp: subs_ok_def subs_set_def)
  qed
  then show "subs_ok q" and "r = 0 \<longleftrightarrow> nid \<in> subs_set p" and "subs_set q = subs_set p - {nid}"
    by auto
qed

section \<open>The process table stays well formed\<close>

definition proc_ok :: "process \<Rightarrow> bool" where
  "proc_ok p \<longleftrightarrow> ring_ok p \<and> subs_ok p"

definition procs_ok :: "'k sm \<Rightarrow> bool" where
  "procs_ok s \<longleftrightarrow> (\<forall>x. proc_ok (proc s x))"

lemma proc_ok_updates [simp]:
  "proc_ok (p\<lparr>notificationEnabled := b\<rparr>) = proc_ok p"
  "proc_ok (p\<lparr>notificationSemaphore := h\<rparr>) = proc_ok p"
  "proc_ok (p\<lparr>p_pid := pid\<rparr>) = proc_ok p"
  by (auto simp: proc_ok_def ring_ok_def subs_ok_def)

lemma zero_process_ok [simp]: "proc_ok zero_process"
  by (simp add: proc_ok_def ring_ok_def subs_ok_def zero_process_def)

lemma ring_push_ok: "proc_ok p \<Longrightarrow> nbPendingNotifications p < 16 \<Longrightarrow> proc_ok (ring_push p nid)"
  by (auto simp: proc_ok_def intro: ring_push_law(1)) (simp add: subs_ok_def ring_push_def)

lemma ring_pop_ok: "proc_ok p \<Longrightarrow> nbPendingNotifications p \<noteq> 0 \<Longrightarrow> proc_ok (snd (ring_pop p))"
proof -
  assume p: "proc_ok p" "nbPendingNotifications p \<noteq> 0"
  then have "ring_ok (snd (ring_pop p))"
    by (intro ring_pop_law(1)) (auto simp: proc_ok_def ring_list_def)
  with p show ?thesis by (auto simp: proc_ok_def subs_ok_def ring_pop_def)
qed

lemma subs_steps_ok:
  "proc_ok p \<Longrightarrow> proc_ok (snd (subscribe_process p nid))"
  "proc_ok p \<Longrightarrow> proc_ok (snd (unsubscribe_process p nid))"
proof -
  assume p: "proc_ok p"
  obtain r q where s: "subscribe_process p nid = (r, q)" by fastforce
  obtain r' q' where u: "unsubscribe_process p nid = (r', q')" by fastforce
  have "ring_ok q" "ring_ok q'"
    using p s u by (auto simp: proc_ok_def ring_ok_def subscribe_process_def unsubscribe_process_def
        Let_def split: if_splits)
  then show "proc_ok (snd (subscribe_process p nid))" "proc_ok (snd (unsubscribe_process p nid))"
    using p s u subscribe_process_spec(1) [OF _ s] unsubscribe_process_spec(1) [OF _ u]
    by (auto simp: proc_ok_def)
qed

text \<open>What a publication does to one process.\<close>

definition deliver :: "u32 \<Rightarrow> u32 \<Rightarrow> process \<Rightarrow> process" where
  "deliver nid flags p =
     (if flags AND 1 \<noteq> 0 \<and> nid \<in> set (ring_list p) then p
      else if nbPendingNotifications p < 16 then ring_push p nid else p)"

lemma p_pid_deliver [simp]: "p_pid (deliver nid flags p) = p_pid p"
  by (simp add: deliver_def ring_push_def)

lemma deliver_ok [simp]: "proc_ok p \<Longrightarrow> proc_ok (deliver nid flags p)"
  by (simp add: deliver_def ring_push_ok)

lemma doPublishNotification_frame:
  assumes "doPublishNotification e s x nid flags = Some (ok, t)"
  shows "sl t = sl s" "pl t = pl s" "sess t = sess s" "servicesInfo t = servicesInfo s"
    "nbServices t = nbServices s" "proc t = (proc s)(x := deliver nid flags (proc s x))"
    "ok \<longleftrightarrow> (flags AND 1 \<noteq> 0 \<and> nid \<in> set (ring_list (proc s x)))
           \<or> nbPendingNotifications (proc s x) < 16 \<or> flags AND 2 \<noteq> 0"
  using assms
  by (auto simp: doPublishNotification_def deliver_def Let_def already_pending_iff ring_list_def
      split: if_splits bind_splits prod.splits)

lemma publish_loop_frame:
  "publish_loop e sel nid flags fuel s p pids = Some (r, ids, t) \<Longrightarrow>
   sl t = sl s \<and> pl t = pl s \<and> sess t = sess s \<and> servicesInfo t = servicesInfo s \<and>
   nbServices t = nbServices s \<and> (procs_ok s \<longrightarrow> procs_ok t)"
proof (induction e sel nid flags fuel s p pids rule: publish_loop.induct)
  case (3 e sel nid flags fuel s x pids)
  show ?case
  proof (cases "sel (proc s x)")
    case False
    with 3 show ?thesis by simp
  next
    case True
    with 3(3) obtain ok u where u: "doPublishNotification e s x nid flags = Some (ok, u)"
      by (auto split: bind_splits)
    note F = doPublishNotification_frame [OF u]
    have "procs_ok s \<longrightarrow> procs_ok u" by (simp add: procs_ok_def F)
    with 3(2) [of "(ok, u)" ok u] 3(3) True u F show ?thesis
      by (auto split: if_splits)
  qed
qed auto

text \<open>A publication reaches every selected process, in list order, when each has room and the
  kernel releases the semaphores.\<close>

lemma publish_loop_reaches:
  assumes "lists_ok s S P" and "P ProcInUse = as @ bs" and "length bs \<le> fuel"
    and "\<And>k h n. \<not> R_FAILED e (fst (svcReleaseSemaphore e k h n))"
    and "\<And>x. x \<in> set bs \<Longrightarrow> sel (proc s x) \<Longrightarrow> nbPendingNotifications (proc s x) < 16"
    and "\<And>p. sel (deliver nid flags p) = sel p" and "length pids \<le> 60"
  shows "\<exists>t. publish_loop e sel nid flags fuel s (head_or bs None) pids
           = Some (0, take 60 (pids @ map (p_pid \<circ> proc s) (filter (sel \<circ> proc s) bs)), t) \<and>
         (\<forall>x. proc t x = (if x \<in> set bs \<and> sel (proc s x) then deliver nid flags (proc s x) else proc s x))"
  using assms(1-3,5,7)
proof (induction bs arbitrary: as s fuel pids)
  case (Cons x bs)
  then obtain k where k: "fuel = Suc k" by (cases fuel) auto
  have nx: "node_next (pl s) x = head_or bs None"
    by (rule rep_next [OF lists_ok_reps(2) [OF Cons.prems(1)] Cons.prems(2)])
  have di: "distinct (as @ x # bs)"
    using rep_distinct [OF lists_ok_reps(2) [OF Cons.prems(1)], of ProcInUse] Cons.prems(2) by simp
  show ?case
  proof (cases "sel (proc s x)")
    case False
    with Cons.IH [OF Cons.prems(1), of "as @ [x]" k pids] Cons.prems k nx di show ?thesis
      by auto
  next
    case True
    have "\<exists>u. doPublishNotification e s x nid flags = Some (True, u)"
      using Cons.prems(4) [of x] True assms(4)
      by (auto simp: doPublishNotification_def assertSuccess_def Let_def case_prod_beta)
    then obtain u where u: "doPublishNotification e s x nid flags = Some (True, u)" by blast
    note F = doPublishNotification_frame [OF u]
    have lu: "lists_ok u S P" using Cons.prems(1) F by (auto intro: lists_ok_cong)
    let ?pids = "if length pids < 60 then pids @ [p_pid (proc u x)] else pids"
    have same: "proc u y = proc s y" if "y \<in> set bs" for y using that di F by auto
    have "\<exists>t. publish_loop e sel nid flags k u (head_or bs None) ?pids
           = Some (0, take 60 (?pids @ map (p_pid \<circ> proc u) (filter (sel \<circ> proc u) bs)), t) \<and>
      (\<forall>y. proc t y = (if y \<in> set bs \<and> sel (proc u y) then deliver nid flags (proc u y) else proc u y))"
      by (rule Cons.IH [OF lu, of "as @ [x]"]) (use Cons.prems k same in auto)
    then obtain t where t: "publish_loop e sel nid flags k u (head_or bs None) ?pids
           = Some (0, take 60 (?pids @ map (p_pid \<circ> proc u) (filter (sel \<circ> proc u) bs)), t)"
      "\<And>y. proc t y = (if y \<in> set bs \<and> sel (proc u y) then deliver nid flags (proc u y) else proc u y)"
      by blast
    have f: "filter (sel \<circ> proc u) bs = filter (sel \<circ> proc s) bs"
      using same by (auto intro!: filter_cong)
    have m: "map (p_pid \<circ> proc u) (filter (sel \<circ> proc u) bs) = map (p_pid \<circ> proc s) (filter (sel \<circ> proc s) bs)"
      unfolding f using same by auto
    have px: "p_pid (proc u x) = p_pid (proc s x)"
      by (simp add: F(6))
    have pids: "take 60 (?pids @ map (p_pid \<circ> proc u) (filter (sel \<circ> proc u) bs))
        = take 60 (pids @ map (p_pid \<circ> proc s) (filter (sel \<circ> proc s) (x # bs)))"
      unfolding m px using True Cons.prems(5) by (auto simp: take_Cons')
    have "proc t y = (if y \<in> set (x # bs) \<and> sel (proc s y) then deliver nid flags (proc s y) else proc s y)" for y
      using t(2) [of y] di True F(6) assms(6) by (cases "y = x") auto
    then show ?thesis
      using t(1) pids F(2) True by (intro exI [of _ t]) (simp add: k u nx comp_def)
  qed
qed simp

text \<open>Every operation keeps the process table well formed and, but for a registration, the lists.\<close>

lemma doRegisterProcess_procs:
  "procs_ok s \<Longrightarrow> doRegisterProcess e s pid = Some (x, t) \<Longrightarrow> procs_ok t"
  by (auto simp: doRegisterProcess_def procs_ok_def Let_def split: bind_splits prod.splits)

lemma notification_ops_procs [inv_intros]:
  "procs_ok s \<Longrightarrow> EnableNotification e s sd = Some (r, h, t) \<Longrightarrow> procs_ok t"
  "procs_ok s \<Longrightarrow> Subscribe s sd nid = Some (r, t) \<Longrightarrow> procs_ok t"
  "procs_ok s \<Longrightarrow> Unsubscribe s sd nid = Some (r, t) \<Longrightarrow> procs_ok t"
  "procs_ok s \<Longrightarrow> ReceiveNotification s sd = Some (r, out, t) \<Longrightarrow> procs_ok t"
  "procs_ok s \<Longrightarrow> PublishToSubscriber e s nid flags = Some (r, t) \<Longrightarrow> procs_ok t"
  "procs_ok s \<Longrightarrow> PublishAndGetSubscriber e s nid flags = Some (r, ids, t) \<Longrightarrow> procs_ok t"
  "procs_ok s \<Longrightarrow> PublishToAll e s nid = Some (r, t) \<Longrightarrow> procs_ok t"
  "procs_ok s \<Longrightarrow> PublishToProcess e s h nid = Some (r, t) \<Longrightarrow> procs_ok t"
  subgoal
    by (auto simp: EnableNotification_def procs_ok_def split: bind_splits option.splits if_splits
        dest!: doRegisterProcess_procs [unfolded procs_ok_def, rotated])
  subgoal
    using subs_steps_ok(1) [of _ nid]
    by (auto simp: Subscribe_def procs_ok_def split: bind_splits option.splits if_splits prod.splits)
       (metis snd_conv)
  subgoal
    using subs_steps_ok(2) [of _ nid]
    by (auto simp: Unsubscribe_def procs_ok_def split: bind_splits option.splits if_splits prod.splits)
       (metis snd_conv)
  subgoal
    using ring_pop_ok
    by (auto simp: ReceiveNotification_def procs_ok_def split: bind_splits option.splits if_splits prod.splits)
       (metis snd_conv not_gr0)
  subgoal by (auto simp: PublishToSubscriber_def split: bind_splits dest!: publish_loop_frame)
  subgoal by (auto simp: PublishAndGetSubscriber_def dest!: publish_loop_frame)
  subgoal by (auto simp: PublishToAll_def split: bind_splits dest!: publish_loop_frame)
  subgoal
    by (auto simp: PublishToProcess_def procs_ok_def Let_def
        split: bind_splits prod.splits option.splits if_splits dest!: doPublishNotification_frame(6))
  done

end
