(* ===== verification/Sm_Services.thy ===== *)
theory Sm_Services
  imports Sm_Notifications
begin

text \<open>
  \<open>sysmodules/sm/source/services.c\<close>: the table of services and named ports, registration with
  the wake-up of the sessions that wait for the name, and the lookups that may block a session.
  Lemmas: the table is a partial map from (kind, name) to entries as long as the names are
  padded with zeros, registration is a map update, removal a map deletion; the sessions that
  wait for the name move, in order, to the wake-up list.

  A name is a buffer of at least 8 bytes together with a signed 32-bit size, as the callers
  pass them.
\<close>

section \<open>Operations\<close>

definition checkServiceName :: "bytes \<Rightarrow> u32 \<Rightarrow> result" where
  "checkServiceName name nameSize =
     (if sint nameSize \<le> 0 \<or> sint nameSize > 8 then 0xD9006405
      else if strnlen name (unat nameSize) < unat nameSize then 0xD9006407
      else 0)"

definition areServiceNamesEqual :: "bytes \<Rightarrow> bytes \<Rightarrow> u32 \<Rightarrow> bool" where
  "areServiceNamesEqual name name2 nameSize \<longleftrightarrow>
     strncmp_eq name name2 (unat nameSize) \<and> (nameSize = 8 \<or> name ! unat nameSize = 0)"

text \<open>\<^term>\<open>None\<close> stands for the index \<open>-1\<close>.\<close>

fun find_service :: "service list \<Rightarrow> bool \<Rightarrow> bytes \<Rightarrow> u32 \<Rightarrow> nat \<Rightarrow> nat option" where
  "find_service [] isNP name nameSize i = None"
| "find_service (v # vs) isNP name nameSize i =
     (if isNamedPort v \<noteq> isNP \<or> \<not> areServiceNamesEqual (sv_name v) name nameSize
      then find_service vs isNP name nameSize (i + 1) else Some i)"

definition findServicePortByName :: "'k sm \<Rightarrow> bool \<Rightarrow> bytes \<Rightarrow> u32 \<Rightarrow> nat option" where
  "findServicePortByName s isNP name nameSize =
     find_service (take (nbServices s) (servicesInfo s)) isNP name nameSize 0"

definition waits_for :: "session \<Rightarrow> bool \<Rightarrow> bytes \<Rightarrow> bool" where
  "waits_for n isNP name \<longleftrightarrow>
     replayCmdbuf n ! 0 AND 0xF0000 = (if \<not> isNP then 0x50000 else 0x80000) \<and>
     areServiceNamesEqual (bytes_of (drop 1 (replayCmdbuf n))) name (replayCmdbuf n ! 3)"

text \<open>The loop over the waiting sessions; it returns the number of sessions it moved.\<close>

definition wake_waiting :: "'k sm \<Rightarrow> bool \<Rightarrow> bytes \<Rightarrow> ('k sm \<times> nat) option" where
  "wake_waiting s isNP name = do {
     (l, n) \<leftarrow> move_loop node_next (\<lambda>l x. moveNode l x SessWakeUp True) SESS_POOL
                 (\<lambda>x. waits_for (sess s x) isNP name) (sl s) (list_first (sl s) SessWaitRegister) 0;
     Some (s\<lparr>sl := l\<rparr>, n)
   }"

definition add_service :: "'k sm \<Rightarrow> service \<Rightarrow> 'k sm" where
  "add_service s v = s\<lparr>servicesInfo := (servicesInfo s)[nbServices s := v], nbServices := nbServices s + 1\<rparr>"

text \<open>The part of the registration that cannot fail any more: the new entry, the wake-ups and the
  release of the semaphore that makes the main loop resume the woken sessions.\<close>

definition new_service :: "u32 \<Rightarrow> handle \<Rightarrow> bytes \<Rightarrow> bool \<Rightarrow> service" where
  "new_service pid portClient name isNP =
     \<lparr>sv_name = strncpy_n name 8, clientPort = portClient, sv_pid = pid, isNamedPort = isNP\<rparr>"

definition complete_registration :: "'k env \<Rightarrow> 'k sm \<Rightarrow> u32 \<Rightarrow> handle \<Rightarrow> bytes \<Rightarrow> bool \<Rightarrow> 'k sm option" where
  "complete_registration e s pid portClient name isNP = do {
     (s3, n) \<leftarrow> wake_waiting (add_service s (new_service pid portClient name isNP)) isNP name;
     if n > 0
     then (let (r, k) = svcReleaseSemaphore e (kern s3) (resumeSemaphore s3) (word_of_nat n)
           in do { assertSuccess e r; Some (s3\<lparr>kern := k\<rparr>) })
     else Some s3
   }"

definition doRegisterServiceOrPort ::
  "'k env \<Rightarrow> 'k sm \<Rightarrow> u32 \<Rightarrow> handle \<Rightarrow> bytes \<Rightarrow> u32 \<Rightarrow> u32 \<Rightarrow> bool \<Rightarrow> (result \<times> handle \<times> 'k sm) option" where
  "doRegisterServiceOrPort e s pid cport name nameSize maxSessions isNP =
     (let res = checkServiceName name nameSize
      in if R_FAILED e res then Some (res, 0, s)
         else if findServicePortByName s isNP name nameSize \<noteq> None then Some (0xD9001BFC, 0, s)
         else if nbServices s \<ge> MAX_SERVICES then Some (0xD86067F3, 0, s)
         else if \<not> isNP then
           let (res, portServer, portClient, k) = svcCreatePort e (kern s) maxSessions; s1 = s\<lparr>kern := k\<rparr>
           in if R_FAILED e res then Some (0xD9001BFC, 0, s1)
              else do { t \<leftarrow> complete_registration e s1 pid portClient name isNP; Some (res, portServer, t) }
         else do { t \<leftarrow> complete_registration e s pid cport name isNP; Some (res, 0, t) })"

definition doRegisterService :: "'k env \<Rightarrow> 'k sm \<Rightarrow> u32 \<Rightarrow> bytes \<Rightarrow> u32 \<Rightarrow> u32 \<Rightarrow> (result \<times> handle \<times> 'k sm) option" where
  "doRegisterService e s pid name nameSize maxSessions =
     doRegisterServiceOrPort e s pid 0 name nameSize maxSessions False"

definition RegisterService :: "'k env \<Rightarrow> 'k sm \<Rightarrow> nat \<Rightarrow> bytes \<Rightarrow> u32 \<Rightarrow> u32 \<Rightarrow> (result \<times> handle \<times> 'k sm) option" where
  "RegisterService e s sd name nameSize maxSessions =
     doRegisterService e s (s_pid (sess s sd)) name nameSize maxSessions"

definition RegisterPort :: "'k env \<Rightarrow> 'k sm \<Rightarrow> nat \<Rightarrow> handle \<Rightarrow> bytes \<Rightarrow> u32 \<Rightarrow> (result \<times> 'k sm) option" where
  "RegisterPort e s sd cport name nameSize = do {
     (r, h, t) \<leftarrow> doRegisterServiceOrPort e s (s_pid (sess s sd)) cport name nameSize (-1) True;
     Some (r, t)
   }"

definition remove_service :: "'k sm \<Rightarrow> nat \<Rightarrow> 'k sm" where
  "remove_service s i = s\<lparr>servicesInfo := (servicesInfo s)[i := servicesInfo s ! (nbServices s - 1)],
                          nbServices := nbServices s - 1\<rparr>"

definition UnregisterServiceOrPort :: "'k env \<Rightarrow> 'k sm \<Rightarrow> nat \<Rightarrow> bytes \<Rightarrow> u32 \<Rightarrow> bool \<Rightarrow> result \<times> 'k sm" where
  "UnregisterServiceOrPort e s sd name nameSize isNP =
     (let res = checkServiceName name nameSize
      in if R_FAILED e res then (res, s)
         else case findServicePortByName s isNP name nameSize of
           None \<Rightarrow> (0xD8801BFA, s)
         | Some i \<Rightarrow>
             if sv_pid (servicesInfo s ! i) \<noteq> s_pid (sess s sd) then (0xD8E06406, s)
             else (0, remove_service (s\<lparr>kern := svcCloseHandle e (kern s) (clientPort (servicesInfo s ! i))\<rparr>) i))"

definition UnregisterService :: "'k env \<Rightarrow> 'k sm \<Rightarrow> nat \<Rightarrow> bytes \<Rightarrow> u32 \<Rightarrow> result \<times> 'k sm" where
  "UnregisterService e s sd name nameSize = UnregisterServiceOrPort e s sd name nameSize False"

definition UnregisterPort :: "'k env \<Rightarrow> 'k sm \<Rightarrow> nat \<Rightarrow> bytes \<Rightarrow> u32 \<Rightarrow> result \<times> 'k sm" where
  "UnregisterPort e s sd name nameSize = UnregisterServiceOrPort e s sd name nameSize True"

text \<open>\<open>checkServiceAccess\<close> is constantly true in this program. \<open>IsServiceRegistered\<close> writes its
  answer on success only.\<close>

definition IsServiceRegistered :: "'k env \<Rightarrow> 'k sm \<Rightarrow> bytes \<Rightarrow> u32 \<Rightarrow> result \<times> bool option" where
  "IsServiceRegistered e s name nameSize =
     (let res = checkServiceName name nameSize
      in if R_FAILED e res then (res, None)
         else (0, Some (findServicePortByName s False name nameSize \<noteq> None)))"

definition GetServiceHandle :: "'k env \<Rightarrow> 'k sm \<Rightarrow> nat \<Rightarrow> bytes \<Rightarrow> u32 \<Rightarrow> u32 \<Rightarrow> result \<times> handle \<times> 'k sm" where
  "GetServiceHandle e s sd name nameSize flags =
     (let res = checkServiceName name nameSize
      in if R_FAILED e res then (res, 0, s)
         else case findServicePortByName s False name nameSize of
           None \<Rightarrow> (0xD0406401, 0, s)
         | Some i \<Rightarrow>
             let port = clientPort (servicesInfo s ! i);
                 (res, h, k) = svcCreateSessionToPort e (kern s) port;
                 s1 = s\<lparr>kern := k\<rparr>;
                 session = (if R_FAILED e res then 0 else h)
             in if res = 0xD0401834 \<and> flags AND 1 = 0
                then (0xD0406402, session, upd_sess s1 sd (\<lambda>n. n\<lparr>busyClientPortHandle := port\<rparr>))
                else (res, session, s1))"

definition GetPort :: "'k env \<Rightarrow> 'k sm \<Rightarrow> bytes \<Rightarrow> u32 \<Rightarrow> u8 \<Rightarrow> result \<times> handle" where
  "GetPort e s name nameSize flags =
     (let res = checkServiceName name nameSize
      in if R_FAILED e res then (res, 0)
         else case findServicePortByName s True name nameSize of
           None \<Rightarrow> (if flags \<noteq> 0 then 0xD0406401 else 0xD8801BFA, 0)
         | Some i \<Rightarrow> (0, if flags = 0 then clientPort (servicesInfo s ! i) else 0))"

section \<open>Names\<close>

text \<open>A valid name has 1 to 8 bytes, none of them zero. Its key is the string itself; the key of a
  table entry is the string its 8-byte field holds.\<close>

definition valid_name :: "bytes \<Rightarrow> u32 \<Rightarrow> bool" where
  "valid_name name n \<longleftrightarrow> 8 \<le> length name \<and> 0 < unat n \<and> unat n \<le> 8 \<and> (\<forall>c \<in> set (take (unat n) name). c \<noteq> 0)"

definition padded :: "bytes \<Rightarrow> u32 \<Rightarrow> bool" where
  "padded name n \<longleftrightarrow> (\<forall>i. unat n \<le> i \<and> i < 8 \<longrightarrow> name ! i = 0)"

definition name_key :: "bytes \<Rightarrow> u32 \<Rightarrow> bytes" where
  "name_key name n = take (unat n) name"

definition sv_key :: "service \<Rightarrow> bool \<times> bytes" where
  "sv_key v = (isNamedPort v, takeWhile (\<lambda>c. c \<noteq> 0) (sv_name v))"

lemma sint_small_iff: "0 < sint (n::u32) \<and> sint n \<le> 8 \<longleftrightarrow> 0 < unat n \<and> unat n \<le> 8"
proof
  assume a: "0 < sint n \<and> sint n \<le> 8"
  then have "take_bit 32 (sint n) = sint n" by (intro take_bit_int_eq_self) auto
  then have "uint n = sint n" by (subst uint_sint) simp
  moreover have "uint n = int (unat n)" by simp
  ultimately show "0 < unat n \<and> unat n \<le> 8" using a by linarith
next
  assume a: "0 < unat n \<and> unat n \<le> 8"
  moreover have "uint n = int (unat n)" by simp
  ultimately have u: "0 < uint n \<and> uint n \<le> 8" by linarith
  then have "signed_take_bit 31 (uint n) = uint n" by (intro signed_take_bit_int_eq_self) auto
  then have "sint n = uint n" by (subst sint_uint) simp
  with u show "0 < sint n \<and> sint n \<le> 8" by simp
qed

lemma ctru_ok_codes:
  assumes "ctru_ok e"
  shows "\<not> R_FAILED e 0" "R_FAILED e 0xD9006405" "R_FAILED e 0xD9006407"
  using assms by (auto simp: ctru_ok_def)

lemma strnlen_short:
  assumes "n \<le> length name"
  shows "strnlen name n < n \<longleftrightarrow> 0 \<in> set (take n name)"
proof
  assume l: "strnlen name n < n"
  show "0 \<in> set (take n name)"
  proof (rule ccontr)
    assume "0 \<notin> set (take n name)"
    then have "takeWhile (\<lambda>c. c \<noteq> 0) (take n name) = take n name"
      by (auto simp: takeWhile_eq_all_conv)
    with l assms show False by (simp add: strnlen_def)
  qed
next
  assume "0 \<in> set (take n name)"
  then show "strnlen name n < n" using strnlen_full [of n name] assms by auto
qed

lemma checkServiceName_code:
  assumes "8 \<le> length name"
  shows "checkServiceName name n =
    (if n = 0 \<or> 8 < n then 0xD9006405 else if 0 \<in> set (take (unat n) name) then 0xD9006407 else 0)"
proof -
  have "n = 0 \<or> 8 < n \<longleftrightarrow> unat n = 0 \<or> 8 < unat n" by (simp add: word_less_nat_alt unat_eq_zero)
  then show ?thesis
    using sint_small_iff [of n] strnlen_short [of "unat n" name] assms
    by (auto simp: checkServiceName_def not_le not_less)
qed

lemma checkServiceName_valid:
  assumes "ctru_ok e" and "8 \<le> length name"
  shows "R_FAILED e (checkServiceName name n) \<longleftrightarrow> \<not> valid_name name n"
    and "checkServiceName name n = 0 \<longleftrightarrow> valid_name name n"
proof -
  have "n = 0 \<or> 8 < n \<longleftrightarrow> unat n = 0 \<or> 8 < unat n" by (simp add: word_less_nat_alt unat_eq_zero)
  then show "R_FAILED e (checkServiceName name n) \<longleftrightarrow> \<not> valid_name name n"
    and "checkServiceName name n = 0 \<longleftrightarrow> valid_name name n"
    using ctru_ok_codes [OF assms(1)] assms(2)
    by (auto simp: checkServiceName_code [OF assms(2)] valid_name_def)
qed

text \<open>A lookup compares keys: what follows the caller's name in its buffer does not matter.\<close>

lemma names_equal_iff:
  assumes v: "valid_name name n" and l: "length f = 8"
  shows "areServiceNamesEqual f name n \<longleftrightarrow> takeWhile (\<lambda>c. c \<noteq> 0) f = name_key name n"
proof -
  let ?n = "unat n"
  have n: "?n \<le> 8" "0 < ?n" "8 \<le> length name" and nz: "\<forall>c \<in> set (take ?n name). c \<noteq> 0"
    using v by (auto simp: valid_name_def)
  have c: "strncmp_eq f name ?n \<longleftrightarrow> take ?n f = take ?n name"
    using strncmp_eq_take [of ?n name f] n l nz by (auto simp: strncmp_eq_sym)
  have e: "n = 8 \<longleftrightarrow> ?n = 8" by (simp add: word_unat_eq_iff)
  have ln: "length (take ?n name) = ?n" using n by simp
  have "takeWhile (\<lambda>c. c \<noteq> 0) f = take ?n name \<longleftrightarrow> take ?n f = take ?n name \<and> (?n = 8 \<or> f ! ?n = 0)"
  proof
    assume t: "takeWhile (\<lambda>c. c \<noteq> 0) f = take ?n name"
    then have k: "length (takeWhile (\<lambda>c. c \<noteq> 0) f) = ?n" using ln by simp
    have "take ?n f = take ?n name" by (metis k t takeWhile_eq_take)
    moreover have "?n = 8 \<or> f ! ?n = 0"
      using nth_length_takeWhile [of "\<lambda>c. c \<noteq> 0" f] k l n(1) by (metis le_neq_implies_less)
    ultimately show "take ?n f = take ?n name \<and> (?n = 8 \<or> f ! ?n = 0)" ..
  next
    assume t: "take ?n f = take ?n name \<and> (?n = 8 \<or> f ! ?n = 0)"
    have "takeWhile (\<lambda>c. c \<noteq> 0) f = take ?n f @ takeWhile (\<lambda>c. c \<noteq> 0) (drop ?n f)"
      using t nz by (intro takeWhile_prefix) auto
    moreover have "takeWhile (\<lambda>c. c \<noteq> 0) (drop ?n f) = []"
    proof (cases "?n = 8")
      case False
      then have "drop ?n f = f ! ?n # drop (Suc ?n) f" using n l by (simp add: Cons_nth_drop_Suc)
      then show ?thesis using t False by simp
    qed (simp add: l)
    ultimately show "takeWhile (\<lambda>c. c \<noteq> 0) f = take ?n name"
      using t by simp
  qed
  then show ?thesis by (simp add: areServiceNamesEqual_def c e name_key_def)
qed

section \<open>The table is a partial map\<close>

definition services :: "'k sm \<Rightarrow> service list" where
  "services s = take (nbServices s) (servicesInfo s)"

definition svcs_ok :: "'k sm \<Rightarrow> bool" where
  "svcs_ok s \<longleftrightarrow> nbServices s \<le> MAX_SERVICES \<and> length (servicesInfo s) = MAX_SERVICES \<and>
     (\<forall>v \<in> set (services s). length (sv_name v) = 8) \<and> distinct (map sv_key (services s))"

definition svc_map :: "'k sm \<Rightarrow> (bool \<times> bytes \<rightharpoonup> service)" where
  "svc_map s = map_of (map (\<lambda>v. (sv_key v, v)) (services s))"

definition svc_room :: "'k sm \<Rightarrow> bool" where
  "svc_room s \<longleftrightarrow> nbServices s < MAX_SERVICES"

lemma map_of_keyed:
  "distinct (map f vs) \<Longrightarrow> map_of (map (\<lambda>v. (f v, v)) vs) k = Some v \<longleftrightarrow> v \<in> set vs \<and> f v = k"
  by (induction vs) (auto split: if_splits, metis image_eqI)

lemma map_of_keyed_None: "map_of (map (\<lambda>v. (f v, v)) vs) k = None \<longleftrightarrow> k \<notin> f ` set vs"
  by (induction vs) auto

lemma svc_map_Some: "svcs_ok s \<Longrightarrow> svc_map s k = Some v \<longleftrightarrow> v \<in> set (services s) \<and> sv_key v = k"
  unfolding svc_map_def by (rule map_of_keyed) (simp add: svcs_ok_def)

lemma svc_map_None: "svc_map s k = None \<longleftrightarrow> k \<notin> sv_key ` set (services s)"
  unfolding svc_map_def by (rule map_of_keyed_None)

lemma length_services: "svcs_ok s \<Longrightarrow> length (services s) = nbServices s"
  by (simp add: services_def svcs_ok_def)

lemma services_add:
  "svcs_ok s \<Longrightarrow> svc_room s \<Longrightarrow> services (add_service s v) = services s @ [v]"
  by (simp add: services_def add_service_def svcs_ok_def svc_room_def take_Suc_conv_app_nth)

lemma services_remove:
  "svcs_ok s \<Longrightarrow> i < nbServices s \<Longrightarrow>
   mset (services (remove_service s i)) = mset (services s) - {#services s ! i#}"
  using swap_remove_mset [of "nbServices s" "servicesInfo s" i]
  by (simp add: services_def remove_service_def svcs_ok_def)

lemma find_service_spec:
  assumes "\<forall>v \<in> set vs. length (sv_name v) = 8" and "valid_name name n"
  shows "case find_service vs isNP name n i of
           None \<Rightarrow> (isNP, name_key name n) \<notin> sv_key ` set vs
         | Some j \<Rightarrow> i \<le> j \<and> j - i < length vs \<and> sv_key (vs ! (j - i)) = (isNP, name_key name n)"
  using assms(1)
proof (induction vs arbitrary: i)
  case (Cons v vs)
  have k: "isNamedPort v = isNP \<and> areServiceNamesEqual (sv_name v) name n
      \<longleftrightarrow> sv_key v = (isNP, name_key name n)"
    using Cons.prems names_equal_iff [OF assms(2)] by (simp add: sv_key_def)
  show ?case
  proof (cases "isNamedPort v = isNP \<and> areServiceNamesEqual (sv_name v) name n")
    case True
    with k show ?thesis by simp
  next
    case False
    with Cons.IH [of "i + 1"] Cons.prems k show ?thesis
      by (auto split: option.splits simp: Suc_diff_le nth_Cons' Suc_le_eq)
  qed
qed simp

text \<open>The lookup of the code, against the map.\<close>

lemma findServicePortByName_spec:
  assumes ok: "svcs_ok s" and v: "valid_name name n"
  shows "findServicePortByName s isNP name n = None \<longleftrightarrow> svc_map s (isNP, name_key name n) = None"
    and "findServicePortByName s isNP name n = Some i \<Longrightarrow>
         i < nbServices s \<and> svc_map s (isNP, name_key name n) = Some (servicesInfo s ! i) \<and>
         services s ! i = servicesInfo s ! i"
proof -
  have F: "case findServicePortByName s isNP name n of
           None \<Rightarrow> (isNP, name_key name n) \<notin> sv_key ` set (services s)
         | Some j \<Rightarrow> j < length (services s) \<and> sv_key (services s ! j) = (isNP, name_key name n)"
    using find_service_spec [of "services s" name n isNP 0] ok v
    by (auto simp: findServicePortByName_def services_def svcs_ok_def split: option.splits)
  then show "findServicePortByName s isNP name n = None \<longleftrightarrow> svc_map s (isNP, name_key name n) = None"
    by (auto simp: svc_map_None split: option.splits) (metis image_eqI nth_mem)
  assume "findServicePortByName s isNP name n = Some i"
  with F have i: "i < length (services s)" "sv_key (services s ! i) = (isNP, name_key name n)" by auto
  then have "svc_map s (isNP, name_key name n) = Some (services s ! i)"
    by (simp add: svc_map_Some [OF ok])
  with i show "i < nbServices s \<and> svc_map s (isNP, name_key name n) = Some (servicesInfo s ! i) \<and>
         services s ! i = servicesInfo s ! i"
    by (auto simp: length_services [OF ok]) (auto simp: services_def)
qed

text \<open>The interface of the table: a keyed store with an index for removal.\<close>

locale keyed_table =
  fixes ok :: "'t \<Rightarrow> bool"
    and room :: "'t \<Rightarrow> bool"
    and look :: "'t \<Rightarrow> 'key \<rightharpoonup> 'v"
    and key :: "'v \<Rightarrow> 'key"
    and wf :: "'v \<Rightarrow> bool"
    and ins :: "'t \<Rightarrow> 'v \<Rightarrow> 't"
    and at :: "'t \<Rightarrow> nat \<Rightarrow> 'v option"
    and del :: "'t \<Rightarrow> nat \<Rightarrow> 't"
  assumes ins_ok: "ok t \<Longrightarrow> room t \<Longrightarrow> wf v \<Longrightarrow> look t (key v) = None \<Longrightarrow> ok (ins t v)"
    and ins_look: "ok t \<Longrightarrow> room t \<Longrightarrow> wf v \<Longrightarrow> look t (key v) = None \<Longrightarrow>
                   look (ins t v) = (look t)(key v \<mapsto> v)"
    and at_look: "ok t \<Longrightarrow> at t i = Some v \<Longrightarrow> look t (key v) = Some v"
    and del_ok: "ok t \<Longrightarrow> at t i = Some v \<Longrightarrow> ok (del t i)"
    and del_look: "ok t \<Longrightarrow> at t i = Some v \<Longrightarrow> look (del t i) = (look t)(key v := None)"
begin

text \<open>Removing what was just inserted, wherever it is stored, gives the old map back; other keys
  never change.\<close>

lemma ins_del:
  assumes "ok t" "room t" "wf v" "look t (key v) = None" "at (ins t v) i = Some v"
  shows "look (del (ins t v) i) = look t"
  using assms by (simp add: del_look [OF ins_ok] ins_look fun_upd_idem)

lemma del_other:
  assumes "ok t" "at t i = Some v" "k \<noteq> key v"
  shows "look (del t i) k = look t k"
  using assms by (simp add: del_look)

lemma del_ins:
  assumes "ok t" "at t i = Some v" "wf v" "room (del t i)"
  shows "look (ins (del t i) v) = look t"
  using assms at_look [OF assms(1,2)] by (simp add: ins_look [OF del_ok] del_look fun_upd_idem)

end

definition service_at :: "'k sm \<Rightarrow> nat \<Rightarrow> service option" where
  "service_at s i = (if i < nbServices s then Some (servicesInfo s ! i) else None)"

lemma add_service_ok:
  assumes "svcs_ok s" "svc_room s" "length (sv_name v) = 8" "svc_map s (sv_key v) = None"
  shows "svcs_ok (add_service s v)" and "svc_map (add_service s v) = (svc_map s)(sv_key v \<mapsto> v)"
proof -
  have a: "services (add_service s v) = services s @ [v]" by (rule services_add [OF assms(1,2)])
  show ok: "svcs_ok (add_service s v)"
    using assms unfolding svcs_ok_def a
    by (auto simp: svc_map_None add_service_def svc_room_def)
  show "svc_map (add_service s v) = (svc_map s)(sv_key v \<mapsto> v)"
  proof (rule ext)
    fix k
    show "svc_map (add_service s v) k = ((svc_map s)(sv_key v \<mapsto> v)) k"
      using assms(4) by (cases "svc_map s k") (auto simp: svc_map_def a map_add_def)
  qed
qed

lemma remove_service_ok:
  assumes ok: "svcs_ok s" and i: "i < nbServices s"
  shows "svcs_ok (remove_service s i)"
    and "svc_map (remove_service s i) = (svc_map s)(sv_key (servicesInfo s ! i) := None)"
proof -
  let ?v = "services s ! i"
  have v: "?v = servicesInfo s ! i" using i by (simp add: services_def)
  have m: "mset (services (remove_service s i)) = mset (services s) - {#?v#}"
    by (rule services_remove [OF ok i])
  have d: "distinct (map sv_key (services s))" "distinct (services s)"
    using ok by (auto simp: svcs_ok_def distinct_map)
  have set: "set (services (remove_service s i)) = set (services s) - {?v}"
    using d(2) by (metis m mset_remove1 set_mset_mset set_remove1_eq)
  have "mset (map sv_key (services (remove_service s i))) \<subseteq># mset (map sv_key (services s))"
    unfolding mset_map m by (rule image_mset_subseteq_mono) simp
  then have dd: "distinct (map sv_key (services (remove_service s i)))"
    by (rule submset_distinct) (rule d(1))
  show ok': "svcs_ok (remove_service s i)"
    using ok dd set by (auto simp: svcs_ok_def remove_service_def)
  have iv: "?v \<in> set (services s)" using i length_services [OF ok] by simp
  show "svc_map (remove_service s i) = (svc_map s)(sv_key (servicesInfo s ! i) := None)"
  proof (rule ext, rule option.expand)
    fix k
    have u: "w \<in> set (services s) \<Longrightarrow> sv_key w = sv_key ?v \<Longrightarrow> w = ?v" for w
      using d(1) iv by (auto simp: distinct_map dest: inj_onD)
    have e: "svc_map (remove_service s i) k = Some w \<longleftrightarrow>
        ((svc_map s)(sv_key (servicesInfo s ! i) := None)) k = Some w" for w
      unfolding svc_map_Some [OF ok'] using u v by (auto simp: svc_map_Some [OF ok] set)
    then show "(svc_map (remove_service s i) k = None) = (((svc_map s)(sv_key (servicesInfo s ! i) := None)) k = None)"
      by (metis not_None_eq)
    assume "svc_map (remove_service s i) k \<noteq> None"
    then show "the (svc_map (remove_service s i) k) = the (((svc_map s)(sv_key (servicesInfo s ! i) := None)) k)"
      using e by (metis not_None_eq)
  qed
qed

interpretation svc: keyed_table svcs_ok svc_room svc_map sv_key "\<lambda>v. length (sv_name v) = 8"
  add_service service_at remove_service
  by (unfold_locales, auto simp: add_service_ok service_at_def remove_service_ok svc_map_Some
        services_def in_set_conv_nth split: if_splits intro!: exI) (simp add: svcs_ok_def)

section \<open>The operations against the map\<close>

text \<open>A name registered with a zero-padded buffer is stored under its own key.\<close>

lemma stored_key:
  assumes v: "valid_name name n" and p: "padded name n"
  shows "takeWhile (\<lambda>c. c \<noteq> 0) (strncpy_n name 8) = name_key name n"
proof -
  let ?n = "unat n" and ?nz = "\<lambda>c::8 word. c \<noteq> 0"
  have n: "?n \<le> 8" "8 \<le> length name" and nz: "\<forall>c \<in> set (take ?n name). ?nz c"
    using v by (auto simp: valid_name_def)
  have e: "take 8 (takeWhile ?nz name) = take ?n name"
  proof (cases "?n = 8")
    case True
    then show ?thesis using takeWhile_prefix [OF nz] n by simp
  next
    case False
    then have "drop ?n name = name ! ?n # drop (Suc ?n) name" using n by (simp add: Cons_nth_drop_Suc)
    moreover have "name ! ?n = 0" using p n False by (simp add: padded_def)
    ultimately show ?thesis using takeWhile_prefix [OF nz] n by simp
  qed
  have "takeWhile ?nz (take ?n name @ replicate (8 - ?n) 0) = take ?n name @ takeWhile ?nz (replicate (8 - ?n) 0)"
    using nz by (intro takeWhile_append2) auto
  also have "takeWhile ?nz (replicate (8 - ?n) 0) = []" by (cases "8 - ?n") auto
  finally show ?thesis using n by (simp add: strncpy_n_def Let_def e name_key_def)
qed

lemma pool_rep_two:
  assumes "pool_rep n s S" and "rep t (S(a := filter (\<lambda>x. \<not> Q x) (S a), b := S b @ filter Q (S a)))"
    and "a \<noteq> b"
  shows "pool_rep n t (S(a := filter (\<lambda>x. \<not> Q x) (S a), b := S b @ filter Q (S a)))"
proof -
  let ?T = "S(a := filter (\<lambda>x. \<not> Q x) (S a), b := S b @ filter Q (S a))"
  have "(\<Union>l. set (?T l)) = (\<Union>l. set (S l))"
  proof (rule set_eqI)
    fix x
    have "x \<in> (\<Union>l. set (?T l)) \<longleftrightarrow> x \<in> set (?T a) \<or> x \<in> set (?T b) \<or> (\<exists>l. l \<noteq> a \<and> l \<noteq> b \<and> x \<in> set (S l))"
      by (auto split: if_splits)
    then show "x \<in> (\<Union>l. set (?T l)) \<longleftrightarrow> x \<in> (\<Union>l. set (S l))"
      using assms(3) by auto
  qed
  with assms show ?thesis by (simp add: pool_rep_def del: fun_upd_apply)
qed

lemma wake_waiting_spec:
  fixes isNP name
  assumes "lists_ok s S P"
  defines "ws \<equiv> filter (\<lambda>x. waits_for (sess s x) isNP name) (S SessWaitRegister)"
  shows "\<exists>l. wake_waiting s isNP name = Some (s\<lparr>sl := l\<rparr>, length ws) \<and>
    lists_ok (s\<lparr>sl := l\<rparr>)
      (S(SessWaitRegister := filter (\<lambda>x. \<not> waits_for (sess s x) isNP name) (S SessWaitRegister),
         SessWakeUp := S SessWakeUp @ ws)) P"
proof -
  obtain l where l: "move_loop node_next (\<lambda>l x. moveNode l x SessWakeUp True) SESS_POOL
      (\<lambda>x. waits_for (sess s x) isNP name) (sl s) (list_first (sl s) SessWaitRegister) 0
      = Some (l, 0 + length ws)"
    "rep l (S(SessWaitRegister := filter (\<lambda>x. \<not> waits_for (sess s x) isNP name) (S SessWaitRegister),
         SessWakeUp := S SessWakeUp @ ws))"
    using sml.move_loop_moves [OF lists_ok_reps(1) [OF assms(1)], of SessWaitRegister SESS_POOL
        SessWakeUp "\<lambda>x. waits_for (sess s x) isNP name" 0] lists_ok_bounds(1) [OF assms(1)]
    unfolding ws_def by blast
  then show ?thesis
    using assms(1) pool_rep_two [of SESS_POOL "sl s" S l SessWaitRegister _ SessWakeUp]
    by (auto simp: wake_waiting_def lists_ok_def ws_def simp del: fun_upd_apply)
qed

text \<open>The lists after the waiting sessions of a name were woken.\<close>

definition woken :: "'k sm \<Rightarrow> bool \<Rightarrow> bytes \<Rightarrow> (sess_list \<Rightarrow> nat list) \<Rightarrow> (sess_list \<Rightarrow> nat list)" where
  "woken s isNP name S = S(
     SessWaitRegister := filter (\<lambda>x. \<not> waits_for (sess s x) isNP name) (S SessWaitRegister),
     SessWakeUp := S SessWakeUp @ filter (\<lambda>x. waits_for (sess s x) isNP name) (S SessWaitRegister))"

lemma doRegister_errors:
  assumes ok: "svcs_ok s" and c: "ctru_ok e" and l: "8 \<le> length name"
  shows "\<not> valid_name name n \<Longrightarrow>
      doRegisterServiceOrPort e s pid cp name n m isNP = Some (checkServiceName name n, 0, s)"
    and "valid_name name n \<Longrightarrow> svc_map s (isNP, name_key name n) \<noteq> None \<Longrightarrow>
      doRegisterServiceOrPort e s pid cp name n m isNP = Some (0xD9001BFC, 0, s)"
    and "valid_name name n \<Longrightarrow> svc_map s (isNP, name_key name n) = None \<Longrightarrow> \<not> svc_room s \<Longrightarrow>
      doRegisterServiceOrPort e s pid cp name n m isNP = Some (0xD86067F3, 0, s)"
  using checkServiceName_valid [OF c l, of n] findServicePortByName_spec(1) [OF ok, of name n isNP]
  by (auto simp: doRegisterServiceOrPort_def svc_room_def)

text \<open>The kernel after the waiting sessions were woken: the wake-up semaphore is released once per session,
  and not at all when nobody waits.\<close>

definition wakes_kernel :: "'k env \<Rightarrow> 'k sm \<Rightarrow> 'k \<Rightarrow> nat list \<Rightarrow> 'k \<Rightarrow> bool" where
  "wakes_kernel e s k ws k' \<longleftrightarrow>
     (if ws = [] then k' = k
      else let (r, k1) = svcReleaseSemaphore e k (resumeSemaphore s) (word_of_nat (length ws))
           in \<not> R_FAILED e r \<and> k' = k1)"

lemma complete_registration_spec:
  assumes lk: "lists_ok s S P" and r: "complete_registration e s pid p name isNP = Some t"
  shows "lists_ok t (woken s isNP name S) P" "sess t = sess s" "proc t = proc s"
    "servicesInfo t = servicesInfo (add_service s (new_service pid p name isNP))"
    "nbServices t = nbServices s + 1"
    "wakes_kernel e s (kern s) (filter (\<lambda>x. waits_for (sess s x) isNP name) (S SessWaitRegister)) (kern t)"
proof -
  let ?s2 = "add_service s (new_service pid p name isNP)"
  have lk2: "lists_ok ?s2 S P" by (rule lists_ok_cong [OF lk]) (simp_all add: add_service_def)
  have se: "sess ?s2 = sess s" by (simp add: add_service_def)
  obtain l where w: "wake_waiting ?s2 isNP name = Some (?s2\<lparr>sl := l\<rparr>,
        length (filter (\<lambda>x. waits_for (sess s x) isNP name) (S SessWaitRegister)))"
    "lists_ok (?s2\<lparr>sl := l\<rparr>) (woken s isNP name S) P"
    using wake_waiting_spec [OF lk2, of isNP name] unfolding se woken_def by blast
  have t: "sl t = l" "pl t = pl s" "sess t = sess s" "proc t = proc s"
    "servicesInfo t = servicesInfo ?s2" "nbServices t = nbServices s + 1"
    using r w(1) by (auto simp: complete_registration_def Let_def add_service_def
        split: if_splits bind_splits prod.splits)
  show "lists_ok t (woken s isNP name S) P"
    by (rule lists_ok_cong [OF w(2)]) (simp_all add: t add_service_def)
  show "sess t = sess s" "proc t = proc s" "servicesInfo t = servicesInfo ?s2" "nbServices t = nbServices s + 1"
    by (fact t)+
  show "wakes_kernel e s (kern s) (filter (\<lambda>x. waits_for (sess s x) isNP name) (S SessWaitRegister)) (kern t)"
    using r w(1) by (auto simp: complete_registration_def wakes_kernel_def Let_def add_service_def assertSuccess_def
        split: if_splits bind_splits prod.splits)
qed

text \<open>The ports of a new entry: a named port keeps the port it was given and answers with no handle, a
  service gets a port pair of the kernel, keeps the client side and answers with the server side.\<close>

definition new_ports :: "'k env \<Rightarrow> 'k sm \<Rightarrow> handle \<Rightarrow> u32 \<Rightarrow> bool \<Rightarrow> result \<times> handle \<times> handle \<times> 'k" where
  "new_ports e s cp m isNP = (if isNP then (0, 0, cp, kern s) else svcCreatePort e (kern s) m)"

lemma doRegister_success:
  assumes lk: "lists_ok s S P" and ok: "svcs_ok s" and c: "ctru_ok e" and l: "8 \<le> length name"
    and v: "valid_name name n" and free: "svc_map s (isNP, name_key name n) = None"
    and room: "svc_room s"
    and r: "doRegisterServiceOrPort e s pid cp name n m isNP = Some (r, h, t)"
    and created: "isNP \<or> \<not> R_FAILED e (fst (svcCreatePort e (kern s) m))"
    and ports: "new_ports e s cp m isNP = (res, ps, pc, k)"
  shows "services t = services s @ [new_service pid pc name isNP] \<and>
    r = res \<and> h = ps \<and>
    lists_ok t (woken s isNP name S) P \<and>
    servicesInfo t = servicesInfo (add_service s (new_service pid pc name isNP)) \<and>
    nbServices t = nbServices s + 1 \<and>
    wakes_kernel e s k (filter (\<lambda>x. waits_for (sess s x) isNP name) (S SessWaitRegister)) (kern t)"
proof -
  have chk: "\<not> R_FAILED e (checkServiceName name n)" and fnd: "findServicePortByName s isNP name n = None"
    using checkServiceName_valid(1) [OF c l, of n] findServicePortByName_spec(1) [OF ok v, of isNP] v free by auto
  have room': "\<not> nbServices s \<ge> MAX_SERVICES" using room by (simp add: svc_room_def)
  define s1 where "s1 = s\<lparr>kern := k\<rparr>"
  have s1: "complete_registration e s1 pid pc name isNP = Some t"
      "r = res" "h = ps"
    using r chk fnd room' created ports checkServiceName_valid(2) [OF c l, of n] v
    by (auto simp: doRegisterServiceOrPort_def new_ports_def s1_def split: bind_splits if_splits)
  have f: "sl s1 = sl s" "pl s1 = pl s" "sess s1 = sess s" "servicesInfo s1 = servicesInfo s" "nbServices s1 = nbServices s"
      "kern s1 = k" "resumeSemaphore s1 = resumeSemaphore s"
    by (simp_all add: s1_def)
  have lk1: "lists_ok s1 S P" by (rule lists_ok_cong [OF lk f(1,2)])
  note C = complete_registration_spec [OF lk1 s1(1)]
  have si: "servicesInfo t = servicesInfo (add_service s (new_service pid pc name isNP))"
    using C(4) f(4,5) by (simp add: add_service_def)
  have "services t = services s @ [new_service pid pc name isNP]"
    using services_add [OF ok room, of "new_service pid pc name isNP"] C(5) f(5) si
    by (simp add: services_def add_service_def)
  moreover have "woken s1 isNP name S = woken s isNP name S" by (simp add: woken_def f(3))
  moreover have "wakes_kernel e s k (filter (\<lambda>x. waits_for (sess s x) isNP name) (S SessWaitRegister)) (kern t)"
    using C(6) unfolding wakes_kernel_def f .
  ultimately show ?thesis using C s1 si f by simp
qed

lemma unregister_spec:
  assumes ok: "svcs_ok s" and c: "ctru_ok e" and l: "8 \<le> length name" and v: "valid_name name n"
  shows "case svc_map s (isNP, name_key name n) of
      None \<Rightarrow> UnregisterServiceOrPort e s sd name n isNP = (0xD8801BFA, s)
    | Some w \<Rightarrow>
        if sv_pid w \<noteq> s_pid (sess s sd) then UnregisterServiceOrPort e s sd name n isNP = (0xD8E06406, s)
        else \<exists>t. UnregisterServiceOrPort e s sd name n isNP = (0, t) \<and> svcs_ok t \<and>
               svc_map t = (svc_map s)((isNP, name_key name n) := None) \<and>
               kern t = svcCloseHandle e (kern s) (clientPort w) \<and>
               sl t = sl s \<and> pl t = pl s \<and> sess t = sess s \<and> proc t = proc s"
proof -
  have chk: "\<not> R_FAILED e (checkServiceName name n)"
    using checkServiceName_valid(1) [OF c l, of n] v by simp
  show ?thesis
  proof (cases "findServicePortByName s isNP name n")
    case None
    then show ?thesis
      using findServicePortByName_spec(1) [OF ok v, of isNP] chk
      by (simp add: UnregisterServiceOrPort_def)
  next
    case (Some i)
    note F = findServicePortByName_spec(2) [OF ok v Some]
    let ?w = "servicesInfo s ! i" and ?s1 = "s\<lparr>kern := svcCloseHandle e (kern s) (clientPort (servicesInfo s ! i))\<rparr>"
    have k: "sv_key ?w = (isNP, name_key name n)"
      using F svc_map_Some [OF ok, of "(isNP, name_key name n)" ?w] by simp
    have ok1: "svcs_ok ?s1" and m1: "svc_map ?s1 = svc_map s"
      using ok by (auto simp: svcs_ok_def services_def svc_map_def)
    have R: "svcs_ok (remove_service ?s1 i)"
      "svc_map (remove_service ?s1 i) = (svc_map s)((isNP, name_key name n) := None)"
      using remove_service_ok [OF ok1, of i] F k m1 by auto
    show ?thesis
      using F Some chk R
      by (auto simp: UnregisterServiceOrPort_def remove_service_def)
  qed
qed

text \<open>Preservation, one rule per operation.\<close>

lemma doRegister_cases:
  assumes r: "doRegisterServiceOrPort e s pid cp name n m isNP = Some (r, h, t)"
  shows "\<exists>s1. sl s1 = sl s \<and> pl s1 = pl s \<and>
    (t = s1 \<or> (\<exists>p. complete_registration e s1 pid p name isNP = Some t))"
proof (cases "isNP \<or> t = s")
  case True
  then show ?thesis
    using r by (intro exI [of _ s])
      (auto simp: doRegisterServiceOrPort_def Let_def split: if_splits bind_splits prod.splits)
next
  case False
  obtain res ps pc k where "svcCreatePort e (kern s) m = (res, ps, pc, k)" by (metis prod_cases4)
  with False r show ?thesis
    by (intro exI [of _ "s\<lparr>kern := k\<rparr>"])
       (auto simp: doRegisterServiceOrPort_def Let_def split: if_splits bind_splits)
qed

lemma doRegister_lists [inv_intros]:
  assumes "lists_ok s S P" and "doRegisterServiceOrPort e s pid cp name n m isNP = Some (r, h, t)"
  shows "\<exists>S'. lists_ok t S' P"
proof -
  obtain s1 where s1: "sl s1 = sl s" "pl s1 = pl s"
    and d: "t = s1 \<or> (\<exists>p. complete_registration e s1 pid p name isNP = Some t)"
    using doRegister_cases [OF assms(2)] by blast
  have "lists_ok s1 S P" by (rule lists_ok_cong [OF assms(1) s1])
  with d complete_registration_spec(1) show ?thesis by blast
qed

lemma doRegister_proc:
  "doRegisterServiceOrPort e s pid cp name n m isNP = Some (r, h, t) \<Longrightarrow> proc t = proc s"
  by (auto simp: doRegisterServiceOrPort_def complete_registration_def wake_waiting_def add_service_def Let_def
      split: if_splits bind_splits prod.splits)

lemma service_ops_frame:
  "sl (snd (UnregisterServiceOrPort e s sd name n isNP)) = sl s"
  "pl (snd (UnregisterServiceOrPort e s sd name n isNP)) = pl s"
  "proc (snd (UnregisterServiceOrPort e s sd name n isNP)) = proc s"
  "sl (snd (snd (GetServiceHandle e s sd name n flags))) = sl s"
  "pl (snd (snd (GetServiceHandle e s sd name n flags))) = pl s"
  "proc (snd (snd (GetServiceHandle e s sd name n flags))) = proc s"
  by (auto simp: UnregisterServiceOrPort_def GetServiceHandle_def remove_service_def Let_def
      split: option.splits prod.splits)

end
