(* ===== verification/Sm_Srv.thy ===== *)
theory Sm_Srv
  imports Sm_Services
begin

text \<open>
  The command handlers of the two ports, \<open>sysmodules/sm/source/srv.c\<close> and \<open>srv_pm.c\<close>. A
  command arrives in the 64-word command buffer and the reply overwrites it. Some replies send
  a local variable that the called function may leave unwritten; the content of such a variable
  is the argument \<open>junk\<close>.

  Lemmas: every command keeps the invariant of the state; a command that would block leaves the
  buffer alone and saves it for the replay; an unknown command changes nothing but the reply.
\<close>

section \<open>Operations\<close>

definition would_block :: "'k env \<Rightarrow> result \<Rightarrow> bool" where
  "would_block e res \<longleftrightarrow> R_MODULE e res = RM_SRV e \<and> R_SUMMARY e res = RS_WOULDBLOCK e"

text \<open>The pointer \<open>(const char *)(cmdbuf + 1)\<close>.\<close>

definition cmd_name :: "u32 list \<Rightarrow> bytes" where
  "cmd_name buf = bytes_of (drop 1 buf)"

fun put_words :: "u32 list \<Rightarrow> nat \<Rightarrow> u32 list \<Rightarrow> u32 list" where
  "put_words buf i [] = buf"
| "put_words buf i (w # ws) = put_words (buf[i := w]) (i + 1) ws"

definition invalid_command :: "'k env \<Rightarrow> result \<Rightarrow> u32 list \<Rightarrow> 'k sm \<Rightarrow> result \<times> u32 list \<times> 'k sm" where
  "invalid_command e code buf s = (code, put_words buf 0 [IPC_MakeHeader e 0 1 0, code], s)"

text \<open>The cases of \<open>srvHandleCommands\<close> whose reply depends on more than a result code.\<close>

definition cmd_RegisterClient :: "'k env \<Rightarrow> 'k sm \<Rightarrow> nat \<Rightarrow> u32 list \<Rightarrow> result \<times> u32 list \<times> 'k sm" where
  "cmd_RegisterClient e s sd buf =
     (if buf ! 0 = IPC_MakeHeader e 1 0 2 \<and> buf ! 1 = IPC_Desc_CurProcessId e
      then (0, put_words buf 0 [IPC_MakeHeader e 1 1 0, 0], upd_sess s sd (\<lambda>n. n\<lparr>s_pid := buf ! 2\<rparr>))
      else invalid_command e 0xD9001830 buf s)"

definition save_replay :: "'k sm \<Rightarrow> nat \<Rightarrow> u32 list \<Rightarrow> 'k sm" where
  "save_replay s sd buf = upd_sess s sd (\<lambda>n. n\<lparr>replayCmdbuf := take 4 buf\<rparr>)"

definition cmd_GetServiceHandle :: "'k env \<Rightarrow> 'k sm \<Rightarrow> nat \<Rightarrow> u32 list \<Rightarrow> result \<times> u32 list \<times> 'k sm" where
  "cmd_GetServiceHandle e s sd buf =
     (let (res, session, t) = GetServiceHandle e s sd (cmd_name buf) (buf ! 3) (buf ! 4)
      in if would_block e res then (res, buf, save_replay t sd buf)
         else (res, put_words buf 0 [IPC_MakeHeader e 5 1 2, res, IPC_Desc_MoveHandles e 1, session], t))"

definition cmd_RegisterPort :: "'k env \<Rightarrow> 'k sm \<Rightarrow> nat \<Rightarrow> u32 list \<Rightarrow> (result \<times> u32 list \<times> 'k sm) option" where
  "cmd_RegisterPort e s sd buf =
     (if buf ! 0 = IPC_MakeHeader e 6 3 2 \<and> buf ! 4 = IPC_Desc_SharedHandles e 1
      then do {
        (res, t) \<leftarrow> RegisterPort e s sd (buf ! 5) (cmd_name buf) (buf ! 3);
        Some (res, put_words buf 0 [IPC_MakeHeader e 6 1 0, res], t)
      }
      else Some (invalid_command e 0xD9001830 buf s))"

definition cmd_GetPort :: "'k env \<Rightarrow> 'k sm \<Rightarrow> nat \<Rightarrow> u32 list \<Rightarrow> result \<times> u32 list \<times> 'k sm" where
  "cmd_GetPort e s sd buf =
     (let (res, port) = GetPort e s (cmd_name buf) (buf ! 3) (ucast (buf ! 4))
      in if would_block e res then (res, buf, save_replay s sd buf)
         else (res, put_words buf 0 [IPC_MakeHeader e 8 1 2, res, IPC_Desc_SharedHandles e 1, port], s))"

definition cmd_PublishAndGetSubscriber :: "'k env \<Rightarrow> u32 \<Rightarrow> 'k sm \<Rightarrow> u32 list \<Rightarrow> (result \<times> u32 list \<times> 'k sm) option" where
  "cmd_PublishAndGetSubscriber e junk s buf = do {
     (res, pids, t) \<leftarrow> PublishAndGetSubscriber e s (buf ! 1) 0;
     let buf1 = put_words buf 3 pids;
     let pidCount = (if res = 0xD8606408 then junk else word_of_nat (length pids));
     Some (res, put_words buf1 0 [IPC_MakeHeader e 13 62 0, res, pidCount], t)
   }"

text \<open>\<open>srvHandleCommands\<close>: the switch over the command number.\<close>

definition srvHandleCommands :: "'k env \<Rightarrow> u32 \<Rightarrow> 'k sm \<Rightarrow> nat \<Rightarrow> u32 list \<Rightarrow> (result \<times> u32 list \<times> 'k sm) option" where
  "srvHandleCommands e junk s sd buf =
     (let cmd = drop_bit 16 (buf ! 0)
      in if cmd = 1 then Some (cmd_RegisterClient e s sd buf)
         else if cmd = 2 then do {
           (res, sem, t) \<leftarrow> EnableNotification e s sd;
           Some (res, put_words buf 0 [IPC_MakeHeader e 2 1 2, res, IPC_Desc_SharedHandles e 1, sem], t) }
         else if cmd = 3 then do {
           (res, port, t) \<leftarrow> RegisterService e s sd (cmd_name buf) (buf ! 3) (buf ! 4);
           Some (res, put_words buf 0 [IPC_MakeHeader e 3 1 2, res, IPC_Desc_MoveHandles e 1, port], t) }
         else if cmd = 4 then
           let (res, t) = UnregisterService e s sd (cmd_name buf) (buf ! 3)
           in Some (res, put_words buf 0 [IPC_MakeHeader e 4 1 0, res], t)
         else if cmd = 5 then Some (cmd_GetServiceHandle e s sd buf)
         else if cmd = 6 then cmd_RegisterPort e s sd buf
         else if cmd = 7 then
           let (res, t) = UnregisterPort e s sd (cmd_name buf) (buf ! 3)
           in Some (res, put_words buf 0 [IPC_MakeHeader e 7 1 0, res], t)
         else if cmd = 8 then Some (cmd_GetPort e s sd buf)
         else if cmd = 9 then do {
           (res, t) \<leftarrow> Subscribe s sd (buf ! 1);
           Some (res, put_words buf 0 [IPC_MakeHeader e 9 1 0, res], t) }
         else if cmd = 10 then do {
           (res, t) \<leftarrow> Unsubscribe s sd (buf ! 1);
           Some (res, put_words buf 0 [IPC_MakeHeader e 10 1 0, res], t) }
         else if cmd = 11 then do {
           (res, out, t) \<leftarrow> ReceiveNotification s sd;
           Some (res, put_words buf 0 [IPC_MakeHeader e 11 2 0, res, case out of None \<Rightarrow> junk | Some i \<Rightarrow> i], t) }
         else if cmd = 12 then do {
           (res, t) \<leftarrow> PublishToSubscriber e s (buf ! 1) (buf ! 2);
           Some (res, put_words buf 0 [IPC_MakeHeader e 12 1 0, res], t) }
         else if cmd = 13 then cmd_PublishAndGetSubscriber e junk s buf
         else if cmd = 14 then
           let (res, out) = IsServiceRegistered e s (cmd_name buf) (buf ! 3)
           in Some (res, put_words buf 0 [IPC_MakeHeader e 14 2 0, res,
                 case out of None \<Rightarrow> (if junk \<noteq> 0 then 1 else 0) | Some b \<Rightarrow> (if b then 1 else 0)], s)
         else Some (invalid_command e 0xD9001830 buf s))"

definition srvPmHandleCommands :: "'k env \<Rightarrow> u32 \<Rightarrow> 'k sm \<Rightarrow> nat \<Rightarrow> u32 list \<Rightarrow> (result \<times> u32 list \<times> 'k sm) option" where
  "srvPmHandleCommands e junk s sd buf =
     (let mask = drop_bit 16 (buf ! 0 AND 0x04000000);
          cmd = drop_bit 16 (buf ! 0) AND NOT mask
      in if IS_PRE_7X e \<and> mask = 0 then srvHandleCommands e junk s sd buf
         else if \<not> IS_PRE_7X e \<and> mask \<noteq> 0 then Some (invalid_command e 0xD900182F buf s)
         else if cmd = 1 then
           if buf ! 0 = IPC_MakeHeader e (mask OR 1) 1 2 \<and> buf ! 2 = IPC_Desc_SharedHandles e 1
           then do {
             (res, t) \<leftarrow> PublishToProcess e s (buf ! 3) (buf ! 1);
             Some (res, put_words buf 0 [IPC_MakeHeader e (mask OR 1) 1 0, res], t) }
           else Some (invalid_command e 0xD900182F buf s)
         else if cmd = 2 then do {
           (res, t) \<leftarrow> PublishToAll e s (buf ! 1);
           Some (res, put_words buf 0 [IPC_MakeHeader e (mask OR 2) 1 0, res], t) }
         else if cmd = 3 then
           if buf ! 0 = IPC_MakeHeader e (mask OR 3) 2 2 \<and>
              buf ! 3 AND 0x3C0F = IPC_Desc_StaticBuffer e 0x110 0 AND 0x3C0F
           then do {
             (res, t) \<leftarrow> RegisterProcess e s (buf ! 1) (drop_bit 14 (buf ! 3));
             Some (res, put_words buf 0 [IPC_MakeHeader e (mask OR 3) 1 0, res], t) }
           else Some (invalid_command e 0xD900182F buf s)
         else if cmd = 4 then do {
           (res, t) \<leftarrow> UnregisterProcess e s (buf ! 1);
           Some (res, put_words buf 0 [IPC_MakeHeader e (mask OR 4) 1 0, res], t) }
         else Some (invalid_command e 0xD900182F buf s))"

section \<open>The invariant of the state\<close>

definition sm_inv :: "'k sm \<Rightarrow> bool" where
  "sm_inv s \<longleftrightarrow> (\<exists>S P. lists_ok s S P) \<and> procs_ok s \<and>
     nbServices s \<le> MAX_SERVICES \<and> length (servicesInfo s) = MAX_SERVICES \<and>
     (\<forall>x. length (replayCmdbuf (sess s x)) = 4)"

text \<open>A step of the state that keeps the session lists and the saved commands.\<close>

definition sess_frame :: "'k sm \<Rightarrow> 'k sm \<Rightarrow> bool" where
  "sess_frame s t \<longleftrightarrow> sl t = sl s \<and> sess t = sess s"

lemma initSystem_inv:
  assumes "initSystem e n k = Some s"
  shows "sm_inv s"
proof -
  have "sess s = (\<lambda>_. zero_session)" "proc s = (\<lambda>_. zero_process)" "nbServices s = 0"
    "servicesInfo s = replicate MAX_SERVICES zero_service"
    using assms by (auto simp: initSystem_def Let_def split: prod.splits bind_splits)
  with initSystem_lists [OF assms] show ?thesis
    unfolding sm_inv_def by (auto simp: procs_ok_def zero_session_def)
qed

lemma sm_invD:
  assumes "sm_inv s"
  shows "\<exists>S P. lists_ok s S P" "procs_ok s" "nbServices s \<le> MAX_SERVICES"
    "length (servicesInfo s) = MAX_SERVICES" "length (replayCmdbuf (sess s x)) = 4"
  using assms by (auto simp: sm_inv_def)

text \<open>Operations of the process side leave the sessions and the service table alone.\<close>

definition proc_step :: "'k sm \<Rightarrow> 'k sm \<Rightarrow> bool" where
  "proc_step s t \<longleftrightarrow> sl t = sl s \<and> sess t = sess s \<and> servicesInfo t = servicesInfo s \<and>
     nbServices t = nbServices s \<and> procs_ok t \<and> (\<exists>S P. lists_ok t S P)"

lemma proc_step_inv [inv_intros]: "sm_inv s \<Longrightarrow> proc_step s t \<Longrightarrow> sm_inv t"
  by (auto simp: sm_inv_def proc_step_def)

lemma proc_stepI:
  assumes "sm_inv s" "sl t = sl s" "pl t = pl s" "sess t = sess s" "servicesInfo t = servicesInfo s"
    "nbServices t = nbServices s" "procs_ok t"
  shows "proc_step s t"
  using assms lists_ok_cong [of s _ _ t] by (auto simp: proc_step_def sm_inv_def)

lemma doRegisterProcess_step:
  assumes "sm_inv s" and "doRegisterProcess e s pid = Some (x, t)"
  shows "proc_step s t"
proof -
  obtain S P where l: "lists_ok s S P" using assms(1) by (auto simp: sm_inv_def)
  have "sl t = sl s" using assms(2)
    by (auto simp: doRegisterProcess_def Let_def split: bind_splits prod.splits)
  with doRegisterProcess_lists [OF l assms(2)] doRegisterProcess_procs [OF _ assms(2)] assms(1)
  show ?thesis by (auto simp: proc_step_def sm_inv_def)
qed

lemma proc_step_upd: "proc_step s t \<Longrightarrow> proc_ok p \<Longrightarrow> proc_step s (t\<lparr>proc := (proc t)(x := p)\<rparr>)"
  using lists_ok_cong [of t _ _ "t\<lparr>proc := (proc t)(x := p)\<rparr>"]
  by (auto simp: proc_step_def procs_ok_def)

lemma proc_step_refl: "sm_inv s \<Longrightarrow> proc_step s s"
  by (auto simp: proc_step_def sm_inv_def)

lemma publish_step:
  "sm_inv s \<Longrightarrow> publish_loop e sel nid flags fuel s p pids = Some (r, ids, t) \<Longrightarrow> proc_step s t"
  using publish_loop_frame [of e sel nid flags fuel s p pids r ids t]
  by (intro proc_stepI) (auto simp: sm_inv_def)

lemma EnableNotification_inv [inv_intros]:
  assumes i: "sm_inv s" and r: "EnableNotification e s sd = Some (res, h, t)"
  shows "sm_inv t"
proof -
  have ok: "proc_ok (proc u x\<lparr>notificationEnabled := True\<rparr>)" if "procs_ok u" for u :: "'a sm" and x
    using that by (simp add: procs_ok_def)
  have "proc_step s t"
  proof (cases "findProcessData s (s_pid (sess s sd))")
    case None
    then show ?thesis using r by (simp add: EnableNotification_def)
  next
    case (Some p)
    show ?thesis
    proof (cases p)
      case (Some x)
      with r \<open>findProcessData s _ = Some p\<close> show ?thesis
        using proc_step_upd [OF proc_step_refl [OF i] ok [OF sm_invD(2) [OF i], of x], of x]
        by (auto simp: EnableNotification_def)
    next
      case None
      note n = None
      show ?thesis
      proof (cases "s_pid (sess s sd) < nbSection0Modules s")
        case True
        with r n \<open>findProcessData s _ = Some p\<close> obtain x u where
          u: "doRegisterProcess e s (s_pid (sess s sd)) = Some (x, u)"
          "t = upd_proc u x (\<lambda>p. p\<lparr>notificationEnabled := True\<rparr>)"
          by (auto simp: EnableNotification_def split: bind_splits)
        show ?thesis unfolding u(2)
          by (rule proc_step_upd [OF doRegisterProcess_step [OF i u(1)]
                ok [OF doRegisterProcess_procs [OF sm_invD(2) [OF i] u(1)]]])
      next
        case False
        with r n \<open>findProcessData s _ = Some p\<close> i show ?thesis
          by (simp add: EnableNotification_def proc_step_refl)
      qed
    qed
  qed
  then show ?thesis by (rule proc_step_inv [OF i])
qed

lemma single_process_inv:
  assumes "sm_inv s" and "proc_ok p"
  shows "sm_inv (s\<lparr>proc := (proc s)(x := p)\<rparr>)"
  using proc_step_inv [OF assms(1) proc_step_upd [OF proc_step_refl [OF assms(1)] assms(2)]] .

lemma kern_inv [simp]: "sm_inv (s\<lparr>kern := k\<rparr>) = sm_inv s"
  by (simp add: sm_inv_def procs_ok_def lists_ok_def)

lemma subscription_inv [inv_intros]:
  assumes i: "sm_inv s"
  shows "Subscribe s sd nid = Some (res, t) \<Longrightarrow> sm_inv t"
    and "Unsubscribe s sd nid = Some (res, t) \<Longrightarrow> sm_inv t"
    and "ReceiveNotification s sd = Some (res, out, t) \<Longrightarrow> sm_inv t"
proof -
  have p: "proc_ok (proc s x)" for x using i by (simp add: sm_inv_def procs_ok_def)
  show "sm_inv t" if "Subscribe s sd nid = Some (res, t)"
    using that i subs_steps_ok(1) [OF p]
    by (auto simp: Subscribe_def case_prod_beta Let_def split: bind_splits option.splits if_splits
        intro!: single_process_inv)
  show "sm_inv t" if "Unsubscribe s sd nid = Some (res, t)"
    using that i subs_steps_ok(2) [OF p]
    by (auto simp: Unsubscribe_def case_prod_beta Let_def split: bind_splits option.splits if_splits
        intro!: single_process_inv)
  show "sm_inv t" if "ReceiveNotification s sd = Some (res, out, t)"
    using that i ring_pop_ok [OF p]
    by (auto simp: ReceiveNotification_def case_prod_beta Let_def split: bind_splits option.splits if_splits
        intro!: single_process_inv)
qed

lemma publish_inv [inv_intros]:
  assumes i: "sm_inv s"
  shows "PublishToSubscriber e s nid flags = Some (res, t) \<Longrightarrow> sm_inv t"
    and "PublishAndGetSubscriber e s nid flags = Some (res, ids, t) \<Longrightarrow> sm_inv t"
    and "PublishToAll e s nid = Some (res, t) \<Longrightarrow> sm_inv t"
  using publish_step [OF i] proc_step_inv [OF i]
  by (auto simp: PublishToSubscriber_def PublishAndGetSubscriber_def PublishToAll_def split: bind_splits)

lemma doPublish_inv:
  assumes "sm_inv s" and "doPublishNotification e s x nid flags = Some (ok, t)"
  shows "sm_inv t"
proof -
  note F = doPublishNotification_frame [OF assms(2)]
  have "procs_ok t" using assms(1) by (simp add: sm_inv_def procs_ok_def F(6))
  then have "proc_step s t" by (rule proc_stepI [OF assms(1) F(1) F(2) F(3) F(4) F(5)])
  then show ?thesis by (rule proc_step_inv [OF assms(1)])
qed

lemma PublishToProcess_inv [inv_intros]:
  "sm_inv s \<Longrightarrow> PublishToProcess e s h nid = Some (res, t) \<Longrightarrow> sm_inv t"
  by (auto simp: PublishToProcess_def Let_def split: bind_splits prod.splits option.splits if_splits
      dest!: doPublish_inv [rotated])

lemma RegisterProcess_inv [inv_intros]:
  assumes i: "sm_inv s" and r: "RegisterProcess e s pid n = Some (res, t)"
  shows "sm_inv t"
proof -
  have "proc_step s t"
    using r doRegisterProcess_step [OF i] proc_step_refl [OF i]
    by (auto simp: RegisterProcess_def Let_def split: bind_splits option.splits if_splits)
  then show ?thesis by (rule proc_step_inv [OF i])
qed

lemma UnregisterProcess_inv [inv_intros]:
  assumes i: "sm_inv s" and r: "UnregisterProcess e s pid = Some (res, t)"
  shows "sm_inv t"
proof -
  obtain S P where l: "lists_ok s S P" using i by (auto simp: sm_inv_def)
  obtain P' where "lists_ok t S P'" using UnregisterProcess_lists [OF l r] ..
  moreover have "nbServices t \<le> MAX_SERVICES \<and> length (servicesInfo t) = MAX_SERVICES"
    using r i unregister_loop_mset [of 0 "nbServices s" "servicesInfo s" e pid]
    by (fastforce simp: UnregisterProcess_def sm_inv_def Let_def split: bind_splits option.splits prod.splits)
  moreover have "proc t = proc s" "sess t = sess s"
    using r by (auto simp: UnregisterProcess_def Let_def split: bind_splits option.splits prod.splits)
  ultimately show ?thesis using i by (auto simp: sm_inv_def procs_ok_def)
qed

lemma complete_registration_inv:
  assumes i: "sm_inv s" and room: "nbServices s < MAX_SERVICES"
    and r: "complete_registration e s pid p name isNP = Some t"
  shows "sm_inv t"
proof -
  obtain S P where l: "lists_ok s S P" using i by (auto simp: sm_inv_def)
  from complete_registration_spec [OF l r] i room show ?thesis
    by (auto simp: sm_inv_def procs_ok_def add_service_def)
qed

lemma doRegister_inv [inv_intros]:
  assumes i: "sm_inv s" and r: "doRegisterServiceOrPort e s pid cp name n m isNP = Some (res, h, t)"
  shows "sm_inv t"
  using r i
  by (auto simp: doRegisterServiceOrPort_def Let_def split: bind_splits if_splits prod.splits
      elim!: complete_registration_inv [rotated 2])

lemma Unregister_inv [inv_intros]:
  assumes i: "sm_inv s" and r: "UnregisterServiceOrPort e s sd name n isNP = (res, t)"
  shows "sm_inv t"
proof -
  have "sl t = sl s" "pl t = pl s" "proc t = proc s" "sess t = sess s"
    "nbServices t \<le> nbServices s" "length (servicesInfo t) = length (servicesInfo s)"
    using r by (auto simp: UnregisterServiceOrPort_def remove_service_def Let_def split: option.splits if_splits)
  with i lists_ok_cong [of s _ _ t] show ?thesis by (auto simp: sm_inv_def procs_ok_def)
qed

lemma sess_inv:
  assumes "sm_inv s" and "length (replayCmdbuf n) = 4"
  shows "sm_inv (s\<lparr>sess := (sess s)(x := n)\<rparr>)"
  using assms lists_ok_cong [of s _ _ "s\<lparr>sess := (sess s)(x := n)\<rparr>"]
  by (auto simp: sm_inv_def procs_ok_def)

lemma kern_sess_inv:
  assumes "sm_inv s" and "length (replayCmdbuf n) = 4"
  shows "sm_inv (s\<lparr>kern := k, sess := (sess s)(x := n)\<rparr>)"
  using sess_inv [of "s\<lparr>kern := k\<rparr>" n x] assms by simp

lemma GetServiceHandle_inv [inv_intros]:
  assumes i: "sm_inv s" and r: "GetServiceHandle e s sd name n flags = (res, h, t)"
  shows "sm_inv t"
  using r i sm_invD(5) [OF i, of sd]
  by (auto simp: GetServiceHandle_def Let_def sess_inv kern_sess_inv split: option.splits if_splits prod.splits)

lemma save_replay_inv: "sm_inv s \<Longrightarrow> 4 \<le> length buf \<Longrightarrow> sm_inv (save_replay s sd buf)"
  unfolding save_replay_def by (rule sess_inv) auto

lemma length_put_words [simp]: "length (put_words buf i ws) = length buf"
  by (induction ws arbitrary: buf i) auto

section \<open>The commands keep the invariant and the buffer's size\<close>

lemma service_cmds_inv:
  assumes i: "sm_inv s" and l: "4 \<le> length buf"
  shows "cmd_RegisterClient e s sd buf = (res, b, t) \<Longrightarrow> sm_inv t \<and> length b = length buf"
    and "cmd_GetServiceHandle e s sd buf = (res, b, t) \<Longrightarrow> sm_inv t \<and> length b = length buf"
    and "cmd_RegisterPort e s sd buf = Some (res, b, t) \<Longrightarrow> sm_inv t \<and> length b = length buf"
    and "cmd_GetPort e s sd buf = (res, b, t) \<Longrightarrow> sm_inv t \<and> length b = length buf"
    and "cmd_PublishAndGetSubscriber e junk s buf = Some (res, b, t) \<Longrightarrow> sm_inv t \<and> length b = length buf"
  subgoal using i sm_invD(5) [OF i, of sd]
    by (auto simp: cmd_RegisterClient_def invalid_command_def sess_inv split: if_splits)
  subgoal using GetServiceHandle_inv [OF i] l
    by (auto simp: cmd_GetServiceHandle_def save_replay_inv split: prod.splits if_splits)
  subgoal using i doRegister_inv [OF i]
    by (auto simp: cmd_RegisterPort_def RegisterPort_def invalid_command_def split: bind_splits if_splits)
  subgoal using i l
    by (auto simp: cmd_GetPort_def save_replay_inv split: prod.splits if_splits)
  subgoal using publish_inv(2) [OF i]
    by (auto simp: cmd_PublishAndGetSubscriber_def Let_def split: bind_splits)
  done

lemmas srv_defs = srvHandleCommands_def RegisterService_def doRegisterService_def
  UnregisterService_def UnregisterPort_def invalid_command_def

lemma srvHandleCommands_inv:
  assumes i: "sm_inv s" and l: "4 \<le> length buf"
    and r: "srvHandleCommands e junk s sd buf = Some (res, b, t)"
  shows "sm_inv t \<and> length b = length buf"
proof -
  define cmd where "cmd = drop_bit 16 (buf ! 0)"
  note c = cmd_def [symmetric]
  consider "cmd \<in> {1, 5, 6, 8, 13}" | "cmd = 2" | "cmd \<in> {3}" | "cmd \<in> {4, 7}" | "cmd = 9" | "cmd = 10" | "cmd = 11" |
    "cmd = 12" | "cmd = 14" | "cmd \<notin> {1, 2, 3, 4, 5, 6, 7, 8, 9, 10, 11, 12, 13, 14}"
    by blast
  then show ?thesis
  proof cases
    case 1 then show ?thesis using r service_cmds_inv [OF i l] by (auto simp: srvHandleCommands_def c)
  next
    case 2 then show ?thesis using r EnableNotification_inv [OF i]
      by (auto simp: srvHandleCommands_def c split: bind_splits)
  next
    case 3 then show ?thesis using r doRegister_inv [OF i]
      by (auto simp: srv_defs c split: bind_splits)
  next
    case 4 then show ?thesis using r Unregister_inv [OF i]
      by (auto simp: srv_defs c split: prod.splits)
  next
    case 5 then show ?thesis using r subscription_inv(1) [OF i]
      by (auto simp: srvHandleCommands_def c split: bind_splits)
  next
    case 6 then show ?thesis using r subscription_inv(2) [OF i]
      by (auto simp: srvHandleCommands_def c split: bind_splits)
  next
    case 7 then show ?thesis using r subscription_inv(3) [OF i]
      by (auto simp: srvHandleCommands_def c split: bind_splits)
  next
    case 8 then show ?thesis using r publish_inv(1) [OF i]
      by (auto simp: srvHandleCommands_def c split: bind_splits)
  next
    case 9 then show ?thesis using r i by (auto simp: srvHandleCommands_def c split: prod.splits)
  next
    case 10 then show ?thesis using r i by (auto simp: srv_defs c)
  qed
qed

lemma srvPmHandleCommands_inv:
  assumes i: "sm_inv s" and l: "4 \<le> length buf"
    and r: "srvPmHandleCommands e junk s sd buf = Some (res, b, t)"
  shows "sm_inv t \<and> length b = length buf"
proof -
  define mask where "mask = drop_bit 16 (buf ! 0 AND 0x04000000)"
  define cmd where "cmd = drop_bit 16 (buf ! 0) AND NOT mask"
  note r' = r [unfolded srvPmHandleCommands_def Let_def, folded mask_def, folded cmd_def]
  note c = invalid_command_def
  consider "IS_PRE_7X e \<and> mask = 0" | "\<not> IS_PRE_7X e \<and> mask \<noteq> 0"
    | "IS_PRE_7X e \<longleftrightarrow> mask \<noteq> 0" by blast
  then show ?thesis
  proof cases
    case 1 then show ?thesis using r' srvHandleCommands_inv [OF i l, of e junk sd res b t] by simp
  next
    case 2 then show ?thesis using r' i by (auto simp: c)
  next
    case 3
    then have n: "\<not> (IS_PRE_7X e \<and> mask = 0)" "\<not> (\<not> IS_PRE_7X e \<and> mask \<noteq> 0)" by blast+
    consider "cmd = 1" | "cmd = 2" | "cmd = 3" | "cmd = 4" | "cmd \<notin> {1, 2, 3, 4}" by blast
    then show ?thesis
    proof cases
      case 1 then show ?thesis using r' n i PublishToProcess_inv [OF i] 
        by (auto simp: c split: bind_splits if_splits)
    next
      case 2 then show ?thesis using r' n publish_inv(3) [OF i] 
        by (auto simp: c split: bind_splits)
    next
      case 3 then show ?thesis using r' n i RegisterProcess_inv [OF i] 
        by (auto simp: c split: bind_splits if_splits)
    next
      case 4 then show ?thesis using r' n UnregisterProcess_inv [OF i] 
        by (auto simp: c split: bind_splits)
    next
      case 5 then show ?thesis using r' n i  by (auto simp: c)
    qed
  qed
qed

end
