(* ===== verification/Sm_Main.thy ===== *)
theory Sm_Main
  imports Sm_Srv
begin

text \<open>
  The main loop of the service manager, \<open>sysmodules/sm/source/main.c\<close>. One iteration is the
  function \<open>main_iteration\<close> over the loop's state: the service manager's globals, the command
  buffer, the handle to reply to and the two server ports. \<^term>\<open>None\<close> is a panic, or an access
  outside the array of handles.

  Lemmas: every iteration keeps the invariant of the state, the wait list never exceeds the
  array, a blocked session is parked and not replied to, a woken one is replayed.
\<close>

section \<open>Operations\<close>

record 'k mainloop =
  m_sm :: "'k sm"
  m_cmdbuf :: "u32 list"
  m_reply :: handle
  m_srvPort :: handle
  m_srvPmPort :: handle

text \<open>\<open>main\<close> before its loop.\<close>

definition srv_name :: bytes where "srv_name = [0x73, 0x72, 0x76, 0x3A, 0]"
definition srvpm_name :: bytes where "srvpm_name = [0x73, 0x72, 0x76, 0x3A, 0x70, 0x6D, 0]"

definition main_init :: "'k env \<Rightarrow> u32 \<Rightarrow> u32 list \<Rightarrow> 'k \<Rightarrow> 'k mainloop option" where
  "main_init e nbSec0 cmdbuf k = do {
     s \<leftarrow> initSystem e nbSec0 k;
     let (r, smPid, k1) = svcGetProcessId e (kern s) (CUR_PROCESS_HANDLE e);
     assertSuccess e r;
     let (r, srvPort, _, k2) = svcCreateNamedPort e k1 srv_name 64;
     assertSuccess e r;
     if IS_PRE_7X e then do {
       let (r, srvPmPort, _, k3) = svcCreateNamedPort e k2 srvpm_name 64;
       assertSuccess e r;
       Some \<lparr>m_sm = s\<lparr>kern := k3\<rparr>, m_cmdbuf = cmdbuf, m_reply = 0, m_srvPort = srvPort, m_srvPmPort = srvPmPort\<rparr>
     } else do {
       (r, srvPmPort, t) \<leftarrow> doRegisterService e (s\<lparr>kern := k2\<rparr>) smPid srvpm_name 6 64;
       assertSuccess e r;
       Some \<lparr>m_sm = t, m_cmdbuf = cmdbuf, m_reply = 0, m_srvPort = srvPort, m_srvPmPort = srvPmPort\<rparr>
     }
   }"

text \<open>The loops that rebuild the array of handles.\<close>

fun collect :: "(nat \<Rightarrow> nat option) \<Rightarrow> nat \<Rightarrow> (nat \<Rightarrow> handle) \<Rightarrow> nat option \<Rightarrow> handle list option" where
  "collect nxt fuel f None = Some []"
| "collect nxt 0 f (Some x) = None"
| "collect nxt (Suc fuel) f (Some x) = do { hs \<leftarrow> collect nxt fuel f (nxt x); Some (f x # hs) }"

definition rebuild_handles :: "'k mainloop \<Rightarrow> (handle list \<times> nat) option" where
  "rebuild_handles m = do {
     let s = m_sm m;
     a \<leftarrow> collect (node_next (sl s)) SESS_POOL (\<lambda>x. s_handle (sess s x)) (list_first (sl s) SessInUse);
     b \<leftarrow> collect (node_next (sl s)) SESS_POOL (\<lambda>x. busyClientPortHandle (sess s x))
           (list_first (sl s) SessWaitPortReady);
     Some ([resumeSemaphore s, m_srvPort m, m_srvPmPort m] @ a @ b, length a)
   }"

text \<open>A session closed: the last entry of the pool with that handle is freed.\<close>

definition session_of_handle :: "'k sm \<Rightarrow> handle \<Rightarrow> nat option" where
  "session_of_handle s h =
     fold (\<lambda>i acc. if s_handle (sess s i) = h then Some i else acc) [0..<SESS_POOL] None"

definition close_session :: "'k env \<Rightarrow> 'k sm \<Rightarrow> handle \<Rightarrow> 'k sm option" where
  "close_session e s h =
     (case session_of_handle s h of
        None \<Rightarrow> None
      | Some x \<Rightarrow> Some (s\<lparr>kern := svcCloseHandle e (kern s) (s_handle (sess s x)),
                        sl := moveNode (sl s) x SessFree False\<rparr>))"

text \<open>A port closed: the sessions that waited for it to be ready wait for a registration.\<close>

definition postpone_session :: "'k sm \<Rightarrow> nat \<Rightarrow> 'k sm" where
  "postpone_session s x =
     upd_sess ((upd_sess s x (\<lambda>n. n\<lparr>replayCmdbuf := (replayCmdbuf n)[1 := 0xD0406401]\<rparr>))
         \<lparr>sl := moveNode (sl s) x SessWaitRegister True\<rparr>) x (\<lambda>n. n\<lparr>busyClientPortHandle := 0\<rparr>)"

fun port_closed_loop :: "nat \<Rightarrow> handle \<Rightarrow> 'k sm \<Rightarrow> nat option \<Rightarrow> 'k sm option" where
  "port_closed_loop fuel h s None = Some s"
| "port_closed_loop 0 h s (Some x) = None"
| "port_closed_loop (Suc fuel) h s (Some x) =
     (let nx = node_next (sl s) x
      in port_closed_loop fuel h (if busyClientPortHandle (sess s x) = h then postpone_session s x else s) nx)"

definition handle_unreachable :: "'k env \<Rightarrow> 'k sm \<Rightarrow> handle list \<Rightarrow> nat \<Rightarrow> handle \<Rightarrow> int \<Rightarrow> 'k sm option" where
  "handle_unreachable e s handles nbSessions replyTarget ix0 =
     (let ix = (if ix0 < 0 then length (takeWhile (\<lambda>h. h \<noteq> replyTarget) handles) else nat ix0)
      in if ix \<ge> length handles then None
         else if ix < 3 then None
         else if ix < 3 + nbSessions then close_session e s (handles ! ix)
         else port_closed_loop SESS_POOL (handles ! ix) s (list_first (sl s) SessWaitPortReady))"

text \<open>A new session of one of the ports.\<close>

definition new_session :: "'k env \<Rightarrow> 'k sm \<Rightarrow> handle \<Rightarrow> bool \<Rightarrow> 'k sm option" where
  "new_session e s port pm = do {
     let (r, session, k) = svcAcceptSession e (kern s) port;
     assertSuccess e r;
     (x, l) \<leftarrow> allocateNode (sl s) SessInUse SessFree False;
     Some (s\<lparr>kern := k, sl := l,
             sess := (sess s)(x := zero_session\<lparr>s_pid := -1, s_handle := session, isSrvPm := pm\<rparr>)\<rparr>)
   }"

text \<open>
  The session whose command is handled next, the state after it was taken from its list and the
  command buffer: a woken session (index 0), a session that waited for a full service, or the
  session that sent a request. The outer option is the panic, the inner \<^term>\<open>None\<close> the \<open>continue\<close>.
\<close>

definition resume_session :: "'k sm \<Rightarrow> nat \<Rightarrow> u32 list \<Rightarrow> 'k sm \<times> u32 list" where
  "resume_session s x buf =
     (s\<lparr>sl := moveNode (sl s) x SessInUse False\<rparr>, replayCmdbuf (sess s x) @ drop 4 buf)"

definition pick_session ::
  "'k sm \<Rightarrow> u32 list \<Rightarrow> handle list \<Rightarrow> nat \<Rightarrow> nat \<Rightarrow> (nat \<times> 'k sm \<times> u32 list) option option" where
  "pick_session s buf handles nbSessions ix =
     (if ix = 0 then
        (case list_first (sl s) SessWakeUp of
           None \<Rightarrow> None
         | Some x \<Rightarrow> Some (Some (x, resume_session s x buf)))
      else if ix \<ge> 3 + nbSessions then
        (case find_loop (node_next (sl s)) SESS_POOL (\<lambda>x. busyClientPortHandle (sess s x) = handles ! ix)
            (list_first (sl s) SessWaitPortReady) of
           None \<Rightarrow> None
         | Some None \<Rightarrow> Some None
         | Some (Some x) \<Rightarrow>
             let (t, buf') = resume_session s x buf
             in Some (Some (x, upd_sess t x (\<lambda>n. n\<lparr>busyClientPortHandle := 0\<rparr>), buf')))
      else
        (case find_loop (node_next (sl s)) SESS_POOL (\<lambda>x. s_handle (sess s x) = handles ! ix)
            (list_first (sl s) SessInUse) of
           None \<Rightarrow> None
         | Some None \<Rightarrow> None
         | Some (Some x) \<Rightarrow> Some (Some (x, s, buf))))"

text \<open>The command of the session, and where the session goes when the command would block.\<close>

definition run_command :: "'k env \<Rightarrow> u32 \<Rightarrow> 'k sm \<Rightarrow> nat \<Rightarrow> u32 list \<Rightarrow> ('k sm \<times> u32 list \<times> handle) option" where
  "run_command e junk s x buf = do {
     (res, buf', t) \<leftarrow> (if isSrvPm (sess s x) then srvPmHandleCommands e junk s x buf
                        else srvHandleCommands e junk s x buf);
     if would_block e res then
       if res = 0xD0406401 then Some (t\<lparr>sl := moveNode (sl t) x SessWaitRegister True\<rparr>, buf', 0)
       else if res = 0xD0406402 then Some (t\<lparr>sl := moveNode (sl t) x SessWaitPortReady True\<rparr>, buf', 0)
       else None
     else Some (t, buf', s_handle (sess t x))
   }"

text \<open>The body of the loop after the kernel call.\<close>

definition handle_event ::
  "'k env \<Rightarrow> u32 \<Rightarrow> 'k mainloop \<Rightarrow> handle list \<Rightarrow> nat \<Rightarrow> result \<Rightarrow> int \<Rightarrow> 'k mainloop option" where
  "handle_event e junk m handles nbSessions res ix =
     (let s = m_sm m
      in if res = 0xC920181A then do {
           t \<leftarrow> handle_unreachable e s handles nbSessions (m_reply m) ix;
           Some (m\<lparr>m_sm := t, m_reply := 0\<rparr>) }
         else if R_FAILED e res then None
         else if ix < 0 \<or> ix \<ge> int (length handles) then None
         else if ix = 1 then do {
           t \<leftarrow> new_session e s (m_srvPort m) False; Some (m\<lparr>m_sm := t, m_reply := 0\<rparr>) }
         else if ix = 2 then do {
           t \<leftarrow> new_session e s (m_srvPmPort m) True; Some (m\<lparr>m_sm := t, m_reply := 0\<rparr>) }
         else do {
           p \<leftarrow> pick_session s (m_cmdbuf m) handles nbSessions (nat ix);
           (case p of
              None \<Rightarrow> Some (m\<lparr>m_reply := 0\<rparr>)
            | Some (x, t, buf) \<Rightarrow> do {
                (u, buf', reply) \<leftarrow> run_command e junk t x buf;
                Some (m\<lparr>m_sm := u, m_cmdbuf := buf', m_reply := reply\<rparr>) }) })"

definition main_iteration :: "'k env \<Rightarrow> u32 \<Rightarrow> 'k mainloop \<Rightarrow> 'k mainloop option" where
  "main_iteration e junk m = do {
     let buf = (if m_reply m = 0 then (m_cmdbuf m)[0 := 0xFFFF0000] else m_cmdbuf m);
     (handles, nbSessions) \<leftarrow> rebuild_handles m;
     let (res, ix, buf', k) = svcReplyAndReceive e (kern (m_sm m)) handles (m_reply m) buf;
     handle_event e junk (m\<lparr>m_sm := (m_sm m)\<lparr>kern := k\<rparr>, m_cmdbuf := buf'\<rparr>) handles nbSessions res ix
   }"

section \<open>The lists of the loop\<close>

lemma pool_member: "lists_ok s S P \<Longrightarrow> x < SESS_POOL \<Longrightarrow> \<exists>l. x \<in> set (S l)"
  by (auto simp: lists_ok_def pool_rep_def)

lemma move_lists:
  assumes "lists_ok s S P" and "x \<in> set (S l)" and "sl t = moveNode (sl s) x d back" and "pl t = pl s"
  shows "lists_ok t (amove S l x d back) P"
  using assms moveNode_pool [of SESS_POOL "sl s" S x l d "back"] by (simp add: lists_ok_def)

lemma move_inv:
  assumes i: "sm_inv s" and x: "x < SESS_POOL" and t: "sl t = moveNode (sl s) x d back" "pl t = pl s"
    "proc t = proc s" "nbServices t = nbServices s" "servicesInfo t = servicesInfo s"
    and r: "\<forall>x. length (replayCmdbuf (sess t x)) = 4"
  shows "sm_inv t"
proof -
  obtain S P where l: "lists_ok s S P" using sm_invD(1) [OF i] by blast
  from pool_member [OF l x] obtain src where "x \<in> set (S src)" ..
  with move_lists [OF l _ t(1,2)] have "\<exists>S P. lists_ok t S P" by blast
  then show ?thesis using i r t by (simp add: sm_inv_def procs_ok_def)
qed

lemma collect_from:
  assumes "rep st L" and "L l = as @ bs" and "length bs \<le> fuel"
  shows "collect (node_next st) fuel f (head_or bs None) = Some (map f bs)"
  using assms(2,3)
proof (induction bs arbitrary: as fuel)
  case (Cons x bs)
  then obtain k where k: "fuel = Suc k" by (cases fuel) auto
  have "collect (node_next st) k f (head_or bs None) = Some (map f bs)"
    using Cons.IH [of "as @ [x]" k] Cons.prems k by simp
  then show ?case using rep_next [OF assms(1) Cons.prems(1)] by (simp add: k)
qed simp

lemma collect_list:
  assumes "lists_ok s S P"
  shows "collect (node_next (sl s)) SESS_POOL f (list_first (sl s) l) = Some (map f (S l))"
  using collect_from [of "sl s" S l "[]" "S l" SESS_POOL f] lists_ok_reps(1) [OF assms]
    lists_ok_bounds(1) [OF assms, of l] rep_first [of "sl s" S l] by simp

definition wait_list :: "'k mainloop \<Rightarrow> (sess_list \<Rightarrow> nat list) \<Rightarrow> handle list" where
  "wait_list m S = [resumeSemaphore (m_sm m), m_srvPort m, m_srvPmPort m]
     @ map (\<lambda>x. s_handle (sess (m_sm m) x)) (S SessInUse)
     @ map (\<lambda>x. busyClientPortHandle (sess (m_sm m) x)) (S SessWaitPortReady)"

lemma rebuild_handles_eq:
  "lists_ok (m_sm m) S P \<Longrightarrow> rebuild_handles m = Some (wait_list m S, length (S SessInUse))"
  by (simp add: rebuild_handles_def Let_def collect_list wait_list_def)

text \<open>Two lists of one pool together hold at most the pool.\<close>

lemma two_lists_bound:
  assumes "lists_ok s S P" and "a \<noteq> b"
  shows "length (S a) + length (S b) \<le> SESS_POOL"
proof -
  have r: "rep (sl s) S" by (rule lists_ok_reps(1) [OF assms(1)])
  have "set (S a) \<inter> set (S b) = {}" using rep_disjoint [OF r] assms(2) by blast
  then have "length (S a) + length (S b) = card (set (S a) \<union> set (S b))"
    by (simp add: card_Un_disjoint distinct_card rep_distinct [OF r])
  also have "\<dots> \<le> card {..<SESS_POOL}"
    by (rule card_mono) (use lists_ok_bounds(3) [OF assms(1)] in auto)
  finally show ?thesis by simp
qed

lemma session_of_handle_upto:
  "fold (\<lambda>i acc. if s_handle (sess s i) = h then Some i else acc) [0..<n] None = Some x \<longleftrightarrow>
   x < n \<and> s_handle (sess s x) = h \<and> (\<forall>y. x < y \<and> y < n \<longrightarrow> s_handle (sess s y) \<noteq> h)"
  by (induction n) (auto simp: less_Suc_eq)

lemma session_of_handle_Some:
  "session_of_handle s h = Some x \<longleftrightarrow>
   x < SESS_POOL \<and> s_handle (sess s x) = h \<and> (\<forall>y. x < y \<and> y < SESS_POOL \<longrightarrow> s_handle (sess s y) \<noteq> h)"
  unfolding session_of_handle_def by (rule session_of_handle_upto)

section \<open>The invariant\<close>

lemma close_session_inv: "sm_inv s \<Longrightarrow> close_session e s h = Some t \<Longrightarrow> sm_inv t"
  using move_inv [of s _ t SessFree False]
  by (auto simp: close_session_def session_of_handle_Some sm_invD(5) split: option.splits)

lemma postpone_inv: "sm_inv s \<Longrightarrow> x < SESS_POOL \<Longrightarrow> sm_inv (postpone_session s x)"
  by (rule move_inv [of s x]) (auto simp: postpone_session_def sm_inv_def)

text \<open>The loop of a closed port: the sessions of that port move, in order, to the back of the
  other waiting list.\<close>

abbreviation busy_on :: "'k sm \<Rightarrow> handle \<Rightarrow> nat \<Rightarrow> bool" where
  "busy_on s h x \<equiv> busyClientPortHandle (sess s x) = h"

definition postponed :: "session \<Rightarrow> session" where
  "postponed n = n\<lparr>replayCmdbuf := (replayCmdbuf n)[1 := 0xD0406401], busyClientPortHandle := 0\<rparr>"

lemma postpone_fields:
  "sess (postpone_session s x) = (sess s)(x := postponed (sess s x))"
  "sl (postpone_session s x) = moveNode (sl s) x SessWaitRegister True"
  "pl (postpone_session s x) = pl s" "proc (postpone_session s x) = proc s"
  "nbServices (postpone_session s x) = nbServices s" "servicesInfo (postpone_session s x) = servicesInfo s"
  by (simp_all add: postpone_session_def postponed_def)

definition same_rest :: "'k sm \<Rightarrow> 'k sm \<Rightarrow> bool" where
  "same_rest s t \<longleftrightarrow> pl t = pl s \<and> proc t = proc s \<and> nbServices t = nbServices s \<and> servicesInfo t = servicesInfo s"

lemma filter_same: "\<forall>x \<in> set xs. Q x = R x \<Longrightarrow> filter Q xs = filter R xs"
  by (auto intro: filter_cong)

lemma port_closed_from:
  assumes "lists_ok s S P" and "S SessWaitPortReady = as @ bs" and "length bs \<le> fuel"
    and "\<forall>x \<in> set as. \<not> busy_on s h x"
  shows "\<exists>t. port_closed_loop fuel h s (head_or bs None) = Some t \<and> same_rest s t \<and>
     lists_ok t (S(SessWaitPortReady := as @ filter (\<lambda>x. \<not> busy_on s h x) bs,
                   SessWaitRegister := S SessWaitRegister @ filter (busy_on s h) bs)) P \<and>
     sess t = (\<lambda>x. if x \<in> set bs \<and> busy_on s h x then postponed (sess s x) else sess s x)"
  using assms
proof (induction bs arbitrary: as fuel s S)
  case Nil
  have "S(SessWaitPortReady := as, SessWaitRegister := S SessWaitRegister) = S"
    using Nil.prems(2) by (auto simp: fun_eq_iff)
  with Nil.prems show ?case by (simp add: same_rest_def del: fun_upd_apply)
next
  case (Cons x bs)
  then obtain k where k: "fuel = Suc k" by (cases fuel) auto
  have r: "rep (sl s) S" by (rule lists_ok_reps(1) [OF Cons.prems(1)])
  have nx: "node_next (sl s) x = head_or bs None" by (rule rep_next [OF r Cons.prems(2)])
  have di: "distinct (as @ x # bs)" using rep_distinct [OF r, of SessWaitPortReady] Cons.prems(2) by simp
  show ?case
  proof (cases "busy_on s h x")
    case False
    obtain t where "port_closed_loop k h s (head_or bs None) = Some t" "same_rest s t"
      "lists_ok t (S(SessWaitPortReady := (as @ [x]) @ filter (\<lambda>x. \<not> busy_on s h x) bs,
                   SessWaitRegister := S SessWaitRegister @ filter (busy_on s h) bs)) P"
      "sess t = (\<lambda>x. if x \<in> set bs \<and> busy_on s h x then postponed (sess s x) else sess s x)"
      using Cons.IH [OF Cons.prems(1), of "as @ [x]" k] Cons.prems(2,3,4) False k
      by (auto simp del: fun_upd_apply)
    with False show ?thesis by (auto simp: k nx fun_eq_iff simp del: fun_upd_apply)
  next
    case True
    let ?s = "postpone_session s x" and ?S = "amove S SessWaitPortReady x SessWaitRegister True"
    have l: "lists_ok ?s ?S P"
      by (rule move_lists [OF Cons.prems(1)]) (simp_all add: Cons.prems(2) postpone_fields)
    have S1: "?S SessWaitPortReady = as @ bs" "?S SessWaitRegister = S SessWaitRegister @ [x]"
      using Cons.prems(2) di by (auto simp: amove_def remove1_append)
    have b: "\<forall>y \<in> set as \<union> set bs. sess ?s y = sess s y" using di by (auto simp: postpone_fields)
    have f: "filter (busy_on ?s h) bs = filter (busy_on s h) bs"
      "filter (\<lambda>x. \<not> busy_on ?s h x) bs = filter (\<lambda>x. \<not> busy_on s h x) bs"
      by (rule filter_same, simp add: b)+
    have as: "\<forall>y \<in> set as. \<not> busy_on ?s h y" using Cons.prems(4) b by auto
    obtain t where t: "port_closed_loop k h ?s (head_or bs None) = Some t" "same_rest ?s t"
      "lists_ok t (?S(SessWaitPortReady := as @ filter (\<lambda>x. \<not> busy_on s h x) bs,
                   SessWaitRegister := (S SessWaitRegister @ [x]) @ filter (busy_on s h) bs)) P"
      "sess t = (\<lambda>y. if y \<in> set bs \<and> busy_on ?s h y then postponed (sess ?s y) else sess ?s y)"
      using Cons.IH [OF l S1(1), of k] Cons.prems(3) k as unfolding S1(2) f
      by (auto simp del: fun_upd_apply)
    have "?S(SessWaitPortReady := as @ filter (\<lambda>x. \<not> busy_on s h x) bs,
             SessWaitRegister := (S SessWaitRegister @ [x]) @ filter (busy_on s h) bs) =
          S(SessWaitPortReady := as @ filter (\<lambda>x. \<not> busy_on s h x) (x # bs),
             SessWaitRegister := S SessWaitRegister @ filter (busy_on s h) (x # bs))"
      using True by (auto simp: fun_eq_iff amove_def)
    moreover have "sess t = (\<lambda>y. if y \<in> set (x # bs) \<and> busy_on s h y then postponed (sess s y) else sess s y)"
      unfolding t(4) using True di by (auto simp: fun_eq_iff postpone_fields)
    moreover have "same_rest s t" using t(2) by (simp add: same_rest_def postpone_fields)
    ultimately show ?thesis using t(1,3) True by (simp add: k nx del: fun_upd_apply)
  qed
qed

lemma port_closed_spec:
  assumes "lists_ok s S P"
  shows "\<exists>t. port_closed_loop SESS_POOL h s (list_first (sl s) SessWaitPortReady) = Some t \<and> same_rest s t \<and>
     lists_ok t (S(SessWaitPortReady := filter (\<lambda>x. \<not> busy_on s h x) (S SessWaitPortReady),
                   SessWaitRegister := S SessWaitRegister @ filter (busy_on s h) (S SessWaitPortReady))) P \<and>
     sess t = (\<lambda>x. if x \<in> set (S SessWaitPortReady) \<and> busy_on s h x then postponed (sess s x) else sess s x)"
  using port_closed_from [OF assms, of "[]" "S SessWaitPortReady" SESS_POOL h]
    lists_ok_bounds(1) [OF assms, of SessWaitPortReady] rep_first [OF lists_ok_reps(1) [OF assms]]
  by simp

lemma port_closed_inv:
  assumes i: "sm_inv s" and r: "port_closed_loop SESS_POOL h s (list_first (sl s) SessWaitPortReady) = Some t"
  shows "sm_inv t"
proof -
  obtain S P where l: "lists_ok s S P" using sm_invD(1) [OF i] by blast
  from port_closed_spec [OF l, of h] r have
    t: "same_rest s t" "\<exists>S P. lists_ok t S P"
      "sess t = (\<lambda>x. if x \<in> set (S SessWaitPortReady) \<and> busy_on s h x then postponed (sess s x) else sess s x)"
    by auto
  then show ?thesis using i by (simp add: sm_inv_def procs_ok_def same_rest_def postponed_def)
qed

lemma new_session_inv:
  assumes i: "sm_inv s" and r: "new_session e s port pm = Some t"
  shows "sm_inv t"
proof -
  obtain S P where l: "lists_ok s S P" using sm_invD(1) [OF i] by blast
  from r obtain x l' n where a: "allocateNode (sl s) SessInUse SessFree False = Some (x, l')"
    and t: "sl t = l'" "pl t = pl s" "proc t = proc s" "nbServices t = nbServices s"
      "servicesInfo t = servicesInfo s" "sess t = (sess s)(x := n)" "length (replayCmdbuf n) = 4"
    by (auto simp: new_session_def Let_def zero_session_def split: bind_splits prod.splits)
  from allocateNode_rep [OF lists_ok_reps(1) [OF l] a] have "x \<in> set (S SessFree)" by auto
  then have x: "x < SESS_POOL" by (rule lists_ok_bounds(3) [OF l])
  have l': "l' = moveNode (sl s) x SessInUse False"
    using a by (auto simp: allocateNode_def split: option.splits)
  show ?thesis
    by (rule move_inv [OF i x t(1) [unfolded l'] t(2,3,4,5)]) (use sm_invD(5) [OF i] t(6,7) in auto)
qed

lemma unreachable_inv:
  assumes "sm_inv s" and "handle_unreachable e s handles n rt ix = Some t"
  shows "sm_inv t"
  using assms close_session_inv [OF assms(1)] port_closed_inv [OF assms(1)]
  by (auto simp: handle_unreachable_def Let_def split: if_splits)

lemma find_in_list:
  assumes "lists_ok s S P"
  shows "find_loop (node_next (sl s)) SESS_POOL Q (list_first (sl s) l) = Some (List.find Q (S l))"
  using sml.find_loop_finds [OF lists_ok_reps(1) [OF assms] lists_ok_bounds(1) [OF assms]] .

lemma resume_inv:
  assumes "sm_inv s" and "x < SESS_POOL"
  shows "sm_inv (fst (resume_session s x buf))"
  using assms(1) by (intro move_inv [OF assms]) (auto simp: resume_session_def sm_invD(5))

lemma pick_session_inv:
  assumes i: "sm_inv s" and r: "pick_session s buf handles n ix = Some (Some (x, t, buf'))"
    and b: "4 \<le> length buf"
  shows "sm_inv t \<and> x < SESS_POOL \<and> 4 \<le> length buf'"
proof -
  obtain S P where l: "lists_ok s S P" using sm_invD(1) [OF i] by blast
  have fst: "list_first (sl s) SessWakeUp = Some y \<Longrightarrow> y < SESS_POOL" for y
    using rep_first [OF lists_ok_reps(1) [OF l], of SessWakeUp] lists_ok_bounds(3) [OF l, of _ SessWakeUp]
    by (cases "S SessWakeUp") auto
  have fnd: "List.find Q (S k) = Some y \<Longrightarrow> y < SESS_POOL" for Q k y
    using find_Some_in lists_ok_bounds(3) [OF l] by metis
  have res: "sm_inv (s\<lparr>sl := moveNode (sl s) y SessInUse False\<rparr>)" if "y < SESS_POOL" for y
    using resume_inv [OF i that] by (simp add: resume_session_def)
  have ready: "sm_inv (s\<lparr>sl := moveNode (sl s) y SessInUse False,
      sess := (sess s)(y := (sess s y)\<lparr>busyClientPortHandle := 0\<rparr>)\<rparr>)" if "y < SESS_POOL" for y
    using sess_inv [OF res [OF that], of "(sess s y)\<lparr>busyClientPortHandle := 0\<rparr>" y]
    by (simp add: sm_invD(5) [OF i])
  consider "ix = 0" | "ix \<noteq> 0" "ix \<ge> 3 + n" | "ix \<noteq> 0" "\<not> ix \<ge> 3 + n" by blast
  then show ?thesis
  proof cases
    case 1
    with r fst res b show ?thesis
      by (auto simp: pick_session_def resume_session_def sm_invD(5) [OF i] split: option.splits)
  next
    case 2
    with r fnd ready b sm_invD(5) [OF i] show ?thesis
      by (auto simp: pick_session_def resume_session_def find_in_list [OF l] split: option.splits)
  next
    case 3
    with r fnd i b show ?thesis
      by (auto simp: pick_session_def find_in_list [OF l] split: option.splits)
  qed
qed

lemma run_command_inv:
  assumes i: "sm_inv s" and x: "x < SESS_POOL" and b: "4 \<le> length buf"
    and r: "run_command e junk s x buf = Some (t, buf', h)"
  shows "sm_inv t \<and> length buf' = length buf"
proof -
  obtain res b' u where u: "(if isSrvPm (sess s x) then srvPmHandleCommands e junk s x buf
                        else srvHandleCommands e junk s x buf) = Some (res, b', u)"
  proof -
    from r obtain y where "(if isSrvPm (sess s x) then srvPmHandleCommands e junk s x buf
                        else srvHandleCommands e junk s x buf) = Some y"
      unfolding run_command_def Option.bind_eq_Some_conv by blast
    with that show thesis by (cases y) blast
  qed
  have k: "(if would_block e res then
       if res = 0xD0406401 then Some (u\<lparr>sl := moveNode (sl u) x SessWaitRegister True\<rparr>, b', 0)
       else if res = 0xD0406402 then Some (u\<lparr>sl := moveNode (sl u) x SessWaitPortReady True\<rparr>, b', 0)
       else None
     else Some (u, b', s_handle (sess u x))) = Some (t, buf', h)"
    using r unfolding run_command_def u by simp
  have t: "t = u \<or> (\<exists>d. t = u\<lparr>sl := moveNode (sl u) x d True\<rparr>)" "buf' = b'"
    using k by (auto split: if_splits)
  have U: "sm_inv u \<and> length b' = length buf"
    using u srvPmHandleCommands_inv [OF i b] srvHandleCommands_inv [OF i b] by (simp split: if_splits)
  have "sm_inv (u\<lparr>sl := moveNode (sl u) x d True\<rparr>)" for d
    by (rule move_inv [of u x]) (use U in \<open>auto simp: x sm_invD(5)\<close>)
  with U t show ?thesis by auto
qed

definition loop_inv :: "'k mainloop \<Rightarrow> bool" where
  "loop_inv m \<longleftrightarrow> sm_inv (m_sm m) \<and> 4 \<le> length (m_cmdbuf m)"

lemma handle_event_inv:
  assumes i: "sm_inv (m_sm m)" and b: "4 \<le> length (m_cmdbuf m)"
    and r: "handle_event e junk m handles n res ix = Some m'"
  shows "loop_inv m'"
proof -
  consider "res = 0xC920181A" | "ix = 1" "res \<noteq> 0xC920181A" | "ix = 2" "res \<noteq> 0xC920181A" | "res \<noteq> 0xC920181A" "ix \<noteq> 1" "ix \<noteq> 2" by blast
  then show ?thesis
  proof cases
    case 1 with r b unreachable_inv [OF i] show ?thesis
      by (auto simp: handle_event_def loop_inv_def split: bind_splits)
  next
    case 2 with r b new_session_inv [OF i] show ?thesis
      by (auto simp: handle_event_def loop_inv_def Let_def split: bind_splits if_splits)
  next
    case 3 with r b new_session_inv [OF i] show ?thesis
      by (auto simp: handle_event_def loop_inv_def Let_def split: bind_splits if_splits)
  next
    case 4
    with r obtain p where p: "pick_session (m_sm m) (m_cmdbuf m) handles n (nat ix) = Some p"
      and m': "(case p of None \<Rightarrow> Some (m\<lparr>m_reply := 0\<rparr>)
            | Some (x, t, buf) \<Rightarrow> do {
                (u, buf', reply) \<leftarrow> run_command e junk t x buf;
                Some (m\<lparr>m_sm := u, m_cmdbuf := buf', m_reply := reply\<rparr>) }) = Some m'"
      by (auto simp: handle_event_def Let_def split: bind_splits if_splits)
    show ?thesis
    proof (cases p)
      case None with m' i b show ?thesis by (auto simp: loop_inv_def)
    next
      case (Some a)
      then obtain x t buf where a: "p = Some (x, t, buf)" by (cases a) auto
      from pick_session_inv [OF i _ b, of handles n "nat ix" x t buf] p a
      have P: "sm_inv t" "x < SESS_POOL" "4 \<le> length buf" by auto
      from m' a obtain u buf' reply where u: "run_command e junk t x buf = Some (u, buf', reply)"
        and "m' = m\<lparr>m_sm := u, m_cmdbuf := buf', m_reply := reply\<rparr>"
        by (auto split: bind_splits)
      with run_command_inv [OF P u] P(3) show ?thesis by (simp add: loop_inv_def)
    qed
  qed
qed

text \<open>The kernel fills the command buffer, it does not shorten it.\<close>

definition kernel_buffer_ok :: "'k env \<Rightarrow> bool" where
  "kernel_buffer_ok e \<longleftrightarrow> (\<forall>k hs h buf res ix buf' k'.
     svcReplyAndReceive e k hs h buf = (res, ix, buf', k') \<longrightarrow> length buf' = length buf)"

lemma main_iteration_inv:
  assumes i: "loop_inv m" and k: "kernel_buffer_ok e" and r: "main_iteration e junk m = Some m'"
  shows "loop_inv m'"
proof -
  from r obtain buf handles n res ix buf' k' where
    a: "svcReplyAndReceive e (kern (m_sm m)) handles (m_reply m) buf = (res, ix, buf', k')"
    and b: "buf = (if m_reply m = 0 then (m_cmdbuf m)[0 := 0xFFFF0000] else m_cmdbuf m)"
    and ev: "handle_event e junk (m\<lparr>m_sm := (m_sm m)\<lparr>kern := k'\<rparr>, m_cmdbuf := buf'\<rparr>) handles n res ix = Some m'"
    by (auto simp: main_iteration_def Let_def split: bind_splits prod.splits)
  have "length buf' = length buf" using k a unfolding kernel_buffer_ok_def by blast
  then have "length buf' = length (m_cmdbuf m)" by (simp add: b)
  with i show ?thesis by (intro handle_event_inv [OF _ _ ev]) (simp_all add: loop_inv_def)
qed

section \<open>The life of a blocked command\<close>

text \<open>A command of the public port that would block with one of the two postponing codes.\<close>

definition blocks_with :: "'k env \<Rightarrow> 'k sm \<Rightarrow> nat \<Rightarrow> u32 list \<Rightarrow> result \<Rightarrow> bool" where
  "blocks_with e s x buf res \<longleftrightarrow> \<not> isSrvPm (sess s x) \<and> would_block e res \<and>
     (drop_bit 16 (buf ! 0) = 5 \<and> fst (GetServiceHandle e s x (cmd_name buf) (buf ! 3) (buf ! 4)) = res
    \<or> drop_bit 16 (buf ! 0) = 8 \<and> fst (GetPort e s (cmd_name buf) (buf ! 3) (ucast (buf ! 4))) = res)"

lemma blocked_command:
  assumes "blocks_with e s x buf res"
  shows "\<exists>u. srvHandleCommands e junk s x buf = Some (res, buf, save_replay u x buf) \<and> sl u = sl s \<and> pl u = pl s"
  using assms service_ops_frame(4,5) [of e s x "cmd_name buf" "buf ! 3" "buf ! 4"]
  by (auto simp: blocks_with_def srvHandleCommands_def cmd_GetServiceHandle_def cmd_GetPort_def Let_def
      split: prod.splits)

lemma run_blocked:
  assumes l: "lists_ok s S P" and x: "x \<in> set (S l)" and b: "blocks_with e s x buf res"
    and res: "res = 0xD0406401 \<and> d = SessWaitRegister \<or> res = 0xD0406402 \<and> d = SessWaitPortReady"
  shows "\<exists>t. run_command e junk s x buf = Some (t, buf, 0) \<and> lists_ok t (amove S l x d True) P \<and>
    replayCmdbuf (sess t x) = take 4 buf"
proof -
  obtain u where u: "srvHandleCommands e junk s x buf = Some (res, buf, save_replay u x buf)" "sl u = sl s" "pl u = pl s"
    using blocked_command [OF b] by blast
  let ?t = "(save_replay u x buf)\<lparr>sl := moveNode (sl s) x d True\<rparr>"
  have w: "would_block e res" "\<not> isSrvPm (sess s x)" using b by (simp_all add: blocks_with_def)
  have "run_command e junk s x buf = Some (?t, buf, 0)"
    unfolding run_command_def if_not_P [OF w(2)] u(1) using w(1) res u(2)
    by (auto simp: save_replay_def)
  moreover have "lists_ok ?t (amove S l x d True) P"
    by (rule move_lists [OF l x]) (simp_all add: save_replay_def u(3))
  ultimately show ?thesis by (auto simp: save_replay_def)
qed

lemma pick_woken:
  assumes l: "lists_ok s S P" and w: "S SessWakeUp = x # xs"
  shows "\<exists>t. pick_session s buf handles n 0 = Some (Some (x, t, replayCmdbuf (sess s x) @ drop 4 buf)) \<and>
    lists_ok t (S(SessWakeUp := xs, SessInUse := x # S SessInUse)) P \<and> sess t = sess s"
proof -
  have "amove S SessWakeUp x SessInUse False = S(SessWakeUp := xs, SessInUse := x # S SessInUse)"
    using w by (auto simp: amove_def)
  moreover have "lists_ok (s\<lparr>sl := moveNode (sl s) x SessInUse False\<rparr>) (amove S SessWakeUp x SessInUse False) P"
    by (rule move_lists [OF l]) (simp_all add: w)
  ultimately have "lists_ok (s\<lparr>sl := moveNode (sl s) x SessInUse False\<rparr>)
      (S(SessWakeUp := xs, SessInUse := x # S SessInUse)) P" by simp
  then show ?thesis using rep_first [OF lists_ok_reps(1) [OF l], of SessWakeUp] w
    by (simp add: pick_session_def resume_session_def del: fun_upd_apply)
qed

text \<open>The handle of an entry of the wait list is always found again.\<close>

lemma find_nth:
  assumes "j < length xs"
  shows "\<exists>x \<in> set xs. List.find (\<lambda>x. f x = f (xs ! j)) xs = Some x \<and> f x = f (xs ! j)"
proof (cases "List.find (\<lambda>x. f x = f (xs ! j)) xs")
  case None
  with nth_mem [OF assms] show ?thesis unfolding find_None_iff by blast
next
  case (Some x)
  with find_Some_in [OF Some] show ?thesis by auto
qed

lemma pick_total_aux:
  assumes l: "lists_ok (m_sm m) S P" and ix: "3 \<le> ix" "ix < length (wait_list m S)"
  shows "\<exists>x t buf. pick_session (m_sm m) (m_cmdbuf m) (wait_list m S) (length (S SessInUse)) ix = Some (Some (x, t, buf))
    \<and> (if ix < 3 + length (S SessInUse)
       then x \<in> set (S SessInUse) \<and> s_handle (sess (m_sm m) x) = wait_list m S ! ix \<and> t = m_sm m \<and> buf = m_cmdbuf m
       else x \<in> set (S SessWaitPortReady) \<and> busyClientPortHandle (sess (m_sm m) x) = wait_list m S ! ix \<and>
            buf = replayCmdbuf (sess (m_sm m) x) @ drop 4 (m_cmdbuf m))"
proof -
  let ?s = "m_sm m" and ?n = "length (S SessInUse)"
  note D = pick_session_def find_in_list [OF l] resume_session_def
  obtain j where j: "ix = Suc (Suc (Suc j))" using ix(1) by (metis Suc3_eq_add_3 le_add_diff_inverse)
  show ?thesis
  proof (cases "ix < 3 + ?n")
    case True
    then have "j < ?n" using j by simp
    from find_nth [OF this, of "\<lambda>x. s_handle (sess ?s x)"] obtain x where
      x: "x \<in> set (S SessInUse)" "s_handle (sess ?s x) = s_handle (sess ?s (S SessInUse ! (j)))"
      "List.find (\<lambda>x. s_handle (sess ?s x) = s_handle (sess ?s (S SessInUse ! (j)))) (S SessInUse) = Some x"
      by blast
    have "wait_list m S ! ix = s_handle (sess ?s (S SessInUse ! (j)))"
      using True by (simp add: j wait_list_def nth_Cons' nth_append)
    with x True ix show ?thesis by (simp add: D j)
  next
    case False
    then have jn: "j - ?n < length (S SessWaitPortReady)" using ix j by (simp add: wait_list_def)
    from find_nth [OF jn, of "\<lambda>x. busyClientPortHandle (sess ?s x)"] obtain x where
      x: "x \<in> set (S SessWaitPortReady)"
      "busyClientPortHandle (sess ?s x) = busyClientPortHandle (sess ?s (S SessWaitPortReady ! (j - ?n)))"
      "List.find (\<lambda>x. busyClientPortHandle (sess ?s x) = busyClientPortHandle (sess ?s (S SessWaitPortReady ! (j - ?n))))
        (S SessWaitPortReady) = Some x"
      by blast
    have "wait_list m S ! ix = busyClientPortHandle (sess ?s (S SessWaitPortReady ! (j - ?n)))"
      using False jn by (simp add: j wait_list_def nth_Cons' nth_append)
    with x False ix show ?thesis by (simp add: D j)
  qed
qed

text \<open>The saved command of a session that waited for a closed port starts its name with the byte 1.\<close>

lemma postponed_name:
  assumes "length (replayCmdbuf n) = 4"
  shows "hd (bytes_of (drop 1 (replayCmdbuf (postponed n)))) = 1" "bytes_of (drop 1 (replayCmdbuf (postponed n))) \<noteq> []"
proof -
  from assms obtain a b c d where "replayCmdbuf n = [a, b, c, d]"
    by (auto simp: numeral_eq_Suc length_Suc_conv)
  then have e: "drop 1 (replayCmdbuf (postponed n)) = 0xD0406401 # [c, d]" by (simp add: postponed_def)
  show "hd (bytes_of (drop 1 (replayCmdbuf (postponed n)))) = 1" "bytes_of (drop 1 (replayCmdbuf (postponed n))) \<noteq> []"
    unfolding e by (simp_all add: bytes_of_def word_bytes_def)
qed

lemma close_stale:
  assumes l: "lists_ok s S P" and x: "x \<in> set (S SessInUse)"
    and y: "y \<in> set (S SessFree)" "x < y" "s_handle (sess s y) = s_handle (sess s x)"
  shows "\<exists>t S'. close_session e s (s_handle (sess s x)) = Some t \<and> lists_ok t S' P \<and> x \<in> set (S' SessInUse)"
proof -
  let ?h = "s_handle (sess s x)"
  let ?Z = "{z. z < SESS_POOL \<and> s_handle (sess s z) = ?h}"
  have yp: "y < SESS_POOL" by (rule lists_ok_bounds(3) [OF l y(1)])
  have fin: "finite ?Z" by simp
  have z: "Max ?Z \<in> ?Z" by (rule Max_in [OF fin]) (use y(3) yp in auto)
  have mx: "w \<in> ?Z \<Longrightarrow> w \<le> Max ?Z" for w by (rule Max_ge [OF fin])
  have yz: "y \<le> Max ?Z" by (rule mx) (use y(3) yp in simp)
  have so: "session_of_handle s ?h = Some (Max ?Z)"
    unfolding session_of_handle_Some using z mx by (auto simp flip: not_less)
  obtain src where src: "Max ?Z \<in> set (S src)" using pool_member [OF l] z by blast
  let ?t = "s\<lparr>kern := svcCloseHandle e (kern s) (s_handle (sess s (Max ?Z))), sl := moveNode (sl s) (Max ?Z) SessFree False\<rparr>"
  have "close_session e s ?h = Some ?t" by (simp add: close_session_def so)
  moreover have "lists_ok ?t (amove S src (Max ?Z) SessFree False) P" by (rule move_lists [OF l src]) simp_all
  moreover have "x \<in> set (amove S src (Max ?Z) SessFree False SessInUse)"
    using x y(2) yz by (auto simp: amove_def in_set_remove1)
  ultimately show ?thesis by blast
qed

end
