(* ===== verification/Sm_Claims.thy ===== *)
theory Sm_Claims
  imports Sm_Main
begin

text \<open>
  The properties of the service manager (\<open>sysmodules/sm/source/\<close>) and a concrete kernel on which
  their hypotheses hold.
\<close>

section \<open>Reachable states\<close>

inductive sm_reachable :: "'k env \<Rightarrow> 'k mainloop \<Rightarrow> bool" for e where
  init: "main_init e n buf k = Some m \<Longrightarrow> 4 \<le> length buf \<Longrightarrow> sm_reachable e m"
| step: "sm_reachable e m \<Longrightarrow> main_iteration e junk m = Some m' \<Longrightarrow> sm_reachable e m'"

lemma main_init_inv:
  assumes "main_init e n buf k = Some m" and "4 \<le> length buf"
  shows "loop_inv m"
proof -
  from assms(1) obtain s where s: "initSystem e n k = Some s" by (auto simp: main_init_def split: bind_splits)
  note i = initSystem_inv [OF s]
  have "sm_inv (s\<lparr>kern := k'\<rparr>)" for k' using i by simp
  then show ?thesis
    using assms s doRegister_inv [of "s\<lparr>kern := _\<rparr>"]
    by (auto simp: main_init_def Let_def loop_inv_def doRegisterService_def
        split: bind_splits prod.splits if_splits)
qed

section \<open>A concrete kernel\<close>

text \<open>Every call succeeds, new handles are numbered, and there is always a new \<open>srv:\<close> session.\<close>

definition demo_env :: "nat env" where
  "demo_env = \<lparr>R_FAILED = (\<lambda>r. sint r < 0), R_MODULE = (\<lambda>r. drop_bit 10 r AND 0xFF),
     R_SUMMARY = (\<lambda>r. drop_bit 21 r AND 0x3F), RM_SRV = 25, RS_WOULDBLOCK = 2,
     IPC_MakeHeader = (\<lambda>c n m. push_bit 16 c OR push_bit 6 (n AND 0x3F) OR (m AND 0x3F)),
     IPC_Desc_CurProcessId = 0x20, IPC_Desc_SharedHandles = (\<lambda>n. push_bit 26 (n - 1)),
     IPC_Desc_MoveHandles = (\<lambda>n. push_bit 26 (n - 1) OR 0x10),
     IPC_Desc_StaticBuffer = (\<lambda>n i. push_bit 14 n OR push_bit 10 i OR 2),
     IS_PRE_7X = True, IS_PRE_93 = True, svcCreateSemaphore = (\<lambda>k a b. (0, word_of_nat (k + 1), k + 1)),
     svcReleaseSemaphore = (\<lambda>k h n. (0, k + 100)), CUR_PROCESS_HANDLE = 0xFFFF8001,
     svcCreateNamedPort = (\<lambda>k n m. (0, word_of_nat (k + 1), word_of_nat (k + 2), k + 2)),
     svcCreatePort = (\<lambda>k m. (0, word_of_nat (k + 1), word_of_nat (k + 2), k + 2)),
     svcCloseHandle = (\<lambda>k h. k), svcCreateSessionToPort = (\<lambda>k h. (0, word_of_nat (k + 1), k + 1)),
     svcGetProcessId = (\<lambda>k h. (0, 4, k)), svcAcceptSession = (\<lambda>k h. (0, word_of_nat (k + 1), k + 1)),
     svcReplyAndReceive = (\<lambda>k hs h buf. (0, 1, buf, k))\<rparr>"

lemma demo_ok [simp]:
  "ctru_ok demo_env" "kernel_buffer_ok demo_env" "\<not> R_FAILED demo_env 0"
  "R_FAILED demo_env r = (sint r < 0)" "RM_SRV demo_env = 25" "RS_WOULDBLOCK demo_env = 2"
  "R_MODULE demo_env r = drop_bit 10 r AND 0xFF" "R_SUMMARY demo_env r = drop_bit 21 r AND 0x3F"
  by (simp_all add: demo_env_def ctru_ok_def kernel_buffer_ok_def)

definition demo_sm :: "nat sm" where
  "demo_sm = the (initSystem demo_env 5 0)"

lemma demo_sm_init: "initSystem demo_env 5 0 = Some demo_sm"
  by (simp add: demo_sm_def initSystem_def Let_def demo_env_def assertSuccess_def)

lemma demo_sm_inv: "sm_inv demo_sm" by (rule initSystem_inv [OF demo_sm_init])

definition demo_S :: "sess_list \<Rightarrow> nat list" where
  "demo_S = (\<lambda>_. [])(SessFree := [0..<SESS_POOL])"

definition demo_P :: "proc_list \<Rightarrow> nat list" where
  "demo_P = (\<lambda>_. [])(ProcFree := [0..<PROC_POOL])"

lemma demo_lists: "lists_ok demo_sm demo_S demo_P"
  unfolding demo_S_def demo_P_def by (rule initSystem_lists [OF demo_sm_init])

lemma demo_fields [simp]:
  "sess demo_sm = (\<lambda>_. zero_session)" "proc demo_sm = (\<lambda>_. zero_process)" "nbServices demo_sm = 0"
  "servicesInfo demo_sm = replicate MAX_SERVICES zero_service" "kern demo_sm = 1"
  by (simp_all add: demo_sm_def initSystem_def Let_def demo_env_def assertSuccess_def)

text \<open>One session in use, and one that waits for a port to be ready.\<close>

definition with_session :: "sess_list \<Rightarrow> session \<Rightarrow> nat sm" where
  "with_session d n = demo_sm\<lparr>sl := moveNode (sl demo_sm) 0 d True, sess := (\<lambda>_. zero_session)(0 := n)\<rparr>"

lemma with_session_lists:
  "d \<noteq> SessFree \<Longrightarrow> lists_ok (with_session d n) (demo_S(SessFree := [1..<SESS_POOL], d := [0])) demo_P"
proof -
  assume d: "d \<noteq> SessFree"
  have "0 # [Suc 0..<SESS_POOL] = [0..<SESS_POOL]" by (simp add: SESS_POOL_def upt_rec [of 0])
  then have "amove demo_S SessFree 0 d True = demo_S(SessFree := [1..<SESS_POOL], d := [0])"
    using d by (auto simp: amove_def demo_S_def fun_eq_iff upt_conv_Cons SESS_POOL_def)
  moreover have "lists_ok (with_session d n) (amove demo_S SessFree 0 d True) demo_P"
    by (rule move_lists [OF demo_lists]) (simp_all add: with_session_def demo_S_def SESS_POOL_def)
  ultimately show ?thesis by simp
qed

lemma with_session_inv:
  assumes "d \<noteq> SessFree" and "length (replayCmdbuf n) = 4"
  shows "sm_inv (with_session d n)"
  unfolding sm_inv_def using with_session_lists [OF assms(1), of n] assms(2) demo_sm_inv
  by (auto simp: with_session_def sm_inv_def procs_ok_def zero_session_def)

section \<open>The properties\<close>

text \<open>C1: every state the main loop can reach, from its initialisation through any sequence of
  kernel events, keeps the invariant: the session and process pools are partitioned by
  their lists, the rings and subscriptions are well formed, the service table stays in its array.\<close>

theorem reachable_states_ok:
  assumes "kernel_buffer_ok e" and "sm_reachable e m"
  shows "loop_inv m"
  using assms(2) by induction (auto intro: main_init_inv main_iteration_inv [OF _ assms(1)])

definition demo_loop :: "nat mainloop" where
  "demo_loop = the (main_init demo_env 5 (replicate 64 0) 0)"

lemma demo_loop_init: "main_init demo_env 5 (replicate 64 0) 0 = Some demo_loop"
  unfolding demo_loop_def main_init_def demo_sm_init
  by (simp add: demo_env_def assertSuccess_def)

lemma demo_loop_reach: "sm_reachable demo_env demo_loop"
  by (rule sm_reachable.init [OF demo_loop_init]) simp

theorem reachable_states_ok_witness: "loop_inv demo_loop"
  by (rule reachable_states_ok [OF _ demo_loop_reach]) simp

text \<open>The array of handles the loop rebuilds holds the three fixed handles, the sessions in use
  and the busy ports, in list order, and never exceeds 79 of its 227 entries.\<close>

theorem wait_list_fits:
  assumes "loop_inv m"
  shows "\<exists>S P. lists_ok (m_sm m) S P \<and>
    rebuild_handles m = Some (wait_list m S, length (S SessInUse)) \<and> length (wait_list m S) \<le> 79 \<and> (79::nat) < 0xE3"
proof -
  obtain S P where l: "lists_ok (m_sm m) S P" using assms sm_invD(1) unfolding loop_inv_def by blast
  have "length (wait_list m S) \<le> 79"
    using two_lists_bound [OF l, of SessInUse SessWaitPortReady] by (simp add: wait_list_def SESS_POOL_def)
  with l rebuild_handles_eq [OF l] show ?thesis by auto
qed

theorem wait_list_fits_witness: "\<exists>hs n. rebuild_handles demo_loop = Some (hs, n) \<and> length hs \<le> 79"
proof -
  have "loop_inv demo_loop" using main_init_inv [OF demo_loop_init] by simp
  from wait_list_fits [OF this] show ?thesis by blast
qed

text \<open>C5: whatever index past the fixed handles the kernel answers with, the loop finds a session for
  it: it never panics there and never takes its \<open>continue\<close>. An index of a session gives a session in
  use with that handle; an index of a busy port gives a session that waits for that port, and its
  saved four words are the command that is run again.\<close>

theorem event_finds_its_session:
  assumes "loop_inv m" and "rebuild_handles m = Some (hs, n)" and "3 \<le> ix" and "ix < length hs"
  shows "\<exists>x t buf. pick_session (m_sm m) (m_cmdbuf m) hs n ix = Some (Some (x, t, buf)) \<and>
    (if ix < 3 + n then s_handle (sess (m_sm m) x) = hs ! ix \<and> t = m_sm m \<and> buf = m_cmdbuf m
     else busyClientPortHandle (sess (m_sm m) x) = hs ! ix \<and> take 4 buf = replayCmdbuf (sess (m_sm m) x))"
proof -
  obtain S P where l: "lists_ok (m_sm m) S P" using assms(1) sm_invD(1) unfolding loop_inv_def by blast
  have h: "hs = wait_list m S" "n = length (S SessInUse)" using rebuild_handles_eq [OF l] assms(2) by simp_all
  have r: "length (replayCmdbuf (sess (m_sm m) x)) = 4" for x using assms(1) sm_invD(5) by (auto simp: loop_inv_def)
  obtain x t buf where p: "pick_session (m_sm m) (m_cmdbuf m) hs n ix = Some (Some (x, t, buf))"
    "if ix < 3 + n
       then x \<in> set (S SessInUse) \<and> s_handle (sess (m_sm m) x) = hs ! ix \<and> t = m_sm m \<and> buf = m_cmdbuf m
       else x \<in> set (S SessWaitPortReady) \<and> busyClientPortHandle (sess (m_sm m) x) = hs ! ix \<and>
            buf = replayCmdbuf (sess (m_sm m) x) @ drop 4 (m_cmdbuf m)"
    using pick_total_aux [OF l, of ix] assms(3,4) unfolding h by blast
  have "if ix < 3 + n then s_handle (sess (m_sm m) x) = hs ! ix \<and> t = m_sm m \<and> buf = m_cmdbuf m
     else busyClientPortHandle (sess (m_sm m) x) = hs ! ix \<and> take 4 buf = replayCmdbuf (sess (m_sm m) x)"
    using p(2) r [of x] by (auto split: if_splits)
  with p(1) show ?thesis by blast
qed

definition demo_wait :: "nat mainloop" where
  "demo_wait = \<lparr>m_sm = with_session SessWaitPortReady (zero_session\<lparr>busyClientPortHandle := 7, replayCmdbuf := [0x50100, 0x3A6D63, 0, 3]\<rparr>),
     m_cmdbuf = replicate 64 0, m_reply = 0, m_srvPort = 1, m_srvPmPort = 2\<rparr>"

lemma demo_wait_inv: "loop_inv demo_wait"
  by (simp add: demo_wait_def loop_inv_def with_session_inv)

lemma demo_wait_handles: "\<exists>a. rebuild_handles demo_wait = Some ([a, 1, 2, 7], 0)"
proof -
  let ?S = "demo_S(SessFree := [1..<SESS_POOL], SessWaitPortReady := [0])"
  have "lists_ok (m_sm demo_wait) ?S demo_P" 
    by (simp only: demo_wait_def mainloop.simps) (rule with_session_lists, simp)
  from rebuild_handles_eq [OF this] show ?thesis
    by (simp add: wait_list_def demo_S_def demo_wait_def with_session_def)
qed

theorem event_finds_its_session_witness:
  "\<exists>hs x t buf. pick_session (m_sm demo_wait) (m_cmdbuf demo_wait) hs 0 3 = Some (Some (x, t, buf)) \<and>
     busyClientPortHandle (sess (m_sm demo_wait) x) = 7"
proof -
  obtain a where "rebuild_handles demo_wait = Some ([a, 1, 2, 7], 0)" using demo_wait_handles by blast
  from event_finds_its_session [OF demo_wait_inv this, of 3] show ?thesis by (auto simp del: pick_session_def)
qed

text \<open>C2: a \<open>GetServiceHandle\<close> or \<open>GetPort\<close> that would block is not replied to: the command buffer is
  unchanged, the reply target is 0, the session moves from the list of sessions in use to the
  back of the waiting list of its reason, and the first four words of the command are saved.\<close>

theorem blocked_session_is_parked:
  assumes "lists_ok s S P" and "x \<in> set (S SessInUse)" and "blocks_with e s x buf res"
    and "res = 0xD0406401 \<and> d = SessWaitRegister \<or> res = 0xD0406402 \<and> d = SessWaitPortReady"
  shows "\<exists>t. run_command e junk s x buf = Some (t, buf, 0) \<and> replayCmdbuf (sess t x) = take 4 buf \<and>
    lists_ok t (amove S SessInUse x d True) P"
  using run_blocked [OF assms] by blast

definition demo_cmd :: "u32 list" where "demo_cmd = [0x50100, 0x3A6D63, 0, 3, 0]"

lemma demo_cmd_name: "checkServiceName (cmd_name demo_cmd) 3 = 0"
  by code_simp

lemma demo_cmd_words: "demo_cmd ! 0 = 0x50100" "demo_cmd ! 3 = 3" "demo_cmd ! 4 = 0"
  by (simp_all add: demo_cmd_def)

lemma with_session_none: "findServicePortByName (with_session d n) isNP nm k = None"
  by (simp add: findServicePortByName_def with_session_def)

lemma demo_blocks: "blocks_with demo_env (with_session SessInUse zero_session) 0 demo_cmd 0xD0406401"
  using demo_cmd_name
  by (simp add: blocks_with_def GetServiceHandle_def with_session_none would_block_def demo_cmd_words)
     (simp add: with_session_def zero_session_def)

theorem blocked_session_is_parked_witness:
  "\<exists>t. run_command demo_env 0 (with_session SessInUse zero_session) 0 demo_cmd = Some (t, demo_cmd, 0) \<and>
     replayCmdbuf (sess t 0) = [0x50100, 0x3A6D63, 0, 3]"
  using blocked_session_is_parked [OF with_session_lists [of SessInUse zero_session] _ demo_blocks, of SessWaitRegister 0]
  by (auto simp: demo_cmd_def)

text \<open>C3: a registration that succeeds answers with the server port (a named port with none) and adds
  exactly its entry, with its own client port, to the table, as an update of the partial map from
  names to services. It moves exactly the sessions whose saved command waits for that name from
  the waiting list to the wake-up list, in their order, and releases the wake-up semaphore of the
  main loop once for each of them: nothing else of the kernel changes beyond the created port.\<close>

theorem registration_adds_and_wakes:
  assumes "lists_ok s S P" and "svcs_ok s" and "ctru_ok e" and "valid_name name n" and "padded name n"
    and "svc_map s (isNP, name_key name n) = None" and "svc_room s"
    and "doRegisterServiceOrPort e s pid cp name n m isNP = Some (r, h, t)"
    and "isNP \<or> \<not> R_FAILED e (fst (svcCreatePort e (kern s) m))"
    and "(res, portServer, portClient, k1) = (if isNP then (0, 0, cp, kern s) else svcCreatePort e (kern s) m)"
    and "ws = filter (\<lambda>x. waits_for (sess s x) isNP name) (S SessWaitRegister)"
  shows "r = res \<and> h = portServer \<and>
    svc_map t = (svc_map s)((isNP, name_key name n) \<mapsto> new_service pid portClient name isNP) \<and> svcs_ok t \<and>
    lists_ok t (S(
      SessWaitRegister := filter (\<lambda>x. \<not> waits_for (sess s x) isNP name) (S SessWaitRegister),
      SessWakeUp := S SessWakeUp @ ws)) P \<and>
    (if ws = [] then kern t = k1
     else let (rel, k2) = svcReleaseSemaphore e k1 (resumeSemaphore s) (word_of_nat (length ws))
          in \<not> R_FAILED e rel \<and> kern t = k2)"
proof -
  have l8: "8 \<le> length name" using assms(4) by (simp add: valid_name_def)
  have np: "new_ports e s cp m isNP = (res, portServer, portClient, k1)" using assms(10) by (simp add: new_ports_def)
  let ?v = "new_service pid portClient name isNP"
  have p: "r = res" "h = portServer" "lists_ok t (woken s isNP name S) P"
    "servicesInfo t = servicesInfo (add_service s ?v)" "nbServices t = nbServices s + 1"
    "wakes_kernel e s k1 ws (kern t)"
    using doRegister_success [OF assms(1-3) l8 assms(4,6-9) np] unfolding assms(11) by blast+
  have k: "sv_key ?v = (isNP, name_key name n)" "length (sv_name ?v) = 8"
    using stored_key [OF assms(4,5)] by (simp_all add: sv_key_def new_service_def)
  have s: "services t = services (add_service s ?v)" using p(4,5) by (simp add: services_def add_service_def)
  have "svc_map t = (svc_map s)((isNP, name_key name n) \<mapsto> ?v)" and "svcs_ok t"
  proof -
    have n: "svc_map s (sv_key ?v) = None" using assms(6) by (simp only: k)
    show "svc_map t = (svc_map s)((isNP, name_key name n) \<mapsto> ?v)"
      using svc.ins_look [OF assms(2,7) k(2) n] unfolding svc_map_def s k .
    have "svcs_ok (add_service s ?v)" by (rule svc.ins_ok [OF assms(2,7) k(2) n])
    then show "svcs_ok t" unfolding svcs_ok_def s p(4,5) by (simp add: add_service_def)
  qed
  with p show ?thesis by (simp only: woken_def wakes_kernel_def assms(11))
qed

definition demo_name :: bytes where "demo_name = [0x63, 0x6D, 0x3A, 0, 0, 0, 0, 0]"

definition demo_waiter :: session where
  "demo_waiter = zero_session\<lparr>replayCmdbuf := [0x50100, 0x3A6D63, 0, 3]\<rparr>"

lemma demo_name_ok: "valid_name demo_name 3" "padded demo_name 3" "checkServiceName demo_name 3 = 0"
  "waits_for demo_waiter False demo_name"
proof -
  show "valid_name demo_name 3" by (simp add: valid_name_def demo_name_def)
  show "padded demo_name 3"
    unfolding padded_def
  proof (intro allI impI)
    fix i :: nat
    assume "unat (3 :: u32) \<le> i \<and> i < 8"
    then have "i = 3 \<or> i = 4 \<or> i = 5 \<or> i = 6 \<or> i = 7" by auto
    then show "demo_name ! i = 0" by (auto simp: demo_name_def)
  qed
  show "checkServiceName demo_name 3 = 0" "waits_for demo_waiter False demo_name" by code_simp+
qed

lemma with_session_svcs: "svcs_ok (with_session d n)" "svc_map (with_session d n) k = None" "svc_room (with_session d n)"
  by (simp_all add: svcs_ok_def svc_map_def services_def with_session_def svc_room_def MAX_SERVICES_def)

lemma demo_register:
  "\<exists>h t. doRegisterServiceOrPort demo_env (with_session SessWaitRegister demo_waiter) 9 0 demo_name 3 2 False = Some (0, h, t)"
proof -
  let ?s = "with_session SessWaitRegister demo_waiter"
  let ?v = "new_service 9 3 demo_name False"
  have l: "lists_ok (add_service (?s\<lparr>kern := 3\<rparr>) ?v) (demo_S(SessFree := [1..<SESS_POOL], SessWaitRegister := [0])) demo_P"
    by (rule lists_ok_cong [OF with_session_lists [of SessWaitRegister demo_waiter]]) (simp_all add: add_service_def)
  obtain l n where w: "wake_waiting (add_service (?s\<lparr>kern := 3\<rparr>) ?v) False demo_name
      = Some ((add_service (?s\<lparr>kern := 3\<rparr>) ?v)\<lparr>sl := l\<rparr>, n)"
    using wake_waiting_spec [OF l, of False demo_name] by blast
  have "complete_registration demo_env (?s\<lparr>kern := 3\<rparr>) 9 3 demo_name False \<noteq> None"
    unfolding complete_registration_def w by (simp add: demo_env_def assertSuccess_def)
  then obtain t where "complete_registration demo_env (?s\<lparr>kern := 3\<rparr>) 9 3 demo_name False = Some t" by blast
  moreover have "svcCreatePort demo_env (kern ?s) 2 = (0, 2, 3, 3)" by (simp add: demo_env_def with_session_def)
  moreover have "\<not> nbServices ?s \<ge> MAX_SERVICES" 
    using with_session_svcs(3) [of SessWaitRegister demo_waiter] by (simp add: svc_room_def)
  ultimately show ?thesis
    by (simp add: doRegisterServiceOrPort_def demo_name_ok with_session_none Let_def)
qed

theorem registration_adds_and_wakes_witness:
  "\<exists>t S. doRegisterServiceOrPort demo_env (with_session SessWaitRegister demo_waiter) 9 0 demo_name 3 2 False = Some (0, 2, t) \<and>
     svc_map t (False, [0x63, 0x6D, 0x3A]) = Some (new_service 9 3 demo_name False) \<and>
     lists_ok t S demo_P \<and> S SessWakeUp = [0] \<and> S SessWaitRegister = [] \<and> kern t = 103"
proof -
  let ?s = "with_session SessWaitRegister demo_waiter"
  obtain h t where r: "doRegisterServiceOrPort demo_env ?s 9 0 demo_name 3 2 False = Some (0, h, t)"
    using demo_register by blast
  have m: "svc_map ?s (False, name_key demo_name 3) = None" by (rule with_session_svcs)
  have cr: "False \<or> \<not> R_FAILED demo_env (fst (svcCreatePort demo_env (kern ?s) 2))" by (simp add: demo_env_def)
  have ps: "(0, 2, 3, 3) = (if False then (0, 0, 0, kern ?s) else svcCreatePort demo_env (kern ?s) 2)"
    by (simp add: demo_env_def with_session_def)
  have l: "lists_ok ?s (demo_S(SessFree := [1..<SESS_POOL], SessWaitRegister := [0])) demo_P"
    by (rule with_session_lists) simp
  have w: "waits_for (sess ?s 0) False demo_name" using demo_name_ok(4) by (simp add: with_session_def)
  then have ws: "[0] = filter (\<lambda>x. waits_for (sess ?s x) False demo_name)
      ((demo_S(SessFree := [1..<SESS_POOL], SessWaitRegister := [0])) SessWaitRegister)" by simp
  have k: "name_key demo_name 3 = [0x63, 0x6D, 0x3A]" by (simp add: name_key_def demo_name_def)
  have rel: "svcReleaseSemaphore demo_env k h n = (0, k + 100)" for k h n by (simp add: demo_env_def)
  from registration_adds_and_wakes [OF l with_session_svcs(1) demo_ok(1) demo_name_ok(1,2) m with_session_svcs(3) r cr ps ws]
  show ?thesis using r w by (auto simp: k demo_S_def rel intro!: exI)
qed

text \<open>C4: when the wake-up semaphore is signalled, the session that was woken first is resumed: it
  becomes the first session in use and the first four words of the command buffer become its
  saved command.\<close>

theorem woken_session_is_replayed:
  assumes "lists_ok s S P" and "S SessWakeUp = x # xs"
  shows "\<exists>t. pick_session s buf hs n 0 = Some (Some (x, t, replayCmdbuf (sess s x) @ drop 4 buf)) \<and>
    lists_ok t (S(SessWakeUp := xs, SessInUse := x # S SessInUse)) P \<and> sess t = sess s"
  using pick_woken [OF assms] .

theorem woken_session_is_replayed_witness:
  "\<exists>t. pick_session (with_session SessWakeUp demo_waiter) (replicate 64 0) [] 0 0
     = Some (Some (0, t, [0x50100, 0x3A6D63, 0, 3] @ replicate 60 0))"
  using woken_session_is_replayed [OF with_session_lists [of SessWakeUp demo_waiter], of 0 "[]" "replicate 64 0" "[]" 0]
  by (auto simp: with_session_def demo_waiter_def zero_session_def demo_S_def)

text \<open>C6: moving a node between the intrusive lists, with the pointer surgery of \<open>list.c\<close>, is removing
  it from its list and adding it to the front or back of the other; no node of the pool is lost
  or duplicated.\<close>

theorem moveNode_moves:
  assumes "pool_rep n st L" and "x \<in> set (L src)"
  shows "pool_rep n (moveNode st x d atBack)
    (if d = src then L
     else L(src := remove1 x (L src), d := (if atBack then L d @ [x] else x # L d)))"
  using moveNode_pool [OF assms, of d atBack] by (simp only: amove_def)

theorem moveNode_moves_witness:
  "pool_rep SESS_POOL (moveNode (sl demo_sm) 3 SessInUse False)
     (demo_S(SessFree := remove1 3 [0..<SESS_POOL], SessInUse := [3]))"
  using moveNode_moves [of SESS_POOL "sl demo_sm" demo_S 3 SessFree SessInUse False] demo_lists
  by (simp add: lists_ok_def demo_S_def SESS_POOL_def del: fun_upd_apply) (simp add: SESS_POOL_def)

text \<open>C7: the pending notifications of a process are a first-in first-out queue: pushing any notifications
  that fit in the 16 places and then taking all out gives the old ones, then the new ones, in
  order, whatever the position of the two indices in the ring.\<close>

theorem pending_ring_is_fifo:
  assumes "ring_ok p" and "length (ring_list p) + length ids \<le> 16"
  shows "fst (pop_many ring_pop (length (ring_list p) + length ids) (foldl ring_push p ids)) = ring_list p @ ids"
  using ring.push_pop [OF assms] .

definition demo_ring :: process where
  "demo_ring = zero_process\<lparr>receivedNotificationIndex := 14, pendingNotificationIndex := 1, nbPendingNotifications := 3,
     pendingNotifications := [12, 0, 0, 0, 0, 0, 0, 0, 0, 0, 0, 0, 0, 0, 10, 11]\<rparr>"

theorem pending_ring_is_fifo_witness:
  "fst (pop_many ring_pop 5 (foldl ring_push demo_ring [13, 14])) = [10, 11, 12, 13, 14]"
proof -
  have "ring_ok demo_ring" by (simp add: ring_ok_def demo_ring_def zero_process_def)
  moreover have "ring_list demo_ring = [10, 11, 12]"
    by (simp add: ring_list_def demo_ring_def zero_process_def upt_rec)
  ultimately show ?thesis using pending_ring_is_fifo [of demo_ring "[13, 14]"] by (simp add: numeral_eq_Suc)
qed

text \<open>C8: publishing reaches every process that enabled notifications and subscribed to the identifier,
  each exactly once, when none of them is full and the kernel releases the semaphores; no other
  process changes, and the answer lists the first 60 processes reached.\<close>

theorem publish_reaches_subscribers:
  assumes "lists_ok s S P" and "\<And>k h n. \<not> R_FAILED e (fst (svcReleaseSemaphore e k h n))"
    and "\<And>x. x \<in> set (P ProcInUse) \<Longrightarrow> notificationEnabled (proc s x) \<Longrightarrow> subscribed (proc s x) nid \<Longrightarrow>
          nbPendingNotifications (proc s x) < 16"
  shows "\<exists>t. PublishAndGetSubscriber e s nid flags = Some (0, take 60 (map (p_pid \<circ> proc s)
           (filter (\<lambda>x. notificationEnabled (proc s x) \<and> subscribed (proc s x) nid) (P ProcInUse))), t) \<and>
    (\<forall>x. proc t x =
      (if x \<in> set (P ProcInUse) \<and> notificationEnabled (proc s x) \<and> subscribed (proc s x) nid
       then if flags AND 1 \<noteq> 0 \<and> nid \<in> set (ring_list (proc s x)) then proc s x else ring_push (proc s x) nid
       else proc s x))"
proof -
  let ?sel = "\<lambda>p. notificationEnabled p \<and> subscribed p nid"
  have sel: "?sel (deliver nid flags p) = ?sel p" for p
    by (simp add: deliver_def ring_push_def subscribed_def)
  have f: "list_first (pl s) ProcInUse = head_or (P ProcInUse) None" by (rule rep_first [OF lists_ok_reps(2) [OF assms(1)]])
  obtain t where t: "publish_loop e ?sel nid flags PROC_POOL s (head_or (P ProcInUse) None) []
           = Some (0, take 60 (map (p_pid \<circ> proc s) (filter (?sel \<circ> proc s) (P ProcInUse))), t)"
    "\<forall>x. proc t x = (if x \<in> set (P ProcInUse) \<and> ?sel (proc s x) then deliver nid flags (proc s x) else proc s x)"
    using publish_loop_reaches [OF assms(1), of "[]" "P ProcInUse" PROC_POOL e ?sel nid flags "[]"]
      lists_ok_bounds(2) [OF assms(1)] assms(2,3) sel by auto
  moreover have "deliver nid flags (proc s x) = (if flags AND 1 \<noteq> 0 \<and> nid \<in> set (ring_list (proc s x)) then proc s x
      else ring_push (proc s x) nid)" if "x \<in> set (P ProcInUse)" "?sel (proc s x)" for x
    using assms(3) [OF that(1)] that(2) by (simp add: deliver_def)
  ultimately show ?thesis by (auto simp: PublishAndGetSubscriber_def f comp_def)
qed

definition demo_proc_sm :: "nat sm" where
  "demo_proc_sm = demo_sm\<lparr>pl := moveNode (pl demo_sm) 0 ProcInUse False,
     proc := (\<lambda>_. zero_process)(0 := zero_process\<lparr>p_pid := 40, notificationEnabled := True, nbSubscribed := 1,
       subscribedNotifications := 0x203 # replicate 16 0\<rparr>)\<rparr>"

lemma demo_proc_lists: "lists_ok demo_proc_sm demo_S (demo_P(ProcFree := [1..<PROC_POOL], ProcInUse := [0]))"
proof -
  have "0 # [Suc 0..<PROC_POOL] = [0..<PROC_POOL]" by (simp add: PROC_POOL_def upt_rec [of 0])
  then have "amove demo_P ProcFree 0 ProcInUse False = demo_P(ProcFree := [1..<PROC_POOL], ProcInUse := [0])"
    by (auto simp: amove_def demo_P_def fun_eq_iff upt_conv_Cons PROC_POOL_def)
  moreover have "pool_rep PROC_POOL (moveNode (pl demo_sm) 0 ProcInUse False) (amove demo_P ProcFree 0 ProcInUse False)"
    by (rule moveNode_pool) (use demo_lists in \<open>simp_all add: lists_ok_def demo_P_def PROC_POOL_def\<close>)
  ultimately show ?thesis using demo_lists by (simp add: lists_ok_def demo_proc_sm_def)
qed

theorem publish_reaches_subscribers_witness:
  "\<exists>t. PublishAndGetSubscriber demo_env demo_proc_sm 0x203 0 = Some (0, [40], t) \<and>
     nbPendingNotifications (proc t 0) = 1"
proof -
  let ?P = "demo_P(ProcFree := [1..<PROC_POOL], ProcInUse := [0])"
  have e: "\<And>k h n. \<not> R_FAILED demo_env (fst (svcReleaseSemaphore demo_env k h n))" by (simp add: demo_env_def)
  have p: "proc demo_proc_sm 0 = zero_process\<lparr>p_pid := 40, notificationEnabled := True, nbSubscribed := 1,
       subscribedNotifications := 0x203 # replicate 16 0\<rparr>" "?P ProcInUse = [0]"
    by (simp_all add: demo_proc_sm_def)
  have s: "subscribed (proc demo_proc_sm 0) 0x203" "notificationEnabled (proc demo_proc_sm 0)"
    "nbPendingNotifications (proc demo_proc_sm 0) = 0" "p_pid (proc demo_proc_sm 0) = 40"
    by (simp_all add: p subscribed_def zero_process_def)
  from publish_reaches_subscribers [OF demo_proc_lists e, of "0x203" 0] show ?thesis
    using s by (auto simp: p(2) ring_push_def)
qed

text \<open>C9: looking up a valid name in the service table, as a service or as a port, is looking up its key
  in the map: \<open>IsServiceRegistered\<close> answers whether the map has the name, and \<open>GetServiceHandle\<close>
  asks the kernel for a session to the port the map gives.\<close>

theorem service_lookup_is_map_lookup:
  assumes "svcs_ok s" and "ctru_ok e" and "valid_name name n"
  shows "IsServiceRegistered e s name n = (0, Some (svc_map s (False, name_key name n) \<noteq> None)) \<and>
    GetServiceHandle e s sd name n flags =
      (case svc_map s (False, name_key name n) of
         None \<Rightarrow> (0xD0406401, 0, s)
       | Some v \<Rightarrow>
           let (res, h, k) = svcCreateSessionToPort e (kern s) (clientPort v);
               session = (if sint res < 0 then 0 else h)
           in if res = 0xD0401834 \<and> flags AND 1 = 0
              then (0xD0406402, session,
                    upd_sess (s\<lparr>kern := k\<rparr>) sd (\<lambda>m. m\<lparr>busyClientPortHandle := clientPort v\<rparr>))
              else (res, session, s\<lparr>kern := k\<rparr>))"
proof -
  have l: "8 \<le> length name" using assms(3) by (simp add: valid_name_def)
  have c: "\<not> R_FAILED e (checkServiceName name n)" using checkServiceName_valid(1) [OF assms(2) l, of n] assms(3) by simp
  have r: "R_FAILED e r = (sint r < 0)" for r using assms(2) by (simp add: ctru_ok_def)
  note F = findServicePortByName_spec [OF assms(1,3), of False]
  have "IsServiceRegistered e s name n = (0, Some (svc_map s (False, name_key name n) \<noteq> None))"
    using c F(1) by (simp add: IsServiceRegistered_def)
  moreover have "GetServiceHandle e s sd name n flags =
      (case svc_map s (False, name_key name n) of
         None \<Rightarrow> (0xD0406401, 0, s)
       | Some v \<Rightarrow>
           let (res, h, k) = svcCreateSessionToPort e (kern s) (clientPort v);
               session = (if sint res < 0 then 0 else h)
           in if res = 0xD0401834 \<and> flags AND 1 = 0
              then (0xD0406402, session,
                    upd_sess (s\<lparr>kern := k\<rparr>) sd (\<lambda>m. m\<lparr>busyClientPortHandle := clientPort v\<rparr>))
              else (res, session, s\<lparr>kern := k\<rparr>))"
    using c F(1) F(2) unfolding GetServiceHandle_def Let_def r
    by (auto split: option.splits)
  ultimately show ?thesis by blast
qed

theorem service_lookup_is_map_lookup_witness:
  "IsServiceRegistered demo_env demo_sm demo_name 3 = (0, Some False)"
proof -
  have o: "svcs_ok demo_sm" "svc_map demo_sm k = None" for k
    by (simp_all add: svcs_ok_def svc_map_def services_def MAX_SERVICES_def)
  show ?thesis using service_lookup_is_map_lookup [OF o(1) demo_ok(1) demo_name_ok(1)] by (simp add: o(2))
qed

text \<open>Only the process that registered a service can unregister it; then the map loses exactly that
  name, the client port is closed, and nothing else of the state changes. An unknown name or a
  foreign service is an error that leaves the state alone.\<close>

theorem unregister_removes_own_service:
  assumes "svcs_ok s" and "ctru_ok e" and "valid_name name n"
  shows "case svc_map s (isNP, name_key name n) of
      None \<Rightarrow> UnregisterServiceOrPort e s sd name n isNP = (0xD8801BFA, s)
    | Some w \<Rightarrow>
        if sv_pid w \<noteq> s_pid (sess s sd) then UnregisterServiceOrPort e s sd name n isNP = (0xD8E06406, s)
        else \<exists>t. UnregisterServiceOrPort e s sd name n isNP = (0, t) \<and> svcs_ok t \<and>
               svc_map t = (svc_map s)((isNP, name_key name n) := None) \<and>
               kern t = svcCloseHandle e (kern s) (clientPort w) \<and>
               sl t = sl s \<and> pl t = pl s \<and> sess t = sess s \<and> proc t = proc s"
  using unregister_spec [OF assms(1,2) _ assms(3)] assms(3) by (simp add: valid_name_def)

definition demo_service :: service where
  "demo_service = \<lparr>sv_name = demo_name, clientPort = 3, sv_pid = 0, isNamedPort = False\<rparr>"

definition demo_service_sm :: "nat sm" where
  "demo_service_sm = demo_sm\<lparr>servicesInfo := demo_service # replicate 159 zero_service, nbServices := 1\<rparr>"

lemma demo_service_ok: "svcs_ok demo_service_sm" "svc_map demo_service_sm (False, name_key demo_name 3) = Some demo_service"
  by (simp_all add: svcs_ok_def svc_map_def services_def demo_service_sm_def MAX_SERVICES_def demo_service_def
      demo_name_def sv_key_def name_key_def)

theorem unregister_removes_own_service_witness:
  "\<exists>t. UnregisterServiceOrPort demo_env demo_service_sm 0 demo_name 3 False = (0, t) \<and>
     svc_map t (False, name_key demo_name 3) = None"
proof -
  have "sv_pid demo_service = s_pid (sess demo_service_sm 0)"
    by (simp add: demo_service_def demo_service_sm_def zero_session_def)
  then show ?thesis
    using unregister_removes_own_service [OF demo_service_ok(1) demo_ok(1) demo_name_ok(1), where isNP = False and sd = 0] demo_service_ok(2)
    by auto
qed

text \<open>C10: every way a registration fails, and no other. A length of 0 or above 8, and a name with a zero byte
  within its length, have the codes of the name check; a name the map has is "already registered", a
  full table of 160 entries "out of memory"; these leave the state alone. A service whose port the
  kernel cannot create is "already registered" too, and only the kernel has changed. All are failure
  codes, returned without a handle. In every other case an answer is no failure.\<close>

theorem registration_errors:
  assumes "svcs_ok s" and "ctru_ok e" and "8 \<le> length name"
    and "(res, portServer, portClient, k1) = svcCreatePort e (kern s) m"
  shows "let failure =
      (if n = 0 \<or> 8 < n then Some (0xD9006405, s)
       else if 0 \<in> set (take (unat n) name) then Some (0xD9006407, s)
       else if svc_map s (isNP, name_key name n) \<noteq> None then Some (0xD9001BFC, s)
       else if 160 \<le> nbServices s then Some (0xD86067F3, s)
       else if \<not> isNP \<and> R_FAILED e res then Some (0xD9001BFC, s\<lparr>kern := k1\<rparr>)
       else None)
    in case failure of
         Some (code, t) \<Rightarrow> doRegisterServiceOrPort e s pid cp name n m isNP = Some (code, 0, t) \<and> R_FAILED e code
       | None \<Rightarrow> \<forall>r h t. doRegisterServiceOrPort e s pid cp name n m isNP = Some (r, h, t) \<longrightarrow> \<not> R_FAILED e r"
proof -
  have ports: "svcCreatePort e (kern s) m = (res, portServer, portClient, k1)" using assms(4) by simp
  have codes: "R_FAILED e 0xD9006405" "R_FAILED e 0xD9006407" "R_FAILED e 0xD9001BFC" "R_FAILED e 0xD86067F3" "\<not> R_FAILED e 0"
    using assms(2) by (auto simp: ctru_ok_def)
  have chk: "n = 0 \<or> 8 < n \<Longrightarrow> checkServiceName name n = 0xD9006405"
    "\<not> (n = 0 \<or> 8 < n) \<Longrightarrow> 0 \<in> set (take (unat n) name) \<Longrightarrow> checkServiceName name n = 0xD9006407"
    "\<not> (n = 0 \<or> 8 < n) \<Longrightarrow> 0 \<notin> set (take (unat n) name) \<Longrightarrow> checkServiceName name n = 0 \<and> valid_name name n"
    using checkServiceName_code [OF assms(3), of n] checkServiceName_valid(2) [OF assms(2,3), of n] by auto
  note fnd = findServicePortByName_spec(1) [OF assms(1), of name n isNP]
  consider "n = 0 \<or> 8 < n" | "\<not> (n = 0 \<or> 8 < n)" "0 \<in> set (take (unat n) name)"
    | "\<not> (n = 0 \<or> 8 < n)" "0 \<notin> set (take (unat n) name)" by blast
  then show ?thesis
  proof cases
    case 1
    then show ?thesis using chk(1) codes by (simp add: doRegisterServiceOrPort_def)
  next
    case 2
    then show ?thesis using chk(2) codes by (simp add: doRegisterServiceOrPort_def)
  next
    case 3
    with chk(3) have c: "checkServiceName name n = 0" and v: "valid_name name n" by blast+
    show ?thesis using 3 fnd [OF v] c codes
      by (auto simp: doRegisterServiceOrPort_def ports MAX_SERVICES_def split: bind_splits)
  qed
qed

theorem registration_errors_witness:
  "doRegisterServiceOrPort demo_env demo_service_sm 4 0 demo_name 3 8 False = Some (0xD9001BFC, 0, demo_service_sm)"
proof -
  have p: "(0, word_of_nat (kern demo_service_sm + 1), word_of_nat (kern demo_service_sm + 2), kern demo_service_sm + 2)
      = svcCreatePort demo_env (kern demo_service_sm) 8"
    by (simp add: demo_env_def)
  show ?thesis
    using registration_errors [OF demo_service_ok(1) demo_ok(1) _ p, where name = demo_name and n = 3 and isNP = False
        and pid = 4 and cp = 0] demo_service_ok(2)
    by (simp add: demo_name_def)
qed

lemma names_differ_at_head:
  assumes "areServiceNamesEqual f name n" and "f \<noteq> []" and "hd f = 1" and "name \<noteq> []"
  shows "hd name = 1"
proof -
  obtain x xs y ys where c: "f = x # xs" "name = y # ys" using assms(2,4) by (auto simp: neq_Nil_conv)
  have x: "x = 1" using assms(3) c by simp
  show ?thesis
  proof (cases "unat n")
    case 0
    then show ?thesis using assms(1) c x by (auto simp: areServiceNamesEqual_def unat_eq_zero)
  next
    case (Suc k)
    then show ?thesis using assms(1) c x by (simp add: areServiceNamesEqual_def)
  qed
qed

text \<open>When a port closes, the session that waited for it to be ready is put back to wait for a
  registration, but the code that records the new reason overwrites the first word of the saved
  service name: no registration of a name that does not start with the byte 1 wakes it again.\<close>

theorem closed_port_loses_the_name:
  assumes "lists_ok s S P" and "x \<in> set (S SessWaitPortReady)" and "busyClientPortHandle (sess s x) = h"
    and "length (replayCmdbuf (sess s x)) = 4"
  shows "\<exists>t S'. port_closed_loop SESS_POOL h s (list_first (sl s) SessWaitPortReady) = Some t \<and>
    lists_ok t S' P \<and> x \<in> set (S' SessWaitRegister) \<and>
    (\<forall>isNP name. name \<noteq> [] \<and> hd name \<noteq> 1 \<longrightarrow> \<not> waits_for (sess t x) isNP name)"
proof -
  obtain t where t: "port_closed_loop SESS_POOL h s (list_first (sl s) SessWaitPortReady) = Some t"
    "lists_ok t (S(SessWaitPortReady := filter (\<lambda>x. \<not> busy_on s h x) (S SessWaitPortReady),
                   SessWaitRegister := S SessWaitRegister @ filter (busy_on s h) (S SessWaitPortReady))) P"
    "sess t x = postponed (sess s x)"
    using port_closed_spec [OF assms(1), of h] assms(2,3) by (auto simp del: fun_upd_apply)
  have "\<not> waits_for (sess t x) isNP name" if "name \<noteq> []" "hd name \<noteq> 1" for isNP name
    unfolding t(3) using postponed_name [OF assms(4)] that names_differ_at_head by (auto simp: waits_for_def)
  with t assms(2,3) show ?thesis by (auto simp del: fun_upd_apply intro!: exI) simp
qed

definition demo_busy :: session where
  "demo_busy = demo_waiter\<lparr>busyClientPortHandle := 7\<rparr>"

theorem closed_port_loses_the_name_witness:
  "\<exists>t S'. port_closed_loop SESS_POOL 7 (with_session SessWaitPortReady demo_busy)
       (list_first (sl (with_session SessWaitPortReady demo_busy)) SessWaitPortReady) = Some t \<and>
     lists_ok t S' demo_P \<and> 0 \<in> set (S' SessWaitRegister) \<and> \<not> waits_for (sess t 0) False demo_name \<and>
     waits_for demo_busy False demo_name"
proof -
  have w: "waits_for demo_busy False demo_name"
    using demo_name_ok(4) by (simp add: waits_for_def demo_busy_def)
  have h: "demo_name \<noteq> [] \<and> hd demo_name \<noteq> 1" by (simp add: demo_name_def)
  have f: "busyClientPortHandle (sess (with_session SessWaitPortReady demo_busy) 0) = 7"
    "length (replayCmdbuf (sess (with_session SessWaitPortReady demo_busy) 0)) = 4"
    by (simp_all add: with_session_def demo_busy_def demo_waiter_def)
  show ?thesis
    using closed_port_loses_the_name [OF with_session_lists [of SessWaitPortReady demo_busy] _ f] w h by auto
qed

text \<open>A closed session is looked for in the whole pool by its handle and the last match wins: a
  free entry behind it that still holds the same handle value, from an earlier session, is
  freed instead, and the closed session stays in use.\<close>

theorem stale_entry_shadows_session:
  assumes "lists_ok s S P" and "x \<in> set (S SessInUse)" and "y \<in> set (S SessFree)" and "x < y"
    and "s_handle (sess s y) = s_handle (sess s x)"
  shows "\<exists>t S'. close_session e s (s_handle (sess s x)) = Some t \<and> lists_ok t S' P \<and> x \<in> set (S' SessInUse)"
  using close_stale [OF assms] .

theorem stale_entry_shadows_session_witness:
  "\<exists>t S'. close_session demo_env (with_session SessInUse zero_session) 0 = Some t \<and> lists_ok t S' demo_P \<and>
     0 \<in> set (S' SessInUse)"
  using stale_entry_shadows_session [OF with_session_lists [of SessInUse zero_session], of 0 3 demo_env]
  by (simp add: with_session_def zero_session_def SESS_POOL_def)

text \<open>Unregistering a process closes its semaphore, frees its entry and removes exactly its
  services from the table, as a multiset, however the last-entry-first replacement permutes them.\<close>

theorem unregister_process_removes_its_services:
  assumes "sm_inv s" and "UnregisterProcess e s pid = Some (r, t)"
  shows "if r = 0 then mset (services t) = filter_mset (\<lambda>v. sv_pid v \<noteq> pid) (mset (services s))
         else r = 0xD8806404 \<and> t = s"
proof -
  obtain S P where l: "lists_ok s S P" using sm_invD(1) [OF assms(1)] by blast
  show ?thesis
  proof (cases "List.find (\<lambda>x. p_pid (proc s x) = pid) (P ProcInUse)")
    case None
    with assms(2) show ?thesis by (simp add: UnregisterProcess_def findProcessData_spec [OF l])
  next
    case (Some x)
    let ?k = "svcCloseHandle e (kern s) (notificationSemaphore (proc s x))"
    obtain svs nb k where u: "unregister_loop e pid 0 (servicesInfo s) (nbServices s) ?k = (svs, nb, k)"
      by (metis prod_cases3)
    with assms(2) Some have "r = 0" "servicesInfo t = svs" "nbServices t = nb"
      by (auto simp: UnregisterProcess_def findProcessData_spec [OF l])
    with unregister_loop_mset [OF _ _ u] sm_invD(3,4) [OF assms(1)] show ?thesis
      by (simp add: services_def)
  qed
qed

text \<open>Subscribing and unsubscribing are insertion and deletion in a set of at most 17 identifiers,
  and the result code tells whether the set changed.\<close>

theorem subscriptions_are_a_set:
  assumes "subs_ok p" and "subscribe_process p nid = (r, q)" and "unsubscribe_process p nid = (r', q')"
  shows "subs_ok q \<and> (r = 0 \<longleftrightarrow> nid \<notin> subs_set p \<and> nbSubscribed p < 17) \<and>
    subs_set q = (if r = 0 then insert nid (subs_set p) else subs_set p) \<and>
    subs_ok q' \<and> (r' = 0 \<longleftrightarrow> nid \<in> subs_set p) \<and> subs_set q' = subs_set p - {nid}"
  using subscribe_process_spec [OF assms(1,2)] unsubscribe_process_spec [OF assms(1,3)] by auto

theorem unregister_process_removes_its_services_witness:
  "\<exists>t. UnregisterProcess demo_env demo_proc_sm 40 = Some (0, t) \<and> mset (services t) = {#}"
proof -
  let ?P = "demo_P(ProcFree := [1..<PROC_POOL], ProcInUse := [0])"
  have i: "sm_inv demo_proc_sm"
    using demo_proc_lists demo_sm_inv
    by (auto simp: sm_inv_def demo_proc_sm_def procs_ok_def proc_ok_def ring_ok_def subs_ok_def zero_process_def
        zero_session_def)
  have "findProcessData demo_proc_sm 40 = Some (Some 0)"
    unfolding findProcessData_spec [OF demo_proc_lists] by (simp add: demo_proc_sm_def)
  then obtain t where t: "UnregisterProcess demo_env demo_proc_sm 40 = Some (0, t)"
    by (simp add: UnregisterProcess_def Let_def case_prod_beta)
  from unregister_process_removes_its_services [OF i t] t show ?thesis
    by (auto simp: services_def demo_proc_sm_def)
qed

theorem subscriptions_are_a_set_witness:
  "subs_set (snd (subscribe_process zero_process 0x203)) = {0x203}"
  using subscriptions_are_a_set [where p = zero_process and nid = "0x203", OF _ prod.collapse [symmetric] prod.collapse [symmetric]]
  by (simp add: subs_ok_def subs_set_def zero_process_def subscribe_process_def subscribed_def split: if_splits)

end
