(* ===== verification/Cheat_State.thy ===== *)
theory Cheat_State
  imports Prelude
begin

text \<open>
  The cheat engine (\<open>sysmodules/rosalina/source/menus/cheats.c\<close>): its state, the process memory
  it works on and the six accessors of that memory.

  The machine is the record \<open>mach\<close>: the global \<open>cheat_state\<close>, the scratch page \<open>cheatPage\<close> that is
  mapped at 0x01E81000 for the codes, the two storage words of the cheat, the state of the
  random number generator and the debugged process. The kernel calls, the input devices and
  the floating point unit are fields of an environment. The static buffers the kernel reads
  into carry nothing from one call to the next and are left out.

  An operation ends with \<open>Ok\<close>, with \<open>Ret0\<close> (the interpreter returns 0; what was written stays
  written) or with \<open>Undef\<close> (an access outside an array, a division by zero, a shift by 32 or
  more).
\<close>

section \<open>The state\<close>

record cheat_state =
  index :: u32
  offset1 :: u32
  offset2 :: u32
  data1 :: u32
  data2 :: u32
  activeOffset :: bool
  activeData :: bool
  conditionalMode :: u8
  data1Mode :: bool
  data2Mode :: bool
  floatMode :: bool
  typeELine :: u8
  typeEIdx :: u8
  loopLine :: "8 word"
  loopCount :: u32
  ifStack :: u32
  storedStack :: u32
  ifCount :: u8
  storedIfCount :: u8

record cheat_desc =
  active :: bool
  valid :: bool
  hasKeyCode :: bool
  activeStorage :: bool
  c_name :: bytes
  codesCount :: u32
  storage1 :: u32
  storage2 :: u32

record 'p mach =
  cs :: cheat_state
  desc :: cheat_desc
  cheatPage :: bytes
  cheatRngState :: u64
  reads :: nat
  process_mem :: 'p

text \<open>\<open>HID_PAD\<close> and the touch screen are sampled at each read: the \<open>n\<close>-th read of a run gives the
  \<open>n\<close>-th sample. Floats are their bit patterns.\<close>

record 'p cheat_env =
  SUCCEEDED :: "result \<Rightarrow> bool"
  MEMSTATE_FREE :: u32
  svcQueryDebugProcessMemory :: "'p \<Rightarrow> u32 \<Rightarrow> result \<times> u32 \<times> u32 \<times> u32"
  svcReadProcessMemory :: "'p \<Rightarrow> u32 \<Rightarrow> nat \<Rightarrow> result \<times> bytes"
  svcWriteProcessMemory :: "'p \<Rightarrow> u32 \<Rightarrow> bytes \<Rightarrow> result \<times> 'p"
  HID_PAD :: "nat \<Rightarrow> u32"
  hidTouchRead :: "nat \<Rightarrow> u16 \<times> u16"
  float_add :: "u32 \<Rightarrow> u32 \<Rightarrow> u32"
  float_mul :: "u32 \<Rightarrow> u32 \<Rightarrow> u32"
  float_div :: "u32 \<Rightarrow> u32 \<Rightarrow> u32"
  float_to_u32 :: "u32 \<Rightarrow> u32"
  u32_to_float :: "u32 \<Rightarrow> u32"

datatype ('m, 'a) out = Ok 'a 'm | Ret0 'm | Undef

fun obind :: "('m, 'a) out \<Rightarrow> ('a \<Rightarrow> 'm \<Rightarrow> ('m, 'b) out) \<Rightarrow> ('m, 'b) out" where
  "obind (Ok a m) f = f a m"
| "obind (Ret0 m) f = Ret0 m"
| "obind Undef f = Undef"

text \<open>\<open>if (!call) return 0;\<close>\<close>

definition or_return0 :: "('m, bool) out \<Rightarrow> ('m, unit) out" where
  "or_return0 r = obind r (\<lambda>ok m. if ok then Ok () m else Ret0 m)"

section \<open>The active registers\<close>

definition get_offset :: "'p mach \<Rightarrow> u32" where
  "get_offset m = (if activeOffset (cs m) then offset2 (cs m) else offset1 (cs m))"

definition set_offset :: "u32 \<Rightarrow> 'p mach \<Rightarrow> 'p mach" where
  "set_offset v m = m\<lparr>cs := (if activeOffset (cs m) then (cs m)\<lparr>offset2 := v\<rparr> else (cs m)\<lparr>offset1 := v\<rparr>)\<rparr>"

definition get_data :: "'p mach \<Rightarrow> u32" where
  "get_data m = (if activeData (cs m) then data2 (cs m) else data1 (cs m))"

definition set_data :: "u32 \<Rightarrow> 'p mach \<Rightarrow> 'p mach" where
  "set_data v m = m\<lparr>cs := (if activeData (cs m) then (cs m)\<lparr>data2 := v\<rparr> else (cs m)\<lparr>data1 := v\<rparr>)\<rparr>"

definition get_storage :: "'p mach \<Rightarrow> u32" where
  "get_storage m = (if activeStorage (desc m) then storage2 (desc m) else storage1 (desc m))"

definition upd_cs :: "(cheat_state \<Rightarrow> cheat_state) \<Rightarrow> 'p mach \<Rightarrow> 'p mach" where
  "upd_cs f m = m\<lparr>cs := f (cs m)\<rparr>"

definition upd_desc :: "(cheat_desc \<Rightarrow> cheat_desc) \<Rightarrow> 'p mach \<Rightarrow> 'p mach" where
  "upd_desc f m = m\<lparr>desc := f (desc m)\<rparr>"

definition Cheat_GetRandomNumber :: "'p mach \<Rightarrow> u32 \<times> 'p mach" where
  "Cheat_GetRandomNumber m =
     (let s = 0x5D588B656C078965 * cheatRngState m + 0x269EC3
      in (ucast (drop_bit 32 s), m\<lparr>cheatRngState := s\<rparr>))"

section \<open>Memory\<close>

text \<open>Little-endian values of one, two and four bytes.\<close>

definition le_bytes :: "nat \<Rightarrow> u32 \<Rightarrow> bytes" where
  "le_bytes n v = map (\<lambda>i. ucast (drop_bit (8 * i) v)) [0..<n]"

definition le_value :: "bytes \<Rightarrow> u32" where
  "le_value bs = foldr (\<lambda>b v. push_bit 8 v OR ucast b) bs 0"

definition store_bytes :: "bytes \<Rightarrow> nat \<Rightarrow> bytes \<Rightarrow> bytes" where
  "store_bytes page i bs = take i page @ bs @ drop (i + length bs) page"

definition Cheat_IsValidAddress :: "'p cheat_env \<Rightarrow> 'p \<Rightarrow> u32 \<Rightarrow> u32 \<Rightarrow> bool" where
  "Cheat_IsValidAddress e p address nbytes =
     (let (res, base, sz, state) = svcQueryDebugProcessMemory e p address
      in SUCCEEDED e res \<and> state \<noteq> MEMSTATE_FREE e \<and> base > 0 \<and> base \<le> address \<and>
         address \<le> base + sz - nbytes)"

text \<open>The scratch page, for an access of \<open>n\<close> bytes at \<open>addr\<close>: the test the code makes (\<open>addr + n - 1\<close>
  wraps around) and the access itself.\<close>

definition in_page :: "nat \<Rightarrow> u32 \<Rightarrow> bool" where
  "in_page n addr \<longleftrightarrow> addr \<ge> 0x01E81000 \<and> addr + (word_of_nat n - 1) < 0x01E82000"

definition page_write :: "nat \<Rightarrow> u32 \<Rightarrow> u32 \<Rightarrow> 'p mach \<Rightarrow> ('p mach, bool) out" where
  "page_write n addr v m =
     (let i = unat (addr - 0x01E81000)
      in if i + n \<le> length (cheatPage m) then Ok True (m\<lparr>cheatPage := store_bytes (cheatPage m) i (le_bytes n v)\<rparr>)
         else Undef)"

definition page_read :: "nat \<Rightarrow> u32 \<Rightarrow> 'p mach \<Rightarrow> ('p mach, bool \<times> u32) out" where
  "page_read n addr m =
     (let i = unat (addr - 0x01E81000)
      in if i + n \<le> length (cheatPage m) then Ok (True, le_value (take n (drop i (cheatPage m)))) m else Undef)"

definition mem_write :: "'p cheat_env \<Rightarrow> nat \<Rightarrow> u32 \<Rightarrow> u32 \<Rightarrow> 'p mach \<Rightarrow> ('p mach, bool) out" where
  "mem_write e n addr v m =
     (if Cheat_IsValidAddress e (process_mem m) addr (word_of_nat n) then
        let (res, p) = svcWriteProcessMemory e (process_mem m) addr (le_bytes n v)
        in Ok (SUCCEEDED e res) (m\<lparr>process_mem := p\<rparr>)
      else Ok False m)"

definition mem_read :: "'p cheat_env \<Rightarrow> nat \<Rightarrow> u32 \<Rightarrow> 'p mach \<Rightarrow> ('p mach, bool \<times> u32) out" where
  "mem_read e n addr m =
     (if Cheat_IsValidAddress e (process_mem m) addr (word_of_nat n) then
        let (res, bs) = svcReadProcessMemory e (process_mem m) addr n
        in Ok (SUCCEEDED e res, le_value (take n bs)) m
      else Ok (False, 0) m)"

definition Cheat_Write8 :: "'p cheat_env \<Rightarrow> u32 \<Rightarrow> u8 \<Rightarrow> 'p mach \<Rightarrow> ('p mach, bool) out" where
  "Cheat_Write8 e offset v m =
     (let addr = get_offset m + offset
      in if addr \<ge> 0x01E81000 \<and> addr < 0x01E82000 then page_write 1 addr (ucast v) m
         else mem_write e 1 addr (ucast v) m)"

definition Cheat_Write16 :: "'p cheat_env \<Rightarrow> u32 \<Rightarrow> u16 \<Rightarrow> 'p mach \<Rightarrow> ('p mach, bool) out" where
  "Cheat_Write16 e offset v m =
     (let addr = get_offset m + offset
      in if in_page 2 addr then page_write 2 addr (ucast v) m else mem_write e 2 addr (ucast v) m)"

definition Cheat_Write32 :: "'p cheat_env \<Rightarrow> u32 \<Rightarrow> u32 \<Rightarrow> 'p mach \<Rightarrow> ('p mach, bool) out" where
  "Cheat_Write32 e offset v m =
     (let addr = get_offset m + offset
      in if in_page 4 addr then page_write 4 addr v m else mem_write e 4 addr v m)"

definition Cheat_Read8 :: "'p cheat_env \<Rightarrow> u32 \<Rightarrow> 'p mach \<Rightarrow> ('p mach, bool \<times> u32) out" where
  "Cheat_Read8 e offset m =
     (let addr = get_offset m + offset
      in if addr \<ge> 0x01E81000 \<and> addr < 0x01E82000 then page_read 1 addr m else mem_read e 1 addr m)"

definition Cheat_Read16 :: "'p cheat_env \<Rightarrow> u32 \<Rightarrow> 'p mach \<Rightarrow> ('p mach, bool \<times> u32) out" where
  "Cheat_Read16 e offset m =
     (let addr = get_offset m + offset
      in if in_page 2 addr then page_read 2 addr m else mem_read e 2 addr m)"

definition Cheat_Read32 :: "'p cheat_env \<Rightarrow> u32 \<Rightarrow> 'p mach \<Rightarrow> ('p mach, bool \<times> u32) out" where
  "Cheat_Read32 e offset m =
     (let addr = get_offset m + offset
      in if in_page 4 addr then page_read 4 addr m else mem_read e 4 addr m)"

text \<open>\<open>if (!Cheat_Read...(&value)) return 0;\<close> with the value, and the same for a write.\<close>

definition read_or0 :: "('p mach, bool \<times> u32) out \<Rightarrow> ('p mach, u32) out" where
  "read_or0 r = obind r (\<lambda>(ok, v) m. if ok then Ok v m else Ret0 m)"

end
