(* ===== verification/Cheat_Exec.thy ===== *)
theory Cheat_Exec
  imports Cheat_State
begin

text \<open>
  The interpreter \<open>Cheat_ApplyCheat\<close> of \<open>menus/cheats.c\<close>: one definition per code type, in the
  order of the switch, \<open>exec_line\<close> for one turn of its loop and \<open>run\<close> for the loop, with fuel
  because a malformed cheat can keep it running for ever. \<open>codes\<close> is the memory from \<open>cheat->codes\<close>
  on, also past \<open>codesCount\<close>.
\<close>

section \<open>Conditionals\<close>

definition push_cond :: "bool \<Rightarrow> 'p mach \<Rightarrow> ('p mach, unit) out" where
  "push_cond newSkip m =
     (let skipExecution = (ifStack (cs m) AND 1 \<noteq> 0)
      in Ok () (upd_cs (\<lambda>c. c\<lparr>ifStack := push_bit 1 (ifStack c) OR (if newSkip \<or> skipExecution then 1 else 0),
                              ifCount := ifCount c + 1\<rparr>) m))"

text \<open>The five modes of the 32-bit conditionals 3 to 6, for the comparison \<open>cmp\<close>.\<close>

definition cond32 :: "(u32 \<Rightarrow> u32 \<Rightarrow> bool) \<Rightarrow> 'p cheat_env \<Rightarrow> u32 \<Rightarrow> u32 \<Rightarrow> 'p mach \<Rightarrow> ('p mach, unit) out" where
  "cond32 cmp e arg0 arg1 m =
     (let mode = conditionalMode (cs m)
      in if mode = 0 then
           obind (read_or0 (Cheat_Read32 e (arg0 AND 0x0FFFFFFF) m)) (\<lambda>value m. push_cond (\<not> cmp value arg1) m)
         else if mode = 1 then
           obind (read_or0 (Cheat_Read32 e (arg0 AND 0x0FFFFFFF) m)) (\<lambda>value m. push_cond (\<not> cmp value (get_data m)) m)
         else if mode = 2 then push_cond (\<not> cmp (get_data m) arg1) m
         else if mode = 3 then push_cond (\<not> cmp (get_storage m) arg1) m
         else if mode = 4 then push_cond (\<not> cmp (get_data m) (get_storage m)) m
         else Ret0 m)"

text \<open>The 16-bit conditionals 7 to A. The mask is a \<open>u16\<close>; \<open>~mask\<close> is an \<open>int\<close>, so it keeps the high
  half of a 32-bit register.\<close>

definition cond16 :: "(u32 \<Rightarrow> u32 \<Rightarrow> bool) \<Rightarrow> 'p cheat_env \<Rightarrow> u32 \<Rightarrow> u32 \<Rightarrow> 'p mach \<Rightarrow> ('p mach, unit) out" where
  "cond16 cmp e arg0 arg1 m =
     (let mode = conditionalMode (cs m);
          keep = NOT (drop_bit 16 arg1 AND 0xFFFF)
      in if mode = 0 then
           obind (read_or0 (Cheat_Read16 e (arg0 AND 0x0FFFFFFF) m))
             (\<lambda>value m. push_cond (\<not> cmp (value AND keep) (arg1 AND 0xFFFF)) m)
         else if mode = 1 then
           obind (read_or0 (Cheat_Read16 e (arg0 AND 0x0FFFFFFF) m))
             (\<lambda>value m. push_cond (\<not> cmp (value AND keep) (get_data m AND keep)) m)
         else if mode = 2 then push_cond (\<not> cmp (get_data m AND keep) (arg1 AND 0xFFFF)) m
         else if mode = 3 then push_cond (\<not> cmp (get_storage m AND keep) (arg1 AND 0xFFFF)) m
         else if mode = 4 then push_cond (\<not> cmp (get_data m AND keep) (get_storage m AND keep)) m
         else Ret0 m)"

definition op_3 :: "'p cheat_env \<Rightarrow> u32 \<Rightarrow> u32 \<Rightarrow> 'p mach \<Rightarrow> ('p mach, unit) out" where
  "op_3 = cond32 (<)"
definition op_4 :: "'p cheat_env \<Rightarrow> u32 \<Rightarrow> u32 \<Rightarrow> 'p mach \<Rightarrow> ('p mach, unit) out" where
  "op_4 = cond32 (>)"
definition op_5 :: "'p cheat_env \<Rightarrow> u32 \<Rightarrow> u32 \<Rightarrow> 'p mach \<Rightarrow> ('p mach, unit) out" where
  "op_5 = cond32 (=)"
definition op_6 :: "'p cheat_env \<Rightarrow> u32 \<Rightarrow> u32 \<Rightarrow> 'p mach \<Rightarrow> ('p mach, unit) out" where
  "op_6 = cond32 (\<noteq>)"
definition op_7 :: "'p cheat_env \<Rightarrow> u32 \<Rightarrow> u32 \<Rightarrow> 'p mach \<Rightarrow> ('p mach, unit) out" where
  "op_7 = cond16 (<)"
definition op_8 :: "'p cheat_env \<Rightarrow> u32 \<Rightarrow> u32 \<Rightarrow> 'p mach \<Rightarrow> ('p mach, unit) out" where
  "op_8 = cond16 (>)"
definition op_9 :: "'p cheat_env \<Rightarrow> u32 \<Rightarrow> u32 \<Rightarrow> 'p mach \<Rightarrow> ('p mach, unit) out" where
  "op_9 = cond16 (=)"
definition op_A :: "'p cheat_env \<Rightarrow> u32 \<Rightarrow> u32 \<Rightarrow> 'p mach \<Rightarrow> ('p mach, unit) out" where
  "op_A = cond16 (\<noteq>)"

section \<open>Writes and the offset load\<close>

definition op_0 :: "'p cheat_env \<Rightarrow> u32 \<Rightarrow> u32 \<Rightarrow> 'p mach \<Rightarrow> ('p mach, unit) out" where
  "op_0 e arg0 arg1 m = or_return0 (Cheat_Write32 e (arg0 AND 0x0FFFFFFF) arg1 m)"

definition op_1 :: "'p cheat_env \<Rightarrow> u32 \<Rightarrow> u32 \<Rightarrow> 'p mach \<Rightarrow> ('p mach, unit) out" where
  "op_1 e arg0 arg1 m = or_return0 (Cheat_Write16 e (arg0 AND 0x0FFFFFFF) (ucast (arg1 AND 0xFFFF)) m)"

definition op_2 :: "'p cheat_env \<Rightarrow> u32 \<Rightarrow> u32 \<Rightarrow> 'p mach \<Rightarrow> ('p mach, unit) out" where
  "op_2 e arg0 arg1 m = or_return0 (Cheat_Write8 e (arg0 AND 0x0FFFFFFF) (ucast (arg1 AND 0xFF)) m)"

definition op_B :: "'p cheat_env \<Rightarrow> u32 \<Rightarrow> u32 \<Rightarrow> 'p mach \<Rightarrow> ('p mach, unit) out" where
  "op_B e arg0 arg1 m =
     obind (read_or0 (Cheat_Read32 e (arg0 AND 0x0FFFFFFF) m)) (\<lambda>value m. Ok () (set_offset value m))"

section \<open>Loops\<close>

definition start_loop :: "u32 \<Rightarrow> cheat_state \<Rightarrow> cheat_state" where
  "start_loop n c = c\<lparr>loopLine := ucast (index c), loopCount := n, storedStack := ifStack c, storedIfCount := ifCount c\<rparr>"

definition op_C :: "u32 \<Rightarrow> u32 \<Rightarrow> 'p mach \<Rightarrow> ('p mach, unit) out" where
  "op_C arg0 arg1 m =
     (let subcode = drop_bit 24 arg0 AND 0x0F
      in Ok () (upd_cs (\<lambda>c.
           if subcode = 0 then start_loop arg1 c
           else if subcode = 1 then start_loop (data1 c) c
           else if subcode = 2 then start_loop (data2 c) c
           else c) m))"

text \<open>The common end of a repeated block: jump back, or leave the loop.\<close>

definition jump_back :: "cheat_state \<Rightarrow> cheat_state" where
  "jump_back c = (if loopLine c \<noteq> -1 then c\<lparr>index := scast (loopLine c)\<rparr> else c)"

definition end_if :: "cheat_state \<Rightarrow> cheat_state" where
  "end_if c = c\<lparr>ifStack := drop_bit 1 (ifStack c), ifCount := ifCount c - 1\<rparr>"

definition end_cond :: "cheat_state \<Rightarrow> cheat_state" where
  "end_cond c =
     (if loopLine c \<noteq> -1 then
        if ifCount c > 0 \<and> ifCount c > storedIfCount c then end_if c
        else if loopCount c > 0 then
          let c1 = c\<lparr>loopCount := loopCount c - 1\<rparr>
          in if loopCount c1 = 0 then c1\<lparr>loopLine := -1\<rparr> else jump_back c1
        else c
      else if ifCount c > 0 then end_if c else c)"

text \<open>The search of the loop break for the line that ends the loop; the first argument is the number
  of lines left.\<close>

fun loop_break :: "nat \<Rightarrow> (u32 \<Rightarrow> u64) \<Rightarrow> u32 \<Rightarrow> u32 \<Rightarrow> u32" where
  "loop_break 0 codes n i = i"
| "loop_break (Suc k) codes n i =
     (if i < n then
        if codes i = 0xD100000000000000 \<or> codes i = 0xD200000000000000 then i + 1
        else loop_break k codes n (i + 1)
      else i)"

definition op_D0 :: "(u32 \<Rightarrow> u64) \<Rightarrow> u32 \<Rightarrow> 'p mach \<Rightarrow> ('p mach, unit) out" where
  "op_D0 codes arg1 m =
     (if arg1 = 0 then Ok () (upd_cs end_cond m)
      else if \<not> (ifStack (cs m) AND 1 \<noteq> 0) \<and> arg1 = 1 then
        Ok () (upd_cs (\<lambda>c. c\<lparr>loopCount := 0, loopLine := -1,
          index := loop_break (unat (codesCount (desc m) - (index c + 1))) codes (codesCount (desc m)) (index c + 1)\<rparr>) m)
      else Ok () m)"

definition end_loop :: "cheat_state \<Rightarrow> cheat_state" where
  "end_loop c =
     (if loopCount c > 0 then
        let c1 = c\<lparr>ifStack := storedStack c, ifCount := storedIfCount c, loopCount := loopCount c - 1\<rparr>
        in if loopCount c1 = 0 then c1\<lparr>loopLine := -1\<rparr> else jump_back c1
      else c)"

definition op_D1 :: "'p mach \<Rightarrow> ('p mach, unit) out" where
  "op_D1 m = Ok () (upd_cs end_loop m)"

definition op_D2 :: "u32 \<Rightarrow> 'p mach \<Rightarrow> ('p mach, unit) out" where
  "op_D2 arg1 m =
     (if arg1 = 0 then
        if loopCount (cs m) > 0 then
          let m1 = upd_cs (\<lambda>c. c\<lparr>loopCount := loopCount c - 1\<rparr>) m
          in if loopCount (cs m1) = 0
             then Ok () (upd_cs (\<lambda>c. c\<lparr>loopLine := -1, ifStack := 0, ifCount := 0\<rparr>) (set_offset 0 (set_data 0 m1)))
             else Ok () (upd_cs jump_back m1)
        else Ok () (upd_cs (\<lambda>c. c\<lparr>ifStack := 0, ifCount := 0\<rparr>) (set_offset 0 (set_data 0 m)))
      else if \<not> (ifStack (cs m) AND 1 \<noteq> 0) \<and> arg1 = 1 then
        Ok () (upd_cs (\<lambda>c. c\<lparr>index := codesCount (desc m)\<rparr>) m)
      else Ok () m)"

section \<open>Registers\<close>

definition op_D3 :: "u32 \<Rightarrow> u32 \<Rightarrow> 'p mach \<Rightarrow> ('p mach, unit) out" where
  "op_D3 codeArg arg1 m =
     Ok () (upd_cs (\<lambda>c. if codeArg = 0 then c\<lparr>offset1 := arg1\<rparr>
                        else if codeArg = 1 then c\<lparr>offset2 := arg1\<rparr> else c) m)"

definition op_D4 :: "u32 \<Rightarrow> u32 \<Rightarrow> 'p mach \<Rightarrow> ('p mach, unit) out" where
  "op_D4 codeArg arg1 m =
     Ok () (if codeArg = 0 then set_data (get_data m + arg1) m
            else upd_cs (\<lambda>c. if codeArg = 1 then c\<lparr>data1 := data1 c + (arg1 + data2 c)\<rparr>
                             else if codeArg = 2 then c\<lparr>data2 := data2 c + (arg1 + data1 c)\<rparr> else c) m)"

definition set_data_reg :: "u32 \<Rightarrow> u32 \<Rightarrow> 'p mach \<Rightarrow> 'p mach" where
  "set_data_reg codeArg v m =
     (if codeArg = 0 then set_data v m
      else upd_cs (\<lambda>c. if codeArg = 1 then c\<lparr>data1 := v\<rparr> else if codeArg = 2 then c\<lparr>data2 := v\<rparr> else c) m)"

definition get_data_reg :: "u32 \<Rightarrow> 'p mach \<Rightarrow> u32" where
  "get_data_reg codeArg m =
     (if codeArg = 0 then get_data m else if codeArg = 1 then data1 (cs m) else data2 (cs m))"

definition op_D5 :: "u32 \<Rightarrow> u32 \<Rightarrow> 'p mach \<Rightarrow> ('p mach, unit) out" where
  "op_D5 codeArg arg1 m = Ok () (set_data_reg codeArg arg1 m)"

text \<open>Stores with increment and loads, for the three values of \<open>codeArg\<close> that do something.\<close>

definition op_D6 :: "'p cheat_env \<Rightarrow> u32 \<Rightarrow> u32 \<Rightarrow> 'p mach \<Rightarrow> ('p mach, unit) out" where
  "op_D6 e codeArg arg1 m =
     (if codeArg \<le> 2 then
        obind (or_return0 (Cheat_Write32 e arg1 (get_data_reg codeArg m) m))
          (\<lambda>_ m. Ok () (set_offset (get_offset m + 4) m))
      else Ok () m)"

definition op_D7 :: "'p cheat_env \<Rightarrow> u32 \<Rightarrow> u32 \<Rightarrow> 'p mach \<Rightarrow> ('p mach, unit) out" where
  "op_D7 e codeArg arg1 m =
     (if codeArg \<le> 2 then
        obind (or_return0 (Cheat_Write16 e arg1 (ucast (get_data_reg codeArg m AND 0xFFFF)) m))
          (\<lambda>_ m. Ok () (set_offset (get_offset m + 2) m))
      else Ok () m)"

definition op_D8 :: "'p cheat_env \<Rightarrow> u32 \<Rightarrow> u32 \<Rightarrow> 'p mach \<Rightarrow> ('p mach, unit) out" where
  "op_D8 e codeArg arg1 m =
     (if codeArg \<le> 2 then
        obind (or_return0 (Cheat_Write8 e arg1 (ucast (get_data_reg codeArg m AND 0xFF)) m))
          (\<lambda>_ m. Ok () (set_offset (get_offset m + 1) m))
      else Ok () m)"

definition op_D9 :: "'p cheat_env \<Rightarrow> u32 \<Rightarrow> u32 \<Rightarrow> 'p mach \<Rightarrow> ('p mach, unit) out" where
  "op_D9 e codeArg arg1 m =
     (if codeArg \<le> 2 then obind (read_or0 (Cheat_Read32 e arg1 m)) (\<lambda>v m. Ok () (set_data_reg codeArg v m))
      else Ok () m)"

definition op_DA :: "'p cheat_env \<Rightarrow> u32 \<Rightarrow> u32 \<Rightarrow> 'p mach \<Rightarrow> ('p mach, unit) out" where
  "op_DA e codeArg arg1 m =
     (if codeArg \<le> 2 then obind (read_or0 (Cheat_Read16 e arg1 m)) (\<lambda>v m. Ok () (set_data_reg codeArg v m))
      else Ok () m)"

definition op_DB :: "'p cheat_env \<Rightarrow> u32 \<Rightarrow> u32 \<Rightarrow> 'p mach \<Rightarrow> ('p mach, unit) out" where
  "op_DB e codeArg arg1 m =
     (if codeArg \<le> 2 then obind (read_or0 (Cheat_Read8 e arg1 m)) (\<lambda>v m. Ok () (set_data_reg codeArg v m))
      else Ok () m)"

definition op_DC :: "u32 \<Rightarrow> 'p mach \<Rightarrow> ('p mach, unit) out" where
  "op_DC arg1 m = Ok () (set_offset (get_offset m + arg1) m)"

definition op_DD :: "'p cheat_env \<Rightarrow> u32 \<Rightarrow> 'p mach \<Rightarrow> ('p mach, unit) out" where
  "op_DD e arg1 m =
     (let pad = HID_PAD e (reads m); m1 = (if arg1 = 0 then m else m\<lparr>reads := reads m + 1\<rparr>)
      in push_cond (\<not> (arg1 = 0 \<or> pad AND arg1 = arg1)) m1)"

definition op_DE :: "'p cheat_env \<Rightarrow> u32 \<Rightarrow> u32 \<Rightarrow> 'p mach \<Rightarrow> ('p mach, unit) out" where
  "op_DE e codeArg arg1 m =
     (let highBound = drop_bit 16 arg1; lowBound = arg1 AND 0xFFFF;
          (px, py) = hidTouchRead e (reads m); m1 = m\<lparr>reads := reads m + 1\<rparr>
      in if codeArg = 0 then push_cond (\<not> (lowBound \<le> ucast px \<and> highBound \<ge> ucast px)) m1
         else if codeArg = 1 then push_cond (\<not> (lowBound \<le> ucast py \<and> highBound \<ge> ucast py)) m1
         else Ret0 m1)"

text \<open>The DF type: register copies and modes. It does not look at \<open>skipExecution\<close>.\<close>

definition df_offset :: "u32 \<Rightarrow> cheat_state \<Rightarrow> cheat_state" where
  "df_offset arg1 c =
     (if arg1 AND 0x00010000 \<noteq> 0 then
        if arg1 AND 1 \<noteq> 0 then c\<lparr>offset2 := offset1 c\<rparr> else c\<lparr>offset1 := offset2 c\<rparr>
      else if arg1 AND 0x00020000 \<noteq> 0 then
        if arg1 AND 1 \<noteq> 0 then c\<lparr>data2 := offset2 c\<rparr> else c\<lparr>data1 := offset1 c\<rparr>
      else c\<lparr>activeOffset := (arg1 AND 1 \<noteq> 0)\<rparr>)"

definition df_data :: "u32 \<Rightarrow> cheat_state \<Rightarrow> cheat_state" where
  "df_data arg1 c =
     (if arg1 AND 0x00010000 \<noteq> 0 then
        if arg1 AND 1 \<noteq> 0 then c\<lparr>data2 := data1 c\<rparr> else c\<lparr>data1 := data2 c\<rparr>
      else if arg1 AND 0x00020000 \<noteq> 0 then
        if arg1 AND 1 \<noteq> 0 then c\<lparr>offset2 := data2 c\<rparr> else c\<lparr>offset1 := data1 c\<rparr>
      else c\<lparr>activeData := (arg1 AND 1 \<noteq> 0)\<rparr>)"

definition df_storage :: "u32 \<Rightarrow> 'p mach \<Rightarrow> 'p mach" where
  "df_storage arg1 m =
     (if arg1 AND 0x00010000 \<noteq> 0 then
        if arg1 AND 1 \<noteq> 0 then upd_cs (\<lambda>c. c\<lparr>data2 := storage2 (desc m)\<rparr>) m
        else upd_cs (\<lambda>c. c\<lparr>data1 := storage1 (desc m)\<rparr>) m
      else if arg1 AND 0x00020000 \<noteq> 0 then
        if arg1 AND 1 \<noteq> 0 then upd_desc (\<lambda>d. d\<lparr>storage2 := data2 (cs m)\<rparr>) m
        else upd_desc (\<lambda>d. d\<lparr>storage1 := data1 (cs m)\<rparr>) m
      else upd_desc (\<lambda>d. d\<lparr>activeStorage := (arg1 AND 1 \<noteq> 0)\<rparr>) m)"

definition df_mode :: "'p cheat_env \<Rightarrow> u32 \<Rightarrow> 'p mach \<Rightarrow> ('p mach, unit) out" where
  "df_mode e arg1 m =
     (if activeData (cs m) then
        if arg1 = 0 then Ok () (upd_cs (\<lambda>c. c\<lparr>data2Mode := False\<rparr>) m)
        else if arg1 = 1 then Ok () (upd_cs (\<lambda>c. c\<lparr>data2Mode := True\<rparr>) m)
        else if arg1 = 0x10 then Ok () (upd_cs (\<lambda>c. c\<lparr>data2Mode := False, data2 := float_to_u32 e (data2 c)\<rparr>) m)
        else if arg1 = 0x11 then Ok () (upd_cs (\<lambda>c. c\<lparr>data2Mode := True, data2 := u32_to_float e (data2 c)\<rparr>) m)
        else Ret0 m
      else
        if arg1 = 0 then Ok () (upd_cs (\<lambda>c. c\<lparr>data1Mode := False\<rparr>) m)
        else if arg1 = 1 then Ok () (upd_cs (\<lambda>c. c\<lparr>data1Mode := True\<rparr>) m)
        else if arg1 = 0x10 then Ok () (upd_cs (\<lambda>c. c\<lparr>data1Mode := False, data1 := float_to_u32 e (data1 c)\<rparr>) m)
        else if arg1 = 0x11 then Ok () (upd_cs (\<lambda>c. c\<lparr>data1Mode := True, data1 := u32_to_float e (data1 c)\<rparr>) m)
        else Ret0 m)"

definition op_DF :: "'p cheat_env \<Rightarrow> u32 \<Rightarrow> u32 \<Rightarrow> 'p mach \<Rightarrow> ('p mach, unit) out" where
  "op_DF e codeArg arg1 m =
     (if codeArg = 0 then Ok () (upd_cs (df_offset arg1) m)
      else if codeArg = 1 then Ok () (upd_cs (df_data arg1) m)
      else if codeArg = 2 then Ok () (df_storage arg1 m)
      else if codeArg = 0xE then df_mode e arg1 m
      else if codeArg = 0xF then
        if arg1 < 5 then Ok () (upd_cs (\<lambda>c. c\<lparr>conditionalMode := ucast arg1\<rparr>) m) else Ret0 m
      else Ret0 m)"

text \<open>The D types. Those from D3 to DC do nothing when the line is skipped.\<close>

definition op_D :: "'p cheat_env \<Rightarrow> (u32 \<Rightarrow> u64) \<Rightarrow> u32 \<Rightarrow> u32 \<Rightarrow> 'p mach \<Rightarrow> ('p mach, unit) out" where
  "op_D e codes arg0 arg1 m =
     (let subcode = drop_bit 24 arg0 AND 0x0F; codeArg = arg0 AND 0x0F;
          skipExecution = (ifStack (cs m) AND 1 \<noteq> 0)
      in if subcode = 0 then op_D0 codes arg1 m
         else if subcode = 1 then op_D1 m
         else if subcode = 2 then op_D2 arg1 m
         else if subcode = 0xD then op_DD e arg1 m
         else if subcode = 0xE then op_DE e codeArg arg1 m
         else if subcode = 0xF then op_DF e codeArg arg1 m
         else if skipExecution then Ok () m
         else if subcode = 3 then op_D3 codeArg arg1 m
         else if subcode = 4 then op_D4 codeArg arg1 m
         else if subcode = 5 then op_D5 codeArg arg1 m
         else if subcode = 6 then op_D6 e codeArg arg1 m
         else if subcode = 7 then op_D7 e codeArg arg1 m
         else if subcode = 8 then op_D8 e codeArg arg1 m
         else if subcode = 9 then op_D9 e codeArg arg1 m
         else if subcode = 0xA then op_DA e codeArg arg1 m
         else if subcode = 0xB then op_DB e codeArg arg1 m
         else op_DC arg1 m)"

section \<open>The byte payload of the E type\<close>

definition typeEMapping :: "nat list" where
  "typeEMapping = [32, 40, 48, 56, 0, 8, 16, 24]"

definition Cheat_GetNextTypeE :: "(u32 \<Rightarrow> u64) \<Rightarrow> 'p mach \<Rightarrow> u8 \<times> 'p mach" where
  "Cheat_GetNextTypeE codes m =
     (let m1 = (if typeEIdx (cs m) = 7 then upd_cs (\<lambda>c. c\<lparr>typeEIdx := 0, typeELine := typeELine c + 1\<rparr>) m
                else upd_cs (\<lambda>c. c\<lparr>typeEIdx := typeEIdx c + 1\<rparr>) m)
      in (ucast (drop_bit (typeEMapping ! unat (typeEIdx (cs m1))) (codes (ucast (typeELine (cs m1)))) AND 0xFF), m1))"

fun typeE_loop :: "'p cheat_env \<Rightarrow> (u32 \<Rightarrow> u64) \<Rightarrow> bool \<Rightarrow> u32 \<Rightarrow> nat \<Rightarrow> u32 \<Rightarrow> 'p mach \<Rightarrow> ('p mach, unit) out" where
  "typeE_loop e codes skip beginOffset 0 i m = Ok () m"
| "typeE_loop e codes skip beginOffset (Suc k) i m =
     (let (byte, m1) = Cheat_GetNextTypeE codes m
      in if skip then typeE_loop e codes skip beginOffset k (i + 1) m1
         else obind (or_return0 (Cheat_Write8 e (beginOffset + i) byte m1))
                (\<lambda>_ m2. typeE_loop e codes skip beginOffset k (i + 1) m2))"

definition op_E :: "'p cheat_env \<Rightarrow> (u32 \<Rightarrow> u64) \<Rightarrow> u32 \<Rightarrow> u32 \<Rightarrow> 'p mach \<Rightarrow> ('p mach, unit) out" where
  "op_E e codes arg0 arg1 m =
     (let m1 = upd_cs (\<lambda>c. c\<lparr>typeELine := ucast (index c), typeEIdx := 7\<rparr>) m
      in obind (typeE_loop e codes (ifStack (cs m) AND 1 \<noteq> 0) (arg0 AND 0x0FFFFFFF) (unat arg1) 0 m1)
           (\<lambda>_ m2. Ok () (upd_cs (\<lambda>c. c\<lparr>index := ucast (typeELine c)\<rparr>) m2)))"

section \<open>The F types\<close>

text \<open>Read, change, write back at the same offset (F1 to F3). A division by zero is undefined.\<close>

definition modify32 :: "'p cheat_env \<Rightarrow> u32 \<Rightarrow> (u32 \<Rightarrow> u32 option) \<Rightarrow> 'p mach \<Rightarrow> ('p mach, unit) out" where
  "modify32 e offset f m =
     obind (read_or0 (Cheat_Read32 e offset m))
       (\<lambda>v m1. case f v of None \<Rightarrow> Undef | Some w \<Rightarrow> or_return0 (Cheat_Write32 e offset w m1))"

definition op_F1 :: "'p cheat_env \<Rightarrow> u32 \<Rightarrow> u32 \<Rightarrow> 'p mach \<Rightarrow> ('p mach, unit) out" where
  "op_F1 e arg0 arg1 m =
     modify32 e (arg0 AND 0x00FFFFFF)
       (\<lambda>tmp. Some (if floatMode (cs m) then float_add e tmp arg1 else tmp + arg1)) m"

definition op_F2 :: "'p cheat_env \<Rightarrow> u32 \<Rightarrow> u32 \<Rightarrow> 'p mach \<Rightarrow> ('p mach, unit) out" where
  "op_F2 e arg0 arg1 m =
     modify32 e (arg0 AND 0x00FFFFFF)
       (\<lambda>tmp. Some (if floatMode (cs m) then float_mul e tmp arg1 else tmp * arg1)) m"

definition op_F3 :: "'p cheat_env \<Rightarrow> u32 \<Rightarrow> u32 \<Rightarrow> 'p mach \<Rightarrow> ('p mach, unit) out" where
  "op_F3 e arg0 arg1 m =
     modify32 e (arg0 AND 0x00FFFFFF)
       (\<lambda>tmp. if floatMode (cs m) then Some (float_div e tmp arg1)
              else if arg1 = 0 then None else Some (tmp div arg1)) m"

definition op_F4 :: "'p cheat_env \<Rightarrow> u32 \<Rightarrow> 'p mach \<Rightarrow> ('p mach, unit) out" where
  "op_F4 e arg1 m =
     Ok () (set_data (if data1Mode (cs m) then float_mul e (get_data m) arg1 else get_data m * arg1) m)"

definition op_F5 :: "'p cheat_env \<Rightarrow> u32 \<Rightarrow> 'p mach \<Rightarrow> ('p mach, unit) out" where
  "op_F5 e arg1 m =
     (if data1Mode (cs m) then Ok () (set_data (float_div e (get_data m) arg1) m)
      else if arg1 = 0 then Undef else Ok () (set_data (get_data m div arg1) m))"

definition op_FA :: "u32 \<Rightarrow> 'p mach \<Rightarrow> ('p mach, unit) out" where
  "op_FA arg1 m = (if arg1 \<ge> 32 then Undef else Ok () (set_data (push_bit (unat arg1) (get_data m)) m))"

definition op_FB :: "u32 \<Rightarrow> 'p mach \<Rightarrow> ('p mach, unit) out" where
  "op_FB arg1 m = (if arg1 \<ge> 32 then Undef else Ok () (set_data (drop_bit (unat arg1) (get_data m)) m))"

text \<open>FC: \<open>arg1\<close> times, a byte from the second offset to the first.\<close>

definition copy_byte :: "'p cheat_env \<Rightarrow> 'p mach \<Rightarrow> ('p mach, unit) out" where
  "copy_byte e m =
     obind (read_or0 (Cheat_Read8 e 0 (upd_cs (\<lambda>c. c\<lparr>activeOffset := True\<rparr>) m)))
       (\<lambda>v m1. or_return0 (Cheat_Write8 e 0 (ucast v) (upd_cs (\<lambda>c. c\<lparr>activeOffset := False\<rparr>) m1)))"

fun copy_loop :: "'p cheat_env \<Rightarrow> nat \<Rightarrow> 'p mach \<Rightarrow> ('p mach, unit) out" where
  "copy_loop e 0 m = Ok () m"
| "copy_loop e (Suc k) m = obind (copy_byte e m) (\<lambda>_ m1. copy_loop e k m1)"

definition op_FC :: "'p cheat_env \<Rightarrow> u32 \<Rightarrow> 'p mach \<Rightarrow> ('p mach, unit) out" where
  "op_FC e arg1 m =
     obind (copy_loop e (unat arg1) m)
       (\<lambda>_ m1. Ok () (upd_cs (\<lambda>c. c\<lparr>activeOffset := activeOffset (cs m)\<rparr>) m1))"

text \<open>FE: the pattern search. The pattern is the memory after the line, as bytes. The result of the two
  loops is \<open>newSkip\<close>.\<close>

definition pattern_byte :: "(u32 \<Rightarrow> u64) \<Rightarrow> u32 \<Rightarrow> nat \<Rightarrow> u8" where
  "pattern_byte codes line j = ucast (drop_bit (8 * (j mod 8)) (codes (line + word_of_nat (j div 8))))"

fun match_at :: "'p cheat_env \<Rightarrow> (nat \<Rightarrow> u8) \<Rightarrow> nat \<Rightarrow> u32 \<Rightarrow> nat \<Rightarrow> 'p mach \<Rightarrow> ('p mach, bool) out" where
  "match_at e pat 0 i j m = Ok False m"
| "match_at e pat (Suc k) i j m =
     obind (read_or0 (Cheat_Read8 e (i + word_of_nat j) m))
       (\<lambda>curVal m1. if ucast curVal \<noteq> pat j then Ok True m1 else match_at e pat k i (j + 1) m1)"

fun search_loop :: "'p cheat_env \<Rightarrow> (nat \<Rightarrow> u8) \<Rightarrow> nat \<Rightarrow> nat \<Rightarrow> u32 \<Rightarrow> 'p mach \<Rightarrow> ('p mach, bool) out" where
  "search_loop e pat searchSize 0 i m = Ok True m"
| "search_loop e pat searchSize (Suc k) i m =
     obind (match_at e pat searchSize i 0 m)
       (\<lambda>newSkip m1. if \<not> newSkip then Ok False m1 else search_loop e pat searchSize k (i + 1) m1)"

definition op_FE :: "'p cheat_env \<Rightarrow> (u32 \<Rightarrow> u64) \<Rightarrow> u32 \<Rightarrow> u32 \<Rightarrow> 'p mach \<Rightarrow> ('p mach, unit) out" where
  "op_FE e codes arg0 arg1 m =
     (let searchSize = arg0 AND 0xFFFF; line = index (cs m)
      in if searchSize \<le> arg1 \<and> searchSize + line < codesCount (desc m) then
           if \<not> (ifStack (cs m) AND 1 \<noteq> 0) then
             let m1 = upd_cs (\<lambda>c. c\<lparr>index := index c + searchSize div 8 + (if searchSize AND 7 \<noteq> 0 then 1 else 0)\<rparr>) m
             in obind (search_loop e (pattern_byte codes (line + 1)) (unat searchSize) (unat (arg1 - searchSize)) 0 m1) push_cond
           else push_cond True m
         else Ret0 m)"

definition op_FF :: "u32 \<Rightarrow> u32 \<Rightarrow> 'p mach \<Rightarrow> ('p mach, unit) out" where
  "op_FF arg0 arg1 m =
     (let lo = arg0 AND 0xFFFFFF; range = arg1 - lo; (r, m1) = Cheat_GetRandomNumber m
      in if range = 0 then Undef else Ok () (set_data (lo + r mod range) m1))"

definition op_F :: "'p cheat_env \<Rightarrow> (u32 \<Rightarrow> u64) \<Rightarrow> u32 \<Rightarrow> u32 \<Rightarrow> 'p mach \<Rightarrow> ('p mach, unit) out" where
  "op_F e codes arg0 arg1 m =
     (let subcode = drop_bit 24 arg0 AND 0x0F; skipExecution = (ifStack (cs m) AND 1 \<noteq> 0)
      in if arg0 = 0xF0F00000 then Ret0 m
         else if subcode = 0xD then Ret0 m
         else if subcode = 0xE then op_FE e codes arg0 arg1 m
         else if skipExecution then Ok () m
         else if subcode = 0 then Ok () (upd_cs (\<lambda>c. c\<lparr>floatMode := (arg1 AND 1 \<noteq> 0)\<rparr>) m)
         else if subcode = 1 then op_F1 e arg0 arg1 m
         else if subcode = 2 then op_F2 e arg0 arg1 m
         else if subcode = 3 then op_F3 e arg0 arg1 m
         else if subcode = 4 then op_F4 e arg1 m
         else if subcode = 5 then op_F5 e arg1 m
         else if subcode = 6 then Ok () (set_data (get_data m AND arg1) m)
         else if subcode = 7 then Ok () (set_data (get_data m OR arg1) m)
         else if subcode = 8 then Ok () (set_data (get_data m XOR arg1) m)
         else if subcode = 9 then Ok () (set_data (NOT (get_data m)) m)
         else if subcode = 0xA then op_FA arg1 m
         else if subcode = 0xB then op_FB arg1 m
         else if subcode = 0xC then op_FC e arg1 m
         else op_FF arg0 arg1 m)"

section \<open>The loop\<close>

definition exec_op :: "'p cheat_env \<Rightarrow> (u32 \<Rightarrow> u64) \<Rightarrow> u32 \<Rightarrow> u32 \<Rightarrow> 'p mach \<Rightarrow> ('p mach, unit) out" where
  "exec_op e codes arg0 arg1 m =
     (let code = drop_bit 28 arg0 AND 0x0F; skipExecution = (ifStack (cs m) AND 1 \<noteq> 0)
      in if code = 0 then if skipExecution then Ok () m else op_0 e arg0 arg1 m
         else if code = 1 then if skipExecution then Ok () m else op_1 e arg0 arg1 m
         else if code = 2 then if skipExecution then Ok () m else op_2 e arg0 arg1 m
         else if code = 3 then op_3 e arg0 arg1 m
         else if code = 4 then op_4 e arg0 arg1 m
         else if code = 5 then op_5 e arg0 arg1 m
         else if code = 6 then op_6 e arg0 arg1 m
         else if code = 7 then op_7 e arg0 arg1 m
         else if code = 8 then op_8 e arg0 arg1 m
         else if code = 9 then op_9 e arg0 arg1 m
         else if code = 0xA then op_A e arg0 arg1 m
         else if code = 0xB then if skipExecution then Ok () m else op_B e arg0 arg1 m
         else if code = 0xC then op_C arg0 arg1 m
         else if code = 0xD then op_D e codes arg0 arg1 m
         else if code = 0xE then op_E e codes arg0 arg1 m
         else op_F e codes arg0 arg1 m)"

definition exec_line :: "'p cheat_env \<Rightarrow> (u32 \<Rightarrow> u64) \<Rightarrow> 'p mach \<Rightarrow> ('p mach, unit) out" where
  "exec_line e codes m =
     (let line = codes (index (cs m)); arg0 = ucast (drop_bit 32 line); arg1 = ucast line
      in if arg0 = 0 \<and> arg1 = 0 then Ret0 m
         else obind (exec_op e codes arg0 arg1 m) (\<lambda>_ m1. Ok () (upd_cs (\<lambda>c. c\<lparr>index := index c + 1\<rparr>) m1)))"

text \<open>\<^term>\<open>None\<close>: out of fuel, the loop is still running.\<close>

fun run :: "nat \<Rightarrow> 'p cheat_env \<Rightarrow> (u32 \<Rightarrow> u64) \<Rightarrow> 'p mach \<Rightarrow> ('p mach, unit) out option" where
  "run fuel e codes m =
     (if index (cs m) < codesCount (desc m) then
        case fuel of
          0 \<Rightarrow> None
        | Suc k \<Rightarrow> (case exec_line e codes m of Ok _ m1 \<Rightarrow> run k e codes m1 | r \<Rightarrow> Some r)
      else Some (Ok () m))"

declare run.simps [simp del]

definition reset_state :: "cheat_state \<Rightarrow> cheat_state" where
  "reset_state c = c\<lparr>index := 0, offset1 := 0, offset2 := 0, data1 := 0, data2 := 0, activeOffset := False,
     activeData := False, conditionalMode := 0, data1Mode := False, data2Mode := False, floatMode := False,
     loopCount := 0, loopLine := -1, ifStack := 0, storedStack := 0, ifCount := 0, storedIfCount := 0\<rparr>"

definition Cheat_ApplyCheat :: "nat \<Rightarrow> 'p cheat_env \<Rightarrow> (u32 \<Rightarrow> u64) \<Rightarrow> 'p mach \<Rightarrow> ('p mach, unit) out option" where
  "Cheat_ApplyCheat fuel e codes m = run fuel e codes (upd_cs reset_state m)"

end
