(* ===== verification/Cheat_Proofs.thy ===== *)
theory Cheat_Proofs
  imports Cheat_Exec
begin

text \<open>
  Lemmas about the cheat interpreter: what each code type leaves alone (a locale of frame
  relations, interpreted for the control registers and for the memory), the progress measure
  of its loop, the scratch page, the conditional stack and the payload of the E type.
\<close>

section \<open>Frames\<close>

definition out_rel :: "('m \<Rightarrow> 'm \<Rightarrow> bool) \<Rightarrow> 'm \<Rightarrow> ('m, 'a) out \<Rightarrow> bool" where
  "out_rel R m r = (case r of Ok a m' \<Rightarrow> R m m' | Ret0 m' \<Rightarrow> R m m' | Undef \<Rightarrow> True)"

lemma out_rel_simps [simp]:
  "out_rel R m (Ok a m') = R m m'" "out_rel R m (Ret0 m') = R m m'" "out_rel R m Undef"
  by (simp_all add: out_rel_def)

lemma obind_Ok: "obind r f = Ok b m' \<longleftrightarrow> (\<exists>a m1. r = Ok a m1 \<and> f a m1 = Ok b m')"
  by (cases r) auto

lemma Read_cases:
  "Cheat_Read8 e off m = Undef \<or> (\<exists>x. Cheat_Read8 e off m = Ok x m)"
  "Cheat_Read16 e off m = Undef \<or> (\<exists>x. Cheat_Read16 e off m = Ok x m)"
  "Cheat_Read32 e off m = Undef \<or> (\<exists>x. Cheat_Read32 e off m = Ok x m)"
  by (auto simp: Cheat_Read8_def Cheat_Read16_def Cheat_Read32_def page_read_def mem_read_def Let_def split: prod.splits)

text \<open>A relation of machines that an interpreter step may be framed by, with the writes it allows.\<close>

locale frame =
  fixes R :: "'p mach \<Rightarrow> 'p mach \<Rightarrow> bool"
  assumes R_refl [simp]: "R m m"
    and R_trans: "R m m1 \<Longrightarrow> R m1 m2 \<Longrightarrow> R m m2"
begin

lemma out_bind:
  assumes "out_rel R m r" and "\<And>a m1. r = Ok a m1 \<Longrightarrow> out_rel R m1 (f a m1)"
  shows "out_rel R m (obind r f)"
proof (cases r)
  case (Ok a m1)
  then show ?thesis using assms R_trans by (cases "f a m1") (fastforce)+
qed (use assms in simp_all)

lemma out_pre: "R m m0 \<Longrightarrow> out_rel R m0 r \<Longrightarrow> out_rel R m r"
  by (cases r) (auto intro: R_trans)

lemma out_or_return0: "out_rel R m r \<Longrightarrow> out_rel R m (or_return0 r)"
  by (cases r) (auto simp: or_return0_def)

lemma out_reads [simp]:
  "out_rel R m (read_or0 (Cheat_Read8 e off m))"
  "out_rel R m (read_or0 (Cheat_Read16 e off m))"
  "out_rel R m (read_or0 (Cheat_Read32 e off m))"
  using Read_cases [of e off m] by (auto simp: read_or0_def)

lemma out_read_bind:
  "(\<And>a. out_rel R m (f a m)) \<Longrightarrow> out_rel R m (obind (read_or0 (Cheat_Read8 e off m)) f)"
  "(\<And>a. out_rel R m (f a m)) \<Longrightarrow> out_rel R m (obind (read_or0 (Cheat_Read16 e off m)) f)"
  "(\<And>a. out_rel R m (f a m)) \<Longrightarrow> out_rel R m (obind (read_or0 (Cheat_Read32 e off m)) f)"
  using Read_cases [of e off m] by (auto simp: read_or0_def)

lemma out_cond:
  assumes "\<And>b. out_rel R m (push_cond b m)"
  shows "out_rel R m (cond32 cmp e a0 a1 m)" "out_rel R m (cond16 cmp e a0 a1 m)"
  using assms by (auto simp: cond32_def cond16_def Let_def intro!: out_read_bind)

end

text \<open>The control registers.\<close>

definition same_ctrl :: "'p mach \<Rightarrow> 'p mach \<Rightarrow> bool" where
  "same_ctrl m m' \<longleftrightarrow> index (cs m') = index (cs m) \<and> loopLine (cs m') = loopLine (cs m) \<and>
     loopCount (cs m') = loopCount (cs m) \<and> codesCount (desc m') = codesCount (desc m)"

interpretation ctrl: frame same_ctrl
  by unfold_locales (auto simp: same_ctrl_def)

text \<open>The memory: the scratch page and the process.\<close>

definition same_mem :: "'p mach \<Rightarrow> 'p mach \<Rightarrow> bool" where
  "same_mem m m' \<longleftrightarrow> cheatPage m' = cheatPage m \<and> process_mem m' = process_mem m"

interpretation memf: frame same_mem
  by unfold_locales (auto simp: same_mem_def)

lemma simple_frames [simp]:
  "same_ctrl m (set_data v m1) = same_ctrl m m1" "same_ctrl m (set_offset v m1) = same_ctrl m m1"
  "same_ctrl m (set_data_reg k v m1) = same_ctrl m m1"
  "same_mem m (set_data v m1) = same_mem m m1" "same_mem m (set_offset v m1) = same_mem m m1"
  "same_mem m (set_data_reg k v m1) = same_mem m m1"
  "same_mem m (upd_cs f m1) = same_mem m m1" "same_mem m (upd_desc g m1) = same_mem m m1"
  by (auto simp: same_ctrl_def same_mem_def set_data_def set_offset_def set_data_reg_def upd_cs_def upd_desc_def)

lemma push_cond_frames [simp]:
  "out_rel same_ctrl m (push_cond b m)" "out_rel same_mem m (push_cond b m)"
  by (simp_all add: push_cond_def upd_cs_def same_ctrl_def same_mem_def)

lemma cond_frames [simp]:
  "out_rel same_ctrl m (cond32 cmp e a0 a1 m)" "out_rel same_ctrl m (cond16 cmp e a0 a1 m)"
  "out_rel same_mem m (cond32 cmp e a0 a1 m)" "out_rel same_mem m (cond16 cmp e a0 a1 m)"
  by (simp_all add: ctrl.out_cond memf.out_cond)

text \<open>A write changes the memory only.\<close>

definition same_regs :: "'p mach \<Rightarrow> 'p mach \<Rightarrow> bool" where
  "same_regs m m' \<longleftrightarrow> cs m' = cs m \<and> desc m' = desc m \<and> reads m' = reads m \<and> cheatRngState m' = cheatRngState m"

interpretation regs: frame same_regs
  by unfold_locales (auto simp: same_regs_def)

lemma write_regs [simp]:
  "out_rel same_regs m (Cheat_Write8 e off v8 m)" "out_rel same_regs m (Cheat_Write16 e off v16 m)"
  "out_rel same_regs m (Cheat_Write32 e off v m)"
  by (auto simp: Cheat_Write8_def Cheat_Write16_def Cheat_Write32_def page_write_def mem_write_def same_regs_def Let_def
      split: prod.splits)

lemma regs_ctrl: "out_rel same_regs m r \<Longrightarrow> out_rel same_ctrl m r"
  by (cases r) (auto simp: same_regs_def same_ctrl_def)

lemma write_ctrl [simp]:
  "out_rel same_ctrl m (Cheat_Write8 e off v8 m)" "out_rel same_ctrl m (Cheat_Write16 e off v16 m)"
  "out_rel same_ctrl m (Cheat_Write32 e off v m)"
  by (simp_all add: regs_ctrl)

lemma op_D_ctrl [simp]:
  "out_rel same_ctrl m (op_D3 k a1 m)" "out_rel same_ctrl m (op_D4 k a1 m)" "out_rel same_ctrl m (op_D5 k a1 m)"
  "out_rel same_ctrl m (op_D6 e k a1 m)" "out_rel same_ctrl m (op_D7 e k a1 m)" "out_rel same_ctrl m (op_D8 e k a1 m)"
  "out_rel same_ctrl m (op_D9 e k a1 m)" "out_rel same_ctrl m (op_DA e k a1 m)" "out_rel same_ctrl m (op_DB e k a1 m)"
  "out_rel same_ctrl m (op_DC a1 m)"
  by (auto simp: op_D3_def op_D4_def op_D5_def op_D6_def op_D7_def op_D8_def op_D9_def op_DA_def op_DB_def op_DC_def
      upd_cs_def same_ctrl_def [of m "m\<lparr>cs := _\<rparr>"]
      intro!: ctrl.out_bind ctrl.out_or_return0 ctrl.out_read_bind)

lemma op_DF_frames [simp]:
  "out_rel same_ctrl m (op_DF e k a1 m)" "out_rel same_mem m (op_DF e k a1 m)"
  by (auto simp: op_DF_def df_offset_def df_data_def df_storage_def df_mode_def same_ctrl_def same_mem_def
      upd_cs_def upd_desc_def)

lemma reads_frames:
  "out_rel same_ctrl (m\<lparr>reads := n\<rparr>) r \<Longrightarrow> out_rel same_ctrl m r"
  "out_rel same_mem (m\<lparr>reads := n\<rparr>) r \<Longrightarrow> out_rel same_mem m r"
  by (cases r, auto simp: same_ctrl_def same_mem_def)+

lemma op_DD_frames [simp]:
  "out_rel same_ctrl m (op_DD e a1 m)" "out_rel same_mem m (op_DD e a1 m)"
  "out_rel same_ctrl m (op_DE e k a1 m)" "out_rel same_mem m (op_DE e k a1 m)"
  by (auto simp: op_DD_def op_DE_def Let_def split: prod.splits
      intro: reads_frames(1) [OF push_cond_frames(1)] reads_frames(2) [OF push_cond_frames(2)])
     (auto simp: same_ctrl_def same_mem_def)

section \<open>Skipped lines\<close>

text \<open>A line that is executed under a false condition never writes: neither the scratch page nor the
  process changes, whatever the line.\<close>

lemma typeE_loop_skip: "out_rel same_mem m (typeE_loop e codes True off k i m)"
proof (induction k arbitrary: i m)
  case (Suc k)
  obtain b m1 where b: "Cheat_GetNextTypeE codes m = (b, m1)" by fastforce
  then have "same_mem m m1" by (auto simp: Cheat_GetNextTypeE_def Let_def same_mem_def upd_cs_def split: if_splits)
  with Suc [of m1 "i + 1"] show ?case
    by (cases "typeE_loop e codes True off k (i + 1) m1") (auto simp: b intro: memf.R_trans)
qed simp

lemma skip_op:
  assumes "ifStack (cs m) AND 1 \<noteq> 0"
  shows "out_rel same_mem m (exec_op e codes arg0 arg1 m)"
proof -
  have C: "out_rel same_mem m (op_C arg0 arg1 m)" by (simp add: op_C_def Let_def)
  have D: "out_rel same_mem m (op_D e codes arg0 arg1 m)"
    using assms by (simp add: op_D_def op_D0_def op_D1_def op_D2_def Let_def)
  have E: "out_rel same_mem m (op_E e codes arg0 arg1 m)"
    unfolding op_E_def Let_def
  proof (rule memf.out_bind)
    let ?m = "upd_cs (\<lambda>c. c\<lparr>typeELine := ucast (index c), typeEIdx := 7\<rparr>) m"
    show "out_rel same_mem m (typeE_loop e codes (ifStack (cs m) AND 1 \<noteq> 0) (arg0 AND 0x0FFFFFFF) (unat arg1) 0 ?m)"
      by (rule memf.out_pre [of m ?m]) (use assms in \<open>simp_all add: typeE_loop_skip\<close>)
  qed simp
  have F: "out_rel same_mem m (op_F e codes arg0 arg1 m)"
    using assms by (simp add: op_F_def op_FE_def Let_def)
  show ?thesis
    using assms C D E F
    by (simp add: exec_op_def Let_def op_3_def op_4_def op_5_def op_6_def op_7_def op_8_def op_9_def op_A_def)
qed

lemma skip_line:
  assumes "ifStack (cs m) AND 1 \<noteq> 0"
  shows "out_rel same_mem m (exec_line e codes m)"
  unfolding exec_line_def Let_def using skip_op [OF assms] by (auto intro!: memf.out_bind)

section \<open>Progress\<close>

text \<open>What an operation does to the control registers: it stays or goes forward, starts a loop, leaves
  the loop, or jumps back and counts down.\<close>

definition forward :: "'p mach \<Rightarrow> 'p mach \<Rightarrow> bool" where
  "forward m m' \<longleftrightarrow> loopLine (cs m') = loopLine (cs m) \<and> loopCount (cs m') = loopCount (cs m) \<and>
     unat (index (cs m)) \<le> unat (index (cs m')) \<and> unat (index (cs m')) \<le> 100000"

definition starts :: "'p mach \<Rightarrow> 'p mach \<Rightarrow> bool" where
  "starts m m' \<longleftrightarrow> index (cs m') = index (cs m) \<and> loopLine (cs m') = ucast (index (cs m))"

definition leaves :: "'p mach \<Rightarrow> 'p mach \<Rightarrow> bool" where
  "leaves m m' \<longleftrightarrow> loopLine (cs m') = -1 \<and> unat (index (cs m)) \<le> unat (index (cs m')) \<and>
     unat (index (cs m')) \<le> 100000"

definition jumps :: "'p mach \<Rightarrow> 'p mach \<Rightarrow> bool" where
  "jumps m m' \<longleftrightarrow> loopLine (cs m') = loopLine (cs m) \<and> loopLine (cs m) \<noteq> -1 \<and>
     index (cs m') = scast (loopLine (cs m)) \<and> loopCount (cs m') < loopCount (cs m)"

definition moves :: "'p mach \<Rightarrow> 'p mach \<Rightarrow> bool" where
  "moves m m' \<longleftrightarrow> codesCount (desc m') = codesCount (desc m) \<and>
     (forward m m' \<or> starts m m' \<or> leaves m m' \<or> jumps m m')"

lemma ctrl_moves:
  "out_rel same_ctrl m r \<Longrightarrow> unat (index (cs m)) \<le> 100000 \<Longrightarrow> out_rel moves m r"
  by (cases r) (auto simp: same_ctrl_def moves_def forward_def)

lemma loop_break_bounds:
  assumes "i \<le> n"
  shows "unat i \<le> unat (loop_break k codes n i)" "unat (loop_break k codes n i) \<le> unat n"
proof -
  have "unat i \<le> unat (loop_break k codes n i) \<and> unat (loop_break k codes n i) \<le> unat n"
    using assms
  proof (induction k arbitrary: i)
    case (Suc k)
    show ?case
    proof (cases "i < n")
      case True
      then have "unat (i + 1) = unat i + 1" "i + 1 \<le> n" by unat_arith+
      with Suc.IH [of "i + 1"] True show ?thesis by (auto simp: word_le_nat_alt)
    qed (use Suc.prems in \<open>auto simp: word_le_nat_alt\<close>)
  qed (auto simp: word_le_nat_alt)
  then show "unat i \<le> unat (loop_break k codes n i)" "unat (loop_break k codes n i) \<le> unat n" by auto
qed

lemma dec_less: "(n :: u32) > 0 \<Longrightarrow> n - 1 < n"
  by unat_arith

lemma moves_ends:
  assumes b: "unat (index (cs m)) < unat (codesCount (desc m))" "unat (codesCount (desc m)) \<le> 100000"
  shows "out_rel moves m (op_C a0 a1 m)" "out_rel moves m (op_D0 codes a1 m)" "out_rel moves m (op_D1 m)"
    "out_rel moves m (op_D2 a1 m)"
proof -
  show "out_rel moves m (op_C a0 a1 m)"
    using b by (auto simp: op_C_def Let_def start_loop_def upd_cs_def moves_def forward_def starts_def)
  have jb: "loopCount (cs m) > 0 \<Longrightarrow> loopCount (cs m) - 1 < loopCount (cs m)" by (rule dec_less)
  show "out_rel moves m (op_D1 m)"
    using b jb by (auto simp: op_D1_def end_loop_def jump_back_def Let_def upd_cs_def moves_def forward_def leaves_def jumps_def)
  show "out_rel moves m (op_D2 a1 m)"
    using b jb by (auto simp: op_D2_def jump_back_def Let_def upd_cs_def moves_def forward_def leaves_def jumps_def
        set_offset_def set_data_def)
  have i1: "unat (index (cs m) + 1) = unat (index (cs m)) + 1" "index (cs m) + 1 \<le> codesCount (desc m)"
    using b by unat_arith+
  note lb = loop_break_bounds [OF i1(2), where k = "unat (codesCount (desc m) - (index (cs m) + 1))" and codes = codes]
  have br: "moves m (upd_cs (\<lambda>c. c\<lparr>loopCount := 0, loopLine := -1,
          index := loop_break (unat (codesCount (desc m) - (index c + 1))) codes (codesCount (desc m)) (index c + 1)\<rparr>) m)"
    using lb b i1(1) by (simp add: moves_def leaves_def upd_cs_def)
  have ec: "moves m (upd_cs end_cond m)"
    using b jb by (auto simp: end_cond_def end_if_def jump_back_def Let_def upd_cs_def moves_def forward_def leaves_def jumps_def)
  show "out_rel moves m (op_D0 codes a1 m)"
    using br ec b by (auto simp: op_D0_def moves_def forward_def)
qed

text \<open>The payload of an E line: after \<open>k\<close> bytes from the end of a line, the line register has moved by
  one line for every 8 bytes begun.\<close>

lemma GetNextTypeE_fields:
  assumes "Cheat_GetNextTypeE codes m = (b, m1)" and "unat (typeEIdx (cs m)) \<le> 7"
  shows "same_ctrl m m1" "same_mem m m1" "unat (typeEIdx (cs m1)) \<le> 7"
    "unat (typeEIdx (cs m1)) = (unat (typeEIdx (cs m)) + 1) mod 8"
    "typeELine (cs m1) = typeELine (cs m) + word_of_nat ((unat (typeEIdx (cs m)) + 1) div 8)"
proof -
  have n: "unat (typeEIdx (cs m) + 1) = unat (typeEIdx (cs m)) + 1" using assms(2) by (simp add: unat_word_ariths)
  have e: "typeEIdx (cs m) = 7 \<longleftrightarrow> unat (typeEIdx (cs m)) = 7" by (simp add: word_unat_eq_iff)
  show "same_ctrl m m1" "same_mem m m1" "unat (typeEIdx (cs m1)) \<le> 7"
    "unat (typeEIdx (cs m1)) = (unat (typeEIdx (cs m)) + 1) mod 8"
    "typeELine (cs m1) = typeELine (cs m) + word_of_nat ((unat (typeEIdx (cs m)) + 1) div 8)"
    using assms n e
    by (auto simp: Cheat_GetNextTypeE_def Let_def upd_cs_def same_ctrl_def same_mem_def split: if_splits)
qed

lemma typeE_loop_line:
  assumes "typeE_loop e codes skip off k i m = Ok () m'" and "unat (typeEIdx (cs m)) \<le> 7"
  shows "same_ctrl m m' \<and> typeELine (cs m') = typeELine (cs m) + word_of_nat ((unat (typeEIdx (cs m)) + k) div 8)"
  using assms
proof (induction k arbitrary: i m)
  case (Suc k)
  obtain b m1 where b: "Cheat_GetNextTypeE codes m = (b, m1)" by fastforce
  note G = GetNextTypeE_fields [OF b Suc.prems(2)]
  obtain m2 where m2: "same_regs m1 m2" "typeE_loop e codes skip off k (i + 1) m2 = Ok () m'"
  proof (cases skip)
    case True
    with Suc.prems(1) b that [of m1] show ?thesis by simp
  next
    case False
    with Suc.prems(1) b obtain m2 where "Cheat_Write8 e (off + i) b m1 = Ok True m2"
      "typeE_loop e codes skip off k (i + 1) m2 = Ok () m'"
      by (auto simp: obind_Ok or_return0_def split: if_splits)
    with that [of m2] write_regs(1) [of m1 e "off + i" b] show ?thesis by simp
  qed
  have c: "cs m2 = cs m1" "same_ctrl m1 m2" using m2(1) by (auto simp: same_regs_def same_ctrl_def)
  from Suc.IH [OF m2(2)] G(3) have I: "same_ctrl m2 m'"
    "typeELine (cs m') = typeELine (cs m1) + word_of_nat ((unat (typeEIdx (cs m1)) + k) div 8)"
    by (simp_all add: c)
  let ?i = "unat (typeEIdx (cs m))"
  have d: "(?i + Suc k) div 8 = (?i + 1) div 8 + ((?i + 1) mod 8 + k) div 8"
  proof -
    have "?i + Suc k = 8 * ((?i + 1) div 8) + ((?i + 1) mod 8 + k)"
      using mult_div_mod_eq [of 8 "?i + 1"] by linarith
    then show ?thesis by (metis div_mult_self4 zero_neq_numeral)
  qed
  have "typeELine (cs m') = typeELine (cs m) + word_of_nat ((?i + Suc k) div 8)"
    unfolding I(2) G(4,5) d by (simp only: of_nat_add add.assoc)
  moreover have "same_ctrl m m'" using G(1) c(2) I(1) ctrl.R_trans by blast
  ultimately show ?case by simp
qed (simp add: div_less)

lemma out_rel_Ok: "(\<And>m'. r = Ok () m' \<Longrightarrow> R m m') \<Longrightarrow> (\<And>m'. r = Ret0 m' \<Longrightarrow> R m m') \<Longrightarrow> out_rel R m r"
  by (cases r) auto

text \<open>\<open>E\<close> lines whose payload ends at line 255 or before.\<close>

definition payload_fits :: "(u32 \<Rightarrow> u64) \<Rightarrow> u32 \<Rightarrow> bool" where
  "payload_fits codes i \<longleftrightarrow>
     (drop_bit 28 (ucast (drop_bit 32 (codes i)) :: u32) AND 0xF = 0xE \<longrightarrow> unat i + (unat (ucast (codes i) :: u32) + 7) div 8 \<le> 255)"

lemma op_E_moves:
  assumes f: "unat (index (cs m)) + (unat a1 + 7) div 8 \<le> 255" and r: "op_E e codes a0 a1 m = Ok () m'"
  shows "moves m m'"
proof -
  let ?m = "upd_cs (\<lambda>c. c\<lparr>typeELine := ucast (index c), typeEIdx := 7\<rparr>) m"
  obtain m2 where m2: "typeE_loop e codes (ifStack (cs m) AND 1 \<noteq> 0) (a0 AND 0x0FFFFFFF) (unat a1) 0 ?m = Ok () m2"
    "m' = upd_cs (\<lambda>c. c\<lparr>index := ucast (typeELine c)\<rparr>) m2"
    using r by (auto simp: op_E_def Let_def obind_Ok)
  have T: "same_ctrl ?m m2" "typeELine (cs m2) = ucast (index (cs m)) + word_of_nat ((7 + unat a1) div 8)"
    using typeE_loop_line [OF m2(1)] by (simp_all add: upd_cs_def)
  let ?l = "unat (index (cs m))" and ?k = "(unat a1 + 7) div 8"
  have "unat (typeELine (cs m2)) = (?l mod 256 + ?k mod 256) mod 256"
    unfolding T(2) by (simp add: unat_word_ariths unsigned_ucast_eq take_bit_eq_mod unat_of_nat add.commute)
  then have "unat (typeELine (cs m2)) = ?l + ?k" using f by simp
  then have i: "unat (index (cs m')) = ?l + ?k"
    unfolding m2(2) 
    by (simp add: upd_cs_def unsigned_ucast_eq take_bit_eq_mod \<open>unat (typeELine (cs m2)) = ?l + ?k\<close>) (use f in simp)
  then show ?thesis using T(1) f m2(2) by (auto simp: moves_def forward_def same_ctrl_def upd_cs_def)
qed

lemma same_ctrl_moves: "same_ctrl m m' \<Longrightarrow> unat (index (cs m)) \<le> 100000 \<Longrightarrow> moves m m'"
  by (auto simp: same_ctrl_def moves_def forward_def)

lemma modify32_ctrl [simp]: "out_rel same_ctrl m (modify32 e off f m)"
  unfolding modify32_def by (auto split: option.split intro!: ctrl.out_read_bind ctrl.out_or_return0)

lemma copy_byte_ctrl: "out_rel same_ctrl m (copy_byte e m)"
proof -
  let ?m = "upd_cs (\<lambda>c. c\<lparr>activeOffset := True\<rparr>) m"
  have "same_ctrl m ?m" by (simp add: same_ctrl_def upd_cs_def)
  moreover have "out_rel same_ctrl ?m (copy_byte e m)"
    unfolding copy_byte_def
  proof (rule ctrl.out_read_bind)
    fix v
    let ?m' = "upd_cs (\<lambda>c. c\<lparr>activeOffset := False\<rparr>) ?m"
    have "same_ctrl ?m ?m'" by (simp add: same_ctrl_def upd_cs_def)
    then show "out_rel same_ctrl ?m (or_return0 (Cheat_Write8 e 0 (ucast v) ?m'))"
      by (rule ctrl.out_pre) (simp add: ctrl.out_or_return0)
  qed
  ultimately show ?thesis by (rule ctrl.out_pre)
qed

lemma copy_loop_ctrl: "out_rel same_ctrl m (copy_loop e k m)"
  by (induction k arbitrary: m) (auto intro!: ctrl.out_bind copy_byte_ctrl)

lemma match_at_ctrl: "out_rel same_ctrl m (match_at e pat k i j m)"
  by (induction k arbitrary: j m) (auto intro!: ctrl.out_read_bind)

lemma search_loop_ctrl: "out_rel same_ctrl m (search_loop e pat sz k i m)"
  by (induction k arbitrary: i m) (auto intro!: ctrl.out_bind match_at_ctrl)

lemma op_FC_ctrl: "out_rel same_ctrl m (op_FC e a1 m)"
  unfolding op_FC_def
  by (rule ctrl.out_bind [OF copy_loop_ctrl]) (simp add: same_ctrl_def upd_cs_def)

lemma rng_ctrl: "Cheat_GetRandomNumber m = (r, m') \<Longrightarrow> same_ctrl m m'"
  by (auto simp: Cheat_GetRandomNumber_def Let_def same_ctrl_def)

lemma op_F_small_ctrl:
  "out_rel same_ctrl m (op_F1 e a0 a1 m)" "out_rel same_ctrl m (op_F2 e a0 a1 m)" "out_rel same_ctrl m (op_F3 e a0 a1 m)"
  "out_rel same_ctrl m (op_F4 e a1 m)" "out_rel same_ctrl m (op_F5 e a1 m)" "out_rel same_ctrl m (op_FA a1 m)"
  "out_rel same_ctrl m (op_FB a1 m)" "out_rel same_ctrl m (op_FF a0 a1 m)"
  by (auto simp: op_F1_def op_F2_def op_F3_def op_F4_def op_F5_def op_FA_def op_FB_def op_FF_def Let_def
      split: prod.splits dest: rng_ctrl)

lemma unat_and_mask_le: "unat ((a :: u32) AND b) \<le> unat b"
  by (simp add: unsigned_and_eq and_nat_def nat_le_iff)

lemma op_FE_moves:
  assumes b: "unat (index (cs m)) \<le> 1000"
  shows "out_rel moves m (op_FE e codes a0 a1 m)"
proof -
  let ?s = "a0 AND 0xFFFF"
  let ?d = "?s div 8 + (if ?s AND 7 \<noteq> 0 then 1 else 0)"
  let ?m = "upd_cs (\<lambda>c. c\<lparr>index := index c + ?s div 8 + (if ?s AND 7 \<noteq> 0 then 1 else 0)\<rparr>) m"
  have "unat ?s \<le> 65535" using unat_and_mask_le [of a0 "0xFFFF"] by simp
  then have d: "unat (?s div 8) \<le> 65535" by (simp add: unat_div)
  have "unat (index (cs m) + ?s div 8 + (if ?s AND 7 \<noteq> 0 then 1 else 0)) =
        unat (index (cs m)) + unat (?s div 8) + (if ?s AND 7 \<noteq> 0 then 1 else 0)"
    using d b by (simp add: unat_word_ariths)
  then have i: "unat (index (cs m)) \<le> unat (index (cs ?m))" "unat (index (cs ?m)) \<le> 100000"
    using d b by (simp_all add: upd_cs_def)
  have f: "moves m m'" if "same_ctrl ?m m'" for m'
    using that i by (auto simp: same_ctrl_def moves_def forward_def upd_cs_def)
  have "out_rel same_ctrl ?m (obind (search_loop e (pattern_byte codes (index (cs m) + 1)) (unat ?s) (unat (a1 - ?s)) 0 ?m) push_cond)"
    by (rule ctrl.out_bind [OF search_loop_ctrl]) simp
  then have "out_rel moves m (obind (search_loop e (pattern_byte codes (index (cs m) + 1)) (unat ?s) (unat (a1 - ?s)) 0 ?m) push_cond)"
    using f by (cases "obind (search_loop e (pattern_byte codes (index (cs m) + 1)) (unat ?s) (unat (a1 - ?s)) 0 ?m) push_cond") auto
  moreover have "out_rel moves m (push_cond True m)" "moves m m"
    using b by (auto intro!: ctrl_moves same_ctrl_moves)
  ultimately show ?thesis by (auto simp: op_FE_def Let_def)
qed

lemma op_F_ctrl:
  assumes "drop_bit 24 a0 AND 0x0F \<noteq> 0xE"
  shows "out_rel same_ctrl m (op_F e codes a0 a1 m)"
proof -
  have "same_ctrl m (upd_cs (\<lambda>c. c\<lparr>floatMode := b\<rparr>) m)" for b by (simp add: same_ctrl_def upd_cs_def)
  with assms show ?thesis by (simp add: op_F_def Let_def op_F_small_ctrl op_FC_ctrl)
qed

lemma op_F_moves:
  assumes "unat (index (cs m)) \<le> 1000"
  shows "out_rel moves m (op_F e codes a0 a1 m)"
proof (cases "drop_bit 24 a0 AND 0x0F = 0xE \<and> a0 \<noteq> 0xF0F00000")
  case True
  then show ?thesis using op_FE_moves [OF assms] by (simp add: op_F_def Let_def)
next
  case False
  then have "out_rel same_ctrl m (op_F e codes a0 a1 m)" using op_F_ctrl [of a0 m e codes a1] by (auto simp: op_F_def)
  then show ?thesis by (rule ctrl_moves) (use assms in simp)
qed

lemma op_B_ctrl: "out_rel same_ctrl m (op_B e a0 a1 m)"
  by (simp add: op_B_def ctrl.out_read_bind)

lemma exec_op_moves:
  assumes b: "unat (index (cs m)) < unat (codesCount (desc m))" "unat (codesCount (desc m)) \<le> 128"
    and f: "drop_bit 28 a0 AND 0xF = 0xE \<Longrightarrow> unat (index (cs m)) + (unat a1 + 7) div 8 \<le> 255"
    and r: "exec_op e codes a0 a1 m = Ok () m'"
  shows "moves m m'"
proof -
  have i: "unat (index (cs m)) \<le> 1000" "unat (index (cs m)) \<le> 100000" using b by simp_all
  note via = ctrl_moves [OF _ i(2)]
  have D: "out_rel moves m (op_D e codes a0 a1 m)"
  proof (cases "drop_bit 24 a0 AND 0x0F \<in> {0, 1, 2}")
    case True
    then show ?thesis using moves_ends [of m] b by (auto simp: op_D_def)
  next
    case False
    then have "out_rel same_ctrl m (op_D e codes a0 a1 m)" by (auto simp: op_D_def Let_def)
    then show ?thesis by (rule via)
  qed
  have mm: "moves m m" by (rule same_ctrl_moves) (use i in simp_all)
  have C: "out_rel moves m (op_C a0 a1 m)" using moves_ends(1) [of m a0 a1] b by simp
  have F: "out_rel moves m (op_F e codes a0 a1 m)" by (rule op_F_moves [OF i(1)])
  have W: "out_rel moves m (op_0 e a0 a1 m)" "out_rel moves m (op_1 e a0 a1 m)" "out_rel moves m (op_2 e a0 a1 m)"
    "out_rel moves m (op_B e a0 a1 m)" "out_rel moves m (cond32 cmp e a0 a1 m)" "out_rel moves m (cond16 cmp e a0 a1 m)" for cmp
    by (rule via, simp add: op_0_def op_1_def op_2_def op_B_ctrl ctrl.out_or_return0)+
  note defs = op_3_def op_4_def op_5_def op_6_def op_7_def op_8_def op_9_def op_A_def
  show ?thesis
  proof (cases "drop_bit 28 a0 AND 0xF = 0xE")
    case True
    then have "op_E e codes a0 a1 m = Ok () m'" using r by (simp add: exec_op_def)
    then show ?thesis by (rule op_E_moves [OF f [OF True]])
  next
    case False
    then have "out_rel moves m (exec_op e codes a0 a1 m)"
      using mm C D F W by (simp add: exec_op_def Let_def defs)
    then show ?thesis using r by simp
  qed
qed

text \<open>The loop register is a line before the current one, and not the value -1 of "no loop".\<close>

definition loop_ok :: "'p mach \<Rightarrow> bool" where
  "loop_ok m \<longleftrightarrow> loopLine (cs m) \<noteq> -1 \<longrightarrow>
     unat (loopLine (cs m)) \<le> 127 \<and> unat (loopLine (cs m)) < unat (index (cs m))"

text \<open>The progress measure: the lines after the last started loop, the turns left, the lines after the
  current one.\<close>

definition loop_base :: "'p mach \<Rightarrow> nat" where
  "loop_base m = (if loopLine (cs m) = -1 then unat (index (cs m)) else unat (loopLine (cs m)) + 1)"

definition progress :: "'p mach rel" where
  "progress = inv_image (less_than <*lex*> (less_than <*lex*> less_than))
     (\<lambda>m. (unat (codesCount (desc m)) - loop_base m, unat (loopCount (cs m)), unat (codesCount (desc m)) - unat (index (cs m))))"

lemma wf_progress: "wf progress"
  by (simp add: progress_def wf_lex_prod)

lemma scast_small: "unat (w :: 8 word) \<le> 127 \<Longrightarrow> unat (scast w :: u32) = unat w"
proof -
  assume w: "unat w \<le> 127"
  then have "uint w \<le> 127" by (metis of_nat_unat of_nat_le_iff of_nat_numeral)
  moreover have "- 128 \<le> uint w" using uint_ge_0 [of w] by linarith
  ultimately have "sint w = uint w" by (simp only: sint_uint) (rule signed_take_bit_int_eq_self, simp_all)
  then have "(scast w :: u32) = ucast w" by (simp only: scast_eq ucast_eq)
  then show ?thesis using w by (simp add: unsigned_ucast_eq take_bit_eq_mod)
qed

lemma exec_line_progress:
  assumes b: "unat (index (cs m)) < unat (codesCount (desc m))" "unat (codesCount (desc m)) \<le> 128"
    and f: "payload_fits codes (index (cs m))" and k: "loop_ok m"
    and r: "exec_line e codes m = Ok () m'"
  shows "codesCount (desc m') = codesCount (desc m) \<and> loop_ok m' \<and> (m', m) \<in> progress"
proof -
  obtain m1 where m1: "exec_op e codes (ucast (drop_bit 32 (codes (index (cs m))))) (ucast (codes (index (cs m)))) m = Ok () m1"
    and m': "m' = upd_cs (\<lambda>c. c\<lparr>index := index c + 1\<rparr>) m1"
    using r by (auto simp: exec_line_def Let_def obind_Ok split: if_splits)
  have mv: "moves m m1"
    by (rule exec_op_moves [OF b _ m1]) (use f in \<open>simp add: payload_fits_def\<close>)
  let ?i = "unat (index (cs m))" and ?n = "unat (codesCount (desc m))"
  have cc: "codesCount (desc m') = codesCount (desc m)" using mv m' by (auto simp: moves_def upd_cs_def)
  have f': "loopLine (cs m') = loopLine (cs m1)" "loopCount (cs m') = loopCount (cs m1)" "index (cs m') = index (cs m1) + 1"
    by (simp_all add: m' upd_cs_def)
  have base: "loop_base m \<le> ?i" using k by (auto simp: loop_base_def loop_ok_def)
  have ix: "unat (index (cs m1) + 1) = unat (index (cs m1)) + 1" if "unat (index (cs m1)) \<le> 100000"
    using that by (simp add: unat_word_ariths)
  from mv consider "forward m m1" | "starts m m1" | "leaves m m1" | "jumps m m1" by (auto simp: moves_def)
  then show ?thesis
  proof cases
    case 1
    then show ?thesis using k b ix base cc
      by (auto simp: forward_def loop_ok_def progress_def loop_base_def f')
  next
    case 2
    have u: "unat (ucast (index (cs m)) :: 8 word) = ?i"
      using b by (simp add: unsigned_ucast_eq take_bit_eq_mod)
    then have "(ucast (index (cs m)) :: 8 word) \<noteq> -1" using b unsigned_minus_1_eq_mask [where 'a = nat and 'b = 8] by (auto simp: mask_eq_exp_minus_1)
    then show ?thesis using 2 k b ix base cc u
      by (auto simp: starts_def loop_ok_def progress_def loop_base_def f')
  next
    case 3
    then show ?thesis using k b ix base cc
      by (auto simp: leaves_def loop_ok_def progress_def loop_base_def f' split: if_splits)
  next
    case 4
    then have l: "unat (loopLine (cs m)) \<le> 127" "loopLine (cs m) \<noteq> -1" using k by (auto simp: jumps_def loop_ok_def)
    have "unat (index (cs m1)) = unat (loopLine (cs m))" using 4 scast_small [OF l(1)] by (simp add: jumps_def)
    then show ?thesis using 4 l k b ix base cc
      by (auto simp: jumps_def loop_ok_def progress_def loop_base_def f' word_less_nat_alt)
  qed
qed

lemma run_terminates:
  assumes "unat (codesCount (desc m)) \<le> 128" and "\<And>i. i < codesCount (desc m) \<Longrightarrow> payload_fits codes i" and "loop_ok m"
  shows "\<exists>fuel r. run fuel e codes m = Some r"
  using assms
proof (induction m rule: wf_induct_rule [OF wf_progress])
  case (1 m)
  show ?case
  proof (cases "index (cs m) < codesCount (desc m)")
    case False
    then show ?thesis by (auto simp: run.simps)
  next
    case True
    show ?thesis
    proof (cases "exec_line e codes m")
      case (Ok a m')
      then have p: "codesCount (desc m') = codesCount (desc m)" "loop_ok m'" "(m', m) \<in> progress"
        using exec_line_progress [of m codes e m'] "1.prems" True by (auto simp: word_less_nat_alt)
      obtain fuel r where "run fuel e codes m' = Some r"
        using "1.IH" [OF p(3)] "1.prems" p by auto
      then have "run (Suc fuel) e codes m = Some r" using True Ok by (simp add: run.simps [of "Suc fuel"])
      then show ?thesis by blast
    next
      case (Ret0 m')
      then have "run (Suc 0) e codes m = Some (Ret0 m')" using True by (simp add: run.simps [of "Suc 0"])
      then show ?thesis by blast
    next
      case Undef
      then have "run (Suc 0) e codes m = Some Undef" using True by (simp add: run.simps [of "Suc 0"])
      then show ?thesis by blast
    qed
  qed
qed

end
