(* ===== verification/Cheat_Claims.thy ===== *)
theory Cheat_Claims
  imports Cheat_Proofs
begin

text \<open>
  The properties of the cheat interpreter (\<open>menus/cheats.c\<close>): termination and its limit, the frame of
  skipped lines, the scratch page, the conditional stack, random numbers, and three code types
  that do not do what their comments say.
\<close>

section \<open>Lemmas on the scratch page\<close>

definition page_ok :: "'p mach \<Rightarrow> bool" where
  "page_ok m \<longleftrightarrow> length (cheatPage m) = 0x1000"

lemma le_value_bytes4: "le_value (le_bytes 4 v) = v"
proof -
  have "le_bytes 4 v = [ucast v, ucast (drop_bit 8 v), ucast (drop_bit 16 v), ucast (drop_bit 24 v)]"
    by (simp add: le_bytes_def upt_rec)
  then have "le_value (le_bytes 4 v) = push_bit 8 (push_bit 8 (push_bit 8 (ucast (ucast (drop_bit 24 v) :: u8))
      OR ucast (ucast (drop_bit 16 v) :: u8)) OR ucast (ucast (drop_bit 8 v) :: u8)) OR ucast (ucast v :: u8)"
    by (simp add: le_value_def)
  also have "\<dots> = v"
  proof (rule bit_word_eqI)
    fix n
    assume "n < LENGTH(32)"
    then show "bit (push_bit 8 (push_bit 8 (push_bit 8 (ucast (ucast (drop_bit 24 v) :: u8))
      OR ucast (ucast (drop_bit 16 v) :: u8)) OR ucast (ucast (drop_bit 8 v) :: u8)) OR ucast (ucast v :: u8) :: u32) n = bit v n"
      by (cases "n < 8"; cases "n < 16"; cases "n < 24") (auto simp: bit_simps)
  qed
  finally show ?thesis .
qed

lemma length_le_bytes [simp]: "length (le_bytes n v) = n"
  by (simp add: le_bytes_def)

lemma length_store [simp]: "i + length bs \<le> length p \<Longrightarrow> length (store_bytes p i bs) = length p"
  by (simp add: store_bytes_def)

lemma take_store: "i + length bs \<le> length p \<Longrightarrow> take (length bs) (drop i (store_bytes p i bs)) = bs"
  by (simp add: store_bytes_def)

lemma nth_store:
  "i + length bs \<le> length p \<Longrightarrow> j < length p \<Longrightarrow> j < i \<or> i + length bs \<le> j \<Longrightarrow> store_bytes p i bs ! j = p ! j"
  by (auto simp: store_bytes_def nth_append min_def)

text \<open>An access that lies in the page, as numbers.\<close>

definition page_access :: "nat \<Rightarrow> u32 \<Rightarrow> bool" where
  "page_access n addr \<longleftrightarrow> 0x01E81000 \<le> unat addr \<and> unat addr + n \<le> 0x01E82000"

lemma page_index: "page_access n addr \<Longrightarrow> unat (addr - 0x01E81000) = unat addr - 0x01E81000"
  by (simp add: page_access_def unat_sub word_le_nat_alt)

lemma page_in_page: "page_access n addr \<Longrightarrow> 0 < n \<Longrightarrow> in_page n addr"
proof -
  assume a: "page_access n addr" and n: "0 < n"
  have "(word_of_nat n :: u32) - 1 = word_of_nat (n - 1)" using n by (simp add: of_nat_diff)
  moreover have "unat (word_of_nat (n - 1) :: u32) = n - 1" using a unfolding page_access_def unat_of_nat by (intro mod_less) auto
  ultimately show ?thesis
    using a n by (auto simp: page_access_def in_page_def word_le_nat_alt word_less_nat_alt unat_word_ariths)
qed

lemma page_in_page1: "page_access 1 addr \<Longrightarrow> addr \<ge> 0x01E81000 \<and> addr < 0x01E82000"
  by (simp add: page_access_def word_le_nat_alt word_less_nat_alt)

section \<open>The properties\<close>

text \<open>C11: a cheat of at most 128 lines whose E payloads end at line 255 or before always comes to an end,
  whatever its lines, the memory and the input devices, and however its loops are nested.\<close>

theorem cheat_terminates:
  assumes "unat (codesCount (desc m)) \<le> 128"
    and "\<And>i. i < codesCount (desc m) \<Longrightarrow> payload_fits codes i"
  shows "\<exists>fuel r. Cheat_ApplyCheat fuel e codes m = Some r"
  unfolding Cheat_ApplyCheat_def
  by (rule run_terminates) (use assms in \<open>simp_all add: upd_cs_def reset_state_def loop_ok_def\<close>)

definition demo_desc :: "u32 \<Rightarrow> cheat_desc" where
  "demo_desc n = \<lparr>active = True, valid = True, hasKeyCode = False, activeStorage = False, c_name = [],
     codesCount = n, storage1 = 0, storage2 = 0\<rparr>"

definition demo_cs :: cheat_state where
  "demo_cs = \<lparr>index = 0, offset1 = 0, offset2 = 0, data1 = 0, data2 = 0, activeOffset = False, activeData = False,
     conditionalMode = 0, data1Mode = False, data2Mode = False, floatMode = False, typeELine = 0, typeEIdx = 0,
     loopLine = -1, loopCount = 0, ifStack = 0, storedStack = 0, ifCount = 0, storedIfCount = 0\<rparr>"

definition demo_mach :: "u32 \<Rightarrow> unit mach" where
  "demo_mach n = \<lparr>cs = demo_cs, desc = demo_desc n, cheatPage = replicate 0x1000 0, cheatRngState = 1, reads = 0,
     process_mem = ()\<rparr>"

text \<open>No process memory, no key pressed.\<close>

definition demo_cheat_env :: "unit cheat_env" where
  "demo_cheat_env = \<lparr>SUCCEEDED = (\<lambda>r. r = 0), MEMSTATE_FREE = 0,
     svcQueryDebugProcessMemory = (\<lambda>p a. (1, 0, 0, 0)), svcReadProcessMemory = (\<lambda>p a n. (1, [])),
     svcWriteProcessMemory = (\<lambda>p a bs. (1, ())), HID_PAD = (\<lambda>n. 0), hidTouchRead = (\<lambda>n. (0, 0)),
     float_add = (+), float_mul = (*), float_div = (div), float_to_u32 = (\<lambda>x. x), u32_to_float = (\<lambda>x. x)\<rparr>"

text \<open>The example of the comment on C: a value written five times.\<close>

definition demo_loop_codes :: "u32 \<Rightarrow> u64" where
  "demo_loop_codes i = [0xC000000000000005, 0x01E8100000000007, 0xDC00000000000010, 0xD200000000000000, 0] ! (unat i mod 5)"

theorem cheat_terminates_witness:
  "\<exists>fuel r. Cheat_ApplyCheat fuel demo_cheat_env demo_loop_codes (demo_mach 4) = Some r"
proof (rule cheat_terminates)
  show "unat (codesCount (desc (demo_mach 4))) \<le> 128" by (simp add: demo_mach_def demo_desc_def)
  fix i :: u32
  assume "i < codesCount (desc (demo_mach 4))"
  then have "unat i < 4" by (simp add: demo_mach_def demo_desc_def word_less_nat_alt)
  then have "unat i = 0 \<or> unat i = 1 \<or> unat i = 2 \<or> unat i = 3" by auto
  then show "payload_fits demo_loop_codes i"
    by (auto simp: payload_fits_def demo_loop_codes_def)
qed

text \<open>A line under a false condition never writes: neither the scratch page nor the debugged process
  changes, for every code type, whether the line succeeds or ends the cheat.\<close>

theorem skipped_line_never_writes:
  assumes "ifStack (cs m) AND 1 \<noteq> 0" and "exec_line e codes m = Ok () m' \<or> exec_line e codes m = Ret0 m'"
  shows "cheatPage m' = cheatPage m \<and> process_mem m' = process_mem m"
  using skip_line [OF assms(1), of e codes] assms(2) by (auto simp: same_mem_def)

theorem skipped_line_never_writes_witness:
  "\<exists>m'. exec_line demo_cheat_env (\<lambda>_. 0x01E8100000000007) (upd_cs (\<lambda>c. c\<lparr>ifStack := 1\<rparr>) (demo_mach 4)) = Ok () m' \<and>
     cheatPage m' = replicate 0x1000 0"
proof -
  let ?m = "upd_cs (\<lambda>c. c\<lparr>ifStack := 1\<rparr>) (demo_mach 4)"
  obtain m' where m': "exec_line demo_cheat_env (\<lambda>_. 0x01E8100000000007) ?m = Ok () m'"
    by (simp add: exec_line_def exec_op_def upd_cs_def)
  moreover have "cheatPage ?m = replicate 0x1000 0" "ifStack (cs ?m) AND 1 \<noteq> 0"
    by (simp_all add: upd_cs_def demo_mach_def)
  ultimately show ?thesis using skipped_line_never_writes [of ?m] by auto
qed

text \<open>In the scratch page, a 32-bit read gives back what the last 32-bit write at that address stored,
  the bytes outside the four written keep their values, and the process is not touched.\<close>

theorem scratch_page_read_after_write:
  assumes "page_ok m" and "page_access 4 (get_offset m + off)"
  shows "\<exists>m'. Cheat_Write32 e off v m = Ok True m' \<and> Cheat_Read32 e off m' = Ok (True, v) m' \<and>
    process_mem m' = process_mem m \<and> page_ok m' \<and>
    (\<forall>j < 0x1000. j < unat (get_offset m + off) - 0x01E81000 \<or> unat (get_offset m + off) - 0x01E81000 + 4 \<le> j
        \<longrightarrow> cheatPage m' ! j = cheatPage m ! j)"
proof -
  let ?a = "get_offset m + off" and ?i = "unat (get_offset m + off) - 0x01E81000"
  let ?m = "m\<lparr>cheatPage := store_bytes (cheatPage m) ?i (le_bytes 4 v)\<rparr>"
  have i: "?i + 4 \<le> length (cheatPage m)" using assms unfolding page_ok_def page_access_def by linarith
  have p: "in_page 4 ?a" using page_in_page [OF assms(2)] by simp
  have "Cheat_Write32 e off v m = Ok True ?m"
    using i p page_index [OF assms(2)] by (simp add: Cheat_Write32_def page_write_def)
  moreover have "get_offset ?m = get_offset m" by (simp add: get_offset_def)
  then have "Cheat_Read32 e off ?m = Ok (True, v) ?m"
    using i p page_index [OF assms(2)] take_store [of ?i "le_bytes 4 v" "cheatPage m"]
    by (simp add: Cheat_Read32_def page_read_def le_value_bytes4)
  moreover have "page_ok ?m" using i assms(1) by (simp add: page_ok_def)
  moreover have "\<forall>j < 0x1000. j < ?i \<or> ?i + 4 \<le> j \<longrightarrow> cheatPage ?m ! j = cheatPage m ! j"
    using i assms(1) by (auto intro!: nth_store simp: page_ok_def)
  ultimately show ?thesis by (intro exI [of _ ?m]) simp
qed

theorem scratch_page_read_after_write_witness:
  "\<exists>m'. Cheat_Write32 demo_cheat_env 0x01E81010 77 (demo_mach 1) = Ok True m' \<and>
     Cheat_Read32 demo_cheat_env 0x01E81010 m' = Ok (True, 77) m'"
  using scratch_page_read_after_write [where m = "demo_mach 1" and off = "0x01E81010" and e = demo_cheat_env and v = 77]
  by (auto simp: page_ok_def demo_mach_def page_access_def get_offset_def demo_cs_def)

text \<open>The test of the 16-bit and 32-bit accessors for the scratch page lets the last addresses of the
  address space through, because its sum wraps around: the access is outside the page.\<close>

theorem wrapped_address_escapes_page:
  assumes "page_ok m"
  shows "get_offset m + off = 0xFFFFFFFF \<longrightarrow>
      Cheat_Write16 e off v m = Undef \<and> Cheat_Read16 e off m = Undef \<and>
      Cheat_Write32 e off w m = Undef \<and> Cheat_Read32 e off m = Undef"
  using assms
  by (auto simp: Cheat_Write16_def Cheat_Read16_def Cheat_Write32_def Cheat_Read32_def in_page_def page_write_def
      page_read_def page_ok_def)

theorem wrapped_address_escapes_page_witness:
  "Cheat_Write16 demo_cheat_env 0x0FFFFFFF 1 (upd_cs (\<lambda>c. c\<lparr>offset1 := 0xF0000000\<rparr>) (demo_mach 1)) = Undef"
  using wrapped_address_escapes_page [of "upd_cs (\<lambda>c. c\<lparr>offset1 := 0xF0000000\<rparr>) (demo_mach 1)"]
  by (simp add: page_ok_def demo_mach_def upd_cs_def get_offset_def demo_cs_def)

text \<open>C12: the conditionals are a stack of at most 32 conditions: the line after a conditional is skipped
  exactly when one of the open conditions is false, a conditional pushes its own, and D0 outside a
  loop pops the innermost.\<close>

definition cond_rep :: "cheat_state \<Rightarrow> bool list \<Rightarrow> bool" where
  "cond_rep c bs \<longleftrightarrow> unat (ifCount c) = length bs \<and> length bs \<le> 32 \<and>
     (\<forall>i < 32. bit (ifStack c) i \<longleftrightarrow> i < length bs \<and> True \<in> set (drop i bs))"

lemma cond_rep_skip: "cond_rep c bs \<Longrightarrow> (ifStack c AND 1 \<noteq> 0) \<longleftrightarrow> True \<in> set bs"
proof -
  assume c: "cond_rep c bs"
  have "ifStack c AND 1 \<noteq> 0 \<longleftrightarrow> bit (ifStack c) 0" by (simp add: and_one_eq bit_0 odd_iff_mod_2_eq_one)
  also have "\<dots> \<longleftrightarrow> bs \<noteq> [] \<and> True \<in> set bs" using c by (auto simp: cond_rep_def)
  finally show ?thesis by auto
qed

lemma cond_rep_push:
  assumes "cond_rep c bs" and "length bs < 32"
  shows "cond_rep (c\<lparr>ifStack := push_bit 1 (ifStack c) OR (if b \<or> True \<in> set bs then 1 else 0),
    ifCount := ifCount c + 1\<rparr>) (b # bs)"
proof -
  have "unat (ifCount c + 1) = unat (ifCount c) + 1"
    using assms by (simp add: cond_rep_def unat_word_ariths)
  moreover have "bit (push_bit 1 (ifStack c) OR (if b \<or> True \<in> set bs then 1 else 0)) i \<longleftrightarrow>
      i < Suc (length bs) \<and> True \<in> set (drop i (b # bs))" if "i < 32" for i
  proof -
    have "bit (push_bit 1 (ifStack c)) i \<longleftrightarrow> 1 \<le> i \<and> bit (ifStack c) (i - 1)"
      by (subst bit_push_bit_iff) (use that in simp)
    moreover have "bit (if b \<or> True \<in> set bs then 1 else 0 :: u32) i \<longleftrightarrow> (b \<or> True \<in> set bs) \<and> i = 0"
      by (simp add: bit_1_iff)
    ultimately show ?thesis using assms that unfolding bit_or_iff
      by (cases i) (auto simp: cond_rep_def dest: in_set_dropD)
  qed
  ultimately show ?thesis using assms by (simp add: cond_rep_def)
qed

lemma cond_rep_pop:
  assumes "cond_rep c (b # bs)"
  shows "cond_rep (end_if c) bs"
proof -
  have "unat (ifCount c - 1) = unat (ifCount c) - 1"
    by (rule unat_minus_one) (use assms in \<open>auto simp: cond_rep_def\<close>)
  moreover have "bit (drop_bit 1 (ifStack c)) i \<longleftrightarrow> i < length bs \<and> True \<in> set (drop i bs)" if "i < 32" for i
  proof (cases "i = 31")
    case True
    then show ?thesis using assms by (auto simp: bit_simps cond_rep_def dest: bit_imp_le_length)
  next
    case False
    then have "Suc i < 32" using that by simp
    then show ?thesis using assms by (auto simp: bit_simps cond_rep_def)
  qed
  ultimately show ?thesis using assms by (simp add: cond_rep_def end_if_def)
qed

theorem conditions_are_a_stack:
  assumes "cond_rep (cs m) bs"
  shows "(ifStack (cs m) AND 1 \<noteq> 0 \<longleftrightarrow> True \<in> set bs) \<and>
    (length bs < 32 \<longrightarrow> (\<exists>m'. push_cond b m = Ok () m' \<and> cond_rep (cs m') (b # bs))) \<and>
    (loopLine (cs m) = -1 \<longrightarrow> (\<exists>m'. op_D0 codes 0 m = Ok () m' \<and> cond_rep (cs m') (tl bs)))"
proof (intro conjI impI)
  show s: "ifStack (cs m) AND 1 \<noteq> 0 \<longleftrightarrow> True \<in> set bs" by (rule cond_rep_skip [OF assms])
  show "\<exists>m'. push_cond b m = Ok () m' \<and> cond_rep (cs m') (b # bs)" if "length bs < 32"
    using cond_rep_push [OF assms that, of b] s by (simp add: push_cond_def upd_cs_def)
  show "\<exists>m'. op_D0 codes 0 m = Ok () m' \<and> cond_rep (cs m') (tl bs)" if "loopLine (cs m) = -1"
  proof (cases bs)
    case Nil
    then have "\<not> ifCount (cs m) > 0" using assms by (simp add: cond_rep_def word_less_nat_alt)
    then show ?thesis using that assms Nil by (simp add: op_D0_def end_cond_def upd_cs_def)
  next
    case (Cons b bs')
    then have "ifCount (cs m) > 0" using assms by (simp add: cond_rep_def word_less_nat_alt)
    then show ?thesis using that assms Cons cond_rep_pop [of "cs m" b bs'] by (simp add: op_D0_def end_cond_def upd_cs_def)
  qed
qed

theorem conditions_are_a_stack_witness:
  "\<exists>m'. push_cond True (demo_mach 1) = Ok () m' \<and> cond_rep (cs m') [True]"
  using conditions_are_a_stack [of "demo_mach 1" "[]" True]
  by (simp add: cond_rep_def demo_mach_def demo_cs_def)

text \<open>The random number of an FF line lies in its half-open range.\<close>

theorem random_in_range:
  assumes "a0 AND 0xFFFFFF < a1"
  shows "\<exists>m'. op_FF a0 a1 m = Ok () m' \<and> a0 AND 0xFFFFFF \<le> get_data m' \<and> get_data m' < a1"
proof -
  let ?lo = "a0 AND 0xFFFFFF" and ?r = "fst (Cheat_GetRandomNumber m)"
  have n: "a1 - ?lo \<noteq> 0" using assms by auto
  have "unat (?r mod (a1 - ?lo)) < unat (a1 - ?lo)" using n by (simp add: unat_mod unat_gt_0 word_neq_0_conv)
  moreover have "unat (a1 - ?lo) = unat a1 - unat ?lo" using assms by (simp add: unat_sub)
  moreover have "unat ?lo < unat a1" using assms by (simp add: word_less_nat_alt)
  moreover have "unat a1 < 2 ^ 32" using unsigned_less [of a1] by simp
  ultimately have "unat (?lo + ?r mod (a1 - ?lo)) = unat ?lo + unat (?r mod (a1 - ?lo))"
    "unat ?lo + unat (?r mod (a1 - ?lo)) < unat a1"
    by (simp_all add: unat_word_ariths)
  then have "?lo \<le> ?lo + ?r mod (a1 - ?lo) \<and> ?lo + ?r mod (a1 - ?lo) < a1"
    by (simp add: word_le_nat_alt word_less_nat_alt)
  then show ?thesis using n
    by (cases "Cheat_GetRandomNumber m") (simp add: op_FF_def Let_def get_data_def set_data_def)
qed

theorem random_in_range_witness: "\<exists>m'. op_FF 0xFF00000A 20 (demo_mach 1) = Ok () m' \<and> 10 \<le> get_data m'"
  using random_in_range [of "0xFF00000A" 20 "demo_mach 1"] by auto

section \<open>Code types that do something else\<close>

lemma byte_via_u32: "ucast (ucast (b :: u8) :: u32) = b"
  by (rule bit_word_eqI) (auto simp: bit_simps)

lemma and_1_odd: "(w :: u32) AND 1 \<noteq> 0 \<longleftrightarrow> odd w" "(w :: u32) AND 1 = 0 \<longleftrightarrow> even w"
  by (simp_all add: and_one_eq odd_iff_mod_2_eq_one even_iff_mod_2_eq_zero)

lemma copy_byte_page:
  assumes "page_ok m" and "page_access 1 (offset1 (cs m))" and "page_access 1 (offset2 (cs m))"
  defines "d \<equiv> unat (offset1 (cs m)) - 0x01E81000" and "s \<equiv> unat (offset2 (cs m)) - 0x01E81000"
  shows "copy_byte e m = Ok () (m\<lparr>cs := (cs m)\<lparr>activeOffset := False\<rparr>,
    cheatPage := (cheatPage m)[d := cheatPage m ! s]\<rparr>)"
proof -
  have i: "d < 0x1000" "s < 0x1000" using assms(2,3) unfolding d_def s_def page_access_def by linarith+
  have l: "length (cheatPage m) = 0x1000" using assms(1) by (simp add: page_ok_def)
  let ?m = "upd_cs (\<lambda>c. c\<lparr>activeOffset := True\<rparr>) m"
  have "take 1 (drop s (cheatPage m)) = [cheatPage m ! s]" using i l by (simp add: take_Suc_conv_app_nth hd_drop_conv_nth)
  then have "Cheat_Read8 e 0 ?m = Ok (True, ucast (cheatPage m ! s)) ?m"
    using i l page_in_page1 [OF assms(3)] page_index [OF assms(3)]
    by (simp add: Cheat_Read8_def page_read_def get_offset_def upd_cs_def s_def le_value_def)
  moreover have "store_bytes (cheatPage m) d (le_bytes 1 (ucast (cheatPage m ! s))) = (cheatPage m)[d := cheatPage m ! s]"
    using i l by (simp add: store_bytes_def le_bytes_def upd_conv_take_nth_drop byte_via_u32)
  ultimately show ?thesis
    using i l page_in_page1 [OF assms(2)] page_index [OF assms(2)]
    by (simp add: copy_byte_def read_or0_def or_return0_def Cheat_Write8_def page_write_def get_offset_def upd_cs_def d_def byte_via_u32)
qed

lemma copy_loop_page:
  assumes "page_ok m" and "page_access 1 (offset1 (cs m))" and "page_access 1 (offset2 (cs m))"
  shows "copy_loop e (Suc k) m = copy_byte e m"
  using assms
proof (induction k arbitrary: m)
  case (Suc k)
  let ?d = "unat (offset1 (cs m)) - 0x01E81000" and ?s = "unat (offset2 (cs m)) - 0x01E81000"
  let ?m = "m\<lparr>cs := (cs m)\<lparr>activeOffset := False\<rparr>, cheatPage := (cheatPage m)[?d := cheatPage m ! ?s]\<rparr>"
  have i: "?d < 0x1000" using Suc.prems(2) unfolding page_access_def by linarith
  have c: "copy_byte e m = Ok () ?m" by (rule copy_byte_page [OF Suc.prems])
  have "copy_loop e (Suc k) ?m = copy_byte e ?m"
    by (rule Suc.IH) (use Suc.prems in \<open>simp_all add: page_ok_def\<close>)
  also have "\<dots> = Ok () ?m"
    by (subst copy_byte_page) (use Suc.prems i in \<open>auto simp: page_ok_def nth_list_update\<close>)
  finally show ?case using c by simp
next
  case 0
  then show ?case by (simp add: copy_byte_page [OF 0])
qed

text \<open>An FC line copies one byte whatever its count is: the source and destination addresses never
  advance, so every count from 1 on has the effect of 1.\<close>

theorem FC_copies_one_byte:
  assumes "page_ok m" and "page_access 1 (offset1 (cs m))" and "page_access 1 (offset2 (cs m))" and "n \<noteq> 0"
  shows "op_FC e n m = Ok () (m\<lparr>cheatPage := (cheatPage m)
    [unat (offset1 (cs m)) - 0x01E81000 := cheatPage m ! (unat (offset2 (cs m)) - 0x01E81000)]\<rparr>)"
proof -
  obtain k where k: "unat n = Suc k" using assms(4) by (metis not0_implies_Suc unat_eq_0)
  show ?thesis
    unfolding op_FC_def k copy_loop_page [OF assms(1-3)] copy_byte_page [OF assms(1-3)]
    by (simp add: upd_cs_def)
qed

definition demo_copy :: "unit mach" where
  "demo_copy = upd_cs (\<lambda>c. c\<lparr>offset1 := 0x01E81000, offset2 := 0x01E81100\<rparr>)
     ((demo_mach 1)\<lparr>cheatPage := replicate 0x1000 9\<rparr>)"

theorem FC_copies_one_byte_witness:
  "op_FC demo_cheat_env 16 demo_copy = Ok () (demo_copy\<lparr>cheatPage := (replicate 0x1000 9)[0 := 9]\<rparr>)"
  using FC_copies_one_byte [of demo_copy 16 demo_cheat_env]
  by (simp add: demo_copy_def page_ok_def page_access_def demo_mach_def upd_cs_def demo_cs_def)

text \<open>An FE line whose window is exactly as long as its pattern never finds the pattern, whatever the
  memory holds: the last position of the window is never tried.\<close>

theorem FE_never_tries_last_position:
  assumes "ifStack (cs m) AND 1 = 0" and "(a0 AND 0xFFFF) + index (cs m) < codesCount (desc m)"
  shows "\<exists>m'. op_FE e codes a0 (a0 AND 0xFFFF) m = Ok () m' \<and> same_mem m m' \<and> ifStack (cs m') AND 1 \<noteq> 0"
  using assms by (auto simp: op_FE_def push_cond_def Let_def upd_cs_def same_mem_def and_1_odd even_or_iff)

theorem FE_never_tries_last_position_witness:
  "\<exists>m'. op_FE demo_cheat_env (\<lambda>_. 0) 0xFE000008 8 (demo_mach 20) = Ok () m' \<and> ifStack (cs m') AND 1 \<noteq> 0"
  using FE_never_tries_last_position [of "demo_mach 20" "0xFE000008" demo_cheat_env "\<lambda>_. 0"]
  by (auto simp: demo_mach_def demo_cs_def demo_desc_def)

definition same_but_E :: "'p mach \<Rightarrow> 'p mach \<Rightarrow> bool" where
  "same_but_E m m' \<longleftrightarrow> (\<exists>l i. m' = m\<lparr>cs := (cs m)\<lparr>typeELine := l, typeEIdx := i\<rparr>\<rparr>)"

lemma same_but_E_refl: "same_but_E m m"
  unfolding same_but_E_def by (intro exI [of _ "typeELine (cs m)"] exI [of _ "typeEIdx (cs m)"]) simp

lemma same_but_E_trans: "same_but_E m m1 \<Longrightarrow> same_but_E m1 m2 \<Longrightarrow> same_but_E m m2"
  unfolding same_but_E_def
proof (elim exE)
  fix l i l' i'
  assume "m1 = m\<lparr>cs := (cs m)\<lparr>typeELine := l, typeEIdx := i\<rparr>\<rparr>" "m2 = m1\<lparr>cs := (cs m1)\<lparr>typeELine := l', typeEIdx := i'\<rparr>\<rparr>"
  then have "m2 = m\<lparr>cs := (cs m)\<lparr>typeELine := l', typeEIdx := i'\<rparr>\<rparr>" by simp
  then show "\<exists>l i. m2 = m\<lparr>cs := (cs m)\<lparr>typeELine := l, typeEIdx := i\<rparr>\<rparr>" by blast
qed

lemma GetNextTypeE_same: "Cheat_GetNextTypeE codes m = (b, m1) \<Longrightarrow> same_but_E m m1"
proof -
  assume "Cheat_GetNextTypeE codes m = (b, m1)"
  then have "m1 = m\<lparr>cs := (cs m)\<lparr>typeELine := typeELine (cs m1), typeEIdx := typeEIdx (cs m1)\<rparr>\<rparr>"
    by (auto simp: Cheat_GetNextTypeE_def Let_def upd_cs_def split: if_splits)
  then show ?thesis unfolding same_but_E_def by blast
qed

lemma typeE_loop_skip_total: "\<exists>m'. typeE_loop e codes True off k i m = Ok () m' \<and> same_but_E m m'"
proof (induction k arbitrary: i m)
  case (Suc k)
  obtain b m1 where b: "Cheat_GetNextTypeE codes m = (b, m1)" by fastforce
  from Suc [of "i + 1" m1] obtain m' where "typeE_loop e codes True off k (i + 1) m1 = Ok () m'" "same_but_E m1 m'" by blast
  with same_but_E_trans [OF GetNextTypeE_same [OF b]] show ?case by (simp add: b)
qed (simp add: same_but_E_refl)

lemma E_line_stuck:
  assumes i: "index (cs m) = 1" and s: "ifStack (cs m) AND 1 \<noteq> 0" and c: "codes 1 = 0xE0000000000007F8"
  shows "\<exists>m'. exec_line e codes m = Ok () m' \<and> index (cs m') = 1 \<and> ifStack (cs m') = ifStack (cs m) \<and> desc m' = desc m"
proof -
  let ?m = "upd_cs (\<lambda>c. c\<lparr>typeELine := ucast (index c), typeEIdx := 7\<rparr>) m"
  obtain m2 where m2: "typeE_loop e codes True 0 0x7F8 0 ?m = Ok () m2" "same_but_E ?m m2"
    using typeE_loop_skip_total by blast
  have "typeELine (cs m2) = 0"
    using typeE_loop_line [OF m2(1)] i by (simp add: upd_cs_def)
  with m2 s i show ?thesis
    by (auto simp: exec_line_def exec_op_def op_E_def c upd_cs_def same_but_E_def)
qed

lemma E_line_runs_forever:
  assumes "index (cs m) = 1" and "ifStack (cs m) AND 1 \<noteq> 0" and "1 < codesCount (desc m)" and "codes 1 = 0xE0000000000007F8"
  shows "run fuel e codes m = None"
  using assms(1-3)
proof (induction fuel arbitrary: m)
  case 0
  then show ?case by (simp add: run.simps)
next
  case (Suc k)
  from E_line_stuck [of m codes e] Suc.prems assms(4) obtain m' where
    m': "exec_line e codes m = Ok () m'" "index (cs m') = 1" "ifStack (cs m') = ifStack (cs m)" "desc m' = desc m"
    by blast
  then have "run k e codes m' = None" using Suc.IH [of m'] Suc.prems by simp
  then show ?case using m' Suc.prems by (simp add: run.simps [of "Suc k"])
qed

text \<open>A cheat that waits for a key and then writes 2040 bytes with an E line runs for ever as soon as it
  is applied without the key: the payload ends 255 lines after line 1, the 8-bit line register
  wraps to 0, and line 1 is executed again.\<close>

theorem long_payload_runs_forever:
  assumes "codes 0 = 0xDD00000000000001" and "codes 1 = 0xE0000000000007F8" and "1 < codesCount (desc m)"
    and "HID_PAD e (reads m) AND 1 = 0"
  shows "Cheat_ApplyCheat fuel e codes m = None"
proof (cases fuel)
  case 0
  have "0 < codesCount (desc m)" using assms(3) by (simp add: word_less_nat_alt)
  with 0 show ?thesis by (simp add: Cheat_ApplyCheat_def run.simps upd_cs_def reset_state_def)
next
  case (Suc k)
  let ?m = "upd_cs reset_state m"
  have z: "0 < codesCount (desc m)" using assms(3) by (simp add: word_less_nat_alt)
  have i0: "index (cs ?m) = 0" by (simp add: upd_cs_def reset_state_def)
  have a: "ucast (drop_bit 32 (0xDD00000000000001 :: u64)) = (0xDD000000 :: u32)" "ucast (0xDD00000000000001 :: u64) = (1 :: u32)"
    by simp_all
  obtain m' where m': "exec_line e codes ?m = Ok () m'" "index (cs m') = 1" "ifStack (cs m') = 1" "desc m' = desc m"
    unfolding exec_line_def Let_def i0 assms(1) a
    using assms(4) by (simp add: exec_line_def exec_op_def op_D_def op_DD_def push_cond_def upd_cs_def reset_state_def)
  have "run k e codes m' = None"
    by (rule E_line_runs_forever) (use m' assms(2,3) in simp_all)
  then show ?thesis using Suc m'(1) z
    by (simp add: Cheat_ApplyCheat_def run.simps [of "Suc k"] upd_cs_def reset_state_def)
qed

definition demo_long :: "u32 \<Rightarrow> u64" where
  "demo_long i = (if i = 0 then 0xDD00000000000001 else if i = 1 then 0xE0000000000007F8 else 0x1122334455667788)"

theorem long_payload_runs_forever_witness:
  "\<forall>fuel. Cheat_ApplyCheat fuel demo_cheat_env demo_long (demo_mach 257) = None"
  using long_payload_runs_forever [of demo_long "demo_mach 257" demo_cheat_env]
  by (auto simp: demo_long_def demo_mach_def demo_desc_def demo_cheat_env_def)

end
