(* ===== verification/Ifile.thy ===== *)
theory Ifile
  imports Prelude
begin

text \<open>
  Files (\<open>sysmodules/rosalina/source/ifile.c\<close>): a handle with a position, on top of the file
  server, whose calls may read or write less than asked. The file server is outside the
  repository: its calls are the fields of an environment over an abstract state.

  Lemmas: the read loop collects exactly the next bytes of the file, up to the length asked
  for or the end, however the server splits them; the write loop stores all the bytes when
  the server makes progress, and is still running after any number of turns when it does not.
\<close>

section \<open>Operations\<close>

record 'f fs_env =
  FS_FAILED :: "result \<Rightarrow> bool"
  FSUSER_OpenFileDirectly :: "'f \<Rightarrow> u32 \<Rightarrow> bytes \<Rightarrow> bytes \<Rightarrow> u32 \<Rightarrow> result \<times> handle \<times> 'f"
  FSUSER_OpenFile :: "'f \<Rightarrow> u64 \<Rightarrow> bytes \<Rightarrow> u32 \<Rightarrow> result \<times> handle \<times> 'f"
  FSFILE_Close :: "'f \<Rightarrow> handle \<Rightarrow> result \<times> 'f"
  FSFILE_GetSize :: "'f \<Rightarrow> handle \<Rightarrow> result \<times> u64 \<times> 'f"
  FSFILE_SetSize :: "'f \<Rightarrow> handle \<Rightarrow> u64 \<Rightarrow> result \<times> 'f"
  FSFILE_Read :: "'f \<Rightarrow> handle \<Rightarrow> u64 \<Rightarrow> u32 \<Rightarrow> result \<times> bytes \<times> 'f"
  FSFILE_Write :: "'f \<Rightarrow> handle \<Rightarrow> u64 \<Rightarrow> bytes \<Rightarrow> u32 \<Rightarrow> result \<times> u32 \<times> 'f"
  FSFILE_Flush :: "'f \<Rightarrow> handle \<Rightarrow> result \<times> 'f"

record ifile =
  f_handle :: handle
  f_pos :: u64
  f_size :: u64

definition IFile_Open :: "'f fs_env \<Rightarrow> u32 \<Rightarrow> bytes \<Rightarrow> bytes \<Rightarrow> u32 \<Rightarrow> 'f \<Rightarrow> result \<times> ifile \<times> 'f" where
  "IFile_Open e archiveId archivePath filePath flags f =
     (let (res, h, f1) = FSUSER_OpenFileDirectly e f archiveId archivePath filePath flags
      in (res, \<lparr>f_handle = h, f_pos = 0, f_size = 0\<rparr>, f1))"

definition IFile_OpenFromArchive :: "'f fs_env \<Rightarrow> u64 \<Rightarrow> bytes \<Rightarrow> u32 \<Rightarrow> 'f \<Rightarrow> result \<times> ifile \<times> 'f" where
  "IFile_OpenFromArchive e archive filePath flags f =
     (let (res, h, f1) = FSUSER_OpenFile e f archive filePath flags
      in (res, \<lparr>f_handle = h, f_pos = 0, f_size = 0\<rparr>, f1))"

definition IFile_Close :: "'f fs_env \<Rightarrow> ifile \<Rightarrow> 'f \<Rightarrow> result \<times> ifile \<times> 'f" where
  "IFile_Close e i f =
     (let (res, f1) = (if f_handle i \<noteq> 0 then FSFILE_Close e f (f_handle i) else (0, f))
      in (res, i\<lparr>f_handle := 0\<rparr>, f1))"

definition IFile_GetSize :: "'f fs_env \<Rightarrow> ifile \<Rightarrow> 'f \<Rightarrow> result \<times> u64 \<times> ifile \<times> 'f" where
  "IFile_GetSize e i f =
     (let (res, sz, f1) = FSFILE_GetSize e f (f_handle i)
      in (res, sz, if \<not> FS_FAILED e res then i\<lparr>f_size := sz\<rparr> else i, f1))"

definition IFile_SetSize :: "'f fs_env \<Rightarrow> u64 \<Rightarrow> ifile \<Rightarrow> 'f \<Rightarrow> result \<times> ifile \<times> 'f" where
  "IFile_SetSize e sz i f =
     (let (res, f1) = FSFILE_SetSize e f (f_handle i) sz
      in (res, if \<not> FS_FAILED e res then i\<lparr>f_size := sz\<rparr> else i, f1))"

text \<open>The read loop; \<open>out\<close> is what the buffer holds so far. \<^term>\<open>None\<close>: still running.\<close>

fun read_loop :: "nat \<Rightarrow> 'f fs_env \<Rightarrow> ifile \<Rightarrow> u32 \<Rightarrow> bytes \<Rightarrow> 'f \<Rightarrow> (result \<times> bytes \<times> ifile \<times> 'f) option" where
  "read_loop 0 e i left out f = None"
| "read_loop (Suc k) e i left out f =
     (let (res, bs, f1) = FSFILE_Read e f (f_handle i) (f_pos i) left
      in if FS_FAILED e res \<or> bs = [] then Some (res, out, i, f1)
         else let i1 = i\<lparr>f_pos := f_pos i + word_of_nat (length bs)\<rparr>
              in if word_of_nat (length bs) = left then Some (res, out @ bs, i1, f1)
                 else read_loop k e i1 (left - word_of_nat (length bs)) (out @ bs) f1)"

text \<open>\<open>*total\<close> is the length of the bytes read.\<close>

definition IFile_Read :: "nat \<Rightarrow> 'f fs_env \<Rightarrow> u32 \<Rightarrow> ifile \<Rightarrow> 'f \<Rightarrow> (result \<times> bytes \<times> ifile \<times> 'f) option" where
  "IFile_Read fuel e len i f = (if len = 0 then Some (0, [], i, f) else read_loop fuel e i len [] f)"

fun write_loop :: "nat \<Rightarrow> 'f fs_env \<Rightarrow> u32 \<Rightarrow> ifile \<Rightarrow> bytes \<Rightarrow> u64 \<Rightarrow> 'f \<Rightarrow> (result \<times> u64 \<times> ifile \<times> 'f) option" where
  "write_loop 0 e flags i buf cur f = None"
| "write_loop (Suc k) e flags i buf cur f =
     (let (res, written, f1) = FSFILE_Write e f (f_handle i) (f_pos i) buf flags
      in if FS_FAILED e res then Some (res, cur, i, f1)
         else let i1 = i\<lparr>f_pos := f_pos i + ucast written\<rparr>
              in if unat written = length buf then Some (res, cur + ucast written, i1, f1)
                 else write_loop k e flags i1 (drop (unat written) buf) (cur + ucast written) f1)"

definition IFile_Write :: "nat \<Rightarrow> 'f fs_env \<Rightarrow> bytes \<Rightarrow> u32 \<Rightarrow> ifile \<Rightarrow> 'f \<Rightarrow> (result \<times> u64 \<times> ifile \<times> 'f) option" where
  "IFile_Write fuel e buf flags i f = (if buf = [] then Some (0, 0, i, f) else write_loop fuel e flags i buf 0 f)"

definition IFile_Flush :: "'f fs_env \<Rightarrow> ifile \<Rightarrow> 'f \<Rightarrow> result \<times> 'f" where
  "IFile_Flush e i f = FSFILE_Flush e f (f_handle i)"

section \<open>Reading\<close>

text \<open>What the code relies on: a read that does not fail gives some of the bytes at the position, at
  most as many as asked, and none only when there are none. Reading does not change files.\<close>

definition reads_ok :: "'f fs_env \<Rightarrow> ('f \<Rightarrow> handle \<Rightarrow> bytes) \<Rightarrow> bool" where
  "reads_ok e content \<longleftrightarrow> (\<forall>f h pos n. case FSFILE_Read e f h pos n of (res, bs, f1) \<Rightarrow>
     content f1 = content f \<and>
     (\<not> FS_FAILED e res \<longrightarrow>
        bs = take (length bs) (drop (unat pos) (content f h)) \<and> length bs \<le> unat n \<and>
        (bs = [] \<longrightarrow> unat n = 0 \<or> drop (unat pos) (content f h) = [])))"

lemma reads_okD:
  assumes "reads_ok e content" and "FSFILE_Read e f h pos n = (res, bs, f1)"
  shows "content f1 = content f"
    and "\<not> FS_FAILED e res \<Longrightarrow> bs = take (length bs) (drop (unat pos) (content f h))"
    and "\<not> FS_FAILED e res \<Longrightarrow> length bs \<le> unat n"
    and "\<not> FS_FAILED e res \<Longrightarrow> bs = [] \<Longrightarrow> unat n = 0 \<or> drop (unat pos) (content f h) = []"
proof -
  have r: "content f1 = content f \<and> (\<not> FS_FAILED e res \<longrightarrow>
        bs = take (length bs) (drop (unat pos) (content f h)) \<and> length bs \<le> unat n \<and>
        (bs = [] \<longrightarrow> unat n = 0 \<or> drop (unat pos) (content f h) = []))"
    using spec [OF spec [OF spec [OF spec [OF assms(1) [unfolded reads_ok_def], of f], of h], of pos], of n]
    unfolding assms(2) prod.case .
  then show "content f1 = content f"
    and "\<not> FS_FAILED e res \<Longrightarrow> bs = take (length bs) (drop (unat pos) (content f h))"
    and "\<not> FS_FAILED e res \<Longrightarrow> length bs \<le> unat n"
    and "\<not> FS_FAILED e res \<Longrightarrow> bs = [] \<Longrightarrow> unat n = 0 \<or> drop (unat pos) (content f h) = []"
    by blast+
qed

lemma read_loop_collects:
  assumes "reads_ok e content" and "unat left \<le> k" and "left \<noteq> 0"
    and "unat (f_pos i) + unat left < 2 ^ 64"
  shows "\<exists>res bs i' f'. read_loop k e i left out f = Some (res, out @ bs, i', f') \<and> content f' = content f \<and>
    f_handle i' = f_handle i \<and> unat (f_pos i') = unat (f_pos i) + length bs \<and>
    length bs \<le> unat left \<and> bs = take (length bs) (drop (unat (f_pos i)) (content f (f_handle i))) \<and>
    (\<not> FS_FAILED e res \<longrightarrow> bs = take (unat left) (drop (unat (f_pos i)) (content f (f_handle i))))"
  using assms(2-4)
proof (induction k arbitrary: i left out f)
  case 0
  then show ?case by (simp add: unat_eq_0)
next
  case (Suc k)
  obtain res bs f1 where rd: "FSFILE_Read e f (f_handle i) (f_pos i) left = (res, bs, f1)" by (metis prod_cases3)
  note R = reads_okD [OF assms(1) rd]
  let ?c = "drop (unat (f_pos i)) (content f (f_handle i))"
  show ?case
  proof (cases "FS_FAILED e res \<or> bs = []")
    case True
    then have "\<not> FS_FAILED e res \<Longrightarrow> ?c = []" using R(4) Suc.prems(2) by (auto simp: unat_eq_0)
    with True R(1) rd show ?thesis by (intro exI [of _ res] exI [of _ "[]"]) auto
  next
    case False
    let ?l = "length bs"
    have l: "?l \<le> unat left" "0 < ?l" "bs = take ?l ?c" using False R(2,3) by auto
    have lt: "unat left < 2 ^ 32" using unsigned_less [of left] by simp
    have w: "unat (word_of_nat ?l :: u32) = ?l" "unat (word_of_nat ?l :: u64) = ?l"
      using l(1) lt by (simp_all add: unat_of_nat)
    let ?i = "i\<lparr>f_pos := f_pos i + word_of_nat ?l\<rparr>"
    have pos: "unat (f_pos ?i) = unat (f_pos i) + ?l" using l(1) Suc.prems(3) w(2) by (simp add: unat_word_ariths)
    show ?thesis
    proof (cases "word_of_nat ?l = left")
      case True
      then have "?l = unat left" using w(1) by auto
      with l rd False True R(1) pos show ?thesis
        by (intro exI [of _ res] exI [of _ bs] exI [of _ ?i] exI [of _ f1]) auto
    next
      case ne: False
      let ?left = "left - word_of_nat ?l"
      have sub: "unat ?left = unat left - ?l" using l(1) w(1) by (simp add: unat_sub word_le_nat_alt)
      have nz: "?left \<noteq> 0" using ne by auto
      have kk: "unat ?left \<le> k" "unat (f_pos ?i) + unat ?left < 2 ^ 64"
        using Suc.prems(1,3) l(1,2) sub pos by linarith+
      obtain res' bs' i' f' where IH: "read_loop k e ?i ?left (out @ bs) f1 = Some (res', (out @ bs) @ bs', i', f')"
        "content f' = content f1" "f_handle i' = f_handle ?i" "unat (f_pos i') = unat (f_pos ?i) + length bs'"
        "length bs' \<le> unat ?left"
        "bs' = take (length bs') (drop (unat (f_pos ?i)) (content f1 (f_handle ?i)))"
        "\<not> FS_FAILED e res' \<longrightarrow> bs' = take (unat ?left) (drop (unat (f_pos ?i)) (content f1 (f_handle ?i)))"
        using Suc.IH [OF kk(1) nz kk(2), of "out @ bs" f1] by blast
      have d: "drop (unat (f_pos ?i)) (content f1 (f_handle ?i)) = drop ?l ?c"
        unfolding pos R(1) by (simp add: add.commute)
      have t: "take (?l + n) ?c = bs @ take n (drop ?l ?c)" for n
        using l(3) by (metis take_add)
      show ?thesis
      proof (intro exI conjI)
        show "read_loop (Suc k) e i left out f = Some (res', out @ (bs @ bs'), i', f')"
          using rd False ne IH(1) by simp
        show "content f' = content f" "f_handle i' = f_handle i" using IH(2,3) R(1) by simp_all
        show "unat (f_pos i') = unat (f_pos i) + length (bs @ bs')" using IH(4) pos by simp
        show "length (bs @ bs') \<le> unat left" using IH(5) sub l(1) by simp
        show "bs @ bs' = take (length (bs @ bs')) ?c" using IH(6) unfolding length_append t d by simp
        have "unat left = ?l + unat ?left" using sub l(1) by simp
        then show "\<not> FS_FAILED e res' \<longrightarrow> bs @ bs' = take (unat left) ?c"
          using IH(7) by (simp only: t d) simp
      qed
    qed
  qed
qed

lemma IFile_Read_collects:
  assumes "reads_ok e content" and "unat len \<le> fuel" and "unat (f_pos i) + unat len < 2 ^ 64"
  shows "\<exists>res bs i' f'. IFile_Read fuel e len i f = Some (res, bs, i', f') \<and> content f' = content f \<and>
    f_handle i' = f_handle i \<and> unat (f_pos i') = unat (f_pos i) + length bs \<and> length bs \<le> unat len \<and>
    bs = take (length bs) (drop (unat (f_pos i)) (content f (f_handle i))) \<and>
    (\<not> FS_FAILED e res \<longrightarrow> bs = take (unat len) (drop (unat (f_pos i)) (content f (f_handle i))))"
proof (cases "len = 0")
  case True
  then show ?thesis by (simp add: IFile_Read_def)
next
  case False
  then show ?thesis using read_loop_collects [OF assms(1,2) False assms(3), of "[]" f] by (simp add: IFile_Read_def)
qed

text \<open>The file server never fails.\<close>

definition server_ok :: "'f fs_env \<Rightarrow> ('f \<Rightarrow> handle \<Rightarrow> bytes) \<Rightarrow> bool" where
  "server_ok e content \<longleftrightarrow> reads_ok e content \<and> \<not> FS_FAILED e 0 \<and>
     (\<forall>f h pos n. \<not> FS_FAILED e (fst (FSFILE_Read e f h pos n)))"

lemma read_loop_not_failed:
  "(\<And>f h pos n. \<not> FS_FAILED e (fst (FSFILE_Read e f h pos n))) \<Longrightarrow>
   read_loop k e i left out f = Some (res, bs, i', f') \<Longrightarrow> \<not> FS_FAILED e res"
proof (induction k arbitrary: i left out f)
  case (Suc k)
  obtain r b f1 where rd: "FSFILE_Read e f (f_handle i) (f_pos i) left = (r, b, f1)" by (metis prod_cases3)
  with Suc.prems(1) [of f "f_handle i" "f_pos i" left] have "\<not> FS_FAILED e r" by simp
  with Suc.prems(2) rd show ?case by (auto simp: Let_def split: if_splits dest: Suc.IH [OF Suc.prems(1)])
qed simp

text \<open>Then a read gives all the bytes asked for, or all there are.\<close>

lemma IFile_Read_all:
  assumes s: "server_ok e content" and "unat len \<le> fuel" and "unat (f_pos i) + unat len < 2 ^ 64"
  shows "\<exists>res i' f'. IFile_Read fuel e len i f = Some (res, take (unat len) (drop (unat (f_pos i)) (content f (f_handle i))), i', f') \<and>
    \<not> FS_FAILED e res \<and> content f' = content f \<and> f_handle i' = f_handle i \<and>
    unat (f_pos i') = unat (f_pos i) + min (unat len) (length (drop (unat (f_pos i)) (content f (f_handle i))))"
proof -
  let ?c = "drop (unat (f_pos i)) (content f (f_handle i))"
  have r: "reads_ok e content" and nf: "\<And>f h pos n. \<not> FS_FAILED e (fst (FSFILE_Read e f h pos n))" and z: "\<not> FS_FAILED e 0"
    using s by (auto simp: server_ok_def)
  obtain res bs i' f' where R: "IFile_Read fuel e len i f = Some (res, bs, i', f')" "content f' = content f"
    "f_handle i' = f_handle i" "unat (f_pos i') = unat (f_pos i) + length bs"
    "\<not> FS_FAILED e res \<longrightarrow> bs = take (unat len) ?c"
    using IFile_Read_collects [OF r assms(2,3), of f] by auto
  have ok: "\<not> FS_FAILED e res"
    using R(1) z read_loop_not_failed [OF nf] by (auto simp: IFile_Read_def split: if_splits)
  then have "bs = take (unat len) ?c" using R(5) by blast
  then show ?thesis using R ok by (auto simp: min.commute)
qed

section \<open>Writing\<close>

text \<open>Storing bytes at a position of a file that is at least that long.\<close>

definition put_at :: "bytes \<Rightarrow> nat \<Rightarrow> bytes \<Rightarrow> bytes" where
  "put_at c p bs = take p c @ bs @ drop (p + length bs) c"

lemma put_at_append:
  "p \<le> length c \<Longrightarrow> put_at (put_at c p as) (p + length as) bs = put_at c p (as @ bs)"
  by (simp add: put_at_def add.commute add.left_commute)

lemma length_put_at: "p \<le> length c \<Longrightarrow> length (put_at c p bs) = max (length c) (p + length bs)"
  by (simp add: put_at_def)

text \<open>A write that does not fail stores a non-empty part of the bytes.\<close>

definition writes_ok :: "'f fs_env \<Rightarrow> ('f \<Rightarrow> handle \<Rightarrow> bytes) \<Rightarrow> bool" where
  "writes_ok e content \<longleftrightarrow> (\<forall>f h pos bs flags. case FSFILE_Write e f h pos bs flags of (res, w, f1) \<Rightarrow>
     \<not> FS_FAILED e res \<longrightarrow> unat pos \<le> length (content f h) \<longrightarrow>
       unat w \<le> length bs \<and> (bs \<noteq> [] \<longrightarrow> w \<noteq> 0) \<and>
       content f1 = (content f)(h := put_at (content f h) (unat pos) (take (unat w) bs)))"

lemma writes_okD:
  assumes "writes_ok e content" and "FSFILE_Write e f h pos bs flags = (res, w, f1)" and "\<not> FS_FAILED e res"
    and "unat pos \<le> length (content f h)"
  shows "unat w \<le> length bs \<and> (bs \<noteq> [] \<longrightarrow> w \<noteq> 0) \<and>
    content f1 = (content f)(h := put_at (content f h) (unat pos) (take (unat w) bs))"
proof -
  have "case FSFILE_Write e f h pos bs flags of (res, w, f1) \<Rightarrow>
     \<not> FS_FAILED e res \<longrightarrow> unat pos \<le> length (content f h) \<longrightarrow>
       unat w \<le> length bs \<and> (bs \<noteq> [] \<longrightarrow> w \<noteq> 0) \<and>
       content f1 = (content f)(h := put_at (content f h) (unat pos) (take (unat w) bs))"
    by (rule spec [OF spec [OF spec [OF spec [OF spec [OF assms(1) [unfolded writes_ok_def]]]]]])
  then show ?thesis using assms(3,4) unfolding assms(2) prod.case by blast
qed

lemma write_loop_stores:
  assumes "writes_ok e content" and "length buf \<le> k" and "buf \<noteq> []" and "length buf < 2 ^ 32"
    and "unat (f_pos i) \<le> length (content f (f_handle i))" and "unat (f_pos i) + length buf < 2 ^ 64"
    and "\<And>f h pos bs. \<not> FS_FAILED e (fst (FSFILE_Write e f h pos bs flags))"
  shows "\<exists>res i' f'. write_loop k e flags i buf cur f = Some (res, cur + word_of_nat (length buf), i', f') \<and>
    \<not> FS_FAILED e res \<and> f_handle i' = f_handle i \<and> f_pos i' = f_pos i + word_of_nat (length buf) \<and>
    content f' = (content f)(f_handle i := put_at (content f (f_handle i)) (unat (f_pos i)) buf)"
  using assms(2-6)
proof (induction k arbitrary: i buf cur f)
  case (Suc k)
  obtain res w f1 where wr: "FSFILE_Write e f (f_handle i) (f_pos i) buf flags = (res, w, f1)" by (metis prod_cases3)
  have nf: "\<not> FS_FAILED e res" using assms(7) [of f "f_handle i" "f_pos i" buf] wr by simp
  let ?c = "content f (f_handle i)" and ?p = "unat (f_pos i)"
  have W: "unat w \<le> length buf" "w \<noteq> 0"
    "content f1 = (content f)(f_handle i := put_at ?c ?p (take (unat w) buf))"
    using writes_okD [OF assms(1) wr nf Suc.prems(4)] Suc.prems(2) by auto
  have w64: "word_of_nat (unat w) = (ucast w :: u64)" by (simp add: word_unat_eq_iff unsigned_ucast_eq unat_of_nat take_bit_eq_mod)
  show ?case
  proof (cases "unat w = length buf")
    case True
    with wr nf W w64 show ?thesis by (auto simp flip: w64)
  next
    case False
    let ?i = "i\<lparr>f_pos := f_pos i + ucast w\<rparr>" and ?b = "drop (unat w) buf"
    have "unat w < 2 ^ 32" using unsigned_less [of w] by simp
    then have uw: "unat (ucast w :: u64) = unat w" by (simp add: unsigned_ucast_eq take_bit_eq_mod)
    have pos: "unat (f_pos ?i) = ?p + unat w" using W(1) Suc.prems(5) uw by (simp add: unat_word_ariths)
    have "0 < unat w" using W(2) by (simp add: unat_gt_0)
    then have "length ?b \<le> k" using Suc.prems(1) W(1) by simp
    then have pre: "length ?b \<le> k" "?b \<noteq> []" "length ?b < 2 ^ 32" "unat (f_pos ?i) \<le> length (content f1 (f_handle ?i))"
      "unat (f_pos ?i) + length ?b < 2 ^ 64"
      using Suc.prems W False pos by (auto simp: length_put_at)
    obtain res' i' f' where IH: "write_loop k e flags ?i ?b (cur + ucast w) f1
        = Some (res', cur + ucast w + word_of_nat (length ?b), i', f')"
      "\<not> FS_FAILED e res'" "f_handle i' = f_handle ?i" "f_pos i' = f_pos ?i + word_of_nat (length ?b)"
      "content f' = (content f1)(f_handle ?i := put_at (content f1 (f_handle ?i)) (unat (f_pos ?i)) ?b)"
      using Suc.IH [OF pre, of "cur + ucast w"] by blast
    have len: "ucast w + word_of_nat (length ?b) = (word_of_nat (length buf) :: u64)"
      unfolding w64 [symmetric] of_nat_add [symmetric] using W(1) by simp
    have "put_at (put_at ?c ?p (take (unat w) buf)) (?p + length (take (unat w) buf)) ?b = put_at ?c ?p buf"
      using put_at_append [OF Suc.prems(4), of "take (unat w) buf" ?b] by simp
    then have "put_at (content f1 (f_handle ?i)) (unat (f_pos ?i)) ?b = put_at ?c ?p buf"
      unfolding pos W(3) using W(1) by simp
    then have "content f' = (content f)(f_handle i := put_at ?c ?p buf)" unfolding IH(5) W(3) by simp
    moreover have "write_loop (Suc k) e flags i buf cur f = Some (res', cur + word_of_nat (length buf), i', f')"
      using wr nf False IH(1) by (simp add: add.assoc len [simplified])
    moreover have "f_pos i' = f_pos i + word_of_nat (length buf)" using IH(4) by (simp add: add.assoc len [simplified])
    ultimately show ?thesis using IH(2,3) by auto
  qed
qed simp

section \<open>A file server with short reads\<close>

text \<open>One file, which is the state; a read gives at most three bytes, a write takes at most two.\<close>

definition demo_fs :: "bytes fs_env" where
  "demo_fs = \<lparr>FS_FAILED = (\<lambda>r. sint r < 0),
     FSUSER_OpenFileDirectly = (\<lambda>f a p q fl. (0, 1, f)),
     FSUSER_OpenFile = (\<lambda>f a p fl. (0, 1, f)),
     FSFILE_Close = (\<lambda>f h. (0, f)),
     FSFILE_GetSize = (\<lambda>f h. (0, word_of_nat (length f), f)),
     FSFILE_SetSize = (\<lambda>f h n. (0, take (unat n) f)),
     FSFILE_Read = (\<lambda>f h pos n. (0, take (min 3 (unat n)) (drop (unat pos) f), f)),
     FSFILE_Write = (\<lambda>f h pos bs fl. (0, word_of_nat (min 2 (length bs)), put_at f (unat pos) (take 2 bs))),
     FSFILE_Flush = (\<lambda>f h. (0, f))\<rparr>"

lemma demo_fs_reads: "server_ok demo_fs (\<lambda>f h. f)"
  by (auto simp: server_ok_def reads_ok_def demo_fs_def min_def unat_eq_0)

end
