(* ===== verification/Cheat_File_Proofs.thy ===== *)
theory Cheat_File_Proofs
  imports Cheat_File
begin

text \<open>
  Lemmas and properties of the cheat files: the buffered reader against the plain stream, lines,
  code lines and the loader.
\<close>

section \<open>The buffered reader is the stream\<close>

text \<open>The bytes still to be read: the rest of the buffer, then the rest of the file.\<close>

definition rest :: "('f \<Rightarrow> handle \<Rightarrow> bytes) \<Rightarrow> bfile \<Rightarrow> 'f \<Rightarrow> bytes" where
  "rest content b f = drop (curPos b) (take (maxPos b) (b_buffer b)) @
     drop (unat (f_pos (b_file b))) (content f (f_handle (b_file b)))"

text \<open>The buffer has bytes left, or the file has none.\<close>

definition buffer_ok :: "('f \<Rightarrow> handle \<Rightarrow> bytes) \<Rightarrow> bfile \<Rightarrow> 'f \<Rightarrow> bool" where
  "buffer_ok content b f \<longleftrightarrow> length (b_buffer b) = 512 \<and> maxPos b \<le> 512 \<and>
     (curPos b < maxPos b \<or> curPos b = 0 \<and> maxPos b = 0 \<and>
        drop (unat (f_pos (b_file b))) (content f (f_handle (b_file b))) = []) \<and>
     length (content f (f_handle (b_file b))) < 2 ^ 63 \<and> unat (f_pos (b_file b)) < 2 ^ 63"

lemma refill_rest:
  assumes s: "server_ok e content" and "length (b_buffer b) = 512"
    and "length (content f (f_handle (b_file b))) < 2 ^ 63" and "unat (f_pos (b_file b)) < 2 ^ 63"
  shows "\<exists>res b1 f1. refill e b f = Some (res, b1, f1) \<and> \<not> FS_FAILED e res \<and>
    buffer_ok content (b1\<lparr>curPos := 0\<rparr>) f1 \<and>
    rest content (b1\<lparr>curPos := 0\<rparr>) f1 = drop (unat (f_pos (b_file b))) (content f (f_handle (b_file b)))"
proof -
  let ?c = "drop (unat (f_pos (b_file b))) (content f (f_handle (b_file b)))"
  have r: "reads_ok e content" and nf: "\<And>f h pos n. \<not> FS_FAILED e (fst (FSFILE_Read e f h pos n))"
    using s by (auto simp: server_ok_def)
  obtain res bs i' f' where R: "IFile_Read 512 e 512 (b_file b) f = Some (res, bs, i', f')" "content f' = content f"
    "f_handle i' = f_handle (b_file b)" "unat (f_pos i') = unat (f_pos (b_file b)) + length bs" "length bs \<le> 512"
    "\<not> FS_FAILED e res \<longrightarrow> bs = take 512 ?c"
    using IFile_Read_collects [OF r, of 512 512 "b_file b" f] assms(4) by auto
  have ok: "\<not> FS_FAILED e res"
    using R(1) read_loop_not_failed [OF nf] by (auto simp: IFile_Read_def)
  then have bs: "bs = take 512 ?c" using R(6) by blast
  let ?b = "b\<lparr>b_file := i', maxPos := length bs, b_buffer := bs @ drop (length bs) (b_buffer b)\<rparr>"
  have d: "drop (unat (f_pos i')) (content f' (f_handle i')) = drop (length bs) ?c"
    unfolding R(2-4) by (simp add: add.commute)
  have sp: "bs @ drop (length bs) ?c = ?c"
    unfolding bs by (cases "length ?c \<le> 512") (simp_all add: min_def del: drop_drop length_drop)
  have p: "unat (f_pos i') < 2 ^ 63"
  proof (cases "bs = []")
    case True
    then show ?thesis using R(4) assms(4) by simp
  next
    case False
    then have "unat (f_pos (b_file b)) + length bs \<le> length (content f (f_handle (b_file b)))"
      unfolding bs by (auto simp: min_def)
    then show ?thesis using R(4) assms(3) by simp
  qed
  have "refill e b f = Some (res, ?b, f')" by (simp add: refill_def R(1))
  moreover have "buffer_ok content (?b\<lparr>curPos := 0\<rparr>) f'"
  proof -
    have "bs = [] \<Longrightarrow> ?c = []" unfolding bs by auto
    then show ?thesis using R(2,3,5) assms(2,3) p d by (auto simp: buffer_ok_def)
  qed
  moreover have "rest content (?b\<lparr>curPos := 0\<rparr>) f' = ?c"
    unfolding rest_def using sp by (simp add: d)
  ultimately show ?thesis using ok by blast
qed

lemma split_at:
  assumes "xs = as @ ys" and "n = length as + r"
  shows "take n xs = as @ take r ys" and "drop n xs = drop r ys"
  using assms by simp_all

lemma buffered_loop_stream:
  assumes s: "server_ok e content"
  shows "buffer_ok content b f \<Longrightarrow> \<not> FS_FAILED e res \<Longrightarrow> length out \<le> len \<Longrightarrow> len - length out \<le> k \<Longrightarrow>
    \<exists>res' b' f'. buffered_loop k e len res out b f = Some (res', out @ take (len - length out) (rest content b f), b', f') \<and>
      \<not> FS_FAILED e res' \<and> buffer_ok content b' f' \<and> rest content b' f' = drop (len - length out) (rest content b f)"
proof (induction k arbitrary: res out b f)
  case 0
  then show ?case by (auto intro!: exI)
next
  case (Suc k)
  let ?file = "drop (unat (f_pos (b_file b))) (content f (f_handle (b_file b)))"
  show ?case
  proof (cases "maxPos b \<noteq> 0 \<and> length out < len")
    case False
    then have "rest content b f = [] \<or> len = length out" using Suc.prems by (auto simp: rest_def buffer_ok_def)
    with False Suc.prems show ?thesis by (auto intro!: exI)
  next
    case True
    let ?n = "if maxPos b - curPos b < len - length out then maxPos b - curPos b else len - length out"
    have c: "curPos b < maxPos b" "maxPos b \<le> 512" "length (b_buffer b) = 512"
      using Suc.prems(1) True by (auto simp: buffer_ok_def)
    let ?out = "out @ take ?n (drop (curPos b) (b_buffer b))" and ?b = "b\<lparr>curPos := curPos b + ?n\<rparr>"
    have n: "?n \<le> len - length out" "0 < ?n" "curPos b + ?n \<le> maxPos b" using True c by auto
    have lo: "length ?out = length out + ?n" using c n(3) unfolding length_append length_take length_drop by linarith
    let ?buf = "drop (curPos b) (take (maxPos b) (b_buffer b))"
    have tk: "take ?n (drop (curPos b) (b_buffer b)) = take ?n ?buf"
      using n(3) by (simp add: drop_take min_def)
    have rb: "rest content b f = take ?n ?buf @ drop ?n ?buf @ ?file"
      unfolding rest_def append_assoc [symmetric] append_take_drop_id ..
    have "length ?buf = maxPos b - curPos b" using c by simp
    then have ln: "length (take ?n ?buf) = ?n" using n(3) unfolding length_take by linarith
    obtain res1 b1 f1 where step: "buffered_loop (Suc k) e len res out b f = buffered_loop k e len res1 ?out b1 f1"
      "\<not> FS_FAILED e res1" "buffer_ok content b1 f1" "rest content b1 f1 = drop ?n ?buf @ ?file"
    proof (cases "curPos ?b \<ge> maxPos ?b")
      case ge: True
      have "length (b_buffer ?b) = 512" "length (content f (f_handle (b_file ?b))) < 2 ^ 63" "unat (f_pos (b_file ?b)) < 2 ^ 63"
        using Suc.prems(1) by (auto simp: buffer_ok_def)
      from refill_rest [OF s this] obtain r b2 f2 where R: "refill e ?b f = Some (r, b2, f2)" "\<not> FS_FAILED e r"
        "buffer_ok content (b2\<lparr>curPos := 0\<rparr>) f2" "rest content (b2\<lparr>curPos := 0\<rparr>) f2 = ?file" by auto
      have "drop ?n ?buf = []" using ge c by simp
      moreover have "buffered_loop (Suc k) e len res out b f = buffered_loop k e len r ?out (b2\<lparr>curPos := 0\<rparr>) f2"
        using True Suc.prems(2) ge R(1) by (simp add: Let_def del: if_split)
      ultimately show ?thesis using that R by simp
    next
      case lt: False
      have "buffer_ok content ?b f" using Suc.prems(1) lt by (auto simp: buffer_ok_def)
      moreover have "rest content ?b f = drop ?n ?buf @ ?file" by (simp add: rest_def add.commute)
      moreover have "buffered_loop (Suc k) e len res out b f = buffered_loop k e len res ?out ?b f"
        using True Suc.prems(2) lt by (simp add: Let_def del: if_split)
      ultimately show ?thesis using that Suc.prems(2) by blast
    qed
    have "length ?out \<le> len" "len - length ?out \<le> k" using lo n Suc.prems(3,4) by linarith+
    from Suc.IH [OF step(3,2) this] obtain res' b' f' where
      IH: "buffered_loop k e len res1 ?out b1 f1 = Some (res', ?out @ take (len - length ?out) (rest content b1 f1), b', f')"
      "\<not> FS_FAILED e res'" "buffer_ok content b' f'" "rest content b' f' = drop (len - length ?out) (rest content b1 f1)" by blast
    have "rest content b f = take ?n ?buf @ rest content b1 f1" unfolding step(4) by (rule rb)
    moreover have "len - length out = length (take ?n ?buf) + (len - length ?out)" using lo ln n(1) by linarith
    note split = split_at [OF calculation this]
    from IH show ?thesis unfolding split step(1) tk append_assoc by blast
  qed
qed

lemma buffered_read_stream:
  assumes "server_ok e content" and "buffer_ok content b f"
  shows "\<exists>res b' f'. BufferedFile_Read e len b f = Some (res, take len (rest content b f), b', f') \<and>
    \<not> FS_FAILED e res \<and> buffer_ok content b' f' \<and> rest content b' f' = drop len (rest content b f)"
proof -
  have z: "\<not> FS_FAILED e 0" using assms(1) by (simp add: server_ok_def)
  consider "len = 0" | "len \<noteq> 0" "curPos b + len < maxPos b" | "len \<noteq> 0" "\<not> curPos b + len < maxPos b" by blast
  then show ?thesis
  proof cases
    case 1
    with z assms(2) show ?thesis by (simp add: BufferedFile_Read_def)
  next
    case 2
    let ?b = "b\<lparr>curPos := curPos b + len\<rparr>" and ?buf = "drop (curPos b) (take (maxPos b) (b_buffer b))"
    have "buffer_ok content ?b f" using 2 assms(2) by (auto simp: buffer_ok_def)
    moreover have "take len (drop (curPos b) (b_buffer b)) = take len ?buf" using 2 by (simp add: drop_take min_def)
    moreover have "len \<le> length ?buf" using 2 assms(2) by (simp add: buffer_ok_def)
    ultimately show ?thesis using 2 z by (simp add: BufferedFile_Read_def rest_def add.commute)
  next
    case 3
    have "BufferedFile_Read e len b f = buffered_loop len e len 0 [] b f" using 3 by (simp add: BufferedFile_Read_def)
    then show ?thesis using buffered_loop_stream [OF assms z, of "[]" len len] by simp
  qed
qed

lemma buffered_read_byte:
  assumes s: "server_ok e content" and b: "buffer_ok content b f" and r: "rest content b f = c # rst"
  obtains res b' f' where "BufferedFile_Read e 1 b f = Some (res, [c], b', f')" "\<not> FS_FAILED e res"
    "buffer_ok content b' f'" "rest content b' f' = rst"
  using buffered_read_stream [OF s b, of 1] r by auto

section \<open>Lines\<close>

text \<open>What a line becomes: without the carriage return at its end.\<close>

definition chomp :: "bytes \<Rightarrow> bytes" where
  "chomp l = (if l \<noteq> [] \<and> last l = 13 then butlast l else l)"

lemma read_line_text:
  assumes s: "server_ok e content"
  shows "buffer_ok content b f \<Longrightarrow> \<not> FS_FAILED e res \<Longrightarrow> rest content b f = l @ 10 # rst \<Longrightarrow>
    0 \<notin> set l \<Longrightarrow> 10 \<notin> set l \<Longrightarrow> length l < k \<Longrightarrow> idx + k \<le> length line \<Longrightarrow>
    (cr \<longleftrightarrow> idx > 0 \<and> line ! (idx - 1) = 13) \<Longrightarrow>
    \<exists>line' b' f'. read_line k e res line idx cr b f
        = Some (word_of_nat (length (chomp (take idx line @ l))), line', b', f') \<and>
      length line' = length line \<and>
      take (Suc (length (chomp (take idx line @ l)))) line' = chomp (take idx line @ l) @ [0] \<and>
      buffer_ok content b' f' \<and> rest content b' f' = rst"
proof (induction k arbitrary: b f res l idx line cr)
  case (Suc k)
  show ?case
  proof (cases l)
    case Nil
    obtain res1 b1 f1 where rd: "BufferedFile_Read e 1 b f = Some (res1, [10], b1, f1)" "\<not> FS_FAILED e res1"
      "buffer_ok content b1 f1" "rest content b1 f1 = rst"
      using buffered_read_byte [OF s Suc.prems(1), of 10 rst] Suc.prems(3) Nil by auto
    have i: "idx < length line" using Suc.prems(7) by simp
    show ?thesis
    proof (cases cr)
      case True
      then have p: "idx > 0" "line ! (idx - 1) = 13" using Suc.prems(8) by auto
      then obtain j where j: "idx = Suc j" by (cases idx) auto
      have c: "chomp (take idx line @ l) = take j line"
        using p i j Nil by (simp add: chomp_def take_Suc_conv_app_nth)
      show ?thesis unfolding c using Suc.prems(2) rd i j True
        by (auto simp: take_Suc_conv_app_nth min_def)
    next
      case False
      then have c: "chomp (take idx line @ l) = take idx line"
        using Suc.prems(8) i Nil by (cases idx) (auto simp: chomp_def take_Suc_conv_app_nth)
      show ?thesis unfolding c using Suc.prems(2) rd i False
        by (auto simp: take_Suc_conv_app_nth min_def)
    qed
  next
    case (Cons c l')
    obtain res1 b1 f1 where rd: "BufferedFile_Read e 1 b f = Some (res1, [c], b1, f1)" "\<not> FS_FAILED e res1"
      "buffer_ok content b1 f1" "rest content b1 f1 = l' @ 10 # rst"
      using buffered_read_byte [OF s Suc.prems(1), of c "l' @ 10 # rst"] Suc.prems(3) Cons by auto
    have cc: "c \<noteq> 0" "c \<noteq> 10" using Suc.prems(4,5) Cons by auto
    let ?line = "line[idx := c]"
    have i: "idx < length line" using Suc.prems(7) by simp
    have step: "read_line (Suc k) e res line idx cr b f = read_line k e res1 ?line (idx + 1) (c = 13) b1 f1"
      using Suc.prems(2) rd(1,2) cc by (simp add: Let_def)
    have t: "take (idx + 1) ?line @ l' = take idx line @ l"
      using i Cons by (simp add: take_Suc_conv_app_nth)
    have "0 \<notin> set l'" "10 \<notin> set l'" "length l' < k" "idx + 1 + k \<le> length ?line"
      "(c = 13) \<longleftrightarrow> idx + 1 > 0 \<and> ?line ! (idx + 1 - 1) = 13"
      using Suc.prems(4-7) Cons i by auto
    from Suc.IH [OF rd(3,2,4) this] show ?thesis unfolding step t length_list_update .
  qed
qed simp

section \<open>Code lines\<close>

text \<open>A code as the files write it: two groups of eight hexadecimal digits.\<close>

definition hex_digit :: "nat \<Rightarrow> u8" where
  "hex_digit d = (if d < 10 then word_of_nat (0x30 + d) else word_of_nat (0x41 + (d - 10)))"

definition digits :: "u64 \<Rightarrow> bytes" where
  "digits w = map (\<lambda>i. hex_digit (unat (drop_bit (4 * (15 - i)) w) mod 16)) [0..<16]"

definition code_text :: "u64 \<Rightarrow> bytes" where
  "code_text w = take 8 (digits w) @ [0x20] @ drop 8 (digits w)"

lemma hex_digit_cases:
  assumes "d < 16"
  shows "is_hex (hex_digit d) \<and> hex_value (hex_digit d) = word_of_nat d \<and> hex_digit d \<noteq> 0"
proof -
  have "\<forall>d \<in> set [0..<16]. is_hex (hex_digit d) \<and> hex_value (hex_digit d) = word_of_nat d \<and> hex_digit d \<noteq> 0"
    by (simp add: upt_rec hex_digit_def is_hex_def hex_value_def)
  with assms show ?thesis by simp
qed

text \<open>One more digit: the value of the first digits of the number, a nibble further.\<close>

lemma add_digit_step:
  fixes w :: u64
  assumes "i < 16"
  shows "add_digit (drop_bit (4 * (16 - i)) w) (hex_digit (unat (drop_bit (4 * (15 - i)) w) mod 16))
    = drop_bit (4 * (15 - i)) w"
proof -
  let ?v = "drop_bit (4 * (15 - i)) w"
  have v: "drop_bit (4 * (16 - i)) w = drop_bit 4 ?v" using assms by (simp add: drop_bit_drop_bit algebra_simps)
  have "hex_value (hex_digit (unat ?v mod 16)) = word_of_nat (unat ?v mod 16)" using hex_digit_cases by simp
  moreover have "(word_of_nat (unat ?v mod 16) :: u8) AND 0xF = take_bit 4 (word_of_nat (unat ?v mod 16))"
    by (simp add: take_bit_eq_mask mask_eq_decr_exp)
  moreover have "ucast (take_bit 4 (word_of_nat (unat ?v mod 16) :: u8)) = take_bit 4 ?v"
  proof -
    have "unat ?v mod 16 = take_bit 4 (unat ?v)" by (simp add: take_bit_eq_mod)
    then show ?thesis by (simp add: word_unat_eq_iff unsigned_ucast_eq unsigned_take_bit_eq unsigned_of_nat min_def)
  qed
  ultimately have "add_digit (drop_bit 4 ?v) (hex_digit (unat ?v mod 16)) = push_bit 4 (drop_bit 4 ?v) OR take_bit 4 ?v"
    by (simp add: add_digit_def)
  also have "\<dots> = ?v" by (rule bit_eqI) (auto simp: bit_simps)
  finally show ?thesis unfolding v .
qed

lemma digits_foldl:
  "n \<le> 16 \<Longrightarrow> foldl add_digit 0 (take n (digits w)) = drop_bit (4 * (16 - n)) w"
proof (induction n)
  case 0
  have "drop_bit 64 w = 0" by (rule bit_eqI) (auto simp: bit_simps dest: bit_imp_le_length)
  then show ?case by simp
next
  case (Suc n)
  have "take (Suc n) (digits w) = take n (digits w) @ [hex_digit (unat (drop_bit (4 * (15 - n)) w) mod 16)]"
    using Suc.prems by (simp add: take_Suc_conv_app_nth digits_def)
  with Suc add_digit_step [of n w] show ?case by simp
qed

lemma length_digits [simp]: "length (digits w) = 16"
  by (simp add: digits_def)

lemma digit_ok: "i < 16 \<Longrightarrow> is_hex (digits w ! i) \<and> digits w ! i \<noteq> 0"
  using hex_digit_cases by (simp add: digits_def)

lemma code_text_nth:
  "i < 8 \<Longrightarrow> (code_text w @ r) ! i = digits w ! i"
  "(code_text w @ r) ! 8 = 0x20"
  "i < 8 \<Longrightarrow> (code_text w @ r) ! (9 + i) = digits w ! (8 + i)"
  by (simp_all add: code_text_def nth_append)

lemma length_code_text [simp]: "length (code_text w) = 17"
  by (simp add: code_text_def)

lemma code_text_nz: "0 \<notin> set (code_text w)"
proof
  assume "0 \<in> set (code_text w)"
  then have "0 \<in> set (digits w)" by (auto simp: code_text_def dest: in_set_takeD in_set_dropD)
  then show False using digit_ok [of _ w] by (auto simp: in_set_conv_nth)
qed

lemma code_text_is_code_line: "Cheat_IsCodeLine (code_text w @ 0 # r)"
proof -
  have "\<forall>i \<in> set [0..<8]. is_hex ((code_text w @ 0 # r) ! i)" by (simp add: code_text_nth digit_ok del: upt_conv_Cons)
  moreover have "\<forall>i \<in> set [9..<17]. is_hex ((code_text w @ 0 # r) ! i)"
  proof
    fix i assume "i \<in> set [9..<17]"
    then have "9 \<le> i" "i < 17" by auto
    then obtain j where "i = 9 + j" "j < 8" by (metis add_less_cancel_left le_Suc_ex numeral_plus_numeral semiring_norm(2,3,4,5,6,7,8,9,10))
    then show "is_hex ((code_text w @ 0 # r) ! i)" using digit_ok [of "8 + j" w] by (simp only: code_text_nth(3))
  qed
  moreover have "takeWhile (\<lambda>c. c \<noteq> 0) (take 1023 (code_text w @ 0 # r)) = code_text w"
  proof -
    have "take 1023 (code_text w @ 0 # r) = code_text w @ 0 # take 1005 r" by simp
    moreover have "\<And>c. c \<in> set (code_text w) \<Longrightarrow> c \<noteq> 0" using code_text_nz by metis
    ultimately show ?thesis by (simp only: takeWhile_append2) simp
  qed
  ultimately show ?thesis unfolding Cheat_IsCodeLine_def strnlen_def by (simp add: code_text_nth(2) del: upt_conv_Cons)
qed

lemma code_text_get_code: "Cheat_GetCode (code_text w @ r) = w"
proof -
  have a: "map ((!) (code_text w @ r)) [0..<8] = take 8 (digits w)"
    by (rule nth_equalityI) (simp_all add: code_text_nth(1) del: upt_conv_Cons upt_rec_numeral)
  have b: "map ((!) (code_text w @ r)) [9..<17] = drop 8 (digits w)"
    by (rule nth_equalityI) (simp_all add: code_text_nth(3) del: upt_conv_Cons upt_rec_numeral)
  have "Cheat_GetCode (code_text w @ r) = foldl add_digit 0 (take 8 (digits w) @ drop 8 (digits w))"
    unfolding foldl_append a [symmetric] b [symmetric] foldl_map by (simp add: Cheat_GetCode_def del: upt_conv_Cons)
  also have "\<dots> = w" using digits_foldl [of 16 w] by simp
  finally show ?thesis .
qed

section \<open>The loader\<close>

text \<open>The bytes the loaded cheats take, and the invariant between two lines: only the last cheat may
  be empty.\<close>

definition used :: "loader \<Rightarrow> nat" where
  "used l = sum_list (map (\<lambda>(d, ws). 56 + 8 * length ws) (loaded l))"

definition cheat_ok :: "cheat_desc \<times> u64 list \<Rightarrow> bool" where
  "cheat_ok c \<longleftrightarrow> snd c \<noteq> [] \<and> codesCount (fst c) = word_of_nat (length (snd c)) \<and> length (c_name (fst c)) = 39"

definition loader_ok :: "loader \<Rightarrow> bool" where
  "loader_ok l \<longleftrightarrow> used l \<le> cheatSize l \<and> cheatSize l < 32768 \<and> length (loaded l) < 256 \<and>
     (\<forall>c \<in> set (butlast (loaded l)). cheat_ok c) \<and>
     (loaded l \<noteq> [] \<longrightarrow> codesCount (fst (last (loaded l))) = word_of_nat (length (snd (last (loaded l)))) \<and>
        length (c_name (fst (last (loaded l)))) = 39)"

text \<open>A non-empty list of cheats by its last.\<close>

lemma loader_ok_snoc:
  "loaded l = xs @ [(d, ws)] \<Longrightarrow> loader_ok l \<longleftrightarrow>
     sum_list (map (\<lambda>(d, ws). 56 + 8 * length ws) xs) + 56 + 8 * length ws \<le> cheatSize l \<and> cheatSize l < 32768 \<and>
     length xs < 255 \<and> (\<forall>c \<in> set xs. cheat_ok c) \<and> codesCount d = word_of_nat (length ws) \<and> length (c_name d) = 39"
  by (auto simp: loader_ok_def used_def)

lemma loader_ok_all:
  "loader_ok l \<Longrightarrow> loaded l = [] \<or> snd (last (loaded l)) \<noteq> [] \<Longrightarrow> \<forall>c \<in> set (loaded l). cheat_ok c"
  by (cases "loaded l" rule: rev_cases) (auto simp: loader_ok_snoc cheat_ok_def loader_ok_def)

lemma upd_last_snoc [simp]: "upd_last g (xs @ [x]) = xs @ [g x]"
  by (simp add: upd_last_def)

text \<open>The four updates of the loader.\<close>

lemma drop_cheat_ok: "loader_ok l \<Longrightarrow> loader_ok (l\<lparr>loaded := butlast (loaded l)\<rparr>)"
proof (cases "loaded l" rule: rev_cases)
  case (snoc xs x)
  assume ok: "loader_ok l"
  obtain d ws where x: "x = (d, ws)" by fastforce
  note L = snoc [unfolded x]
  show ?thesis
  proof (cases xs rule: rev_cases)
    case Nil
    then show ?thesis using ok L by (simp add: loader_ok_def used_def)
  next
    case (snoc ys y)
    then have "loaded (l\<lparr>loaded := butlast (loaded l)\<rparr>) = ys @ [(fst y, snd y)]" unfolding L butlast_snoc by simp
    from loader_ok_snoc [OF this] show ?thesis using ok snoc by (cases y) (auto simp: loader_ok_snoc [OF L] cheat_ok_def)
  qed
qed (simp add: loader_ok_def used_def)

lemma add_code_ok:
  assumes ok: "loader_ok l" and ne: "loaded l \<noteq> []" and room: "cheatSize l + 8 < 32768"
  shows "loader_ok (l\<lparr>loaded := upd_last (mark_key c \<circ> Cheat_AddCode c) (loaded l), cheatSize := cheatSize l + 8\<rparr>)"
    (is "loader_ok ?l")
proof -
  obtain xs d ws where L: "loaded l = xs @ [(d, ws)]" using ne by (metis append_butlast_last_id surj_pair)
  have "loaded ?l = xs @ [(fst (mark_key c (Cheat_AddCode c (d, ws))), ws @ [c])]"
    by (simp add: L mark_key_def Cheat_AddCode_def)
  from loader_ok_snoc [OF this] show ?thesis using ok room
    by (auto simp: loader_ok_snoc [OF L] mark_key_def Cheat_AddCode_def)
qed

lemma new_cheat_ok:
  assumes ok: "loader_ok l" and ne: "loaded l = [] \<or> snd (last (loaded l)) \<noteq> []" and room: "cheatSize l + 56 < 32768"
    and n: "length (loaded l) < 255"
  shows "loader_ok (l\<lparr>loaded := upd_last (set_name line) (loaded l @ [Cheat_AllocCheat]), cheatSize := cheatSize l + 56\<rparr>)"
    (is "loader_ok ?l")
proof -
  have "loaded ?l = loaded l @ [(fst (set_name line Cheat_AllocCheat), [])]"
    by (simp add: set_name_def Cheat_AllocCheat_def)
  from loader_ok_snoc [OF this] show ?thesis using ok room n loader_ok_all [OF ok ne]
    by (auto simp: loader_ok_def used_def set_name_def Cheat_AllocCheat_def)
qed

lemma name_cheat_ok:
  assumes ok: "loader_ok l" and ne: "loaded l \<noteq> []"
  shows "loader_ok (l\<lparr>loaded := upd_last (set_name line) (loaded l)\<rparr>)" (is "loader_ok ?l")
proof -
  obtain xs d ws where L: "loaded l = xs @ [(d, ws)]" using ne by (metis append_butlast_last_id surj_pair)
  have "loaded ?l = xs @ [(fst (set_name line (d, ws)), ws)]" by (simp add: L set_name_def)
  from loader_ok_snoc [OF this] show ?thesis using ok by (auto simp: loader_ok_snoc [OF L] set_name_def)
qed

lemma load_line_ok:
  assumes ok: "loader_ok l" and st: "load_line line l = (l1, stop)" and n: "length (loaded l1) < 256"
  shows "loader_ok l1"
proof -
  have "length (loaded (l\<lparr>loaded := upd_last g (loaded l @ [x]), cheatSize := k\<rparr>)) = Suc (length (loaded l))" for g x k
    by simp
  with st n show ?thesis using ok drop_cheat_ok [OF ok] add_code_ok [OF ok] new_cheat_ok [OF ok] name_cheat_ok [OF ok]
    unfolding load_line_def Let_def
    by (simp split: prod.splits if_splits) (auto simp: not_le)
qed

lemma load_loop_ok:
  "loader_ok l \<Longrightarrow> load_loop k e line l b f = Some (l', b', f') \<Longrightarrow> loader_ok l'"
proof (induction k arbitrary: line l b f)
  case (Suc k)
  obtain res line1 b1 f1 where rl: "Cheat_ReadLine e 1024 line b f = Some (res, line1, b1, f1)"
    using Suc.prems(2) by (auto split: Option.bind_splits)
  obtain l1 stop where ll: "load_line line1 l = (l1, stop)" by fastforce
  show ?case
  proof (cases "\<not> FS_FAILED e res \<or> res = -1")
    case False
    then show ?thesis using Suc.prems rl by simp
  next
    case True
    then have n: "0 \<in> set line1" "length (loaded l1) < 256"
      using Suc.prems(2) rl ll by (auto simp: Let_def split: if_splits)
    have ok: "loader_ok l1" by (rule load_line_ok [OF Suc.prems(1) ll n(2)])
    then show ?thesis using Suc.prems(2) rl ll True n Suc.IH [OF ok]
      by (auto simp: Let_def split: if_splits)
  qed
qed simp

lemma drop_last_empty_ok:
  assumes "loader_ok l"
  shows "used (drop_last_empty l) < 32768 \<and> length (loaded (drop_last_empty l)) < 256 \<and>
    (\<forall>c \<in> set (loaded (drop_last_empty l)). cheat_ok c)"
proof (cases "loaded l" rule: rev_cases)
  case Nil
  then show ?thesis using assms by (simp add: drop_last_empty_def loader_ok_def)
next
  case (snoc xs x)
  then show ?thesis using assms by (cases x) (auto simp: drop_last_empty_def loader_ok_snoc used_def cheat_ok_def)
qed

text \<open>The loader gives no cheats or what the loop gives, without a last empty cheat.\<close>

lemma Cheat_Load_cases:
  assumes "Cheat_LoadCheatsIntoMemory fuel e sdmc path1 path2 flags b f = Some (l, f')"
  shows "l = \<lparr>loaded = [], cheatSize = 0\<rparr> \<or>
    (\<exists>line b1 f1 l1 b2 f2. load_loop fuel e line \<lparr>loaded = [], cheatSize = 0\<rparr> b1 f1 = Some (l1, b2, f2) \<and> l = drop_last_empty l1)"
proof -
  obtain res1 b1 f1 where o1: "BufferedFile_Open e sdmc [] path1 flags b f = Some (res1, b1, f1)"
    using assms unfolding Cheat_LoadCheatsIntoMemory_def Let_def by (auto split: Option.bind_splits)
  obtain res b2 f2 where o2: "(if FS_FAILED e res1 then BufferedFile_Open e sdmc [] path2 flags b1 f1 else Some (res1, b1, f1)) = Some (res, b2, f2)"
    using assms unfolding Cheat_LoadCheatsIntoMemory_def Let_def o1 Option.bind.bind_lunit prod.case
    by (auto split: Option.bind_splits)
  note A = assms [unfolded Cheat_LoadCheatsIntoMemory_def Let_def o1 Option.bind.bind_lunit prod.case o2]
  show ?thesis
  proof (cases "FS_FAILED e res")
    case True
    with A show ?thesis by simp
  next
    case False
    with A obtain l1 b3 f3 where L: "load_loop fuel e (replicate 1024 0) \<lparr>loaded = [], cheatSize = 0\<rparr> b2 f2 = Some (l1, b3, f3)"
      by (auto split: Option.bind_splits)
    with A False have "l = drop_last_empty l1" by (auto split: prod.splits)
    with L show ?thesis by blast
  qed
qed

end
