(* ===== verification/Cheat_File_Round.thy ===== *)
theory Cheat_File_Round
  imports Cheat_File_Proofs
begin

text \<open>
  A cheat file written from a list of cheats loads back to those cheats: the lines of the file
  one by one through the reader, the recognition of code lines and the loader.
\<close>

section \<open>One line through the loader\<close>

definition visible :: "bytes \<Rightarrow> bool" where
  "visible t \<longleftrightarrow> t \<noteq> [] \<and> 0 \<notin> set t \<and> 10 \<notin> set t \<and> \<not> is_blank (hd t) \<and> \<not> is_blank (last t) \<and> last t \<noteq> 13 \<and> length t < 1023"

lemma takeWhile_nz: "0 \<notin> set t \<Longrightarrow> takeWhile (\<lambda>c. c \<noteq> 0) (t @ 0 # r) = t"
  by (induction t) auto

lemma visible_strip:
  assumes "visible t"
  shows "stripWhitespace (t @ 0 # r) = (t @ 0 # r, 0)"
proof -
  have s: "takeWhile is_blank (t @ 0 # r) = []" using assms by (cases t) (auto simp: visible_def)
  have n: "takeWhile is_blank (rev t) = []" using assms by (cases t rule: rev_cases) (auto simp: visible_def)
  have "max 1 (length t) = length t" using assms by (cases t) (auto simp: visible_def)
  moreover have "takeWhile (\<lambda>c. c \<noteq> 0) (t @ 0 # r) = t" using assms by (intro takeWhile_nz) (simp add: visible_def)
  ultimately show ?thesis using assms by (simp add: stripWhitespace_def s n visible_def)
qed

lemma visible_strnlen: "visible t \<Longrightarrow> strnlen (t @ 0 # r) 1023 = length t"
proof -
  assume v: "visible t"
  then have "take 1023 (t @ 0 # r) = t @ 0 # take (1022 - length t) r"
    by (simp add: visible_def take_Cons' )
  with v show ?thesis by (simp add: strnlen_def takeWhile_nz visible_def)
qed

text \<open>A name: visible, not a comment, not a code.\<close>

definition name_ok :: "bytes \<Rightarrow> bool" where
  "name_ok t \<longleftrightarrow> visible t \<and> hd t \<noteq> 0x23 \<and> \<not> Cheat_IsCodeLine (t @ [0])"

lemma code_line_prefix:
  assumes "visible t"
  shows "Cheat_IsCodeLine (t @ 0 # r) \<longleftrightarrow> Cheat_IsCodeLine (t @ [0])"
proof (cases "length t = 17")
  case True
  then have "(t @ 0 # r) ! i = (t @ [0]) ! i" if "i < 17" for i using that by (simp add: nth_append)
  then show ?thesis unfolding Cheat_IsCodeLine_def visible_strnlen [OF assms] by (auto simp del: upt_rec_numeral)
next
  case False
  then show ?thesis unfolding Cheat_IsCodeLine_def visible_strnlen [OF assms] by simp
qed

definition named :: "bytes \<Rightarrow> cheat_desc \<times> u64 list" where
  "named t = set_name t Cheat_AllocCheat"

lemma load_name_line:
  assumes "name_ok t" and "loaded l = [] \<or> snd (last (loaded l)) \<noteq> []" and "cheatSize l + 56 < 32768"
  shows "load_line (t @ 0 # r) l = (l\<lparr>loaded := loaded l @ [named t], cheatSize := cheatSize l + 56\<rparr>, False)"
proof -
  have v: "visible t" and h: "(t @ 0 # r) ! 0 \<noteq> 0x23" and c: "\<not> Cheat_IsCodeLine (t @ 0 # r)"
    using assms(1) code_line_prefix [of t r] by (auto simp: name_ok_def visible_def hd_conv_nth nth_append)
  have "set_name (t @ 0 # r) = set_name t"
  proof -
    have nz: "0 \<notin> set t" using v by (simp add: visible_def)
    then have "takeWhile (\<lambda>c. c \<noteq> 0) t = t" unfolding takeWhile_eq_all_conv by metis
    with takeWhile_nz [OF nz, of r] have "strncpy_n (t @ 0 # r) 38 = strncpy_n t 38" by (simp only: strncpy_n_def)
    then show ?thesis by (simp only: set_name_def)
  qed
  then show ?thesis using assms(2,3) v h c
    by (auto simp: load_line_def visible_strip [OF v] visible_strnlen [OF v] named_def visible_def)
qed

lemma code_text_visible: "visible (code_text w)"
proof -
  have hex: "is_hex c \<Longrightarrow> \<not> is_blank c \<and> c \<noteq> 0 \<and> c \<noteq> 10 \<and> c \<noteq> 13 \<and> c \<noteq> 0x23" for c
    by (auto simp: is_hex_def is_blank_def)
  have s: "\<forall>c \<in> set (digits w). is_hex c" using digit_ok by (auto simp: in_set_conv_nth)
  have ne: "code_text w \<noteq> []" by (simp add: code_text_def)
  then have "hd (code_text w) = digits w ! 0" "last (code_text w) = digits w ! 15"
    using code_text_nth(1) [of 0 w "[]"] code_text_nth(3) [of 7 w "[]"] ne
    by (simp_all add: last_conv_nth hd_conv_nth)
  moreover have "set (code_text w) \<subseteq> insert 0x20 (set (digits w))"
    by (auto simp: code_text_def dest: in_set_takeD in_set_dropD)
  moreover have "\<forall>c \<in> insert 0x20 (set (digits w)). c \<noteq> 0 \<and> c \<noteq> 10" using s hex by auto
  ultimately show ?thesis using ne hex [of "digits w ! 0"] hex [of "digits w ! 15"] digit_ok [of 0 w] digit_ok [of 15 w]
    unfolding visible_def by auto
qed

lemma load_code_line:
  assumes "loaded l \<noteq> []" and "cheatSize l + 8 < 32768"
  shows "load_line (code_text w @ 0 # r) l =
    (l\<lparr>loaded := upd_last (mark_key w \<circ> Cheat_AddCode w) (loaded l), cheatSize := cheatSize l + 8\<rparr>, False)"
proof -
  note v = code_text_visible [of w]
  have "is_hex (digits w ! 0)" using digit_ok by simp
  then have "(code_text w @ 0 # r) ! 0 \<noteq> 0x23" by (simp add: code_text_nth(1) is_hex_def) auto
  then show ?thesis using assms code_text_is_code_line [of w r] code_text_get_code [of w "0 # r"]
    by (simp add: load_line_def visible_strip [OF v] visible_strnlen [OF v])
qed

section \<open>The reader on the lines of the file\<close>

text \<open>A line that fits is read as its text, terminated, in a buffer of the same length.\<close>

lemma ReadLine_line:
  assumes s: "server_ok e content" and b: "buffer_ok content b f" and r: "rest content b f = t @ 10 # rst"
    and v: "visible t" and n: "length line = 1024"
  obtains line' r' b' f' where "Cheat_ReadLine e 1024 line b f = Some (word_of_nat (length t), line', b', f')"
    "line' = t @ 0 # r'" "length line' = 1024" "buffer_ok content b' f'" "rest content b' f' = rst"
proof -
  have z: "\<not> FS_FAILED e 0" using s by (simp add: server_ok_def)
  have c: "chomp t = t" using v by (simp add: chomp_def visible_def)
  have "0 \<notin> set t" "10 \<notin> set t" "length t < 1024" "0 + 1024 \<le> length line" "False \<longleftrightarrow> 0 > (0 :: nat) \<and> line ! (0 - 1) = 13"
    using v n by (auto simp: visible_def)
  from read_line_text [OF s b z r this] obtain line' b' f' where
    R: "Cheat_ReadLine e 1024 line b f = Some (word_of_nat (length t), line', b', f')" "length line' = 1024"
      "take (Suc (length t)) line' = t @ [0]" "buffer_ok content b' f'" "rest content b' f' = rst"
    unfolding Cheat_ReadLine_def using n c by auto
  have "line' = t @ 0 # drop (Suc (length t)) line'"
    using append_take_drop_id [of "Suc (length t)" line'] unfolding R(3) by simp
  with R that show thesis by blast
qed

text \<open>At the end of the stream the special value -1 and an empty line.\<close>

lemma ReadLine_end:
  assumes s: "server_ok e content" and b: "buffer_ok content b f" and r: "rest content b f = []"
  obtains b' f' where "Cheat_ReadLine e 1024 line b f = Some (-1, line[0 := 0], b', f')"
proof -
  have z: "\<not> FS_FAILED e 0" using s by (simp add: server_ok_def)
  obtain res b' f' where "BufferedFile_Read e 1 b f = Some (res, [], b', f')"
    using buffered_read_stream [OF s b, of 1] r by auto
  then have "read_line (Suc 1023) e 0 line 0 False b f = Some (-1, line[0 := 0], b', f')" using z
    by (simp only: read_line.simps if_False Option.bind.bind_lunit prod.case if_True simp_thms)
  then have "Cheat_ReadLine e 1024 line b f = Some (-1, line[0 := 0], b', f')" by (simp add: Cheat_ReadLine_def)
  then show thesis by (rule that)
qed

text \<open>The macro \<open>R_FAILED\<close>: a negative result.\<close>

definition failed_negative :: "'f fs_env \<Rightarrow> bool" where
  "failed_negative e \<longleftrightarrow> (\<forall>r. FS_FAILED e r \<longleftrightarrow> sint r < 0)"

lemma length_not_failed: "failed_negative e \<Longrightarrow> n < 1024 \<Longrightarrow> \<not> FS_FAILED e (word_of_nat n)"
  by (simp add: failed_negative_def signed_of_nat signed_take_bit_int_eq_self)

lemma load_loop_end:
  assumes "server_ok e content" and "buffer_ok content b f" and "rest content b f = []" and "failed_negative e"
    and "length line = 1024" and "length (loaded l) < 256"
  shows "\<exists>b' f'. load_loop (Suc k) e line l b f = Some (l, b', f')"
proof -
  obtain b' f' where R: "Cheat_ReadLine e 1024 line b f = Some (-1, line[0 := 0], b', f')"
    using ReadLine_end [OF assms(1-3)] by blast
  obtain a r where l: "line = a # r" using assms(5) by (cases line) auto
  have "load_line (line[0 := 0]) l = (l, False)"
    by (simp add: l load_line_def stripWhitespace_def is_blank_def strnlen_def)
  moreover have "FS_FAILED e (-1)" using assms(4) by (simp add: failed_negative_def)
  ultimately show ?thesis using R assms(6) l by (simp add: Let_def)
qed

lemma load_loop_line:
  assumes "server_ok e content" and "buffer_ok content b f" and "rest content b f = t @ 10 # rst" and "failed_negative e"
    and v: "visible t" and "length line = 1024"
    and L: "\<And>r. load_line (t @ 0 # r) l = (l1, False)" and n: "length (loaded l1) < 256" and c: "cheatSize l1 < 32768"
  obtains line' b' f' where "load_loop (Suc k) e line l b f = load_loop k e line' l1 b' f'" "length line' = 1024"
    "buffer_ok content b' f'" "rest content b' f' = rst"
proof -
  have "\<not> FS_FAILED e (word_of_nat (length t))" using length_not_failed [OF assms(4)] v by (simp add: visible_def)
  then obtain res where res: "res = word_of_nat (length t)" and nf: "\<not> FS_FAILED e res" by blast
  obtain line' r' b' f' where R: "Cheat_ReadLine e 1024 line b f = Some (res, line', b', f')"
    "line' = t @ 0 # r'" "length line' = 1024" "buffer_ok content b' f'" "rest content b' f' = rst"
    unfolding res by (rule ReadLine_line [OF assms(1-3,5,6)])
  have z: "0 \<in> set line'" using R(2) by simp
  have "load_line line' l = (l1, False)" "fst (stripWhitespace line') = line'"
    unfolding R(2) using L visible_strip [OF v] by simp_all
  then have "load_loop (Suc k) e line l b f = load_loop k e line' l1 b' f'"
    using R(1) z n c nf by (simp add: Let_def)
  with R(3-5) that show thesis by blast
qed

section \<open>The whole file\<close>

text \<open>The cheats to write, each a name and its codes, and the file: a line for each.\<close>

type_synonym cheat_text = "bytes \<times> u64 list"

definition codes_text :: "u64 list \<Rightarrow> bytes" where
  "codes_text ws = concat (map (\<lambda>w. code_text w @ [10]) ws)"

definition file_text :: "cheat_text list \<Rightarrow> bytes" where
  "file_text xs = concat (map (\<lambda>(t, ws). t @ [10] @ codes_text ws) xs)"

definition text_ok :: "cheat_text list \<Rightarrow> bool" where
  "text_ok xs \<longleftrightarrow> (\<forall>(t, ws) \<in> set xs. name_ok t \<and> ws \<noteq> [])"

definition text_size :: "cheat_text list \<Rightarrow> nat" where
  "text_size xs = sum_list (map (\<lambda>(t, ws). 56 + 8 * length ws) xs)"

definition text_lines :: "cheat_text list \<Rightarrow> nat" where
  "text_lines xs = sum_list (map (\<lambda>(t, ws). 1 + length ws) xs)"

text \<open>The cheats they should become.\<close>

definition with_codes :: "u64 list \<Rightarrow> cheat_desc \<times> u64 list \<Rightarrow> cheat_desc \<times> u64 list" where
  "with_codes ws c = fold (\<lambda>w. mark_key w \<circ> Cheat_AddCode w) ws c"

definition cheat_of :: "cheat_text \<Rightarrow> cheat_desc \<times> u64 list" where
  "cheat_of x = with_codes (snd x) (named (fst x))"

lemma with_codes_snd: "snd (with_codes ws c) = snd c @ ws"
  unfolding with_codes_def
  by (induction ws arbitrary: c) (simp_all add: mark_key_def Cheat_AddCode_def case_prod_beta)

lemma load_loop_codes:
  assumes "server_ok e content" and "failed_negative e"
  shows "buffer_ok content b f \<Longrightarrow> rest content b f = codes_text ws @ rst \<Longrightarrow> length line = 1024 \<Longrightarrow>
    loaded l = xs @ [c] \<Longrightarrow> length xs < 255 \<Longrightarrow> cheatSize l + 8 * length ws < 32768 \<Longrightarrow>
    \<exists>line' b' f'. load_loop (length ws + k) e line l b f =
        load_loop k e line' (l\<lparr>loaded := xs @ [with_codes ws c], cheatSize := cheatSize l + 8 * length ws\<rparr>) b' f' \<and>
      length line' = 1024 \<and> buffer_ok content b' f' \<and> rest content b' f' = rst"
proof (induction ws arbitrary: b f line l c)
  case Nil
  then have "l\<lparr>loaded := xs @ [with_codes [] c], cheatSize := cheatSize l + 8 * length ([] :: u64 list)\<rparr> = l"
    by (simp add: with_codes_def)
  with Nil show ?case by (auto simp: codes_text_def)
next
  case (Cons w ws)
  let ?l = "l\<lparr>loaded := xs @ [(mark_key w \<circ> Cheat_AddCode w) c], cheatSize := cheatSize l + 8\<rparr>"
  have r: "rest content b f = code_text w @ 10 # (codes_text ws @ rst)" using Cons.prems(2) by (simp add: codes_text_def)
  have L: "load_line (code_text w @ 0 # r) l = (?l, False)" for r
    using load_code_line [of l w r] Cons.prems(4,6) by simp
  have n: "length (loaded ?l) < 256" "cheatSize ?l < 32768" using Cons.prems(5,6) by simp_all
  obtain line1 b1 f1 where S: "load_loop (Suc (length ws + k)) e line l b f = load_loop (length ws + k) e line1 ?l b1 f1"
    "length line1 = 1024" "buffer_ok content b1 f1" "rest content b1 f1 = codes_text ws @ rst"
    by (rule load_loop_line [OF assms(1) Cons.prems(1) r assms(2) code_text_visible Cons.prems(3) L n, of "length ws + k"])
  have p: "loaded ?l = xs @ [(mark_key w \<circ> Cheat_AddCode w) c]" "cheatSize ?l + 8 * length ws < 32768"
    using Cons.prems(6) by simp_all
  have w: "with_codes ws ((mark_key w \<circ> Cheat_AddCode w) c) = with_codes (w # ws) c" by (simp add: with_codes_def)
  have z: "cheatSize ?l + 8 * length ws = cheatSize l + 8 * length (w # ws)" by simp
  from Cons.IH [OF S(3,4,2) p(1) Cons.prems(5) p(2)] show ?case
    unfolding w z by (simp del: load_loop.simps add: S(1))
qed

lemma load_loop_file:
  assumes "server_ok e content" and "failed_negative e"
  shows "buffer_ok content b f \<Longrightarrow> rest content b f = file_text xs \<Longrightarrow> length line = 1024 \<Longrightarrow> text_ok xs \<Longrightarrow>
    loaded l = [] \<or> snd (last (loaded l)) \<noteq> [] \<Longrightarrow> length (loaded l) + length xs < 256 \<Longrightarrow>
    cheatSize l + text_size xs < 32768 \<Longrightarrow>
    \<exists>b' f' n. load_loop (text_lines xs + 1 + k) e line l b f =
      Some (l\<lparr>loaded := loaded l @ map cheat_of xs, cheatSize := cheatSize l + text_size xs\<rparr>, b', f')"
proof (induction xs arbitrary: b f line l)
  case Nil
  then have "rest content b f = []" "length (loaded l) < 256" by (simp_all add: file_text_def)
  with load_loop_end [OF assms(1) Nil.prems(1) _ assms(2) Nil.prems(3)] show ?case
    by (simp add: text_lines_def text_size_def)
next
  case (Cons x xs)
  obtain t ws where x: "x = (t, ws)" by fastforce
  let ?l = "l\<lparr>loaded := loaded l @ [named t], cheatSize := cheatSize l + 56\<rparr>"
  let ?l2 = "?l\<lparr>loaded := loaded l @ [with_codes ws (named t)], cheatSize := cheatSize ?l + 8 * length ws\<rparr>"
  have t: "name_ok t" "ws \<noteq> []" "visible t" and ok: "text_ok xs" using Cons.prems(4) by (auto simp: x text_ok_def name_ok_def)
  have r: "rest content b f = t @ 10 # (codes_text ws @ file_text xs)" using Cons.prems(2) by (simp add: file_text_def x)
  have sz: "cheatSize l + 56 + 8 * length ws + text_size xs < 32768" using Cons.prems(7) by (simp add: text_size_def x)
  then have sz': "cheatSize l + 56 < 32768" by simp
  note L = load_name_line [OF t(1) Cons.prems(5) sz']
  have n: "length (loaded ?l) < 256" "cheatSize ?l < 32768" using Cons.prems(6) sz by simp_all
  let ?k = "text_lines xs + 1 + k"
  obtain line1 b1 f1 where S: "load_loop (Suc (length ws + ?k)) e line l b f = load_loop (length ws + ?k) e line1 ?l b1 f1"
    "length line1 = 1024" "buffer_ok content b1 f1" "rest content b1 f1 = codes_text ws @ file_text xs"
    by (rule load_loop_line [OF assms(1) Cons.prems(1) r assms(2) t(3) Cons.prems(3) L n, of "length ws + ?k"])
  have p: "loaded ?l = loaded l @ [named t]" "length (loaded l) < 255" "cheatSize ?l + 8 * length ws < 32768"
    using Cons.prems(6) sz by simp_all
  obtain line2 b2 f2 where T: "load_loop (length ws + ?k) e line1 ?l b1 f1 = load_loop ?k e line2 ?l2 b2 f2"
    "length line2 = 1024" "buffer_ok content b2 f2" "rest content b2 f2 = file_text xs"
    using load_loop_codes [OF assms S(3,4,2) p, of ?k] by blast
  have q: "loaded ?l2 = [] \<or> snd (last (loaded ?l2)) \<noteq> []" "length (loaded ?l2) + length xs < 256"
    "cheatSize ?l2 + text_size xs < 32768"
    using t(2) Cons.prems(6) sz by (simp_all add: with_codes_snd)
  have e: "?l2\<lparr>loaded := loaded ?l2 @ map cheat_of xs, cheatSize := cheatSize ?l2 + text_size xs\<rparr>
      = l\<lparr>loaded := loaded l @ map cheat_of (x # xs), cheatSize := cheatSize l + text_size (x # xs)\<rparr>"
    by (simp add: x text_size_def cheat_of_def)
  have "text_lines (x # xs) + 1 + k = Suc (length ws + ?k)" by (simp add: text_lines_def x)
  with Cons.IH [OF T(3,4,2) ok q] show ?case unfolding e S(1) [symmetric] T(1) [symmetric] by metis
qed

lemma with_codes_fst:
  "c_name (fst (with_codes ws c)) = c_name (fst c) \<and>
   (hasKeyCode (fst (with_codes ws c)) \<longleftrightarrow> hasKeyCode (fst c) \<or> (\<exists>w \<in> set ws. drop_bit 32 w = 0xDD000000))"
  unfolding with_codes_def
proof (induction ws arbitrary: c)
  case (Cons w ws)
  show ?case unfolding fold_Cons comp_apply
    using Cons [of "mark_key w (Cheat_AddCode w c)"] by (auto simp: mark_key_def Cheat_AddCode_def split: prod.splits)
qed simp

text \<open>A loaded cheat has the codes and the name written, and is marked when a code is a key condition.\<close>

definition same_cheat :: "cheat_text \<Rightarrow> cheat_desc \<times> u64 list \<Rightarrow> bool" where
  "same_cheat x c \<longleftrightarrow> snd c = snd x \<and> c_name (fst c) = strncpy_n (fst x) 38 @ [0] \<and>
     (hasKeyCode (fst c) \<longleftrightarrow> (\<exists>w \<in> set (snd x). drop_bit 32 w = 0xDD000000))"

lemma same_cheat_of: "same_cheat x (cheat_of x)"
  using with_codes_fst [of "snd x" "named (fst x)"] with_codes_snd [of "snd x" "named (fst x)"]
  by (simp add: same_cheat_def cheat_of_def named_def set_name_def Cheat_AllocCheat_def)

lemma open_buffered:
  assumes s: "server_ok e content" and o: "FSUSER_OpenFileDirectly e f a p q fl = (r, h, f1)" "\<not> FS_FAILED e r"
    and n: "length (content f1 h) < 2 ^ 63"
  obtains res b' f' where "BufferedFile_Open e a p q fl b f = Some (res, b', f')" "\<not> FS_FAILED e res"
    "buffer_ok content b' f'" "rest content b' f' = content f1 h"
proof -
  let ?b = "b\<lparr>b_file := \<lparr>f_handle = h, f_pos = 0, f_size = 0\<rparr>, b_buffer := replicate 512 0, curPos := 0\<rparr>"
  have "length (b_buffer ?b) = 512" "length (content f1 (f_handle (b_file ?b))) < 2 ^ 63" "unat (f_pos (b_file ?b)) < 2 ^ 63"
    using n by simp_all
  from refill_rest [OF s this] obtain res b1 f2 where R: "refill e ?b f1 = Some (res, b1, f2)" "\<not> FS_FAILED e res"
    "buffer_ok content (b1\<lparr>curPos := 0\<rparr>) f2" "rest content (b1\<lparr>curPos := 0\<rparr>) f2 = content f1 h" by auto
  have "b1\<lparr>curPos := 0\<rparr> = b1"
    using R(1) by (cases "IFile_Read 512 e 512 (b_file ?b) f1") (auto simp: refill_def)
  moreover have "BufferedFile_Open e a p q fl b f = refill e ?b f1"
    using o by (simp add: BufferedFile_Open_def IFile_Open_def)
  ultimately show thesis using R that by simp
qed

lemma load_file:
  assumes "server_ok e content" and "failed_negative e"
    and o: "FSUSER_OpenFileDirectly e f sdmc [] path1 flags = (r, h, f1)" "\<not> FS_FAILED e r"
    and c: "content f1 h = file_text xs" "length (file_text xs) < 2 ^ 63"
    and t: "text_ok xs" "length xs < 256" "text_size xs < 32768"
  shows "\<exists>l f'. Cheat_LoadCheatsIntoMemory (text_lines xs + 1 + k) e sdmc path1 path2 flags b f = Some (l, f') \<and>
    loaded l = map cheat_of xs"
proof -
  have n: "length (content f1 h) < 2 ^ 63" using c by simp
  obtain res b1 f2 where O: "BufferedFile_Open e sdmc [] path1 flags b f = Some (res, b1, f2)" "\<not> FS_FAILED e res"
    "buffer_ok content b1 f2" "rest content b1 f2 = file_text xs"
    using open_buffered [OF assms(1) o n, of b] c(1) by metis
  let ?z = "\<lparr>loaded = [], cheatSize = 0\<rparr>"
  have z: "length (replicate 1024 (0 :: u8)) = 1024" "loaded ?z = [] \<or> snd (last (loaded ?z)) \<noteq> []"
    "length (loaded ?z) + length xs < 256" "cheatSize ?z + text_size xs < 32768" using t by simp_all
  obtain b3 f3 where L: "load_loop (text_lines xs + 1 + k) e (replicate 1024 0) ?z b1 f2 =
      Some (?z\<lparr>loaded := loaded ?z @ map cheat_of xs, cheatSize := cheatSize ?z + text_size xs\<rparr>, b3, f3)"
    using load_loop_file [OF assms(1,2) O(3,4) z(1) t(1) z(2-4), of k] by metis
  have d: "drop_last_empty l = l" if "loaded l = map cheat_of xs" for l
    using that t(1) by (cases xs rule: rev_cases) (auto simp: drop_last_empty_def cheat_of_def with_codes_snd text_ok_def)
  obtain r2 i2 f4 where C: "IFile_Close e (b_file b3) f3 = (r2, i2, f4)" by (metis prod_cases3)
  show ?thesis unfolding Cheat_LoadCheatsIntoMemory_def Let_def O(1) Option.bind.bind_lunit prod.case L
    using O(2) C by (simp add: d L del: load_loop.simps add_Suc_right One_nat_def add_Suc Suc_eq_plus1_left Nat.add_0_right add.right_neutral plus_1_eq_Suc)
qed

end
