(* ===== verification/Cheat_File_Claims.thy ===== *)
theory Cheat_File_Claims
  imports Cheat_File_Round
begin

text \<open>
  The properties of the cheat files: the buffered reader is the stream, a line is the text up to
  the line end, a printed code parses back, the loaded cheats fit.
\<close>

section \<open>The buffered reader\<close>

text \<open>Whatever the refills and however the server splits its reads, \<open>BufferedFile_Read\<close> gives the
  next \<open>len\<close> bytes of the stream, or what is left of it, and leaves the rest.\<close>

theorem BufferedFile_Read_is_stream:
  assumes "server_ok e content" and "buffer_ok content b f"
  shows "\<exists>res b' f'. BufferedFile_Read e len b f = Some (res, take len (rest content b f), b', f') \<and>
    \<not> FS_FAILED e res \<and> buffer_ok content b' f' \<and> rest content b' f' = drop len (rest content b f)"
  using assms by (rule buffered_read_stream)

definition demo_bfile :: "bytes \<Rightarrow> bfile" where
  "demo_bfile bs = \<lparr>b_file = \<lparr>f_handle = 1, f_pos = 0, f_size = 0\<rparr>, curPos = 0, maxPos = length bs,
     b_buffer = bs @ replicate (512 - length bs) 0\<rparr>"

theorem BufferedFile_Read_is_stream_witness:
  "\<exists>res b' f'. BufferedFile_Read demo_fs 4 (demo_bfile [9, 9]) [1, 2, 3, 4, 5] = Some (res, [9, 9, 1, 2], b', f')"
proof -
  have "buffer_ok (\<lambda>f h. f) (demo_bfile [9, 9]) [1, 2, 3, 4, 5]" by (simp add: buffer_ok_def demo_bfile_def)
  from BufferedFile_Read_is_stream [OF demo_fs_reads this, of 4] show ?thesis
    by (auto simp: rest_def demo_bfile_def)
qed

section \<open>Lines and codes\<close>

text \<open>When a whole line of the stream fits, \<open>Cheat_ReadLine\<close> gives its text without the carriage
  return at its end, terminated, returns the length, and leaves the stream after the line end.\<close>

theorem Cheat_ReadLine_text:
  assumes "server_ok e content" and "buffer_ok content b f" and "rest content b f = l @ 10 # rst"
    and "0 \<notin> set l" and "10 \<notin> set l" and "length l < n" and "n \<le> length line"
  shows "\<exists>line' b' f'. Cheat_ReadLine e n line b f = Some (word_of_nat (length (chomp l)), line', b', f') \<and>
    take (Suc (length (chomp l))) line' = chomp l @ [0] \<and> buffer_ok content b' f' \<and> rest content b' f' = rst"
proof -
  have "\<not> FS_FAILED e 0" using assms(1) by (simp add: server_ok_def)
  from read_line_text [OF assms(1,2) this assms(3-6), of 0 line False] assms(7) show ?thesis
    by (auto simp: Cheat_ReadLine_def)
qed

theorem Cheat_ReadLine_text_witness:
  "\<exists>line' b' f'. Cheat_ReadLine demo_fs 8 (replicate 8 7) (demo_bfile [65, 13]) [66, 13, 10, 99]
    = Some (3, line', b', f') \<and> take 4 line' = [65, 13, 66, 0] \<and> rest (\<lambda>f h. f) b' f' = [99]"
proof -
  let ?f = "[66, 13, 10, 99] :: bytes"
  have b: "buffer_ok (\<lambda>f h. f) (demo_bfile [65, 13]) ?f" by (simp add: buffer_ok_def demo_bfile_def)
  have r: "rest (\<lambda>f h. f) (demo_bfile [65, 13]) ?f = [65, 13, 66, 13] @ 10 # [99]"
    by (simp add: rest_def demo_bfile_def)
  have c: "chomp [65, 13, 66, 13] = [65, 13, 66]" by (simp add: chomp_def)
  have n: "Suc (length [65, 13, 66 :: u8]) = 4" "word_of_nat (length [65, 13, 66 :: u8]) = (3 :: result)" by simp_all
  have p: "0 \<notin> set [65, 13, 66, 13 :: u8]" "10 \<notin> set [65, 13, 66, 13 :: u8]" "length [65, 13, 66, 13 :: u8] < 8"
    "8 \<le> length (replicate 8 7 :: bytes)" by simp_all
  from Cheat_ReadLine_text [OF demo_fs_reads b r p, unfolded c, unfolded n] show ?thesis by auto
qed

text \<open>A code written as two groups of eight digits is recognised as a code line and parses back to
  itself.\<close>

theorem code_line_roundtrip:
  "Cheat_IsCodeLine (code_text w @ 0 # r) \<and> Cheat_GetCode (code_text w @ 0 # r) = w"
  using code_text_is_code_line code_text_get_code by blast

section \<open>The loader\<close>

text \<open>The cheats loaded from any file take less than the 32768 bytes of the buffer, and each has at
  least one code, the count of its codes and a terminated name of 39 bytes.\<close>

theorem loaded_cheats_fit:
  assumes "Cheat_LoadCheatsIntoMemory fuel e sdmc path1 path2 flags b f = Some (l, f')"
  shows "used l < 32768 \<and> length (loaded l) < 256 \<and> (\<forall>c \<in> set (loaded l). cheat_ok c)"
proof -
  let ?z = "\<lparr>loaded = [], cheatSize = 0\<rparr>"
  have z: "loader_ok ?z" by (simp add: loader_ok_def used_def)
  then have z': "used ?z < 32768 \<and> length (loaded ?z) < 256 \<and> (\<forall>c \<in> set (loaded ?z). cheat_ok c)"
    by (simp add: used_def)
  from Cheat_Load_cases [OF assms] show ?thesis
  proof (elim disjE exE conjE)
    assume "l = ?z"
    with z' show ?thesis by simp
  next
    fix line b1 f1 l1 b2 f2
    assume "load_loop fuel e line ?z b1 f1 = Some (l1, b2, f2)" and l: "l = drop_last_empty l1"
    from load_loop_ok [OF z this(1)] show ?thesis unfolding l by (rule drop_last_empty_ok)
  qed
qed

definition demo_xs :: "cheat_text list" where
  "demo_xs = [([0x41, 0x20, 0x42], [0xD300000000001000, 0xDD00000000000001])]"

definition demo_b0 :: bfile where
  "demo_b0 = \<lparr>b_file = \<lparr>f_handle = 0, f_pos = 0, f_size = 0\<rparr>, curPos = 0, maxPos = 0, b_buffer = []\<rparr>"

lemma demo_xs_ok: "text_ok demo_xs" "length demo_xs < 256" "text_size demo_xs < 32768" "length (file_text demo_xs) < 2 ^ 63"
  by (simp_all add: demo_xs_def text_ok_def name_ok_def visible_def is_blank_def Cheat_IsCodeLine_def strnlen_def
      text_size_def file_text_def codes_text_def)

lemma demo_negative: "failed_negative demo_fs"
  by (simp add: failed_negative_def demo_fs_def)

lemma demo_opens: "FSUSER_OpenFileDirectly demo_fs (file_text demo_xs) 9 [] [] 1 = (0, 1, file_text demo_xs)" "\<not> FS_FAILED demo_fs 0"
  by (simp_all add: demo_fs_def)

text \<open>C13: a file written from cheats that fit the buffers, a line for the name and one for each code,
  loads back to those cheats: the same codes, the name cut to 38 characters, and the key mark
  exactly when a code is a key condition.\<close>

theorem cheat_file_roundtrip:
  assumes "server_ok e content" and "failed_negative e"
    and "FSUSER_OpenFileDirectly e f sdmc [] path1 flags = (r, h, f1)" and "\<not> FS_FAILED e r"
    and "content f1 h = file_text xs" and "length (file_text xs) < 2 ^ 63"
    and "text_ok xs" and "length xs < 256" and "text_size xs < 32768"
  shows "\<exists>l f'. Cheat_LoadCheatsIntoMemory (text_lines xs + 1 + k) e sdmc path1 path2 flags b f = Some (l, f') \<and>
    list_all2 same_cheat xs (loaded l)"
proof -
  have "list_all2 same_cheat xs (map cheat_of xs)" by (simp add: list_all2_conv_all_nth same_cheat_of)
  then show ?thesis using load_file [OF assms] by metis
qed

theorem cheat_file_roundtrip_witness:
  "\<exists>l f'. Cheat_LoadCheatsIntoMemory 4 demo_fs 9 [] [] 1 demo_b0 (file_text demo_xs) = Some (l, f') \<and>
    list_all2 same_cheat demo_xs (loaded l)"
proof -
  have "text_lines demo_xs + 1 + 0 = 4" by (simp add: text_lines_def demo_xs_def)
  with cheat_file_roundtrip [OF demo_fs_reads demo_negative demo_opens refl demo_xs_ok(4,1,2,3), of 0 "[]" demo_b0]
  show ?thesis by simp
qed

theorem loaded_cheats_fit_witness:
  "\<exists>l f'. Cheat_LoadCheatsIntoMemory 4 demo_fs 9 [] [] 1 demo_b0 (file_text demo_xs) = Some (l, f') \<and> used l < 32768"
proof -
  have "text_lines demo_xs + 1 + 0 = 4" by (simp add: text_lines_def demo_xs_def)
  with load_file [OF demo_fs_reads demo_negative demo_opens refl demo_xs_ok(4,1,2,3), of 0 "[]" demo_b0]
  obtain l f' where "Cheat_LoadCheatsIntoMemory 4 demo_fs 9 [] [] 1 demo_b0 (file_text demo_xs) = Some (l, f')" by auto
  with loaded_cheats_fit [OF this] show ?thesis by blast
qed

section \<open>Writing\<close>

text \<open>With a server that takes a non-empty part of every write, \<open>IFile_Write\<close> stores all the bytes at
  the position, reports their number and moves the position past them.\<close>

theorem IFile_Write_stores:
  assumes "writes_ok e content" and "\<And>f h pos bs. \<not> FS_FAILED e (fst (FSFILE_Write e f h pos bs flags))"
    and "length buf \<le> fuel" and "length buf < 2 ^ 32" and "unat (f_pos i) \<le> length (content f (f_handle i))"
    and "unat (f_pos i) + length buf < 2 ^ 64" and "\<not> FS_FAILED e 0"
  shows "\<exists>res i' f'. IFile_Write fuel e buf flags i f = Some (res, word_of_nat (length buf), i', f') \<and> \<not> FS_FAILED e res \<and>
    f_pos i' = f_pos i + word_of_nat (length buf) \<and>
    content f' = (content f)(f_handle i := put_at (content f (f_handle i)) (unat (f_pos i)) buf)"
proof (cases "buf = []")
  case True
  then show ?thesis using assms(7) by (simp add: IFile_Write_def put_at_def)
next
  case False
  from write_loop_stores [where cur = 0, OF assms(1,3) False assms(4-6,2)] show ?thesis
    using False by (auto simp: IFile_Write_def)
qed

text \<open>A server whose state is the files, which takes at most \<open>n\<close> bytes of a write.\<close>

definition demo_ws :: "nat \<Rightarrow> (handle \<Rightarrow> bytes) fs_env" where
  "demo_ws n = \<lparr>FS_FAILED = (\<lambda>r. sint r < 0),
     FSUSER_OpenFileDirectly = (\<lambda>f a p q fl. (0, 1, f)),
     FSUSER_OpenFile = (\<lambda>f a p fl. (0, 1, f)),
     FSFILE_Close = (\<lambda>f h. (0, f)),
     FSFILE_GetSize = (\<lambda>f h. (0, word_of_nat (length (f h)), f)),
     FSFILE_SetSize = (\<lambda>f h n. (0, f(h := take (unat n) (f h)))),
     FSFILE_Read = (\<lambda>f h pos n. (0, take (unat n) (drop (unat pos) (f h)), f)),
     FSFILE_Write = (\<lambda>f h pos bs fl. (0, word_of_nat (min n (length bs)), f(h := put_at (f h) (unat pos) (take n bs)))),
     FSFILE_Flush = (\<lambda>f h. (0, f))\<rparr>"

lemma demo_ws_writes: "writes_ok (demo_ws 2) (\<lambda>f. f)"
proof -
  have w: "unat (word_of_nat (min 2 k) :: u32) = min 2 k" for k
    by (simp add: unat_of_nat min_def)
  have "word_of_nat (min 2 (length bs)) \<noteq> (0 :: u32)" if "bs \<noteq> []" for bs :: bytes
    using w [of "length bs"] that by (cases bs) (auto simp: min_def split: if_splits)
  moreover have "take (min 2 (length bs)) bs = take 2 bs" for bs :: bytes by (simp add: min_def)
  ultimately show ?thesis by (simp add: writes_ok_def demo_ws_def w)
qed

theorem IFile_Write_stores_witness:
  "\<exists>res i' f'. IFile_Write 5 (demo_ws 2) [1, 2, 3, 4, 5] 0 \<lparr>f_handle = 7, f_pos = 1, f_size = 0\<rparr> (\<lambda>h. [9, 9]) = Some (res, 5, i', f') \<and>
    f' 7 = [9, 1, 2, 3, 4, 5]"
proof -
  have "\<not> FS_FAILED (demo_ws 2) (fst (FSFILE_Write (demo_ws 2) f h pos bs 0))" for f h pos bs by (simp add: demo_ws_def)
  from IFile_Write_stores [OF demo_ws_writes this, of "[1, 2, 3, 4, 5]" 5 "\<lparr>f_handle = 7, f_pos = 1, f_size = 0\<rparr>" "\<lambda>h. [9, 9]"]
  show ?thesis by (auto simp: demo_ws_def put_at_def)
qed

text \<open>A server that takes nothing without failing keeps \<open>IFile_Write\<close> in its loop for ever: there is no
  test for a write of no bytes, unlike in \<open>IFile_Read\<close>.\<close>

theorem IFile_Write_stuck:
  assumes "\<And>f h pos bs. \<exists>r f'. FSFILE_Write e f h pos bs flags = (r, 0, f') \<and> \<not> FS_FAILED e r" and "buf \<noteq> []"
  shows "IFile_Write fuel e buf flags i f = None"
proof -
  have "write_loop k e flags i buf cur f = None" for k i cur f
  proof (induction k arbitrary: i cur f)
    case (Suc k)
    from assms(1) [of f "f_handle i" "f_pos i" buf] obtain r f'
      where "FSFILE_Write e f (f_handle i) (f_pos i) buf flags = (r, 0, f')" "\<not> FS_FAILED e r" by blast
    with assms(2) Suc [of "i\<lparr>f_pos := f_pos i\<rparr>" cur f'] show ?case by simp
  qed simp
  with assms(2) show ?thesis by (simp add: IFile_Write_def)
qed

theorem IFile_Write_stuck_witness:
  "\<forall>fuel. IFile_Write fuel (demo_ws 0) [1] 0 \<lparr>f_handle = 7, f_pos = 1, f_size = 0\<rparr> (\<lambda>h. [9, 9]) = None"
  using IFile_Write_stuck [of "demo_ws 0" 0 "[1]"] by (simp add: demo_ws_def)

end
