(* ===== verification/Cheat_Top.thy ===== *)
theory Cheat_Top
  imports Cheat_Exec
begin

text \<open>
  The entry points of \<open>menus/cheats.c\<close>: attaching to the process, one cheat applied through the
  debug handle, and the periodic application of the active cheats.

  The kernel is an environment over an abstract state, which is also the memory the interpreter
  works on: the memory calls of a process are the fields of \<open>memory_of h\<close> for its debug handle
  \<open>h\<close>. The codes of the \<open>i\<close>-th cheat are the words of the buffer from its code array on.
  \<^term>\<open>None\<close>: the call does not return, or the interpreter leaves the behaviour C defines.
\<close>

section \<open>Operations\<close>

record 'k top_env =
  R_FAILED :: "result \<Rightarrow> bool"
  svcOpenProcess :: "'k \<Rightarrow> u32 \<Rightarrow> result \<times> handle \<times> 'k"
  svcDebugActiveProcess :: "'k \<Rightarrow> u32 \<Rightarrow> result \<times> handle \<times> 'k"
  svcGetProcessDebugEvent :: "'k \<Rightarrow> handle \<Rightarrow> result \<times> 'k"
  svcContinueDebugEvent :: "'k \<Rightarrow> handle \<Rightarrow> u32 \<Rightarrow> 'k"
  svcCloseHandle :: "'k \<Rightarrow> handle \<Rightarrow> 'k"
  PMDBG_GetCurrentAppInfo :: "'k \<Rightarrow> result \<times> u64 \<times> u32 \<times> 'k"
  memory_of :: "handle \<Rightarrow> 'k cheat_env"

record 'k cheats_top =
  cheats :: "cheat_desc list"
  cheatTitleInfo :: u64
  machine :: "'k mach"

definition kernel :: "'k cheats_top \<Rightarrow> 'k" where
  "kernel t = process_mem (machine t)"

definition set_kernel :: "'k \<Rightarrow> 'k cheats_top \<Rightarrow> 'k cheats_top" where
  "set_kernel k t = t\<lparr>machine := (machine t)\<lparr>process_mem := k\<rparr>\<rparr>"

primrec Cheat_EatEvents :: "nat \<Rightarrow> 'k top_env \<Rightarrow> handle \<Rightarrow> 'k \<Rightarrow> 'k option" where
  "Cheat_EatEvents 0 e h k = None"
| "Cheat_EatEvents (Suc n) e h k =
     (let (r, k1) = svcGetProcessDebugEvent e k h
      in if r \<noteq> 0 \<and> r = 0xD8402009 then Some k1
         else Cheat_EatEvents n e h (svcContinueDebugEvent e k1 h 3))"

text \<open>One cheat run on a debug handle, and what it returns.\<close>

definition apply_one :: "nat \<Rightarrow> 'k cheat_env \<Rightarrow> (u32 \<Rightarrow> u64) \<Rightarrow> 'k mach \<Rightarrow> (bool \<times> 'k mach) option" where
  "apply_one fuel e codes m =
     (case Cheat_ApplyCheat fuel e codes m of
        Some (Ok u m1) \<Rightarrow> Some (True, m1)
      | Some (Ret0 m1) \<Rightarrow> Some (False, m1)
      | _ \<Rightarrow> None)"

definition Cheat_MapMemoryAndApplyCheat :: "nat \<Rightarrow> 'k top_env \<Rightarrow> (nat \<Rightarrow> u32 \<Rightarrow> u64) \<Rightarrow> u32 \<Rightarrow> nat \<Rightarrow> 'k cheats_top
    \<Rightarrow> (result \<times> 'k cheats_top) option" where
  "Cheat_MapMemoryAndApplyCheat fuel e codes pid i t =
     (let (res, ph, k1) = svcOpenProcess e (kernel t) pid
      in if \<not> R_FAILED e res then
           let (res, dh, k2) = svcDebugActiveProcess e k1 pid
           in if \<not> R_FAILED e res then do {
                k3 \<leftarrow> Cheat_EatEvents fuel e dh k2;
                (ok, m) \<leftarrow> apply_one fuel (memory_of e dh) (codes i) ((machine t)\<lparr>process_mem := k3, desc := cheats t ! i\<rparr>);
                let k4 = svcCloseHandle e (svcCloseHandle e (process_mem m) dh) ph;
                Some (res, t\<lparr>cheats := (cheats t)[i := (desc m)\<lparr>valid := ok, active := True\<rparr>],
                             machine := m\<lparr>process_mem := k4\<rparr>\<rparr>)
              } else Some (res, set_kernel (svcCloseHandle e k2 ph) t)
         else Some (res, set_kernel k1 t))"

definition Cheat_GetCurrentProcessAndTitleId :: "'k top_env \<Rightarrow> 'k \<Rightarrow> u32 \<times> u64 \<times> 'k" where
  "Cheat_GetCurrentProcessAndTitleId e k =
     (let (res, programId, pid, k1) = PMDBG_GetCurrentAppInfo e k
      in if R_FAILED e res then (0xFFFFFFFF, 0, k1) else (pid, programId, k1))"

definition Cheat_SeedRng :: "u64 \<Rightarrow> 'k mach \<Rightarrow> 'k mach" where
  "Cheat_SeedRng seed m = m\<lparr>cheatRngState := seed\<rparr>"

fun apply_from :: "nat \<Rightarrow> 'k top_env \<Rightarrow> (nat \<Rightarrow> u32 \<Rightarrow> u64) \<Rightarrow> u32 \<Rightarrow> nat list \<Rightarrow> 'k cheats_top \<Rightarrow> 'k cheats_top option" where
  "apply_from fuel e codes pid [] t = Some t"
| "apply_from fuel e codes pid (i # is) t =
     (if active (cheats t ! i) then do {
        (r, t1) \<leftarrow> Cheat_MapMemoryAndApplyCheat fuel e codes pid i t;
        apply_from fuel e codes pid is t1 }
      else apply_from fuel e codes pid is t)"

definition Cheat_ApplyCheats :: "nat \<Rightarrow> 'k top_env \<Rightarrow> (nat \<Rightarrow> u32 \<Rightarrow> u64) \<Rightarrow> 'k cheats_top \<Rightarrow> 'k cheats_top option" where
  "Cheat_ApplyCheats fuel e codes t =
     (if cheats t = [] then Some t
      else let (pid, titleId, k) = Cheat_GetCurrentProcessAndTitleId e (kernel t); t1 = set_kernel k t
           in if titleId = 0 then Some (t1\<lparr>cheats := []\<rparr>)
              else if titleId \<noteq> cheatTitleInfo t then Some (t1\<lparr>cheats := []\<rparr>)
              else apply_from fuel e codes pid [0..<length (cheats t)] t1)"

section \<open>Properties\<close>

text \<open>The loop that empties the event queue of the attached process ends with one error only: when
  the kernel keeps answering anything else, as for a process that has gone, it runs for ever.\<close>

theorem EatEvents_stuck:
  assumes "\<And>k. fst (svcGetProcessDebugEvent e k h) \<noteq> 0xD8402009"
  shows "Cheat_EatEvents fuel e h k = None"
proof (induction fuel arbitrary: k)
  case (Suc n)
  with assms [of k] show ?case by (auto simp: Let_def split: prod.splits)
qed simp

text \<open>A debugger whose state is the number of queued events.\<close>

definition demo_top :: "result \<Rightarrow> nat top_env" where
  "demo_top eoq = \<lparr>R_FAILED = (\<lambda>r. sint r < 0), svcOpenProcess = (\<lambda>k p. (0, 1, k)), svcDebugActiveProcess = (\<lambda>k p. (0, 2, k)),
     svcGetProcessDebugEvent = (\<lambda>k h. if k = 0 then (eoq, 0) else (0, k - 1)),
     svcContinueDebugEvent = (\<lambda>k h f. k), svcCloseHandle = (\<lambda>k h. k),
     PMDBG_GetCurrentAppInfo = (\<lambda>k. (0, 0, 0, k)),
     memory_of = (\<lambda>h. \<lparr>SUCCEEDED = (\<lambda>r. sint r \<ge> 0), MEMSTATE_FREE = 0,
        svcQueryDebugProcessMemory = (\<lambda>p a. (0, 0, 0, 0)), svcReadProcessMemory = (\<lambda>p a n. (0, [])),
        svcWriteProcessMemory = (\<lambda>p a b. (0, p)), HID_PAD = (\<lambda>n. 0), hidTouchRead = (\<lambda>n. (0, 0)),
        float_add = (\<lambda>x y. 0), float_mul = (\<lambda>x y. 0), float_div = (\<lambda>x y. 0), float_to_u32 = id, u32_to_float = id\<rparr>)\<rparr>"

theorem EatEvents_stuck_witness: "\<forall>fuel. Cheat_EatEvents fuel (demo_top 0xD8E007F7) 2 3 = None"
  using EatEvents_stuck [of "demo_top 0xD8E007F7" 2] by (simp add: demo_top_def)

text \<open>It ends, without failing, when every answer but the end of the queue takes an event off it.\<close>

theorem EatEvents_ends:
  assumes "\<And>k. fst (svcGetProcessDebugEvent e k h) = 0xD8402009 \<or>
    queued (svcContinueDebugEvent e (snd (svcGetProcessDebugEvent e k h)) h 3) < queued k"
    and "queued k < fuel"
  shows "\<exists>k'. Cheat_EatEvents fuel e h k = Some k'"
  using assms(2)
proof (induction fuel arbitrary: k)
  case (Suc n)
  obtain r k1 where g: "svcGetProcessDebugEvent e k h = (r, k1)" by fastforce
  show ?case
  proof (cases "r = 0xD8402009")
    case True
    with g show ?thesis by simp
  next
    case False
    with assms(1) [of k] g Suc.prems have "queued (svcContinueDebugEvent e k1 h 3) < n" by simp
    from Suc.IH [OF this] show ?thesis using g False by simp
  qed
qed simp

theorem EatEvents_ends_witness: "\<exists>k'. Cheat_EatEvents 4 (demo_top 0xD8402009) 2 3 = Some k'"
  using EatEvents_ends [of "demo_top 0xD8402009" 2 id 3 4] by (simp add: demo_top_def)

end
