(* ===== verification/Sha256.thy ===== *)
theory Sha256
  imports Prelude
begin

text \<open>
  SHA-256 of the Presence client (\<open>discord/utils/sha256.c\<close>): the context with its 64-byte buffer,
  the compression function, and the streaming interface. \<open>datalen\<close> is at most 63 between two calls
  and is a natural number; \<open>bitlen\<close> keeps its 64 bits.

  The hash of the standard is \<open>sha256\<close> of \<open>Fips180\<close>, which shares no definition with this theory;
  \<open>Sha256_Proofs\<close> shows that the streaming functions compute it.
\<close>

section \<open>Compression\<close>

definition sha_k :: "u32 list" where
  "sha_k = [
     0x428a2f98, 0x71374491, 0xb5c0fbcf, 0xe9b5dba5, 0x3956c25b, 0x59f111f1, 0x923f82a4, 0xab1c5ed5,
     0xd807aa98, 0x12835b01, 0x243185be, 0x550c7dc3, 0x72be5d74, 0x80deb1fe, 0x9bdc06a7, 0xc19bf174,
     0xe49b69c1, 0xefbe4786, 0x0fc19dc6, 0x240ca1cc, 0x2de92c6f, 0x4a7484aa, 0x5cb0a9dc, 0x76f988da,
     0x983e5152, 0xa831c66d, 0xb00327c8, 0xbf597fc7, 0xc6e00bf3, 0xd5a79147, 0x06ca6351, 0x14292967,
     0x27b70a85, 0x2e1b2138, 0x4d2c6dfc, 0x53380d13, 0x650a7354, 0x766a0abb, 0x81c2c92e, 0x92722c85,
     0xa2bfe8a1, 0xa81a664b, 0xc24b8b70, 0xc76c51a3, 0xd192e819, 0xd6990624, 0xf40e3585, 0x106aa070,
     0x19a4c116, 0x1e376c08, 0x2748774c, 0x34b0bcb5, 0x391c0cb3, 0x4ed8aa4a, 0x5b9cca4f, 0x682e6ff3,
     0x748f82ee, 0x78a5636f, 0x84c87814, 0x8cc70208, 0x90befffa, 0xa4506ceb, 0xbef9a3f7, 0xc67178f2]"

definition ROTRIGHT :: "u32 \<Rightarrow> nat \<Rightarrow> u32" where
  "ROTRIGHT a b = drop_bit b a OR push_bit (32 - b) a"

definition CH :: "u32 \<Rightarrow> u32 \<Rightarrow> u32 \<Rightarrow> u32" where
  "CH x y z = (x AND y) XOR (NOT x AND z)"

definition MAJ :: "u32 \<Rightarrow> u32 \<Rightarrow> u32 \<Rightarrow> u32" where
  "MAJ x y z = (x AND y) XOR (x AND z) XOR (y AND z)"

definition EP0 :: "u32 \<Rightarrow> u32" where
  "EP0 x = ROTRIGHT x 2 XOR ROTRIGHT x 13 XOR ROTRIGHT x 22"

definition EP1 :: "u32 \<Rightarrow> u32" where
  "EP1 x = ROTRIGHT x 6 XOR ROTRIGHT x 11 XOR ROTRIGHT x 25"

definition SIG0 :: "u32 \<Rightarrow> u32" where
  "SIG0 x = ROTRIGHT x 7 XOR ROTRIGHT x 18 XOR drop_bit 3 x"

definition SIG1 :: "u32 \<Rightarrow> u32" where
  "SIG1 x = ROTRIGHT x 17 XOR ROTRIGHT x 19 XOR drop_bit 10 x"

text \<open>A big-endian word of four bytes.\<close>

definition be32 :: "bytes \<Rightarrow> nat \<Rightarrow> u32" where
  "be32 d j = push_bit 24 (ucast (d ! j)) OR push_bit 16 (ucast (d ! (j + 1))) OR
     push_bit 8 (ucast (d ! (j + 2))) OR ucast (d ! (j + 3))"

text \<open>The message schedule: sixteen words of the block, then each word from earlier ones.\<close>

definition next_m :: "u32 list \<Rightarrow> u32" where
  "next_m m = (let i = length m in SIG1 (m ! (i - 2)) + m ! (i - 7) + SIG0 (m ! (i - 15)) + m ! (i - 16))"

definition schedule :: "bytes \<Rightarrow> u32 list" where
  "schedule d = ((\<lambda>m. m @ [next_m m]) ^^ 48) (map (\<lambda>i. be32 d (4 * i)) [0..<16])"

text \<open>One round on the eight working variables.\<close>

definition sha_round :: "u32 \<times> u32 \<Rightarrow> u32 list \<Rightarrow> u32 list" where
  "sha_round km v =
     (let a = v ! 0; b = v ! 1; c = v ! 2; d = v ! 3; e = v ! 4; f = v ! 5; g = v ! 6; h = v ! 7;
          t1 = h + EP1 e + CH e f g + fst km + snd km;
          t2 = EP0 a + MAJ a b c
      in [t1 + t2, a, b, c, d + t1, e, f, g])"

definition compress :: "u32 list \<Rightarrow> bytes \<Rightarrow> u32 list" where
  "compress st d = map2 (+) st (fold sha_round (zip sha_k (schedule d)) st)"

section \<open>The streaming interface\<close>

record sha256_ctx =
  data :: bytes
  datalen :: nat
  bitlen :: u64
  state :: "u32 list"

definition sha256_transform :: "bytes \<Rightarrow> sha256_ctx \<Rightarrow> sha256_ctx" where
  "sha256_transform d ctx = ctx\<lparr>state := compress (state ctx) d\<rparr>"

definition sha256_H0 :: "u32 list" where
  "sha256_H0 = [0x6a09e667, 0xbb67ae85, 0x3c6ef372, 0xa54ff53a, 0x510e527f, 0x9b05688c, 0x1f83d9ab, 0x5be0cd19]"

definition sha256_init :: "sha256_ctx \<Rightarrow> sha256_ctx" where
  "sha256_init ctx = ctx\<lparr>datalen := 0, bitlen := 0, state := sha256_H0\<rparr>"

definition update_byte :: "u8 \<Rightarrow> sha256_ctx \<Rightarrow> sha256_ctx" where
  "update_byte b ctx =
     (let ctx1 = ctx\<lparr>data := (data ctx)[datalen ctx := b], datalen := datalen ctx + 1\<rparr>
      in if datalen ctx1 = 64 then
           (sha256_transform (data ctx1) ctx1)\<lparr>bitlen := bitlen ctx1 + 512, datalen := 0\<rparr>
         else ctx1)"

definition sha256_update :: "bytes \<Rightarrow> sha256_ctx \<Rightarrow> sha256_ctx" where
  "sha256_update ds ctx = fold update_byte ds ctx"

text \<open>Bytes \<open>i\<close> up to \<open>j\<close> set to zero.\<close>

definition zero_fill :: "nat \<Rightarrow> nat \<Rightarrow> bytes \<Rightarrow> bytes" where
  "zero_fill i j d = take i d @ replicate (j - i) 0 @ drop j d"

definition be64 :: "u64 \<Rightarrow> bytes" where
  "be64 w = map (\<lambda>i. ucast (drop_bit (56 - 8 * i) w)) [0..<8]"

definition pad_buffer :: "sha256_ctx \<Rightarrow> sha256_ctx" where
  "pad_buffer ctx =
     (let i = datalen ctx; d = (data ctx)[i := 0x80]
      in if i < 56 then ctx\<lparr>data := zero_fill (i + 1) 56 d\<rparr>
         else let ctx1 = sha256_transform (zero_fill (i + 1) 64 d) (ctx\<lparr>data := zero_fill (i + 1) 64 d\<rparr>)
              in ctx1\<lparr>data := zero_fill 0 56 (data ctx1)\<rparr>)"

definition digest_of :: "u32 list \<Rightarrow> bytes" where
  "digest_of st = concat (map (\<lambda>w. map (\<lambda>i. ucast (drop_bit (24 - i * 8) w)) [0..<4]) st)"

definition sha256_final :: "sha256_ctx \<Rightarrow> sha256_ctx \<times> bytes" where
  "sha256_final ctx =
     (let ctx1 = pad_buffer ctx;
          ctx2 = ctx1\<lparr>bitlen := bitlen ctx1 + word_of_nat (datalen ctx1 * 8)\<rparr>;
          ctx3 = ctx2\<lparr>data := take 56 (data ctx2) @ be64 (bitlen ctx2)\<rparr>;
          ctx4 = sha256_transform (data ctx3) ctx3
      in (ctx4, digest_of (state ctx4)))"

end
