(* ===== verification/Fips180.thy ===== *)
theory Fips180
  imports Prelude Complex_Main
begin

text \<open>
  The hash of the standard FIPS 180-4, written from the standard and from nothing of the program:
  its six logical functions with the rotation of the word library, its constants as the first
  thirty-two bits of the fractional parts of the square and cube roots of the first primes, its
  padding, its message schedule as a recursion on the index, its round on eight named working
  variables, and its big-endian reading and writing of words as arithmetic on naturals.
  Messages are whole bytes. The standard hashes messages of less than \<open>2 ^ 64\<close> bits; beyond it the
  length field below keeps the low 64 bits.

  Lemmas: the constants as numerals (each root is bounded by integer powers), and the smallest
  padding that fills a block. The table of primes has every number below 312 that no other prime
  below 18 divides.
\<close>

section \<open>Logical functions (4.1.2)\<close>

definition Ch :: "u32 \<Rightarrow> u32 \<Rightarrow> u32 \<Rightarrow> u32" where
  "Ch x y z = (x AND y) XOR (NOT x AND z)"

definition Maj :: "u32 \<Rightarrow> u32 \<Rightarrow> u32 \<Rightarrow> u32" where
  "Maj x y z = (x AND y) XOR (x AND z) XOR (y AND z)"

definition Sigma0 :: "u32 \<Rightarrow> u32" where
  "Sigma0 x = word_rotr 2 x XOR word_rotr 13 x XOR word_rotr 22 x"

definition Sigma1 :: "u32 \<Rightarrow> u32" where
  "Sigma1 x = word_rotr 6 x XOR word_rotr 11 x XOR word_rotr 25 x"

definition sigma0 :: "u32 \<Rightarrow> u32" where
  "sigma0 x = word_rotr 7 x XOR word_rotr 18 x XOR drop_bit 3 x"

definition sigma1 :: "u32 \<Rightarrow> u32" where
  "sigma1 x = word_rotr 17 x XOR word_rotr 19 x XOR drop_bit 10 x"

section \<open>Constants (4.2.2 and 5.3.3)\<close>

definition first_primes :: "nat list" where
  "first_primes = [
     2, 3, 5, 7, 11, 13, 17, 19, 23, 29, 31, 37, 41, 43, 47, 53, 59, 61, 67, 71, 73, 79, 83, 89, 97, 101,
     103, 107, 109, 113, 127, 131, 137, 139, 149, 151, 157, 163, 167, 173, 179, 181, 191, 193, 197, 199,
     211, 223, 227, 229, 233, 239, 241, 251, 257, 263, 269, 271, 277, 281, 283, 293, 307, 311]"

text \<open>The first thirty-two bits of the fractional part of a number.\<close>

definition frac_bits :: "real \<Rightarrow> u32" where
  "frac_bits x = word_of_int \<lfloor>2 ^ 32 * frac x\<rfloor>"

definition K_const :: "nat \<Rightarrow> u32" where
  "K_const t = frac_bits (root 3 (real (first_primes ! t)))"

definition H_const :: "nat \<Rightarrow> u32" where
  "H_const i = frac_bits (sqrt (real (first_primes ! i)))"

section \<open>Bytes and words\<close>

definition be_nat :: "bytes \<Rightarrow> nat" where
  "be_nat bs = foldl (\<lambda>n b. 256 * n + unat b) 0 bs"

definition be_bytes :: "nat \<Rightarrow> nat \<Rightarrow> bytes" where
  "be_bytes k n = map (\<lambda>i. word_of_nat (n div 256 ^ (k - 1 - i))) [0..<k]"

section \<open>Preprocessing (5.1.1 and 5.2.1)\<close>

text \<open>A message of \<open>l\<close> bits is followed by a one bit, by the fewest zero bits \<open>k\<close> with
  \<open>l + 1 + k\<close> congruent to 448 modulo 512, and by \<open>l\<close> in 64 bits. With whole bytes the one
  bit and seven of the zeros are the byte \<open>0x80\<close>.\<close>

definition zero_bits :: "nat \<Rightarrow> nat" where
  "zero_bits l = nat ((447 - int l) mod 512)"

definition fips_pad :: "bytes \<Rightarrow> bytes" where
  "fips_pad m = m @ [0x80] @ replicate ((zero_bits (8 * length m) - 7) div 8) 0 @ be_bytes 8 (8 * length m)"

text \<open>Word \<open>t\<close> of block \<open>i\<close>.\<close>

definition block_word :: "bytes \<Rightarrow> nat \<Rightarrow> nat \<Rightarrow> u32" where
  "block_word pm i t = word_of_nat (be_nat (take 4 (drop (64 * i + 4 * t) pm)))"

section \<open>Hash computation (6.2.2)\<close>

fun W_sched :: "(nat \<Rightarrow> u32) \<Rightarrow> nat \<Rightarrow> u32" where
  "W_sched M t = (if t < 16 then M t
     else sigma1 (W_sched M (t - 2)) + W_sched M (t - 7) + sigma0 (W_sched M (t - 15)) + W_sched M (t - 16))"

declare W_sched.simps [simp del]

type_synonym hash_value = "u32 \<times> u32 \<times> u32 \<times> u32 \<times> u32 \<times> u32 \<times> u32 \<times> u32"

fun fips_step :: "(nat \<Rightarrow> u32) \<Rightarrow> nat \<Rightarrow> hash_value \<Rightarrow> hash_value" where
  "fips_step M t (a, b, c, d, e, f, g, h) =
     (let T1 = h + Sigma1 e + Ch e f g + K_const t + W_sched M t;
          T2 = Sigma0 a + Maj a b c
      in (T1 + T2, a, b, c, d + T1, e, f, g))"

primrec fips_rounds :: "(nat \<Rightarrow> u32) \<Rightarrow> nat \<Rightarrow> hash_value \<Rightarrow> hash_value" where
  "fips_rounds M 0 v = v" |
  "fips_rounds M (Suc t) v = fips_step M t (fips_rounds M t v)"

fun add_hash :: "hash_value \<Rightarrow> hash_value \<Rightarrow> hash_value" where
  "add_hash (a, b, c, d, e, f, g, h) (a', b', c', d', e', f', g', h') =
     (a + a', b + b', c + c', d + d', e + e', f + f', g + g', h + h')"

definition fips_block :: "(nat \<Rightarrow> u32) \<Rightarrow> hash_value \<Rightarrow> hash_value" where
  "fips_block M H = add_hash (fips_rounds M 64 H) H"

definition fips_init :: hash_value where
  "fips_init = (H_const 0, H_const 1, H_const 2, H_const 3, H_const 4, H_const 5, H_const 6, H_const 7)"

text \<open>The hash value after the first \<open>n\<close> blocks of the padded message.\<close>

primrec fips_blocks :: "bytes \<Rightarrow> nat \<Rightarrow> hash_value" where
  "fips_blocks pm 0 = fips_init" |
  "fips_blocks pm (Suc n) = fips_block (block_word pm n) (fips_blocks pm n)"

fun hash_words :: "hash_value \<Rightarrow> u32 list" where
  "hash_words (a, b, c, d, e, f, g, h) = [a, b, c, d, e, f, g, h]"

definition sha256 :: "bytes \<Rightarrow> bytes" where
  "sha256 m = concat (map (\<lambda>w. be_bytes 4 (unat w))
     (hash_words (fips_blocks (fips_pad m) (length (fips_pad m) div 64))))"

section \<open>Facts of the standard\<close>

lemma zero_bits_fill: "(l + 1 + zero_bits l) mod 512 = 448" "zero_bits l < 512"
proof -
  have "int (l + 1 + zero_bits l) mod 512 = (int l + 1 + (447 - int l) mod 512) mod 512"
    by (simp add: zero_bits_def ac_simps)
  also have "\<dots> = (int l + 1 + (447 - int l)) mod 512" by (simp only: mod_add_right_eq)
  finally have "int ((l + 1 + zero_bits l) mod 512) = 448" by (simp add: zmod_int)
  then show "(l + 1 + zero_bits l) mod 512 = 448" by linarith
  show "zero_bits l < 512" by (simp add: zero_bits_def nat_less_iff)
qed

lemma zero_bits_least: "(l + 1 + j) mod 512 = 448 \<Longrightarrow> zero_bits l \<le> j"
proof (rule ccontr)
  assume a: "(l + 1 + j) mod 512 = 448" and b: "\<not> zero_bits l \<le> j"
  have "512 dvd zero_bits l - j"
    using mod_eq_dvd_iff_nat [of "l + 1 + j" "l + 1 + zero_bits l" 512] a b zero_bits_fill(1) [of l] by simp
  then show False using b zero_bits_fill(2) [of l] by (auto dest: dvd_imp_le)
qed

text \<open>Digits of a root: an integer between consecutive powers pins the bits.\<close>

lemma frac_bits_int: "\<lfloor>2 ^ 32 * x\<rfloor> = r \<Longrightarrow> frac_bits x = word_of_int r"
proof -
  assume r: "\<lfloor>2 ^ 32 * x\<rfloor> = r"
  have "2 ^ 32 * frac x = 2 ^ 32 * x - of_int (2 ^ 32 * \<lfloor>x\<rfloor>)" by (simp add: frac_def algebra_simps)
  then have "\<lfloor>2 ^ 32 * frac x\<rfloor> = r - 2 ^ 32 * \<lfloor>x\<rfloor>" using r by (simp only: floor_diff_of_int)
  then have "frac_bits x = word_of_int r - word_of_int (2 ^ 32) * word_of_int \<lfloor>x\<rfloor>"
    by (simp add: frac_bits_def)
  also have "(word_of_int (2 ^ 32) :: u32) = 0" by (simp add: word_of_int_eq_iff take_bit_eq_mod)
  finally show ?thesis by simp
qed

lemma floor_root_eq:
  assumes "0 < n" "r ^ n \<le> p * 2 ^ (32 * n)" "p * 2 ^ (32 * n) < (r + 1) ^ n"
  shows "\<lfloor>2 ^ 32 * root n (real p)\<rfloor> = int r"
proof -
  let ?y = "2 ^ 32 * root n (real p) :: real"
  have y0: "0 \<le> ?y" by (simp add: real_root_ge_zero)
  have yn: "?y ^ n = real (p * 2 ^ (32 * n))"
  proof -
    have "?y ^ n = (2 ^ 32) ^ n * root n (real p) ^ n" by (rule power_mult_distrib)
    also have "\<dots> = 2 ^ (32 * n) * real p" using assms(1) by (simp only: power_mult real_root_pow_pos2 of_nat_0_le_iff)
    finally show ?thesis by (simp only: of_nat_mult of_nat_power of_nat_numeral mult.commute)
  qed
  have "real r ^ n \<le> ?y ^ n" using assms(2) unfolding yn of_nat_power [symmetric] by (simp only: of_nat_le_iff)
  then have lo: "real r \<le> ?y" using assms(1) y0 by (meson power_less_imp_less_base not_le of_nat_0_le_iff linorder_not_less power_strict_mono)
  have "?y ^ n < (real (r + 1)) ^ n" using assms(3) unfolding yn of_nat_power [symmetric] by (simp only: of_nat_less_iff)
  then have hi: "?y < real (r + 1)" using power_less_imp_less_base of_nat_0_le_iff by blast
  show ?thesis by (rule floor_unique) (use lo hi in simp_all)
qed

lemma frac_bits_root:
  assumes "0 < n" "r ^ n \<le> p * 2 ^ (32 * n)" "p * 2 ^ (32 * n) < (r + 1) ^ n"
  shows "frac_bits (root n (real p)) = word_of_nat r"
  using frac_bits_int [OF floor_root_eq [OF assms]] by simp

text \<open>The roots, scaled by \<open>2 ^ 32\<close> and cut.\<close>

definition cube_roots :: "nat list" where
  "cube_roots = [
     0x1428a2f98, 0x171374491, 0x1b5c0fbcf, 0x1e9b5dba5,
     0x23956c25b, 0x259f111f1, 0x2923f82a4, 0x2ab1c5ed5,
     0x2d807aa98, 0x312835b01, 0x3243185be, 0x3550c7dc3,
     0x372be5d74, 0x380deb1fe, 0x39bdc06a7, 0x3c19bf174,
     0x3e49b69c1, 0x3efbe4786, 0x40fc19dc6, 0x4240ca1cc,
     0x42de92c6f, 0x44a7484aa, 0x45cb0a9dc, 0x476f988da,
     0x4983e5152, 0x4a831c66d, 0x4b00327c8, 0x4bf597fc7,
     0x4c6e00bf3, 0x4d5a79147, 0x506ca6351, 0x514292967,
     0x527b70a85, 0x52e1b2138, 0x54d2c6dfc, 0x553380d13,
     0x5650a7354, 0x5766a0abb, 0x581c2c92e, 0x592722c85,
     0x5a2bfe8a1, 0x5a81a664b, 0x5c24b8b70, 0x5c76c51a3,
     0x5d192e819, 0x5d6990624, 0x5f40e3585, 0x6106aa070,
     0x619a4c116, 0x61e376c08, 0x62748774c, 0x634b0bcb5,
     0x6391c0cb3, 0x64ed8aa4a, 0x65b9cca4f, 0x6682e6ff3,
     0x6748f82ee, 0x678a5636f, 0x684c87814, 0x68cc70208,
     0x690befffa, 0x6a4506ceb, 0x6bef9a3f7, 0x6c67178f2]"

definition square_roots :: "nat list" where
  "square_roots = [
     0x16a09e667, 0x1bb67ae85, 0x23c6ef372, 0x2a54ff53a,
     0x3510e527f, 0x39b05688c, 0x41f83d9ab, 0x45be0cd19]"

definition roots_of :: "nat \<Rightarrow> nat list \<Rightarrow> nat list \<Rightarrow> bool" where
  "roots_of n ps rs \<longleftrightarrow> list_all2 (\<lambda>p r. r ^ n \<le> p * 2 ^ (32 * n) \<and> p * 2 ^ (32 * n) < (r + 1) ^ n) ps rs"

lemma roots_of_bits:
  assumes "roots_of n ps rs" and "0 < n"
  shows "map (\<lambda>p. frac_bits (root n (real p))) ps = map word_of_nat rs"
  using assms(1) unfolding roots_of_def
  by (induction rule: list_all2_induct) (simp_all add: frac_bits_root [OF assms(2)])

lemma cube_roots_ok: "roots_of 3 first_primes cube_roots"
  by (simp add: roots_of_def first_primes_def cube_roots_def)

lemma square_roots_ok: "roots_of 2 (take 8 first_primes) square_roots"
  by (simp add: roots_of_def first_primes_def square_roots_def)

lemma K_consts: "map K_const [0..<64] = map word_of_nat cube_roots"
proof -
  have "length first_primes = 64" by (simp add: first_primes_def)
  then have "map K_const [0..<64] = map (\<lambda>p. frac_bits (root 3 (real p))) first_primes"
    by (intro nth_equalityI) (simp_all add: K_const_def)
  then show ?thesis using roots_of_bits [OF cube_roots_ok] by simp
qed

lemma H_consts: "map H_const [0..<8] = map word_of_nat square_roots"
proof -
  have "length first_primes = 64" by (simp add: first_primes_def)
  then have "map H_const [0..<8] = map (\<lambda>p. frac_bits (root 2 (real p))) (take 8 first_primes)"
    by (intro nth_equalityI) (simp_all add: H_const_def sqrt_def)
  then show ?thesis using roots_of_bits [OF square_roots_ok] by simp
qed

lemma first_primes_complete:
  "first_primes = filter (\<lambda>n. \<forall>d\<in>set [2, 3, 5, 7, 11, 13, 17]. d dvd n \<longrightarrow> d = n) [2..<312]"
  by (simp add: first_primes_def upt_rec_numeral)

end
