(* ===== verification/Sha256_Proofs.thy ===== *)
theory Sha256_Proofs
  imports Sha256 Fips180
begin

text \<open>
  The streaming functions of \<open>sha256.c\<close> compute the hash of FIPS 180-4. First the streaming: the
  buffer and the padding come to folding the model's compression over the blocks of the padded
  message (\<open>folded_hash\<close>). Then each part of that against the standard of \<open>Fips180\<close>: the tables, the
  logical functions, the schedule, the rounds, the padding, the byte order.
\<close>

section \<open>The compression folded over the blocks\<close>

definition sha_pad :: "bytes \<Rightarrow> bytes" where
  "sha_pad m = m @ [0x80] @ replicate ((119 - length m mod 64) mod 64) 0 @ be64 (word_of_nat (8 * length m))"

fun blocks :: "bytes \<Rightarrow> bytes list" where
  "blocks m = (if length m < 64 then [] else take 64 m # blocks (drop 64 m))"

declare blocks.simps [simp del]

definition folded_hash :: "bytes \<Rightarrow> bytes" where
  "folded_hash m = digest_of (foldl compress sha256_H0 (blocks (sha_pad m)))"

section \<open>Blocks\<close>

lemma blocks_short [simp]: "length m < 64 \<Longrightarrow> blocks m = []"
  by (simp add: blocks.simps)

lemma blocks_cons: "length b = 64 \<Longrightarrow> blocks (b @ m) = b # blocks m"
  by (simp add: blocks.simps [of "b @ m"])

lemma blocks_append: "64 dvd length xs \<Longrightarrow> blocks (xs @ ys) = blocks xs @ blocks ys"
proof (induction xs rule: blocks.induct)
  case (1 m)
  show ?case
  proof (cases "length m < 64")
    case True
    with 1(2) have "m = []" using dvd_imp_le by fastforce
    then show ?thesis by simp
  next
    case False
    have "64 dvd length (drop 64 m)" using 1(2) False by (simp add: dvd_diff_nat)
    with 1(1) [OF False] have "blocks (drop 64 m @ ys) = blocks (drop 64 m) @ blocks ys" by simp
    moreover have "blocks (m @ ys) = take 64 m # blocks (drop 64 m @ ys)"
      using False blocks_cons [of "take 64 m" "drop 64 m @ ys"] by (simp flip: append_assoc)
    moreover have "blocks m = take 64 m # blocks (drop 64 m)" using False by (simp add: blocks.simps [of m])
    ultimately show ?thesis by simp
  qed
qed

section \<open>The context after some message\<close>

text \<open>The whole blocks are in the state, the rest is in the buffer.\<close>

definition sha_rep :: "bytes \<Rightarrow> sha256_ctx \<Rightarrow> bool" where
  "sha_rep m ctx \<longleftrightarrow> length (data ctx) = 64 \<and> datalen ctx < 64 \<and>
     (\<exists>p. m = p @ take (datalen ctx) (data ctx) \<and> 64 dvd length p \<and>
        bitlen ctx = word_of_nat (8 * length p) \<and> state ctx = foldl compress sha256_H0 (blocks p))"

lemma sha_rep_init: "length (data ctx) = 64 \<Longrightarrow> sha_rep [] (sha256_init ctx)"
  by (simp add: sha_rep_def sha256_init_def)

lemma take_list_update: "i < length xs \<Longrightarrow> take (Suc i) (xs[i := x]) = take i xs @ [x]"
  by (simp add: take_Suc_conv_app_nth)

lemma sha_rep_byte:
  assumes "sha_rep m ctx"
  shows "sha_rep (m @ [b]) (update_byte b ctx)"
proof -
  obtain p where p: "m = p @ take (datalen ctx) (data ctx)" "64 dvd length p" "bitlen ctx = word_of_nat (8 * length p)"
    "state ctx = foldl compress sha256_H0 (blocks p)" and l: "length (data ctx) = 64" "datalen ctx < 64"
    using assms by (auto simp: sha_rep_def)
  let ?d = "(data ctx)[datalen ctx := b]"
  have t: "take (Suc (datalen ctx)) ?d = take (datalen ctx) (data ctx) @ [b]" using l by (simp add: take_list_update)
  show ?thesis
  proof (cases "datalen ctx + 1 = 64")
    case True
    then have t: "?d = take (datalen ctx) (data ctx) @ [b]" using t l by simp
    have "length ?d = 64" using l by simp
    then have "blocks (p @ ?d) = blocks p @ [?d]" using blocks_append [OF p(2)] blocks_cons [of ?d "[]"] by simp
    moreover have "m @ [b] = p @ ?d" unfolding t p(1) by simp
    moreover have "update_byte b ctx = ctx\<lparr>data := ?d, datalen := 0, bitlen := bitlen ctx + 512, state := compress (state ctx) ?d\<rparr>"
      using True by (simp add: update_byte_def sha256_transform_def Let_def)
    ultimately show ?thesis using l p(2-4)
      by (auto simp: sha_rep_def intro!: exI [of _ "p @ ?d"])
  next
    case False
    then have "update_byte b ctx = ctx\<lparr>data := ?d, datalen := Suc (datalen ctx)\<rparr>" by (simp add: update_byte_def)
    moreover have "m @ [b] = p @ take (Suc (datalen ctx)) ?d" unfolding t p(1) by simp
    ultimately show ?thesis using False l p(2-4) by (auto simp: sha_rep_def)
  qed
qed

lemma sha_rep_update: "sha_rep m ctx \<Longrightarrow> sha_rep (m @ ds) (sha256_update ds ctx)"
  unfolding sha256_update_def
proof (induction ds arbitrary: m ctx)
  case (Cons b ds)
  from Cons.IH [OF sha_rep_byte [OF Cons.prems, of b]] show ?case by simp
qed simp

section \<open>Finishing\<close>

lemma length_be64 [simp]: "length (be64 w) = 8"
  by (simp add: be64_def)

lemma zero_fill_cell:
  "i < length d \<Longrightarrow> Suc i \<le> j \<Longrightarrow> j \<le> length d \<Longrightarrow>
   zero_fill (Suc i) j (d[i := x]) = take i d @ [x] @ replicate (j - Suc i) 0 @ drop j d"
  by (simp add: zero_fill_def take_list_update)

lemma sha_rep_folded:
  assumes "sha_rep m ctx"
  shows "snd (sha256_final ctx) = folded_hash m"
proof -
  obtain p where p: "m = p @ take (datalen ctx) (data ctx)" "64 dvd length p" "bitlen ctx = word_of_nat (8 * length p)"
    "state ctx = foldl compress sha256_H0 (blocks p)" and l: "length (data ctx) = 64" "datalen ctx < 64"
    using assms by (auto simp: sha_rep_def)
  let ?n = "datalen ctx" and ?t = "take (datalen ctx) (data ctx)"
  let ?len = "be64 (word_of_nat (8 * length m))"
  have lm: "length m = length p + ?n" using p(1) l by simp
  then have md: "length m mod 64 = ?n" using p(2) l(2) by (metis mod_less mod_add_left_eq dvd_eq_mod_eq_0 add_0)
  have bl: "bitlen ctx + word_of_nat (?n * 8) = word_of_nat (8 * length m)"
    unfolding p(3) lm by (simp add: algebra_simps flip: of_nat_add of_nat_mult)
  show ?thesis
  proof (cases "?n < 56")
    case True
    let ?b = "?t @ [0x80] @ replicate (55 - ?n) 0 @ ?len"
    have lb: "length ?b = 64" using True l by simp
    have z: "(119 - length m mod 64) mod 64 = 55 - ?n" unfolding md using True by (simp add: mod_if)
    have "blocks (sha_pad m) = blocks (p @ ?b)" unfolding sha_pad_def z unfolding p(1) by simp
    also have "\<dots> = blocks p @ [?b]" using blocks_append [OF p(2), of ?b] blocks_cons [OF lb, of "[]"] by simp
    finally have S: "folded_hash m = digest_of (compress (state ctx) ?b)" by (simp add: folded_hash_def p(4))
    have "length (?t @ [0x80 :: u8] @ replicate (55 - ?n) 0) = 56" using True l by simp
    then have "take 56 (zero_fill (Suc ?n) 56 ((data ctx)[?n := 0x80])) = ?t @ [0x80] @ replicate (55 - ?n) 0"
      using True l by (simp only: zero_fill_cell) (simp add: take_Cons')
    with True bl S show ?thesis
      by (simp add: sha256_final_def pad_buffer_def sha256_transform_def Let_def)
  next
    case False
    let ?a = "?t @ [0x80] @ replicate (63 - ?n) 0" and ?b = "replicate 56 0 @ ?len"
    have la: "length ?a = 64" "length ?b = 64" using l by simp_all
    have z: "(119 - length m mod 64) mod 64 = (63 - ?n) + 56" unfolding md using False l by (simp add: mod_if)
    have "blocks (sha_pad m) = blocks (p @ ?a @ ?b)"
      unfolding sha_pad_def z replicate_add unfolding p(1) by simp
    also have "\<dots> = blocks p @ [?a, ?b]"
      using blocks_append [OF p(2), of "?a @ ?b"] blocks_cons [OF la(1), of ?b] blocks_cons [OF la(2), of "[]"] by simp
    finally have S: "folded_hash m = digest_of (compress (compress (state ctx) ?a) ?b)" by (simp add: folded_hash_def p(4))
    have "zero_fill (Suc ?n) 64 ((data ctx)[?n := 0x80]) = ?a" using l by (simp add: zero_fill_cell)
    moreover have "take 56 (zero_fill 0 56 ?a) = replicate 56 0" by (simp add: zero_fill_def)
    ultimately show ?thesis using False bl S
      by (simp add: sha256_final_def pad_buffer_def sha256_transform_def Let_def)
  qed
qed

section \<open>The tables and the logical functions\<close>

lemma sha_k_standard: "sha_k = map K_const [0..<64]"
  unfolding K_consts by (simp add: sha_k_def cube_roots_def)

lemma sha_k_nth: "t < 64 \<Longrightarrow> sha_k ! t = K_const t"
  by (simp add: sha_k_standard)

lemma sha256_H0_standard: "sha256_H0 = hash_words fips_init"
proof -
  have "[0..<8] = [0, 1, 2, 3, 4, 5, 6, 7 :: nat]" by (simp add: upt_conv_Cons)
  then have "hash_words fips_init = map H_const [0..<8]" by (simp add: fips_init_def)
  then show ?thesis unfolding H_consts by (simp add: sha256_H0_def square_roots_def)
qed

lemma ROTRIGHT_rotr: "0 < n \<Longrightarrow> n < 32 \<Longrightarrow> ROTRIGHT x n = word_rotr n x"
proof (rule bit_word_eqI)
  fix k
  assume n: "0 < n" "n < 32" and k: "k < LENGTH(32)"
  have l: "bit (ROTRIGHT x n) k \<longleftrightarrow> bit x (n + k) \<or> 32 - n \<le> k \<and> bit x (k - (32 - n))"
    using k by (auto simp: ROTRIGHT_def bit_or_iff bit_drop_bit_eq bit_push_bit_iff)
  have r: "bit (word_rotr n x) k \<longleftrightarrow> bit x ((n + k) mod 32)" using k by (simp add: bit_word_rotr_iff add.commute)
  show "bit (ROTRIGHT x n) k \<longleftrightarrow> bit (word_rotr n x) k"
  proof (cases "n + k < 32")
    case True
    then have "\<not> 32 - n \<le> k" using n by auto
    then show ?thesis unfolding l r using True by simp
  next
    case False
    define j where "j = k - (32 - n)"
    have e: "n + k = j + 32" "j < 32" unfolding j_def using False n k by simp_all
    have "(n + k) mod 32 = k - (32 - n)" unfolding e(1) j_def [symmetric] using e(2) by simp
    moreover have "\<not> bit x (n + k)" using False by (auto dest: bit_imp_le_length)
    ultimately show ?thesis unfolding l r using False by auto
  qed
qed

lemmas logical_functions = CH_def MAJ_def EP0_def EP1_def SIG0_def SIG1_def
  Ch_def Maj_def Sigma0_def Sigma1_def sigma0_def sigma1_def ROTRIGHT_rotr

lemma logical_standard:
  "CH x y z = Ch x y z" "MAJ x y z = Maj x y z" "EP0 x = Sigma0 x" "EP1 x = Sigma1 x"
  "SIG0 x = sigma0 x" "SIG1 x = sigma1 x"
  by (simp_all add: logical_functions)



section \<open>Bytes and words\<close>

text \<open>A byte cut out of a word is a digit to base 256.\<close>

lemma byte_digit: "s = 8 * k \<Longrightarrow> (ucast (drop_bit s w) :: u8) = word_of_nat (unat w div 256 ^ k)"
proof -
  assume s: "s = 8 * k"
  have "(256 :: nat) ^ k = 2 ^ s" unfolding s by (simp add: power_mult)
  then show ?thesis
    by (simp add: word_unat_eq_iff unsigned_ucast_eq unat_drop_bit_eq unsigned_of_nat flip: drop_bit_eq_div)
qed

lemma be64_standard: "be64 (word_of_nat n) = be_bytes 8 n"
proof -
  have "(ucast (drop_bit (56 - 8 * i) (word_of_nat n :: u64)) :: u8) = word_of_nat (n div 256 ^ (8 - 1 - i))"
    if "i < 8" for i
  proof -
    have s: "56 - 8 * i = 8 * (8 - 1 - i)" using that by simp
    have e: "(256 :: nat) ^ (8 - 1 - i) = 2 ^ (8 * (8 - 1 - i))" by (simp add: power_mult)
    have "take_bit 8 (drop_bit (8 * (8 - 1 - i)) (take_bit 64 n)) = take_bit 8 (drop_bit (8 * (8 - 1 - i)) n)"
      using that by (intro bit_eqI) (auto simp: bit_simps)
    then show ?thesis
      unfolding byte_digit [OF s] e
      by (simp add: word_unat_eq_iff unsigned_of_nat flip: drop_bit_eq_div)
  qed
  then show ?thesis by (simp add: be64_def be_bytes_def)
qed

lemma be32_standard:
  assumes "j + 4 \<le> length d"
  shows "be32 d j = word_of_nat (be_nat (take 4 (drop j d)))"
proof -
  have t: "take 4 (drop j d) = [d ! j, d ! (j + 1), d ! (j + 2), d ! (j + 3)]"
    using assms by (intro nth_equalityI) (auto simp: nth_Cons' less_Suc_eq numeral_eq_Suc)
  let ?A = "push_bit 24 (ucast (d ! j)) :: u32" and ?B = "push_bit 16 (ucast (d ! (j + 1))) :: u32"
    and ?C = "push_bit 8 (ucast (d ! (j + 2))) :: u32" and ?D = "ucast (d ! (j + 3)) :: u32"
  have "?C AND ?D = 0" "?B AND (?C OR ?D) = 0" "?A AND (?B OR ?C OR ?D) = 0"
    by (auto simp: bit_eq_iff bit_simps dest: bit_imp_le_length)
  then have "?A OR ?B OR ?C OR ?D = ?A + (?B + (?C + ?D))"
    by (simp only: disjunctive_add_eq_or)
  then show ?thesis unfolding t be32_def be_nat_def by (simp add: push_bit_eq_mult algebra_simps)
qed

lemma digest_standard: "digest_of st = concat (map (\<lambda>w. be_bytes 4 (unat w)) st)"
proof -
  have "(ucast (drop_bit (24 - i * 8) w) :: u8) = word_of_nat (unat w div 256 ^ (4 - 1 - i))" if "i < 4" for i and w :: u32
    by (rule byte_digit) (use that in simp)
  then show ?thesis unfolding digest_of_def be_bytes_def
    by (intro arg_cong [of _ _ concat] map_cong refl) simp
qed

section \<open>The schedule, the rounds, the blocks\<close>

lemma schedule_standard:
  assumes M: "\<forall>t<16. be32 d (4 * t) = M t"
  shows "schedule d = map (W_sched M) [0..<64]"
proof -
  have "((\<lambda>m. m @ [next_m m]) ^^ k) (map (\<lambda>i. be32 d (4 * i)) [0..<16]) = map (W_sched M) [0..<16 + k]" for k
  proof (induction k)
    case 0
    show ?case using M by (simp add: W_sched.simps)
  next
    case (Suc k)
    have "next_m (map (W_sched M) [0..<16 + k]) = W_sched M (16 + k)"
      by (simp add: next_m_def logical_standard W_sched.simps [of M "16 + k"])
    moreover have "map (W_sched M) [0..<16 + Suc k] = map (W_sched M) [0..<16 + k] @ [W_sched M (16 + k)]"
      by (simp only: add_Suc_right upt_Suc) simp
    ultimately show ?case using Suc by (simp only: funpow.simps o_apply)
  qed
  from this [of 48] show ?thesis by (simp add: schedule_def)
qed

lemma sha_round_standard:
  "sha_round (K_const t, W_sched M t) (hash_words v) = hash_words (fips_step M t v)"
  by (cases v rule: hash_words.cases) (simp add: sha_round_def logical_standard Let_def)

lemma rounds_standard:
  "fold sha_round (zip (map K_const [0..<n]) (map (W_sched M) [0..<n])) (hash_words v) = hash_words (fips_rounds M n v)"
  by (induction n) (simp_all add: sha_round_standard)

lemma compress_standard:
  assumes "\<forall>t<16. be32 d (4 * t) = M t"
  shows "compress (hash_words H) d = hash_words (fips_block M H)"
proof -
  obtain R where R: "fips_rounds M 64 H = R" by blast
  have "compress (hash_words H) d = map2 (+) (hash_words H) (hash_words R)"
    by (simp only: compress_def sha_k_standard schedule_standard [OF assms] rounds_standard R)
  also have "\<dots> = hash_words (add_hash R H)" by (cases H rule: hash_words.cases; cases R rule: hash_words.cases) (simp add: add.commute)
  finally show ?thesis by (simp only: fips_block_def R)
qed

lemma blocks_standard:
  "64 * n \<le> length pm \<Longrightarrow> foldl compress sha256_H0 (blocks (take (64 * n) pm)) = hash_words (fips_blocks pm n)"
proof (induction n)
  case 0
  show ?case by (simp add: sha256_H0_standard)
next
  case (Suc n)
  let ?b = "take 64 (drop (64 * n) pm)"
  have lb: "length ?b = 64" and l: "length (take (64 * n) pm) = 64 * n" using Suc.prems by simp_all
  have "take (64 * Suc n) pm = take (64 * n) pm @ ?b"
    using take_add [of "64 * n" 64 pm] by (simp only: mult_Suc_right add.commute)
  then have "blocks (take (64 * Suc n) pm) = blocks (take (64 * n) pm) @ [?b]"
    using blocks_append [of "take (64 * n) pm" ?b] blocks_cons [OF lb, of "[]"] l by simp
  moreover have "be32 ?b (4 * t) = block_word pm n t" if "t < 16" for t
    using be32_standard [of "4 * t" ?b] lb that Suc.prems
    by (simp add: block_word_def drop_take add.commute min_def)
  ultimately show ?case using Suc.IH Suc.prems compress_standard by simp
qed

lemma pad_standard: "sha_pad m = fips_pad m"
proof -
  define r where "r = length m mod 64"
  have r: "r < 64" by (simp add: r_def)
  have "length m = r + 64 * (length m div 64)" by (simp add: r_def)
  then have "447 - int (8 * length m) = (447 - 8 * int r) + 512 * (- int (length m div 64))" by linarith
  then have z: "(447 - int (8 * length m)) mod 512 = (447 - 8 * int r) mod 512" by (simp only: mod_mult_self2)
  have "(zero_bits (8 * length m) - 7) div 8 = (119 - r) mod 64"
  proof (cases "r < 56")
    case True
    then have "zero_bits (8 * length m) = 447 - 8 * r" unfolding zero_bits_def z by simp
    moreover have "447 - 8 * r - 7 = 8 * (55 - r)" using True by linarith
    ultimately show ?thesis using True by (simp add: mod_if)
  next
    case False
    have "(447 - 8 * int r) mod 512 = (447 - 8 * int r + 512) mod 512" by (simp only: mod_add_self2)
    also have "447 - 8 * int r + 512 = 959 - 8 * int r" by simp
    also have "\<dots> mod 512 = 959 - 8 * int r" using False r by simp
    finally have "zero_bits (8 * length m) = 959 - 8 * r" unfolding zero_bits_def z by simp
    moreover have "959 - 8 * r - 7 = 8 * (119 - r)" using r by linarith
    ultimately show ?thesis using False r by (simp add: mod_if)
  qed
  then show ?thesis using be64_standard [of "8 * length m"] by (simp add: sha_pad_def fips_pad_def r_def)
qed

lemma length_sha_pad: "64 dvd length (sha_pad m)"
proof -
  define r where "r = length m mod 64"
  have r: "r < 64" by (simp add: r_def)
  have l: "length (sha_pad m) = length m + 9 + (119 - r) mod 64" by (simp add: sha_pad_def r_def)
  have "(119 - r) mod 64 = (if r < 56 then 55 - r else 119 - r)" using r by (simp add: mod_if)
  moreover have "length m = r + 64 * (length m div 64)" by (simp add: r_def)
  ultimately have "length (sha_pad m) = 64 * (length m div 64) + (if r < 56 then 64 else 128)"
    using l r by (simp split: if_splits)
  then show ?thesis by (simp split: if_splits)
qed

text \<open>The folded compression is the hash of the standard.\<close>

lemma folded_hash_standard: "folded_hash m = sha256 m"
proof -
  let ?n = "length (sha_pad m) div 64"
  have n: "64 * ?n = length (sha_pad m)" using length_sha_pad [of m] by simp
  then have "foldl compress sha256_H0 (blocks (sha_pad m)) = hash_words (fips_blocks (sha_pad m) ?n)"
    using blocks_standard [of ?n "sha_pad m"] by simp
  then show ?thesis by (simp only: folded_hash_def sha256_def digest_standard pad_standard)
qed

lemma sha_rep_final: "sha_rep m ctx \<Longrightarrow> snd (sha256_final ctx) = sha256 m"
  by (simp only: sha_rep_folded folded_hash_standard)

text \<open>A digest has 32 bytes.\<close>

lemma length_sha256: "length (sha256 m) = 32"
proof -
  have "length (hash_words v) = 8" for v by (cases v rule: hash_words.cases) simp
  moreover have "length (concat (map (\<lambda>w. be_bytes 4 (unat w)) ws)) = 4 * length ws" for ws :: "u32 list"
    by (induction ws) (simp_all add: be_bytes_def)
  ultimately show ?thesis by (simp add: sha256_def)
qed

section \<open>A test vector\<close>

text \<open>Evaluation on numerals: a word keeps its 32 bits, a rotation is a division.\<close>

definition cut :: "u32 \<Rightarrow> u32" where
  "cut w = w"

lemma cut_of_nat: "(word_of_nat (m mod 4294967296) :: u32) = word_of_nat m"
  by (simp add: word_unat_eq_iff unsigned_of_nat take_bit_eq_mod)

lemma cut_numeral: "cut (numeral n) = word_of_nat (numeral n mod 4294967296)"
  unfolding cut_of_nat cut_def by (simp only: of_nat_numeral)

lemma ROTRIGHT_numeral:
  assumes "(numeral x :: nat) < 4294967296" and "n < 32"
  shows "ROTRIGHT (numeral x) n = word_of_nat (numeral x div 2 ^ n + numeral x mod 2 ^ n * 2 ^ (32 - n))"
proof -
  define m where "m = (numeral x :: nat)"
  have u: "unat (numeral x :: u32) = m" unfolding unat_numeral m_def using assms(1) by (intro mod_less) simp
  have nat: "y = word_of_nat (unat y)" for y :: u32 by simp
  then have w: "(numeral x :: u32) = word_of_nat m" using u by metis
  have z: "(word_of_nat (k * 4294967296) :: u32) = 0" for k
    unfolding of_nat_0 by (intro exI [of _ k]) simp
  have p: "2 ^ n * 2 ^ (32 - n) = (4294967296 :: nat)" using assms(2) by (simp flip: power_add)
  have "m * 2 ^ (32 - n) = (m div 2 ^ n) * (2 ^ n * 2 ^ (32 - n)) + m mod 2 ^ n * 2 ^ (32 - n)"
    by (metis add_mult_distrib div_mult_mod_eq mult.assoc)
  then have "(word_of_nat (m * 2 ^ (32 - n)) :: u32) = word_of_nat (m mod 2 ^ n * 2 ^ (32 - n))"
    unfolding p using z by simp
  then have ps: "push_bit (32 - n) (word_of_nat m :: u32) = word_of_nat (m mod 2 ^ n * 2 ^ (32 - n))"
    by (simp add: push_bit_eq_mult)
  have dr: "drop_bit n (word_of_nat m :: u32) = word_of_nat (m div 2 ^ n)"
  proof -
    have "unat (drop_bit n (numeral x :: u32)) = m div 2 ^ n" by (simp only: unat_drop_bit_eq u) (simp add: drop_bit_eq_div)
    then show ?thesis using nat unfolding w by metis
  qed
  have "drop_bit n (numeral x :: u32) AND push_bit (32 - n) (numeral x) = 0"
    by (auto simp: bit_eq_iff bit_simps dest: bit_imp_le_length)
  then have "ROTRIGHT (numeral x) n = drop_bit n (numeral x) + push_bit (32 - n) (numeral x)"
    by (simp only: ROTRIGHT_def disjunctive_add_eq_or)
  then have "ROTRIGHT (numeral x) n = word_of_nat (m div 2 ^ n) + word_of_nat (m mod 2 ^ n * 2 ^ (32 - n))"
    by (simp only: w ps dr)
  then show ?thesis by (simp only: of_nat_add m_def)
qed

lemma numeral_zero: "ROTRIGHT 0 n = 0" "cut 0 = 0"
  by (simp_all add: ROTRIGHT_def cut_def)

primrec grow :: "nat \<Rightarrow> u32 list \<Rightarrow> u32 list" where
  "grow 0 m = m" |
  "grow (Suc n) m = grow n (m @ [cut (next_m m)])"

lemma grow_numeral: "grow (numeral n) m = grow (pred_numeral n) (m @ [cut (next_m m)])"
  by (simp add: numeral_eq_Suc)

lemma schedule_grow: "schedule d = grow 48 (map (\<lambda>i. be32 d (4 * i)) [0..<16])"
proof -
  have "grow n m = ((\<lambda>m. m @ [next_m m]) ^^ n) m" for n m
    by (induction n arbitrary: m) (simp_all add: cut_def funpow_Suc_right del: funpow.simps(2))
  then show ?thesis by (simp add: schedule_def)
qed

definition next_vars :: "u32 \<Rightarrow> u32 \<Rightarrow> u32 \<Rightarrow> u32 \<Rightarrow> u32 \<Rightarrow> u32 \<Rightarrow> u32 \<Rightarrow> u32 \<Rightarrow> u32 \<Rightarrow> u32 list" where
  "next_vars a b c d e f g t1 t2 = [cut (t1 + t2), a, b, c, cut (d + t1), e, f, g]"

lemma sha_round_vars: "sha_round (k, w) [a, b, c, d, e, f, g, h]
   = next_vars a b c d e f g (cut (h + EP1 e + CH e f g + k + w)) (EP0 a + MAJ a b c)"
  by (simp add: sha_round_def next_vars_def cut_def Let_def)

definition abc_block :: bytes where
  "abc_block = [0x61, 0x62, 0x63, 0x80, 0x0, 0x0, 0x0, 0x0, 0x0, 0x0, 0x0, 0x0, 0x0, 0x0, 0x0, 0x0,
     0x0, 0x0, 0x0, 0x0, 0x0, 0x0, 0x0, 0x0, 0x0, 0x0, 0x0, 0x0, 0x0, 0x0, 0x0, 0x0,
     0x0, 0x0, 0x0, 0x0, 0x0, 0x0, 0x0, 0x0, 0x0, 0x0, 0x0, 0x0, 0x0, 0x0, 0x0, 0x0,
     0x0, 0x0, 0x0, 0x0, 0x0, 0x0, 0x0, 0x0, 0x0, 0x0, 0x0, 0x0, 0x0, 0x0, 0x0, 0x18]"

definition abc_schedule :: "u32 list" where
  "abc_schedule = [0x61626380, 0x0, 0x0, 0x0, 0x0, 0x0, 0x0, 0x0,
     0x0, 0x0, 0x0, 0x0, 0x0, 0x0, 0x0, 0x18,
     0x61626380, 0xf0000, 0x7da86405, 0x600003c6, 0x3e9d7b78, 0x183fc00, 0x12dcbfdb, 0xe2e2c38e,
     0xc8215c1a, 0xb73679a2, 0xe5bc3909, 0x32663c5b, 0x9d209d67, 0xec8726cb, 0x702138a4, 0xd3b7973b,
     0x93f5997f, 0x3b68ba73, 0xaff4ffc1, 0xf10a5c62, 0xa8b3996, 0x72af830a, 0x9409e33e, 0x24641522,
     0x9f47bf94, 0xf0a64f5a, 0x3e246a79, 0x27333ba3, 0xc4763f2, 0x840abf27, 0x7a290d5d, 0x65c43da,
     0xfb3e89cb, 0xcc7617db, 0xb9e66c34, 0xa9993667, 0x84badedd, 0xc21462bc, 0x1487472c, 0xb20f7a99,
     0xef57b9cd, 0xebe6b238, 0x9fe3095e, 0x78bc8d4b, 0xa43fcf15, 0x668b2ff8, 0xeeaba2cc, 0x12b1edeb]"

lemma abc_scheduled: "schedule abc_block = abc_schedule"
proof -
  have "[0..<16] = [0, 1, 2, 3, 4, 5, 6, 7, 8, 9, 10, 11, 12, 13, 14, 15 :: nat]" by (simp add: upt_conv_Cons)
  then have "map (\<lambda>i. be32 abc_block (4 * i)) [0..<16] = [0x61626380, 0x0, 0x0, 0x0, 0x0, 0x0, 0x0, 0x0,
     0x0, 0x0, 0x0, 0x0, 0x0, 0x0, 0x0, 0x18]"
    by (simp add: be32_def abc_block_def)
  then show ?thesis unfolding schedule_grow abc_schedule_def
    by (simp add: grow_numeral cut_numeral numeral_zero next_m_def SIG0_def SIG1_def ROTRIGHT_numeral)
qed

text \<open>The sixty-four rounds, eight at a time.\<close>

lemma abc_rounds:
  "fold sha_round
      [(0x428a2f98, 0x61626380), (0x71374491, 0x0), (0xb5c0fbcf, 0x0), (0xe9b5dba5, 0x0),
       (0x3956c25b, 0x0), (0x59f111f1, 0x0), (0x923f82a4, 0x0), (0xab1c5ed5, 0x0)]
      [0x6a09e667, 0xbb67ae85, 0x3c6ef372, 0xa54ff53a, 0x510e527f, 0x9b05688c, 0x1f83d9ab, 0x5be0cd19]
     = [0x85a07b5f, 0xe5030380, 0x2b4209f5, 0x4409a6a, 0xc657a79, 0x9b27a401, 0x714260ad, 0x43ada245]"
  "fold sha_round
      [(0xd807aa98, 0x0), (0x12835b01, 0x0), (0x243185be, 0x0), (0x550c7dc3, 0x0),
       (0x72be5d74, 0x0), (0x80deb1fe, 0x0), (0x9bdc06a7, 0x0), (0xc19bf174, 0x18)]
      [0x85a07b5f, 0xe5030380, 0x2b4209f5, 0x4409a6a, 0xc657a79, 0x9b27a401, 0x714260ad, 0x43ada245]
     = [0xb0fa238e, 0xc0645fde, 0xd932eb16, 0x87912990, 0x7590dcd, 0xb92f20c, 0x745a48de, 0x1e578218]"
  "fold sha_round
      [(0xe49b69c1, 0x61626380), (0xefbe4786, 0xf0000), (0xfc19dc6, 0x7da86405), (0x240ca1cc, 0x600003c6),
       (0x2de92c6f, 0x3e9d7b78), (0x4a7484aa, 0x183fc00), (0x5cb0a9dc, 0x12dcbfdb), (0x76f988da, 0xe2e2c38e)]
      [0xb0fa238e, 0xc0645fde, 0xd932eb16, 0x87912990, 0x7590dcd, 0xb92f20c, 0x745a48de, 0x1e578218]
     = [0xc5d53d8d, 0xa7a3623f, 0xc2606d6d, 0x9dc68b63, 0xaa47c347, 0x49f5114a, 0xe1257970, 0x8ada8930]"
  "fold sha_round
      [(0x983e5152, 0xc8215c1a), (0xa831c66d, 0xb73679a2), (0xb00327c8, 0xe5bc3909), (0xbf597fc7, 0x32663c5b),
       (0xc6e00bf3, 0x9d209d67), (0xd5a79147, 0xec8726cb), (0x6ca6351, 0x702138a4), (0x14292967, 0xd3b7973b)]
      [0xc5d53d8d, 0xa7a3623f, 0xc2606d6d, 0x9dc68b63, 0xaa47c347, 0x49f5114a, 0xe1257970, 0x8ada8930]
     = [0x73b33bf5, 0xea992a22, 0xa0060b30, 0x363482c9, 0xba591112, 0x109ab3a, 0xade79437, 0x6112a3b7]"
  "fold sha_round
      [(0x27b70a85, 0x93f5997f), (0x2e1b2138, 0x3b68ba73), (0x4d2c6dfc, 0xaff4ffc1), (0x53380d13, 0xf10a5c62),
       (0x650a7354, 0xa8b3996), (0x766a0abb, 0x72af830a), (0x81c2c92e, 0x9409e33e), (0x92722c85, 0x24641522)]
      [0x73b33bf5, 0xea992a22, 0xa0060b30, 0x363482c9, 0xba591112, 0x109ab3a, 0xade79437, 0x6112a3b7]
     = [0x79ea687a, 0x6dc57a8a, 0x34df1604, 0x41a65cb1, 0x1efbc0a0, 0xf0781bc8, 0xa507a53d, 0x772a26b]"
  "fold sha_round
      [(0xa2bfe8a1, 0x9f47bf94), (0xa81a664b, 0xf0a64f5a), (0xc24b8b70, 0x3e246a79), (0xc76c51a3, 0x27333ba3),
       (0xd192e819, 0xc4763f2), (0xd6990624, 0x840abf27), (0xf40e3585, 0x7a290d5d), (0x106aa070, 0x65c43da)]
      [0x79ea687a, 0x6dc57a8a, 0x34df1604, 0x41a65cb1, 0x1efbc0a0, 0xf0781bc8, 0xa507a53d, 0x772a26b]
     = [0x4172328d, 0xa14c14b0, 0x72ab4b91, 0x26628815, 0xfecf0bc6, 0xd57b94a9, 0xb7755da1, 0xa80f11f0]"
  "fold sha_round
      [(0x19a4c116, 0xfb3e89cb), (0x1e376c08, 0xcc7617db), (0x2748774c, 0xb9e66c34), (0x34b0bcb5, 0xa9993667),
       (0x391c0cb3, 0x84badedd), (0x4ed8aa4a, 0xc21462bc), (0x5b9cca4f, 0x1487472c), (0x682e6ff3, 0xb20f7a99)]
      [0x4172328d, 0xa14c14b0, 0x72ab4b91, 0x26628815, 0xfecf0bc6, 0xd57b94a9, 0xb7755da1, 0xa80f11f0]
     = [0x38cc9913, 0x3ec45cdb, 0xf5702fdb, 0x101fd28f, 0x54cb266b, 0xe50e1b4f, 0x9f4787c3, 0x529e7d00]"
  "fold sha_round
      [(0x748f82ee, 0xef57b9cd), (0x78a5636f, 0xebe6b238), (0x84c87814, 0x9fe3095e), (0x8cc70208, 0x78bc8d4b),
       (0x90befffa, 0xa43fcf15), (0xa4506ceb, 0x668b2ff8), (0xbef9a3f7, 0xeeaba2cc), (0xc67178f2, 0x12b1edeb)]
      [0x38cc9913, 0x3ec45cdb, 0xf5702fdb, 0x101fd28f, 0x54cb266b, 0xe50e1b4f, 0x9f4787c3, 0x529e7d00]
     = [0x506e3058, 0xd39a2165, 0x4d24d6c, 0xb85e2ce9, 0x5ef50f24, 0xfb121210, 0x948d25b6, 0x961f4894]"
  by (simp_all add: sha_round_vars next_vars_def cut_numeral CH_def MAJ_def EP0_def EP1_def ROTRIGHT_numeral)

lemma abc_compressed: "compress sha256_H0 abc_block = [0xba7816bf, 0x8f01cfea, 0x414140de, 0x5dae2223, 0xb00361a3, 0x96177a9c, 0xb410ff61, 0xf20015ad]"
proof -
  let ?st = "[0x506e3058, 0xd39a2165, 0x4d24d6c, 0xb85e2ce9, 0x5ef50f24, 0xfb121210, 0x948d25b6, 0x961f4894] :: u32 list"
  have "zip sha_k abc_schedule =
      [(0x428a2f98, 0x61626380), (0x71374491, 0x0), (0xb5c0fbcf, 0x0), (0xe9b5dba5, 0x0),
       (0x3956c25b, 0x0), (0x59f111f1, 0x0), (0x923f82a4, 0x0), (0xab1c5ed5, 0x0)] @
      [(0xd807aa98, 0x0), (0x12835b01, 0x0), (0x243185be, 0x0), (0x550c7dc3, 0x0),
       (0x72be5d74, 0x0), (0x80deb1fe, 0x0), (0x9bdc06a7, 0x0), (0xc19bf174, 0x18)] @
      [(0xe49b69c1, 0x61626380), (0xefbe4786, 0xf0000), (0xfc19dc6, 0x7da86405), (0x240ca1cc, 0x600003c6),
       (0x2de92c6f, 0x3e9d7b78), (0x4a7484aa, 0x183fc00), (0x5cb0a9dc, 0x12dcbfdb), (0x76f988da, 0xe2e2c38e)] @
      [(0x983e5152, 0xc8215c1a), (0xa831c66d, 0xb73679a2), (0xb00327c8, 0xe5bc3909), (0xbf597fc7, 0x32663c5b),
       (0xc6e00bf3, 0x9d209d67), (0xd5a79147, 0xec8726cb), (0x6ca6351, 0x702138a4), (0x14292967, 0xd3b7973b)] @
      [(0x27b70a85, 0x93f5997f), (0x2e1b2138, 0x3b68ba73), (0x4d2c6dfc, 0xaff4ffc1), (0x53380d13, 0xf10a5c62),
       (0x650a7354, 0xa8b3996), (0x766a0abb, 0x72af830a), (0x81c2c92e, 0x9409e33e), (0x92722c85, 0x24641522)] @
      [(0xa2bfe8a1, 0x9f47bf94), (0xa81a664b, 0xf0a64f5a), (0xc24b8b70, 0x3e246a79), (0xc76c51a3, 0x27333ba3),
       (0xd192e819, 0xc4763f2), (0xd6990624, 0x840abf27), (0xf40e3585, 0x7a290d5d), (0x106aa070, 0x65c43da)] @
      [(0x19a4c116, 0xfb3e89cb), (0x1e376c08, 0xcc7617db), (0x2748774c, 0xb9e66c34), (0x34b0bcb5, 0xa9993667),
       (0x391c0cb3, 0x84badedd), (0x4ed8aa4a, 0xc21462bc), (0x5b9cca4f, 0x1487472c), (0x682e6ff3, 0xb20f7a99)] @
      [(0x748f82ee, 0xef57b9cd), (0x78a5636f, 0xebe6b238), (0x84c87814, 0x9fe3095e), (0x8cc70208, 0x78bc8d4b),
       (0x90befffa, 0xa43fcf15), (0xa4506ceb, 0x668b2ff8), (0xbef9a3f7, 0xeeaba2cc), (0xc67178f2, 0x12b1edeb)]"
    by (simp add: sha_k_def abc_schedule_def)
  then have "fold sha_round (zip sha_k abc_schedule) sha256_H0 = ?st"
    by (simp only: fold_append o_apply sha256_H0_def abc_rounds)
  then have "compress sha256_H0 abc_block = map2 (+) sha256_H0 ?st"
    by (simp only: compress_def abc_scheduled)
  also have "map2 (+) sha256_H0 ?st = map cut (map2 (+) sha256_H0 ?st)"
    by (simp add: sha256_H0_def cut_def)
  finally show ?thesis by (simp add: sha256_H0_def cut_numeral)
qed

lemma be_bytes_word: "be_bytes 4 n =
  [word_of_nat (n div 16777216 mod 256), word_of_nat (n div 65536 mod 256), word_of_nat (n div 256 mod 256), word_of_nat (n mod 256)]"
proof -
  have "[0..<4] = [0, 1, 2, 3 :: nat]" by (simp add: upt_conv_Cons)
  moreover have "(word_of_nat (m mod 256) :: u8) = word_of_nat m" for m
    by (simp add: word_unat_eq_iff unsigned_of_nat take_bit_eq_mod)
  ultimately show ?thesis by (simp add: be_bytes_def)
qed

lemma abc_digest: "sha256 [0x61, 0x62, 0x63] = [0xba, 0x78, 0x16, 0xbf, 0x8f, 0x01, 0xcf, 0xea, 0x41, 0x41, 0x40, 0xde, 0x5d, 0xae, 0x22, 0x23,
      0xb0, 0x03, 0x61, 0xa3, 0x96, 0x17, 0x7a, 0x9c, 0xb4, 0x10, 0xff, 0x61, 0xf2, 0x00, 0x15, 0xad]"
proof -
  have "sha_pad [0x61, 0x62, 0x63] = abc_block" by code_simp
  moreover have "blocks abc_block = [abc_block]"
    using blocks_cons [of abc_block "[]"] by (simp add: abc_block_def)
  ultimately have "sha256 [0x61, 0x62, 0x63] = digest_of (compress sha256_H0 abc_block)"
    unfolding folded_hash_standard [symmetric] folded_hash_def by simp
  then show ?thesis unfolding abc_compressed digest_standard
    by (simp add: be_bytes_word unat_numeral)
qed

section \<open>The streaming interface\<close>

text \<open>C17: the hash of a message given to \<open>sha256_update\<close> in any pieces is the FIPS 180-4 hash of the
  whole message.\<close>

theorem sha256_streams:
  assumes "length (data ctx) = 64"
  shows "snd (sha256_final (fold sha256_update pieces (sha256_init ctx))) = sha256 (concat pieces)"
proof -
  have "sha_rep (m @ concat pieces) (fold sha256_update pieces c)" if "sha_rep m c" for m c
    using that
  proof (induction pieces arbitrary: m c)
    case (Cons d ds)
    from Cons.IH [OF sha_rep_update [OF Cons.prems, of d]] show ?case by simp
  qed simp
  from sha_rep_final [OF this [OF sha_rep_init [OF assms]]] show ?thesis by simp
qed

text \<open>The test vector of the standard for the three bytes "abc", given in two pieces to a context that
  held something else before.\<close>

theorem sha256_streams_witness:
  "snd (sha256_final (sha256_update [0x62, 0x63] (sha256_update [0x61]
     (sha256_init \<lparr>data = replicate 64 7, datalen = 3, bitlen = 5, state = []\<rparr>)))) = sha256 [0x61, 0x62, 0x63]
   \<and> sha256 [0x61, 0x62, 0x63] = [0xba, 0x78, 0x16, 0xbf, 0x8f, 0x01, 0xcf, 0xea, 0x41, 0x41, 0x40, 0xde, 0x5d, 0xae, 0x22, 0x23,
      0xb0, 0x03, 0x61, 0xa3, 0x96, 0x17, 0x7a, 0x9c, 0xb4, 0x10, 0xff, 0x61, 0xf2, 0x00, 0x15, 0xad]"
  using sha256_streams [of "\<lparr>data = replicate 64 7, datalen = 3, bitlen = 5, state = []\<rparr>" "[[0x61], [0x62, 0x63]]"]
    abc_digest by simp

end
