(* ===== verification/Aes256.thy ===== *)
theory Aes256
  imports Prelude
begin

text \<open>
  AES-256 in CBC mode with PKCS7 padding (\<open>discord/utils/aes256_cbc.c\<close>) and the hexadecimal text of
  the ciphertext. A block is the list of its 16 bytes, the expanded key the list of its 60 words.

  The second half is a decryption that the program does not have, the reference the encryption is
  proved against: every step of a block has an inverse, and CBC decryption after encryption gives
  the message back, so that the server can recover what the client authenticated.
\<close>

section \<open>The block cipher\<close>

definition sbox :: "u8 list" where
  "sbox = [
     0x63, 0x7c, 0x77, 0x7b, 0xf2, 0x6b, 0x6f, 0xc5, 0x30, 0x01, 0x67, 0x2b, 0xfe, 0xd7, 0xab, 0x76,
     0xca, 0x82, 0xc9, 0x7d, 0xfa, 0x59, 0x47, 0xf0, 0xad, 0xd4, 0xa2, 0xaf, 0x9c, 0xa4, 0x72, 0xc0,
     0xb7, 0xfd, 0x93, 0x26, 0x36, 0x3f, 0xf7, 0xcc, 0x34, 0xa5, 0xe5, 0xf1, 0x71, 0xd8, 0x31, 0x15,
     0x04, 0xc7, 0x23, 0xc3, 0x18, 0x96, 0x05, 0x9a, 0x07, 0x12, 0x80, 0xe2, 0xeb, 0x27, 0xb2, 0x75,
     0x09, 0x83, 0x2c, 0x1a, 0x1b, 0x6e, 0x5a, 0xa0, 0x52, 0x3b, 0xd6, 0xb3, 0x29, 0xe3, 0x2f, 0x84,
     0x53, 0xd1, 0x00, 0xed, 0x20, 0xfc, 0xb1, 0x5b, 0x6a, 0xcb, 0xbe, 0x39, 0x4a, 0x4c, 0x58, 0xcf,
     0xd0, 0xef, 0xaa, 0xfb, 0x43, 0x4d, 0x33, 0x85, 0x45, 0xf9, 0x02, 0x7f, 0x50, 0x3c, 0x9f, 0xa8,
     0x51, 0xa3, 0x40, 0x8f, 0x92, 0x9d, 0x38, 0xf5, 0xbc, 0xb6, 0xda, 0x21, 0x10, 0xff, 0xf3, 0xd2,
     0xcd, 0x0c, 0x13, 0xec, 0x5f, 0x97, 0x44, 0x17, 0xc4, 0xa7, 0x7e, 0x3d, 0x64, 0x5d, 0x19, 0x73,
     0x60, 0x81, 0x4f, 0xdc, 0x22, 0x2a, 0x90, 0x88, 0x46, 0xee, 0xb8, 0x14, 0xde, 0x5e, 0x0b, 0xdb,
     0xe0, 0x32, 0x3a, 0x0a, 0x49, 0x06, 0x24, 0x5c, 0xc2, 0xd3, 0xac, 0x62, 0x91, 0x95, 0xe4, 0x79,
     0xe7, 0xc8, 0x37, 0x6d, 0x8d, 0xd5, 0x4e, 0xa9, 0x6c, 0x56, 0xf4, 0xea, 0x65, 0x7a, 0xae, 0x08,
     0xba, 0x78, 0x25, 0x2e, 0x1c, 0xa6, 0xb4, 0xc6, 0xe8, 0xdd, 0x74, 0x1f, 0x4b, 0xbd, 0x8b, 0x8a,
     0x70, 0x3e, 0xb5, 0x66, 0x48, 0x03, 0xf6, 0x0e, 0x61, 0x35, 0x57, 0xb9, 0x86, 0xc1, 0x1d, 0x9e,
     0xe1, 0xf8, 0x98, 0x11, 0x69, 0xd9, 0x8e, 0x94, 0x9b, 0x1e, 0x87, 0xe9, 0xce, 0x55, 0x28, 0xdf,
     0x8c, 0xa1, 0x89, 0x0d, 0xbf, 0xe6, 0x42, 0x68, 0x41, 0x99, 0x2d, 0x0f, 0xb0, 0x54, 0xbb, 0x16]"

definition Rcon :: "u8 list" where
  "Rcon = [0x00, 0x01, 0x02, 0x04, 0x08, 0x10, 0x20, 0x40, 0x80, 0x1b, 0x36]"

definition xtime :: "u8 \<Rightarrow> u8" where
  "xtime a = push_bit 1 a XOR ((drop_bit 7 a AND 1) * 0x1b)"

definition gmult_step :: "u8 \<times> u8 \<times> u8 \<Rightarrow> u8 \<times> u8 \<times> u8" where
  "gmult_step = (\<lambda>(result, a, b). (if b AND 1 \<noteq> 0 then result XOR a else result, xtime a, drop_bit 1 b))"

definition gmult :: "u8 \<Rightarrow> u8 \<Rightarrow> u8" where
  "gmult a b = fst ((gmult_step ^^ 8) (0, a, b))"

definition sub_bytes :: "bytes \<Rightarrow> bytes" where
  "sub_bytes st = map (\<lambda>b. sbox ! unat b) st"

text \<open>The three rotations of the rows, as the assignments leave them.\<close>

definition shift_rows :: "bytes \<Rightarrow> bytes" where
  "shift_rows st =
     [st ! 0, st ! 5, st ! 10, st ! 15, st ! 4, st ! 9, st ! 14, st ! 3,
      st ! 8, st ! 13, st ! 2, st ! 7, st ! 12, st ! 1, st ! 6, st ! 11]"

definition mix_column :: "u8 \<Rightarrow> u8 \<Rightarrow> u8 \<Rightarrow> u8 \<Rightarrow> bytes" where
  "mix_column a0 a1 a2 a3 =
     [gmult a0 2 XOR gmult a1 3 XOR a2 XOR a3,
      a0 XOR gmult a1 2 XOR gmult a2 3 XOR a3,
      a0 XOR a1 XOR gmult a2 2 XOR gmult a3 3,
      gmult a0 3 XOR a1 XOR a2 XOR gmult a3 2]"

definition mix_columns :: "bytes \<Rightarrow> bytes" where
  "mix_columns st = concat (map (\<lambda>i. mix_column (st ! (i * 4)) (st ! (i * 4 + 1)) (st ! (i * 4 + 2)) (st ! (i * 4 + 3))) [0..<4])"

text \<open>The four words of a round key, byte by byte.\<close>

definition key_bytes :: "u32 list \<Rightarrow> bytes" where
  "key_bytes rk = concat (map (\<lambda>w. [ucast (drop_bit 24 w), ucast (drop_bit 16 w), ucast (drop_bit 8 w), ucast w]) (take 4 rk))"

definition add_round_key :: "bytes \<Rightarrow> u32 list \<Rightarrow> bytes" where
  "add_round_key st rk = map2 (XOR) st (key_bytes rk)"

section \<open>The key schedule\<close>

definition sub_word :: "u32 \<Rightarrow> u32" where
  "sub_word temp =
     push_bit 24 (ucast (sbox ! unat (drop_bit 24 temp AND 0xff))) OR
     push_bit 16 (ucast (sbox ! unat (drop_bit 16 temp AND 0xff))) OR
     push_bit 8 (ucast (sbox ! unat (drop_bit 8 temp AND 0xff))) OR
     ucast (sbox ! unat (temp AND 0xff))"

definition key_word :: "u8 list \<Rightarrow> nat \<Rightarrow> u32" where
  "key_word key i =
     push_bit 24 (ucast (key ! (4 * i))) OR push_bit 16 (ucast (key ! (4 * i + 1))) OR
     push_bit 8 (ucast (key ! (4 * i + 2))) OR ucast (key ! (4 * i + 3))"

definition next_word :: "u32 list \<Rightarrow> u32" where
  "next_word rk =
     (let i = length rk; temp = rk ! (i - 1);
          temp = (if i mod 8 = 0 then sub_word (push_bit 8 temp OR drop_bit 24 temp) XOR push_bit 24 (ucast (Rcon ! (i div 8)))
                  else if i mod 8 = 4 then sub_word temp else temp)
      in rk ! (i - 8) XOR temp)"

definition key_expansion :: "bytes \<Rightarrow> u32 list" where
  "key_expansion key = ((\<lambda>rk. rk @ [next_word rk]) ^^ 52) (map (key_word key) [0..<8])"

definition aes_round :: "u32 list \<Rightarrow> nat \<Rightarrow> bytes \<Rightarrow> bytes" where
  "aes_round rk i st = add_round_key (mix_columns (shift_rows (sub_bytes st))) (drop (i * 4) rk)"

definition aes256_encrypt_block :: "u32 list \<Rightarrow> bytes \<Rightarrow> bytes" where
  "aes256_encrypt_block rk block =
     (let st = fold (aes_round rk) [1..<14] (add_round_key block rk)
      in add_round_key (shift_rows (sub_bytes st)) (drop (14 * 4) rk))"

section \<open>CBC with padding\<close>

text \<open>Byte \<open>j\<close> of block \<open>i\<close>: of the input, or padding.\<close>

definition padded_byte :: "bytes \<Rightarrow> u8 \<Rightarrow> nat \<Rightarrow> u8" where
  "padded_byte input padval n = (if n < length input then input ! n else padval)"

definition cbc_buffer :: "bytes \<Rightarrow> u8 \<Rightarrow> bytes \<Rightarrow> nat \<Rightarrow> bytes" where
  "cbc_buffer input padval chain i = map (\<lambda>j. padded_byte input padval (i * 16 + j) XOR chain ! j) [0..<16]"

fun cbc_loop :: "u32 list \<Rightarrow> bytes \<Rightarrow> u8 \<Rightarrow> nat list \<Rightarrow> bytes \<Rightarrow> bytes" where
  "cbc_loop rk input padval [] chain = []"
| "cbc_loop rk input padval (i # is) chain =
     (let buffer = aes256_encrypt_block rk (cbc_buffer input padval chain i)
      in buffer @ cbc_loop rk input padval is buffer)"

definition aes256_cbc_encrypt :: "bytes \<Rightarrow> bytes \<Rightarrow> bytes \<Rightarrow> bytes" where
  "aes256_cbc_encrypt key iv input =
     (let padval = word_of_nat (16 - length input mod 16); padded_len = length input + (16 - length input mod 16)
      in cbc_loop (key_expansion key) input padval [0..<padded_len div 16] (take 16 iv))"

definition hex_chars :: bytes where
  "hex_chars = [0x30, 0x31, 0x32, 0x33, 0x34, 0x35, 0x36, 0x37, 0x38, 0x39, 0x61, 0x62, 0x63, 0x64, 0x65, 0x66]"

text \<open>The text without its terminator.\<close>

definition bytes_to_hex :: "bytes \<Rightarrow> bytes" where
  "bytes_to_hex bs = concat (map (\<lambda>b. [hex_chars ! unat (drop_bit 4 b), hex_chars ! unat (b AND 0x0f)]) bs)"

definition aes256_cbc_encrypt_to_hex :: "bytes \<Rightarrow> bytes \<Rightarrow> bytes \<Rightarrow> bytes \<times> nat" where
  "aes256_cbc_encrypt_to_hex input key iv =
     (let buf = aes256_cbc_encrypt key iv input in (bytes_to_hex buf, length buf))"

section \<open>Reference decryption\<close>

definition inv_sbox :: "u8 list" where
  "inv_sbox = [
     0x52, 0x09, 0x6a, 0xd5, 0x30, 0x36, 0xa5, 0x38, 0xbf, 0x40, 0xa3, 0x9e, 0x81, 0xf3, 0xd7, 0xfb,
     0x7c, 0xe3, 0x39, 0x82, 0x9b, 0x2f, 0xff, 0x87, 0x34, 0x8e, 0x43, 0x44, 0xc4, 0xde, 0xe9, 0xcb,
     0x54, 0x7b, 0x94, 0x32, 0xa6, 0xc2, 0x23, 0x3d, 0xee, 0x4c, 0x95, 0x0b, 0x42, 0xfa, 0xc3, 0x4e,
     0x08, 0x2e, 0xa1, 0x66, 0x28, 0xd9, 0x24, 0xb2, 0x76, 0x5b, 0xa2, 0x49, 0x6d, 0x8b, 0xd1, 0x25,
     0x72, 0xf8, 0xf6, 0x64, 0x86, 0x68, 0x98, 0x16, 0xd4, 0xa4, 0x5c, 0xcc, 0x5d, 0x65, 0xb6, 0x92,
     0x6c, 0x70, 0x48, 0x50, 0xfd, 0xed, 0xb9, 0xda, 0x5e, 0x15, 0x46, 0x57, 0xa7, 0x8d, 0x9d, 0x84,
     0x90, 0xd8, 0xab, 0x00, 0x8c, 0xbc, 0xd3, 0x0a, 0xf7, 0xe4, 0x58, 0x05, 0xb8, 0xb3, 0x45, 0x06,
     0xd0, 0x2c, 0x1e, 0x8f, 0xca, 0x3f, 0x0f, 0x02, 0xc1, 0xaf, 0xbd, 0x03, 0x01, 0x13, 0x8a, 0x6b,
     0x3a, 0x91, 0x11, 0x41, 0x4f, 0x67, 0xdc, 0xea, 0x97, 0xf2, 0xcf, 0xce, 0xf0, 0xb4, 0xe6, 0x73,
     0x96, 0xac, 0x74, 0x22, 0xe7, 0xad, 0x35, 0x85, 0xe2, 0xf9, 0x37, 0xe8, 0x1c, 0x75, 0xdf, 0x6e,
     0x47, 0xf1, 0x1a, 0x71, 0x1d, 0x29, 0xc5, 0x89, 0x6f, 0xb7, 0x62, 0x0e, 0xaa, 0x18, 0xbe, 0x1b,
     0xfc, 0x56, 0x3e, 0x4b, 0xc6, 0xd2, 0x79, 0x20, 0x9a, 0xdb, 0xc0, 0xfe, 0x78, 0xcd, 0x5a, 0xf4,
     0x1f, 0xdd, 0xa8, 0x33, 0x88, 0x07, 0xc7, 0x31, 0xb1, 0x12, 0x10, 0x59, 0x27, 0x80, 0xec, 0x5f,
     0x60, 0x51, 0x7f, 0xa9, 0x19, 0xb5, 0x4a, 0x0d, 0x2d, 0xe5, 0x7a, 0x9f, 0x93, 0xc9, 0x9c, 0xef,
     0xa0, 0xe0, 0x3b, 0x4d, 0xae, 0x2a, 0xf5, 0xb0, 0xc8, 0xeb, 0xbb, 0x3c, 0x83, 0x53, 0x99, 0x61,
     0x17, 0x2b, 0x04, 0x7e, 0xba, 0x77, 0xd6, 0x26, 0xe1, 0x69, 0x14, 0x63, 0x55, 0x21, 0x0c, 0x7d]"

definition inv_sub_bytes :: "bytes \<Rightarrow> bytes" where
  "inv_sub_bytes st = map (\<lambda>b. inv_sbox ! unat b) st"

definition inv_shift_rows :: "bytes \<Rightarrow> bytes" where
  "inv_shift_rows st =
     [st ! 0, st ! 13, st ! 10, st ! 7, st ! 4, st ! 1, st ! 14, st ! 11,
      st ! 8, st ! 5, st ! 2, st ! 15, st ! 12, st ! 9, st ! 6, st ! 3]"

definition inv_mix_column :: "u8 \<Rightarrow> u8 \<Rightarrow> u8 \<Rightarrow> u8 \<Rightarrow> bytes" where
  "inv_mix_column a0 a1 a2 a3 =
     [gmult a0 14 XOR gmult a1 11 XOR gmult a2 13 XOR gmult a3 9,
      gmult a0 9 XOR gmult a1 14 XOR gmult a2 11 XOR gmult a3 13,
      gmult a0 13 XOR gmult a1 9 XOR gmult a2 14 XOR gmult a3 11,
      gmult a0 11 XOR gmult a1 13 XOR gmult a2 9 XOR gmult a3 14]"

definition inv_mix_columns :: "bytes \<Rightarrow> bytes" where
  "inv_mix_columns st = concat (map (\<lambda>i. inv_mix_column (st ! (i * 4)) (st ! (i * 4 + 1)) (st ! (i * 4 + 2)) (st ! (i * 4 + 3))) [0..<4])"

definition inv_aes_round :: "u32 list \<Rightarrow> nat \<Rightarrow> bytes \<Rightarrow> bytes" where
  "inv_aes_round rk i st = inv_sub_bytes (inv_shift_rows (inv_mix_columns (add_round_key st (drop (i * 4) rk))))"

definition aes256_decrypt_block :: "u32 list \<Rightarrow> bytes \<Rightarrow> bytes" where
  "aes256_decrypt_block rk block =
     (let st = inv_sub_bytes (inv_shift_rows (add_round_key block (drop (14 * 4) rk)))
      in add_round_key (fold (inv_aes_round rk) (rev [1..<14]) st) rk)"

fun cbc_decrypt :: "u32 list \<Rightarrow> bytes \<Rightarrow> bytes \<Rightarrow> bytes" where
  "cbc_decrypt rk chain c =
     (if length c < 16 then []
      else map2 (XOR) (aes256_decrypt_block rk (take 16 c)) chain @ cbc_decrypt rk (take 16 c) (drop 16 c))"

declare cbc_decrypt.simps [simp del]

text \<open>The last byte says how many to take off.\<close>

definition unpad :: "bytes \<Rightarrow> bytes" where
  "unpad bs = take (length bs - unat (last bs)) bs"

definition aes256_cbc_decrypt :: "bytes \<Rightarrow> bytes \<Rightarrow> bytes \<Rightarrow> bytes" where
  "aes256_cbc_decrypt key iv c = unpad (cbc_decrypt (key_expansion key) iv c)"

end
