(* ===== verification/Aes256_Proofs.thy ===== *)
theory Aes256_Proofs
  imports Aes256
begin

text \<open>Every step of the block cipher is undone by its reference inverse, and so is CBC with padding.\<close>

section \<open>The substitution\<close>

lemma inv_sbox_table: "map (\<lambda>s. inv_sbox ! unat s) sbox = map word_of_nat [0..<256]"
  by code_simp

lemma length_sbox [simp]: "length sbox = 256"
  by (simp add: sbox_def)

lemma inv_sbox: "inv_sbox ! unat (sbox ! unat b) = b"
proof -
  have l: "unat b < 256" using unsigned_less [of b] by simp
  then have "inv_sbox ! unat (sbox ! unat b) = map (\<lambda>s. inv_sbox ! unat s) sbox ! unat b" by simp
  also have "\<dots> = b" unfolding inv_sbox_table using l by simp
  finally show ?thesis .
qed

lemma inv_sub_bytes [simp]: "inv_sub_bytes (sub_bytes st) = st"
  by (simp add: inv_sub_bytes_def sub_bytes_def inv_sbox comp_def)

section \<open>The rows\<close>

lemma list16:
  assumes "length st = 16"
  obtains a0 a1 a2 a3 a4 a5 a6 a7 a8 a9 a10 a11 a12 a13 a14 a15
  where "st = [a0, a1, a2, a3, a4, a5, a6, a7, a8, a9, a10, a11, a12, a13, a14, a15]"
  using assms by (auto simp: eval_nat_numeral length_Suc_conv)

lemma inv_shift_rows [simp]: "length st = 16 \<Longrightarrow> inv_shift_rows (shift_rows st) = st"
  by (erule list16) (simp add: inv_shift_rows_def shift_rows_def)

section \<open>The columns\<close>

text \<open>Multiplication by constants in terms of multiplication by two, which is linear.\<close>

lemma xtime_xor: "xtime (a XOR b) = xtime a XOR xtime b"
proof -
  have "drop_bit 7 (c :: u8) AND 1 = (if bit c 7 then 1 else 0)" for c
    by (rule bit_word_eqI) (auto simp: bit_simps bit_1_iff intro!: gr0I)
  then have x: "xtime c = push_bit 1 c XOR (if bit c 7 then 0x1b else 0)" for c unfolding xtime_def by auto
  have "push_bit 1 (a XOR b) = push_bit 1 a XOR push_bit 1 b" by (rule push_bit_xor)
  then show ?thesis unfolding x by (auto simp: bit_xor_iff ac_simps)
qed

lemma gmult_unfold:
  "gmult a b = fst (gmult_step (gmult_step (gmult_step (gmult_step (gmult_step (gmult_step (gmult_step (gmult_step (0, a, b)))))))))"
  unfolding gmult_def by (simp add: numeral_eq_Suc)

lemma gmult_consts:
  "gmult a 2 = xtime a"
  "gmult a 3 = xtime a XOR a"
  "gmult a 9 = xtime (xtime (xtime a)) XOR a"
  "gmult a 11 = xtime (xtime (xtime a)) XOR xtime a XOR a"
  "gmult a 13 = xtime (xtime (xtime a)) XOR xtime (xtime a) XOR a"
  "gmult a 14 = xtime (xtime (xtime a)) XOR xtime (xtime a) XOR xtime a"
  by (simp_all add: gmult_unfold gmult_step_def xor.assoc xor.left_commute xor.commute)

lemma xor_cancel [simp]: "(a :: u8) XOR (a XOR b) = b"
  by (simp flip: xor.assoc)

lemma inv_mix_column:
  "inv_mix_column (mix_column a0 a1 a2 a3 ! 0) (mix_column a0 a1 a2 a3 ! 1)
     (mix_column a0 a1 a2 a3 ! 2) (mix_column a0 a1 a2 a3 ! 3) = [a0, a1, a2, a3]"
  by (simp add: inv_mix_column_def mix_column_def gmult_consts xtime_xor
      xor.assoc xor.left_commute xor.commute)

lemma upt4: "[0..<4] = [0, 1, 2, 3 :: nat]"
  by (simp add: upt_rec)

lemma length_mix_columns [simp]: "length (mix_columns st) = 16"
  by (simp add: mix_columns_def mix_column_def upt4)

lemma inv_mix_columns [simp]:
  assumes "length st = 16"
  shows "inv_mix_columns (mix_columns st) = st"
  using assms
proof (rule list16)
  fix a0 a1 a2 a3 a4 a5 a6 a7 a8 a9 a10 a11 a12 a13 a14 a15
  assume st: "st = [a0, a1, a2, a3, a4, a5, a6, a7, a8, a9, a10, a11, a12, a13, a14, a15]"
  have m: "mix_columns st = mix_column a0 a1 a2 a3 @ mix_column a4 a5 a6 a7 @ mix_column a8 a9 a10 a11 @ mix_column a12 a13 a14 a15"
    by (simp add: mix_columns_def st upt4)
  have l: "\<exists>c0 c1 c2 c3. mix_column a b c d = [c0, c1, c2, c3]" for a b c d by (simp add: mix_column_def)
  obtain b0 b1 b2 b3 c0 c1 c2 c3 d0 d1 d2 d3 e0 e1 e2 e3 where
    "mix_column a0 a1 a2 a3 = [b0, b1, b2, b3]" "mix_column a4 a5 a6 a7 = [c0, c1, c2, c3]"
    "mix_column a8 a9 a10 a11 = [d0, d1, d2, d3]" "mix_column a12 a13 a14 a15 = [e0, e1, e2, e3]"
    using l by metis
  with inv_mix_column [of a0 a1 a2 a3] inv_mix_column [of a4 a5 a6 a7] inv_mix_column [of a8 a9 a10 a11]
    inv_mix_column [of a12 a13 a14 a15]
  show "inv_mix_columns (mix_columns st) = st" unfolding inv_mix_columns_def m upt4 by (simp add: st)
qed

section \<open>Rounds and blocks\<close>

lemma map2_xor_twice: "length k = length st \<Longrightarrow> map2 (XOR) (map2 (XOR) st k) k = (st :: bytes)"
  by (rule nth_equalityI) (simp_all add: xor.assoc)

lemma length_key_bytes: "4 \<le> length rk \<Longrightarrow> length (key_bytes rk) = 16"
  by (simp add: key_bytes_def length_concat comp_def sum_list_triv)

lemma add_round_key_twice [simp]:
  "length st = 16 \<Longrightarrow> 4 \<le> length rk \<Longrightarrow> add_round_key (add_round_key st rk) rk = st"
  by (simp add: add_round_key_def map2_xor_twice length_key_bytes)

lemma length_steps [simp]:
  "length (sub_bytes st) = length st" "length (shift_rows st) = 16"
  "length st = 16 \<Longrightarrow> 4 \<le> length rk \<Longrightarrow> length (add_round_key st rk) = 16"
  by (simp_all add: sub_bytes_def shift_rows_def add_round_key_def length_key_bytes)

lemma length_expansion [simp]: "length (key_expansion key) = 60"
proof -
  have "length (((\<lambda>rk. rk @ [next_word rk]) ^^ n) ws) = length ws + n" for n ws
    by (induction n) simp_all
  then show ?thesis by (simp add: key_expansion_def)
qed

lemma rounds_undone:
  assumes "length rk = 60"
  shows "\<forall>i \<in> set is. i < 15 \<Longrightarrow> length st = 16 \<Longrightarrow>
    length (fold (aes_round rk) is st) = 16 \<and> fold (inv_aes_round rk) (rev is) (fold (aes_round rk) is st) = st"
proof (induction "is" arbitrary: st)
  case (Cons i "is")
  have "i < 15" using Cons.prems(1) by simp
  then have k: "4 \<le> length (drop (i * 4) rk)" unfolding length_drop assms by linarith
  have l: "length (aes_round rk i st) = 16" using Cons.prems k by (simp add: aes_round_def)
  have "inv_aes_round rk i (aes_round rk i st) = st" using Cons.prems k by (simp add: aes_round_def inv_aes_round_def)
  with Cons.IH [OF _ l] Cons.prems show ?case by simp
qed simp

lemma decrypt_block:
  assumes rk: "length rk = 60" and b: "length block = 16"
  shows "length (aes256_encrypt_block rk block) = 16 \<and> aes256_decrypt_block rk (aes256_encrypt_block rk block) = block"
proof -
  let ?s = "fold (aes_round rk) [1..<14] (add_round_key block rk)"
  have k: "4 \<le> length rk" "4 \<le> length (drop (14 * 4) rk)" using rk by simp_all
  have l: "length (add_round_key block rk) = 16" using b k by simp
  have "\<forall>i \<in> set [1..<14]. i < (15 :: nat)" by simp
  from rounds_undone [OF rk this l] have r: "length ?s = 16" "fold (inv_aes_round rk) (rev [1..<14]) ?s = add_round_key block rk"
    by blast+
  have u: "inv_sub_bytes (inv_shift_rows (add_round_key (add_round_key (shift_rows (sub_bytes ?s)) (drop (14 * 4) rk)) (drop (14 * 4) rk))) = ?s"
    using r(1) k(2) by simp
  show ?thesis unfolding aes256_encrypt_block_def aes256_decrypt_block_def Let_def u r(2) using b k r(1) by simp
qed

section \<open>CBC\<close>

text \<open>The padded message.\<close>

definition pkcs7 :: "bytes \<Rightarrow> bytes" where
  "pkcs7 m = m @ replicate (16 - length m mod 16) (word_of_nat (16 - length m mod 16))"

lemma padded_length: "n + (16 - n mod 16) = 16 * (n div 16 + 1)" for n :: nat
proof -
  have "n + (16 - n mod 16) = n - n mod 16 + 16" by (simp add: less_imp_le_nat)
  then show ?thesis by (simp add: minus_mod_eq_mult_div)
qed

lemma length_pkcs7: "length (pkcs7 m) = length m + (16 - length m mod 16)" "16 dvd length (pkcs7 m)"
proof -
  show l: "length (pkcs7 m) = length m + (16 - length m mod 16)" by (simp add: pkcs7_def)
  show "16 dvd length (pkcs7 m)" unfolding l padded_length by (rule dvd_triv_left)
qed

lemma unpad_pkcs7: "unpad (pkcs7 m) = m"
proof -
  let ?k = "16 - length m mod 16"
  have k: "0 < ?k" "?k < 256" by (simp_all add: less_imp_diff_less)
  then have "last (pkcs7 m) = word_of_nat ?k" by (simp add: pkcs7_def)
  moreover have "unat (word_of_nat j :: u8) = j" if "j < 256" for j using that by (simp add: unat_of_nat)
  note this [OF k(2)]
  ultimately show ?thesis by (simp add: unpad_def pkcs7_def)
qed

lemma cbc_buffer_block:
  assumes "16 * (i + 1) \<le> length (pkcs7 m)" and "length chain = 16"
  shows "cbc_buffer m (word_of_nat (16 - length m mod 16)) chain i = map2 (XOR) (take 16 (drop (16 * i) (pkcs7 m))) chain"
proof (rule nth_equalityI)
  show "length (cbc_buffer m (word_of_nat (16 - length m mod 16)) chain i) = length (map2 (XOR) (take 16 (drop (16 * i) (pkcs7 m))) chain)"
    using assms by (simp add: cbc_buffer_def)
next
  fix j assume "j < length (cbc_buffer m (word_of_nat (16 - length m mod 16)) chain i)"
  then have j: "j < 16" by (simp add: cbc_buffer_def)
  have "16 * i + j < length (pkcs7 m)" using assms(1) j by simp
  then have "padded_byte m (word_of_nat (16 - length m mod 16)) (i * 16 + j) = pkcs7 m ! (16 * i + j)"
    by (auto simp: padded_byte_def pkcs7_def nth_append mult.commute)
  then show "cbc_buffer m (word_of_nat (16 - length m mod 16)) chain i ! j = map2 (XOR) (take 16 (drop (16 * i) (pkcs7 m))) chain ! j"
    using assms j by (simp add: cbc_buffer_def mult.commute)
qed

lemma cbc_loop_decrypts:
  assumes rk: "length rk = 60" and n: "length (pkcs7 m) = 16 * n"
  shows "i \<le> n \<Longrightarrow> length chain = 16 \<Longrightarrow>
    length (cbc_loop rk m (word_of_nat (16 - length m mod 16)) [i..<n] chain) = 16 * (n - i) \<and>
    cbc_decrypt rk chain (cbc_loop rk m (word_of_nat (16 - length m mod 16)) [i..<n] chain) = drop (16 * i) (pkcs7 m)"
proof (induction "n - i" arbitrary: i chain)
  case 0
  then show ?case using n by (simp add: cbc_decrypt.simps)
next
  case (Suc k)
  then have i: "i < n" by simp
  let ?blk = "take 16 (drop (16 * i) (pkcs7 m))" and ?pad = "word_of_nat (16 - length m mod 16)"
  let ?buf = "aes256_encrypt_block rk (map2 (XOR) ?blk chain)"
  have l: "length ?blk = 16" "length (map2 (XOR) ?blk chain) = 16" using i n Suc.prems by simp_all
  from decrypt_block [OF rk l(2)] have b: "length ?buf = 16" "aes256_decrypt_block rk ?buf = map2 (XOR) ?blk chain" by blast+
  have "cbc_buffer m ?pad chain i = map2 (XOR) ?blk chain" by (rule cbc_buffer_block) (use i n Suc.prems in simp_all)
  then have S: "cbc_loop rk m ?pad [i..<n] chain = ?buf @ cbc_loop rk m ?pad [Suc i..<n] ?buf"
    using i unfolding upt_conv_Cons [OF i] cbc_loop.simps(2) Let_def by (simp only:)
  have IH: "length (cbc_loop rk m ?pad [Suc i..<n] ?buf) = 16 * (n - Suc i) \<and>
    cbc_decrypt rk ?buf (cbc_loop rk m ?pad [Suc i..<n] ?buf) = drop (16 * Suc i) (pkcs7 m)"
    by (rule Suc.hyps(1)) (use Suc.hyps(2) i b in simp_all)
  have "?blk @ drop (16 * Suc i) (pkcs7 m) = drop (16 * i) (pkcs7 m)"
    using append_take_drop_id [of 16 "drop (16 * i) (pkcs7 m)"] by (simp add: add.commute)
  moreover have "map2 (XOR) (map2 (XOR) ?blk chain) chain = ?blk" using l Suc.prems by (simp add: map2_xor_twice)
  ultimately show ?case unfolding S using IH b i
    by (simp add: cbc_decrypt.simps [of rk chain "?buf @ c" for c])
qed

lemma cbc_roundtrip:
  assumes "length iv = 16"
  shows "length (aes256_cbc_encrypt key iv m) = length m + (16 - length m mod 16) \<and>
    aes256_cbc_decrypt key iv (aes256_cbc_encrypt key iv m) = m"
proof -
  obtain n where n: "length (pkcs7 m) = 16 * n" using length_pkcs7(2) by (auto simp: dvd_def)
  have E: "aes256_cbc_encrypt key iv m = cbc_loop (key_expansion key) m (word_of_nat (16 - length m mod 16)) [0..<n] iv"
    unfolding aes256_cbc_encrypt_def Let_def length_pkcs7(1) [symmetric] n using assms by simp
  from cbc_loop_decrypts [OF length_expansion n, of 0 iv key] assms
  have "length (aes256_cbc_encrypt key iv m) = 16 * n" "cbc_decrypt (key_expansion key) iv (aes256_cbc_encrypt key iv m) = pkcs7 m"
    unfolding E by simp_all
  then show ?thesis using unpad_pkcs7 length_pkcs7(1) [of m] n by (simp add: aes256_cbc_decrypt_def)
qed

section \<open>Properties\<close>

text \<open>C16: decrypting what \<open>aes256_cbc_encrypt\<close> made gives the message back, for every key, vector and
  message, and the ciphertext has the padded length that the hexadecimal buffers are sized for.\<close>

theorem aes_cbc_roundtrip:
  assumes "length iv = 16"
  shows "length (aes256_cbc_encrypt key iv m) = 16 * (length m div 16 + 1) \<and>
    aes256_cbc_decrypt key iv (aes256_cbc_encrypt key iv m) = m"
proof -
  from cbc_roundtrip [OF assms, of key m] show ?thesis unfolding padded_length .
qed

theorem aes_cbc_roundtrip_witness:
  "aes256_cbc_decrypt (replicate 32 1) (replicate 16 0) (aes256_cbc_encrypt (replicate 32 1) (replicate 16 0) [1, 2, 3]) = [1, 2, 3]"
  using aes_cbc_roundtrip [of "replicate 16 0" "replicate 32 1" "[1, 2, 3]"] by simp

end
