(* ===== verification/Discord_Util.thy ===== *)
theory Discord_Util
  imports Prelude
begin

text \<open>
  The text routines of the Presence protocol (\<open>discord/utils/discord_util.c\<close>): the encoding of form
  values, the search for a field of a form-encoded response, and the big-endian counter.

  A C string is the list of its bytes before the terminator. A search returns the flag of the
  function and, where the function writes it, the value.

  Lemmas: the encoding stays within its destination and decodes back; the pointer walk over the
  occurrences of the key finds exactly the first field with that key.
\<close>

section \<open>Form encoding\<close>

definition is_plain :: "u8 \<Rightarrow> bool" where
  "is_plain c \<longleftrightarrow> (0x30 \<le> c \<and> c \<le> 0x39) \<or> (0x41 \<le> c \<and> c \<le> 0x5A) \<or> (0x61 \<le> c \<and> c \<le> 0x7A) \<or>
     c = 0x2D \<or> c = 0x5F \<or> c = 0x2E \<or> c = 0x7E"

definition upper_hex :: bytes where
  "upper_hex = [0x30, 0x31, 0x32, 0x33, 0x34, 0x35, 0x36, 0x37, 0x38, 0x39, 0x41, 0x42, 0x43, 0x44, 0x45, 0x46]"

definition encode_char :: "u8 \<Rightarrow> bytes" where
  "encode_char c =
     (if c = 0x20 then [0x2B]
      else if is_plain c then [c]
      else [0x25, upper_hex ! unat (drop_bit 4 c), upper_hex ! unat (c AND 0xf)])"

text \<open>\<open>dst_size - 3\<close> is computed in 32 bits; \<open>out\<close> is what the destination holds.\<close>

fun encode_loop :: "u32 \<Rightarrow> bytes \<Rightarrow> bytes \<Rightarrow> bytes" where
  "encode_loop dst_size [] out = out"
| "encode_loop dst_size (c # src) out =
     (if word_of_nat (length out) < dst_size - 3 then encode_loop dst_size src (out @ encode_char c) else out)"

definition discord_url_encode :: "bytes \<Rightarrow> u32 \<Rightarrow> bytes" where
  "discord_url_encode src dst_size = encode_loop dst_size src [] @ [0]"

section \<open>Fields\<close>

definition starts_with :: "bytes \<Rightarrow> bytes \<Rightarrow> bool" where
  "starts_with key s \<longleftrightarrow> take (length key) s = key"

text \<open>\<open>strstr\<close> from position \<open>p\<close> on: the position of the first occurrence.\<close>

fun strstr_from :: "nat \<Rightarrow> bytes \<Rightarrow> bytes \<Rightarrow> nat \<Rightarrow> nat option" where
  "strstr_from 0 s key p = (if starts_with key (drop p s) then Some p else None)"
| "strstr_from (Suc n) s key p = (if starts_with key (drop p s) then Some p else strstr_from n s key (p + 1))"

definition strstr :: "bytes \<Rightarrow> bytes \<Rightarrow> nat \<Rightarrow> nat option" where
  "strstr s key p = strstr_from (length s - p) s key p"

definition ends_value :: "u8 \<Rightarrow> bool" where
  "ends_value c \<longleftrightarrow> c = 0x26 \<or> c = 0x0D \<or> c = 0x0A"

text \<open>The copy of the value; \<open>max_len - 1\<close> is computed in 32 bits.\<close>

definition copy_value :: "bytes \<Rightarrow> u32 \<Rightarrow> bytes" where
  "copy_value s max_len = take (unat (max_len - 1)) (takeWhile (\<lambda>c. \<not> ends_value c) s)"

text \<open>The loop over the occurrences from position \<open>p\<close> on. \<^term>\<open>None\<close>: still running.\<close>

fun parse_loop :: "nat \<Rightarrow> bytes \<Rightarrow> bytes \<Rightarrow> u32 \<Rightarrow> nat \<Rightarrow> (bool \<times> bytes option) option" where
  "parse_loop 0 resp field max_len p = None"
| "parse_loop (Suc n) resp field max_len p =
     (case strstr resp field p of
        None \<Rightarrow> Some (False, None)
      | Some q \<Rightarrow>
          let boundary = (q = 0 \<or> ends_value (resp ! (q - 1))); p1 = q + length field
          in if \<not> boundary then parse_loop n resp field max_len p1
             else if p1 < length resp \<and> resp ! p1 = 0x3D then
               let v = copy_value (drop (p1 + 1) resp) max_len in Some (v \<noteq> [], Some v)
             else parse_loop n resp field max_len p1)"

definition discord_parse_field :: "bytes \<Rightarrow> bytes \<Rightarrow> u32 \<Rightarrow> (bool \<times> bytes option) option" where
  "discord_parse_field resp field max_len = parse_loop (length resp + 1) resp field max_len 0"

section \<open>The counter\<close>

definition discord_pack_counter :: "u64 \<Rightarrow> bytes" where
  "discord_pack_counter counter =
     [ucast (drop_bit 56 counter), ucast (drop_bit 48 counter), ucast (drop_bit 40 counter), ucast (drop_bit 32 counter),
      ucast (drop_bit 24 counter), ucast (drop_bit 16 counter), ucast (drop_bit 8 counter), ucast counter]"

section \<open>What the encoding promises\<close>

text \<open>Reading a form value back.\<close>

definition hex_digit_value :: "u8 \<Rightarrow> u8" where
  "hex_digit_value c = (if c \<le> 0x39 then c - 0x30 else c - 0x41 + 10)"

fun url_decode :: "bytes \<Rightarrow> bytes" where
  "url_decode (c # h # l # s) =
     (if c = 0x25 then (push_bit 4 (hex_digit_value h) OR hex_digit_value l) # url_decode s
      else (if c = 0x2B then 0x20 else c) # url_decode (h # l # s))"
| "url_decode (c # s) = (if c = 0x2B then 0x20 else c) # url_decode s"
| "url_decode [] = []"

lemma upper_hex_value: "n < 16 \<Longrightarrow> hex_digit_value (upper_hex ! n) = word_of_nat n"
proof -
  have "map (\<lambda>h. hex_digit_value h) upper_hex = map word_of_nat [0..<16]"
    by (simp add: upper_hex_def hex_digit_value_def upt_rec)
  then have "n < 16 \<Longrightarrow> map (\<lambda>h. hex_digit_value h) upper_hex ! n = map word_of_nat [0..<16] ! n" by simp
  moreover have "length upper_hex = 16" by (simp add: upper_hex_def)
  moreover assume "n < 16"
  ultimately show ?thesis by simp
qed

lemma decode_plain: "c \<noteq> 0x25 \<Longrightarrow> url_decode (c # s) = (if c = 0x2B then 0x20 else c) # url_decode s"
  by (cases "c # s" rule: url_decode.cases) auto

lemma low_nibble: "c AND 0xf = take_bit 4 (c :: u8)"
  by (simp add: take_bit_eq_mask mask_eq_decr_exp)

lemma nibbles_join: "push_bit 4 (drop_bit 4 c) OR (c AND 0xf) = (c :: u8)"
  unfolding low_nibble by (rule bit_eqI) (auto simp: bit_simps)

lemma unat_nibbles: "unat (drop_bit 4 (c :: u8)) < 16" "unat (c AND 0xf) < 16"
proof -
  have "unat c < 256" using unsigned_less [of c] by simp
  then show "unat (drop_bit 4 c) < 16" by (simp only: unat_drop_bit_eq) (simp add: drop_bit_eq_div)
  show "unat (c AND 0xf) < 16" unfolding low_nibble
    using take_bit_nat_less_exp [of 4 "unat c"] by (simp add: unsigned_take_bit_eq)
qed

lemma url_decode_char: "url_decode (encode_char c @ s) = c # url_decode s"
proof -
  note n = unat_nibbles [of c]
  have p: "is_plain c \<Longrightarrow> c \<noteq> 0x25 \<and> c \<noteq> 0x2B" by (auto simp: is_plain_def)
  show ?thesis
    using n p by (auto simp: encode_char_def decode_plain upper_hex_value nibbles_join)
qed

lemma url_decode_chars: "url_decode (concat (map encode_char src)) = src"
  by (induction src) (simp_all add: url_decode_char)

lemma length_encode_char: "length (encode_char c) \<le> 3" "encode_char c \<noteq> []"
  by (auto simp: encode_char_def)

text \<open>The encoding of some first characters of the source, of all when they surely fit.\<close>

lemma encode_loop_spec:
  assumes "3 \<le> dst_size"
  shows "length out + 3 \<le> unat dst_size + 2 \<Longrightarrow>
    \<exists>n \<le> length src. encode_loop dst_size src out = out @ concat (map encode_char (take n src)) \<and>
      length (encode_loop dst_size src out) < unat dst_size \<and>
      (length out + 3 * length src < unat dst_size \<longrightarrow> n = length src)"
proof (induction src arbitrary: out)
  case Nil
  then show ?case by auto
next
  case (Cons c src)
  have lt: "unat dst_size < 2 ^ 32" using unsigned_less [of dst_size] by simp
  then have "unat (word_of_nat (length out) :: u32) = length out" using Cons.prems by (simp add: unat_of_nat)
  moreover have "unat (dst_size - 3) = unat dst_size - 3" using assms by (simp add: unat_sub word_le_nat_alt)
  ultimately have g: "word_of_nat (length out) < dst_size - 3 \<longleftrightarrow> length out < unat dst_size - 3"
    by (simp add: word_less_nat_alt)
  have d: "3 \<le> unat dst_size" using assms by (simp add: word_le_nat_alt)
  show ?case
  proof (cases "length out < unat dst_size - 3")
    case False
    then show ?thesis using g Cons.prems d by (intro exI [of _ 0]) auto
  next
    case True
    let ?out = "out @ encode_char c"
    have l: "length ?out \<le> length out + 3" using length_encode_char(1) [of c] by simp
    then have "length ?out + 3 \<le> unat dst_size + 2" using True by linarith
    from Cons.IH [OF this] obtain n where n: "n \<le> length src"
      "encode_loop dst_size src ?out = ?out @ concat (map encode_char (take n src))"
      "length (encode_loop dst_size src ?out) < unat dst_size"
      "length ?out + 3 * length src < unat dst_size \<longrightarrow> n = length src" by blast
    have "length out + 3 * length (c # src) < unat dst_size \<longrightarrow> Suc n = length (c # src)"
      using n(4) l by auto
    then show ?thesis using n(1-3) True g by (intro exI [of _ "Suc n"]) simp
  qed
qed

section \<open>The fields of a response\<close>

text \<open>The response cut at its separators, and the first piece with the key.\<close>

function segments :: "bytes \<Rightarrow> bytes list" where
  "segments s = takeWhile (\<lambda>c. \<not> ends_value c) s #
     (case dropWhile (\<lambda>c. \<not> ends_value c) s of [] \<Rightarrow> [] | c # r \<Rightarrow> segments r)"
  by pat_completeness auto

termination
proof (relation "measure length")
  fix s c r
  assume "dropWhile (\<lambda>c. \<not> ends_value c) s = c # r"
  then have "length (c # r) \<le> length s" by (metis length_dropWhile_le)
  then show "(r, s) \<in> measure length" by simp
qed simp

declare segments.simps [simp del]

definition field_value :: "bytes \<Rightarrow> bytes \<Rightarrow> bytes option" where
  "field_value field s =
     map_option (drop (length field + 1)) (find (starts_with (field @ [0x3D])) (segments s))"

text \<open>A position where the key of a field starts.\<close>

definition field_at :: "bytes \<Rightarrow> bytes \<Rightarrow> nat \<Rightarrow> bool" where
  "field_at key s q \<longleftrightarrow> (q = 0 \<or> ends_value (s ! (q - 1))) \<and> starts_with key (drop q s)"

lemma starts_with_nth: "starts_with key s \<longleftrightarrow> length key \<le> length s \<and> (\<forall>i < length key. s ! i = key ! i)"
proof
  assume h: "starts_with key s"
  then have l: "length key \<le> length s" unfolding starts_with_def by (metis length_take min.cobounded1)
  moreover have "s ! i = key ! i" if "i < length key" for i
    using h that nth_take [of i "length key" s] by (simp add: starts_with_def)
  ultimately show "length key \<le> length s \<and> (\<forall>i < length key. s ! i = key ! i)" by blast
next
  assume "length key \<le> length s \<and> (\<forall>i < length key. s ! i = key ! i)"
  then show "starts_with key s" unfolding starts_with_def by (intro nth_equalityI) auto
qed

lemma strstr_from_spec:
  "key \<noteq> [] \<Longrightarrow> length s \<le> p + n \<Longrightarrow> (case strstr_from n s key p of
     None \<Rightarrow> \<forall>r \<ge> p. \<not> starts_with key (drop r s)
   | Some q \<Rightarrow> p \<le> q \<and> starts_with key (drop q s) \<and> (\<forall>r. p \<le> r \<longrightarrow> r < q \<longrightarrow> \<not> starts_with key (drop r s)))"
proof (induction n arbitrary: p)
  case 0
  then show ?case by (auto simp: starts_with_def)
next
  case (Suc n)
  show ?case
  proof (cases "starts_with key (drop p s)")
    case True
    then show ?thesis by simp
  next
    case False
    have le: "r = p \<or> p + 1 \<le> r" if "p \<le> r" for r using that by auto
    from Suc.IH [of "p + 1"] Suc.prems False show ?thesis
      by (auto split: option.splits dest: le)
  qed
qed

lemma starts_with_takeWhile:
  "\<forall>c \<in> set key. \<not> ends_value c \<Longrightarrow> starts_with key (takeWhile (\<lambda>c. \<not> ends_value c) s) \<longleftrightarrow> starts_with key s"
proof (induction key arbitrary: s)
  case Nil
  then show ?case by (simp add: starts_with_def)
next
  case (Cons k key)
  then show ?case by (cases s) (auto simp: starts_with_def)
qed

text \<open>The pieces of a response, by the first position of the key.\<close>

lemma segments_find:
  assumes k: "key \<noteq> []" "\<forall>c \<in> set key. \<not> ends_value c"
  shows "(\<forall>q. field_at key s q \<longrightarrow> (\<forall>r < q. \<not> field_at key s r) \<longrightarrow>
      find (starts_with key) (segments s) = Some (takeWhile (\<lambda>c. \<not> ends_value c) (drop q s))) \<and>
    ((\<forall>q. \<not> field_at key s q) \<longrightarrow> find (starts_with key) (segments s) = None)"
proof (induction s rule: segments.induct)
  case (1 s)
  let ?seg = "takeWhile (\<lambda>c. \<not> ends_value c) s"
  have sw: "starts_with key ?seg \<longleftrightarrow> field_at key s 0" using starts_with_takeWhile [OF k(2)] by (simp add: field_at_def)
  show ?case
  proof (cases "field_at key s 0")
    case True
    then have f: "find (starts_with key) (segments s) = Some ?seg" using sw by (simp add: segments.simps [of s])
    show ?thesis
    proof (intro conjI allI impI)
      fix q
      assume "\<forall>r < q. \<not> field_at key s r"
      then have "q = 0" using True by (cases q) auto
      with f show "find (starts_with key) (segments s) = Some (takeWhile (\<lambda>c. \<not> ends_value c) (drop q s))" by simp
    next
      assume "\<forall>q. \<not> field_at key s q"
      with True show "find (starts_with key) (segments s) = None" by blast
    qed
  next
    case False
    have out: "\<not> field_at key s q" if "q \<le> length ?seg" for q
    proof
      assume f: "field_at key s q"
      then have "q \<noteq> 0" using False by metis
      then have "q - 1 < length ?seg" "ends_value (s ! (q - 1))" using that f by (auto simp: field_at_def)
      moreover from this(1) have "\<not> ends_value (?seg ! (q - 1))" using set_takeWhileD [OF nth_mem [of "q - 1" ?seg]] by blast
      ultimately show False by (simp add: takeWhile_nth)
    qed
    show ?thesis
    proof (cases "dropWhile (\<lambda>c. \<not> ends_value c) s")
      case Nil
      then have "length ?seg = length s" by (metis append.right_neutral takeWhile_dropWhile_id)
      then have "\<not> field_at key s q" for q using out [of q] k(1) by (cases "q \<le> length s") (auto simp: field_at_def starts_with_def)
      moreover have "find (starts_with key) (segments s) = None" unfolding segments.simps [of s] Nil using False sw by simp
      ultimately show ?thesis by blast
    next
      case (Cons c r)
      have s: "s = ?seg @ c # r" using Cons by (metis takeWhile_dropWhile_id)
      have sep: "ends_value c" using Cons by (metis (no_types, lifting) dropWhile_eq_Cons_conv)
      let ?n = "Suc (length ?seg)"
      have shift: "field_at key s (?n + q) \<longleftrightarrow> field_at key r q" for q
      proof (cases q)
        case 0
        have "s ! length ?seg = c" "drop ?n s = r" by (subst s, simp)+
        with 0 sep show ?thesis by (simp add: field_at_def)
      next
        case (Suc j)
        have "s ! (?n + j) = r ! j" "drop (?n + q) s = drop q r" by (subst s, simp add: nth_append)+
        with Suc show ?thesis by (simp add: field_at_def)
      qed
      have d: "drop (?n + q) s = drop q r" for q by (subst s, simp)
      have F: "find (starts_with key) (segments s) = find (starts_with key) (segments r)"
        using Cons False sw by (simp add: segments.simps [of s])
      note IH = "1.IH" [OF Cons]
      have A: "find (starts_with key) (segments s) = Some (takeWhile (\<lambda>c. \<not> ends_value c) (drop q s))"
        if q: "field_at key s q" "\<forall>r < q. \<not> field_at key s r" for q
      proof -
        have "?n \<le> q" using out [of q] q(1) by linarith
        then obtain j where j: "q = ?n + j" by (metis le_Suc_ex)
        have "field_at key r j" using q(1) shift j by simp
        moreover have "\<forall>i < j. \<not> field_at key r i" using q(2) shift j by (metis nat_add_left_cancel_less)
        ultimately show ?thesis using IH F d j by metis
      qed
      have B: "find (starts_with key) (segments s) = None" if "\<forall>q. \<not> field_at key s q"
        using that shift IH F by metis
      show ?thesis using A B by blast
    qed
  qed
qed

text \<open>The walk over the occurrences of the name gives the first position of the key.\<close>

lemma parse_loop_spec:
  assumes k: "field \<noteq> []" "\<forall>c \<in> set field. \<not> ends_value c"
  shows "length resp - p < n \<Longrightarrow> p \<le> length resp \<Longrightarrow> \<forall>r < p. \<not> field_at (field @ [0x3D]) resp r \<Longrightarrow>
    (\<exists>q. field_at (field @ [0x3D]) resp q \<and> (\<forall>r < q. \<not> field_at (field @ [0x3D]) resp r) \<and>
       parse_loop n resp field m p =
         Some (let v = copy_value (drop (q + length field + 1) resp) m in (v \<noteq> [], Some v))) \<or>
    (\<forall>q. \<not> field_at (field @ [0x3D]) resp q) \<and> parse_loop n resp field m p = Some (False, None)"
proof (induction n arbitrary: p)
  case (Suc n)
  let ?key = "field @ [0x3D]"
  have kf: "starts_with field (drop q resp)" if "field_at ?key resp q" for q
    using that by (auto simp: field_at_def starts_with_nth nth_append)
  have S: "case strstr resp field p of None \<Rightarrow> \<forall>r \<ge> p. \<not> starts_with field (drop r resp)
     | Some q \<Rightarrow> p \<le> q \<and> starts_with field (drop q resp) \<and> (\<forall>r. p \<le> r \<longrightarrow> r < q \<longrightarrow> \<not> starts_with field (drop r resp))"
    unfolding strstr_def by (rule strstr_from_spec [OF k(1)]) simp
  show ?case
  proof (cases "strstr resp field p")
    case None
    with S have "\<not> field_at ?key resp q" for q using kf Suc.prems(3) by (cases "q < p") (auto simp: not_less)
    with None show ?thesis by simp
  next
    case (Some q)
    with S have q: "p \<le> q" "starts_with field (drop q resp)" "\<And>r. p \<le> r \<Longrightarrow> r < q \<Longrightarrow> \<not> starts_with field (drop r resp)" by auto
    have before: "\<not> field_at ?key resp r" if "r < q" for r using q(3) kf Suc.prems(3) that by (cases "r < p") (auto simp: not_less)
    have "0 < length field" "length field \<le> length resp - q" using q(2) k(1) by (auto simp: starts_with_nth)
    then have l: "q + length field \<le> length resp" by linarith
    have occ: "resp ! (q + i) = field ! i" if "i < length field" for i
      using q(2) l that by (simp add: starts_with_nth)
    let ?b = "q = 0 \<or> ends_value (resp ! (q - 1))" and ?p1 = "q + length field"
    show ?thesis
    proof (cases "?b \<and> ?p1 < length resp \<and> resp ! ?p1 = 0x3D")
      case True
      then have "field_at ?key resp q" using l occ
        by (auto simp: field_at_def starts_with_nth nth_append less_Suc_eq)
      moreover have "parse_loop (Suc n) resp field m p =
          Some (let v = copy_value (drop (q + length field + 1) resp) m in (v \<noteq> [], Some v))"
        using Some True by (simp add: Let_def)
      ultimately show ?thesis using before by blast
    next
      case False
      have nq: "\<not> field_at ?key resp q"
      proof
        assume f: "field_at ?key resp q"
        then have "?b" "length ?key \<le> length (drop q resp)" "drop q resp ! length field = 0x3D"
          by (auto simp: field_at_def starts_with_nth nth_append)
        then show False using False by simp
      qed
      have step: "parse_loop (Suc n) resp field m p = parse_loop n resp field m ?p1"
        using Some False by (auto simp: Let_def)
      have inside: "\<not> field_at ?key resp r" if r: "q < r" "r < ?p1" for r
      proof
        assume "field_at ?key resp r"
        then have "ends_value (resp ! (r - 1))" using r by (auto simp: field_at_def)
        moreover have "resp ! (r - 1) = field ! (r - 1 - q)" "r - 1 - q < length field" using occ [of "r - 1 - q"] r by auto
        ultimately show False using k(2) nth_mem by metis
      qed
      have "\<forall>r < ?p1. \<not> field_at ?key resp r" using before nq inside by (metis linorder_neqE_nat)
      moreover have "length resp - ?p1 < n" using Suc.prems(1) q(1) l k(1) by (cases field) auto
      ultimately show ?thesis using Suc.IH [of ?p1] l step by metis
    qed
  qed
qed simp

lemma parse_field_lookup:
  assumes "field \<noteq> []" and "\<forall>c \<in> set field. \<not> ends_value c"
  shows "discord_parse_field resp field m = Some
    (case field_value field resp of
       None \<Rightarrow> (False, None)
     | Some v \<Rightarrow> let t = take (unat (m - 1)) v in (t \<noteq> [], Some t))"
proof -
  let ?key = "field @ [0x3D]"
  have k: "?key \<noteq> []" "\<forall>c \<in> set ?key. \<not> ends_value c" using assms by (auto simp: ends_value_def)
  have P: "(\<exists>q. field_at ?key resp q \<and> (\<forall>r < q. \<not> field_at ?key resp r) \<and>
       discord_parse_field resp field m = Some (let v = copy_value (drop (q + length field + 1) resp) m in (v \<noteq> [], Some v))) \<or>
    (\<forall>q. \<not> field_at ?key resp q) \<and> discord_parse_field resp field m = Some (False, None)"
    unfolding discord_parse_field_def by (rule parse_loop_spec [OF assms]) simp_all
  then show ?thesis
  proof (elim disjE exE conjE)
    fix q
    assume q: "field_at ?key resp q" "\<forall>r < q. \<not> field_at ?key resp r"
      and p: "discord_parse_field resp field m = Some (let v = copy_value (drop (q + length field + 1) resp) m in (v \<noteq> [], Some v))"
    have f: "find (starts_with ?key) (segments resp) = Some (takeWhile (\<lambda>c. \<not> ends_value c) (drop q resp))"
      using segments_find [OF k, of resp] q by blast
    have d: "drop q resp = ?key @ drop (q + length field + 1) resp"
      using q(1) append_take_drop_id [of "length ?key" "drop q resp"] by (simp add: field_at_def starts_with_def add.commute add.left_commute)
    have "takeWhile (\<lambda>c. \<not> ends_value c) (drop q resp) = ?key @ takeWhile (\<lambda>c. \<not> ends_value c) (drop (q + length field + 1) resp)"
      using k(2) by (subst d, intro takeWhile_append2) blast
    then show ?thesis unfolding p field_value_def f by (simp add: copy_value_def Let_def)
  next
    assume n: "\<forall>q. \<not> field_at ?key resp q" and p: "discord_parse_field resp field m = Some (False, None)"
    then have "find (starts_with ?key) (segments resp) = None" using segments_find [OF k, of resp] by blast
    then show ?thesis unfolding p field_value_def by simp
  qed
qed

section \<open>Properties\<close>

text \<open>C18: for a name without separators, the search gives what the first piece of the response that
  starts with \<open>name=\<close> holds, cut to the destination, and says whether that is non-empty; without
  such a piece it reports nothing and leaves the destination alone.\<close>

theorem parse_field_is_lookup:
  assumes "field \<noteq> []" and "\<forall>c \<in> set field. \<not> ends_value c"
  shows "discord_parse_field resp field m = Some
    (case field_value field resp of
       None \<Rightarrow> (False, None)
     | Some v \<Rightarrow> let t = take (unat (m - 1)) v in (t \<noteq> [], Some t))"
  using assms by (rule parse_field_lookup)

text \<open>The response \<open>xa=1&a=23\<close> has the field \<open>a\<close> in its second piece.\<close>

theorem parse_field_is_lookup_witness:
  "discord_parse_field [0x78, 0x61, 0x3D, 0x31, 0x26, 0x61, 0x3D, 0x32, 0x33] [0x61] 8 = Some (True, Some [0x32, 0x33])"
  using parse_field_is_lookup [of "[0x61]" "[0x78, 0x61, 0x3D, 0x31, 0x26, 0x61, 0x3D, 0x32, 0x33]" 8]
  by (simp add: ends_value_def field_value_def segments.simps starts_with_def)

text \<open>C19: with a destination of at least three bytes the encoding with its terminator stays within it, and
  a source that fits at three bytes a character is encoded whole and decodes back to itself.\<close>

theorem url_encode_fits_and_decodes:
  assumes "3 \<le> dst_size"
  shows "length (discord_url_encode src dst_size) \<le> unat dst_size \<and>
    (3 * length src < unat dst_size \<longrightarrow> url_decode (butlast (discord_url_encode src dst_size)) = src)"
proof -
  have d: "3 \<le> unat dst_size" using assms by (simp add: word_le_nat_alt)
  then have "length ([] :: bytes) + 3 \<le> unat dst_size + 2" by simp
  from encode_loop_spec [OF assms this, of src] obtain n where
    "encode_loop dst_size src [] = [] @ concat (map encode_char (take n src))" "length (encode_loop dst_size src []) < unat dst_size"
    "3 * length src < unat dst_size \<longrightarrow> n = length src" unfolding list.size add_0 by blast
  then show ?thesis by (auto simp: discord_url_encode_def url_decode_chars)
qed

theorem url_encode_fits_and_decodes_witness:
  "length (discord_url_encode [0x41, 0x20, 0xE9] 16) \<le> 16 \<and> url_decode (butlast (discord_url_encode [0x41, 0x20, 0xE9] 16)) = [0x41, 0x20, 0xE9]"
  using url_encode_fits_and_decodes [of 16 "[0x41, 0x20, 0xE9]"] by simp

text \<open>With a smaller destination the bound wraps around and nothing stops the loop.\<close>

theorem url_encode_overruns: "discord_url_encode [0x41, 0x42, 0x43, 0x44] 2 = [0x41, 0x42, 0x43, 0x44, 0]"
  by code_simp

end
