(* ===== verification/Discord_Session.thy ===== *)
theory Discord_Session
  imports Sha256_Proofs Aes256_Proofs Discord_Util
begin

text \<open>
  The protocol of the Presence client (\<open>discord/discord_session.c\<close>): login, verification, the fetch of
  the memory script of a title, activity updates, heartbeats and logout. Every authenticated
  request carries the encryption of a counter and the hash of its message; the client counts the
  requests the server has accepted.

  The network is a field of an environment over an abstract state: a POST gives the result of
  \<open>discord_http_post\<close> and the text of the response. The update check that the login triggers is a
  field too. The functions that use a response do it only after the result was not negative, so a
  response is always there, except in the log lines of the logout, which are not modelled.

  Texts are lists of bytes without the terminator. \<^term>\<open>None\<close>: a call that does not return.
\<close>

section \<open>Library functions\<close>

definition is_space :: "u8 \<Rightarrow> bool" where
  "is_space c \<longleftrightarrow> c = 0x20 \<or> (0x09 \<le> c \<and> c \<le> 0x0D)"

definition digit_value :: "u8 \<Rightarrow> nat" where
  "digit_value c = (if c \<le> 0x39 then unat (c - 0x30) else if c \<le> 0x46 then unat (c - 0x41) + 10 else unat (c - 0x61) + 10)"

definition is_hex_digit :: "u8 \<Rightarrow> bool" where
  "is_hex_digit c \<longleftrightarrow> (0x30 \<le> c \<and> c \<le> 0x39) \<or> (0x41 \<le> c \<and> c \<le> 0x46) \<or> (0x61 \<le> c \<and> c \<le> 0x66)"

definition is_dec_digit :: "u8 \<Rightarrow> bool" where
  "is_dec_digit c \<longleftrightarrow> 0x30 \<le> c \<and> c \<le> 0x39"

definition digits_value :: "nat \<Rightarrow> bytes \<Rightarrow> nat" where
  "digits_value base ds = foldl (\<lambda>v c. v * base + digit_value c) 0 ds"

text \<open>Leading blanks and a sign.\<close>

definition skip_sign :: "bytes \<Rightarrow> bool \<times> bytes" where
  "skip_sign s =
     (case dropWhile is_space s of
        [] \<Rightarrow> (False, [])
      | c # r \<Rightarrow> if c = 0x2D then (True, r) else if c = 0x2B then (False, r) else (False, c # r))"

definition skip_0x :: "bytes \<Rightarrow> bytes" where
  "skip_0x s =
     (case s of c # d # r \<Rightarrow> if c = 0x30 \<and> (d = 0x78 \<or> d = 0x58) then r else s | _ \<Rightarrow> s)"

text \<open>\<open>strtoul(s, NULL, 16)\<close> in 32 bits and \<open>strtoull(s, NULL, 10)\<close> in 64 bits.\<close>

definition strtoul16 :: "bytes \<Rightarrow> u32" where
  "strtoul16 s =
     (let (neg, r) = skip_sign s; n = digits_value 16 (takeWhile is_hex_digit (skip_0x r))
      in if n \<ge> 2 ^ 32 then -1 else if neg then - word_of_nat n else word_of_nat n)"

definition strtoull10 :: "bytes \<Rightarrow> u64" where
  "strtoull10 s =
     (let (neg, r) = skip_sign s; n = digits_value 10 (takeWhile is_dec_digit r)
      in if n \<ge> 2 ^ 64 then -1 else if neg then - word_of_nat n else word_of_nat n)"

text \<open>\<open>%016llX\<close>.\<close>

definition hex16 :: "u64 \<Rightarrow> bytes" where
  "hex16 w = map (\<lambda>i. upper_hex ! unat (drop_bit (60 - 4 * i) w AND 0xf)) [0..<16]"

text \<open>\<open>snprintf\<close> into \<open>n\<close> bytes, of a text already made.\<close>

definition snprintf :: "nat \<Rightarrow> bytes \<Rightarrow> bytes" where
  "snprintf n t = take (n - 1) t"

section \<open>Authentication\<close>

record presence =
  g_counter :: u64
  active_session :: bool

record 'n discord_env =
  g_aes_key_hex :: bytes
  g_uuid :: bytes
  discord_http_post :: "'n \<Rightarrow> bytes \<Rightarrow> bytes \<Rightarrow> bytes \<Rightarrow> int \<times> bytes \<times> 'n"
  DiscordUpdate_CheckRemote :: "'n \<Rightarrow> bytes \<Rightarrow> 'n"

definition decode_aes_key :: "bytes \<Rightarrow> bytes" where
  "decode_aes_key hex = map (\<lambda>i. ucast (strtoul16 (takeWhile (\<lambda>c. c \<noteq> 0) [hex ! (i * 2), hex ! (i * 2 + 1)]))) [0..<32]"

text \<open>The hash of a message; the context is a local variable, whatever it holds.\<close>

definition sha256_of :: "bytes \<Rightarrow> bytes" where
  "sha256_of msg = snd (sha256_final (sha256_update msg (sha256_init
     \<lparr>data = replicate 64 0, datalen = 0, bitlen = 0, state = []\<rparr>)))"

definition build_auth :: "bytes \<Rightarrow> bytes \<Rightarrow> u64 \<Rightarrow> bytes" where
  "build_auth key msg counter =
     fst (aes256_cbc_encrypt_to_hex (discord_pack_counter counter @ sha256_of msg) key (replicate 16 0))"

definition ct_equal :: "bytes \<Rightarrow> bytes \<Rightarrow> nat \<Rightarrow> bool" where
  "ct_equal a b len \<longleftrightarrow> fold (\<lambda>i diff. diff OR (a ! i XOR b ! i)) [0..<len] (0 :: u8) = 0"

definition API_ROUTE :: "string \<Rightarrow> bytes" where
  "API_ROUTE s = ascii ''/api/3ds/'' @ ascii s"

text \<open>\<open>discord_parse_field\<close> for the name of a field: the flag and the value.\<close>

definition parse_field :: "bytes \<Rightarrow> string \<Rightarrow> u32 \<Rightarrow> (bool \<times> bytes) option" where
  "parse_field resp name m = do {
     (found, v) \<leftarrow> discord_parse_field resp (ascii name) m;
     Some (found, case v of Some t \<Rightarrow> t | None \<Rightarrow> [])
   }"

text \<open>The body of a request: its end marks that more follows.\<close>

definition with_more :: "bytes \<Rightarrow> bytes \<Rightarrow> bytes" where
  "with_more body extra = (if extra \<noteq> [] then body @ ascii ''&'' else body)"

text \<open>\<open>success=true\<close> in the response.\<close>

definition success_true :: "bytes \<Rightarrow> bool option" where
  "success_true resp = do {
     (found, ok) \<leftarrow> parse_field resp ''success'' 8;
     Some (found \<and> ok = ascii ''true'')
   }"

text \<open>Whether the error field of the response mentions an expired session.\<close>

definition session_expired :: "bytes \<Rightarrow> bool option" where
  "session_expired resp = do {
     (found, err) \<leftarrow> parse_field resp ''error'' 64;
     Some (found \<and> strstr err (ascii ''session_expired'') 0 \<noteq> None)
   }"

section \<open>Requests\<close>

definition discord_login :: "'n discord_env \<Rightarrow> presence \<Rightarrow> 'n \<Rightarrow> (int \<times> presence \<times> 'n) option" where
  "discord_login e s n =
     (let body = snprintf 128 (ascii ''uuid='' @ g_uuid e);
          (r, resp, n1) = discord_http_post e n (API_ROUTE ''login'') body []
      in if r < 0 then Some (2, s, n1)
         else do {
           (found, nonce) \<leftarrow> parse_field resp ''nonce'' 32;
           if \<not> found then Some (1, s, n1)
           else do {
             let s1 = s\<lparr>g_counter := strtoull10 nonce\<rparr>;
             (hasver, ver) \<leftarrow> parse_field resp ''ver'' 32;
             Some (0, s1, if hasver then DiscordUpdate_CheckRemote e n1 ver else n1)
           }
         })"

definition discord_verify :: "'n discord_env \<Rightarrow> bytes \<Rightarrow> presence \<Rightarrow> 'n \<Rightarrow> (bool \<times> presence \<times> 'n) option" where
  "discord_verify e extra s n =
     (let key = decode_aes_key (g_aes_key_hex e);
          hex = fst (aes256_cbc_encrypt_to_hex (discord_pack_counter (g_counter s)) key (replicate 16 0));
          body = with_more (snprintf 160 (ascii ''uuid='' @ g_uuid e @ ascii ''&cipher_hex='' @ hex)) extra;
          (r, resp, n1) = discord_http_post e n (API_ROUTE ''login/verify'') body extra
      in if r = 0 then do {
           ok \<leftarrow> success_true resp;
           if ok then Some (True, s\<lparr>active_session := True, g_counter := g_counter s + 1\<rparr>, n1)
           else Some (False, s, n1)
         }
         else Some (False, s, n1))"

text \<open>The result, the code written to the caller's buffer, and the new state.\<close>

definition script_message :: "u64 \<Rightarrow> bytes \<Rightarrow> bytes" where
  "script_message titleid code = snprintf 512 (ascii ''titleid='' @ hex16 titleid @ ascii ''&code='' @ code)"

definition discord_get_script :: "'n discord_env \<Rightarrow> u64 \<Rightarrow> u32 \<Rightarrow> presence \<Rightarrow> 'n \<Rightarrow> (int \<times> bytes option \<times> presence \<times> 'n) option" where
  "discord_get_script e titleid code_size s n =
     (let key = decode_aes_key (g_aes_key_hex e);
          msg = snprintf 64 (ascii ''titleid='' @ hex16 titleid);
          auth_hex = build_auth key msg (g_counter s);
          body = snprintf 256 (ascii ''uuid='' @ g_uuid e @ ascii ''&auth_hex='' @ auth_hex @ ascii ''&titleid='' @ hex16 titleid);
          (r, resp, n1) = discord_http_post e n (API_ROUTE ''script'') body []
      in if r < 0 then Some (2, None, s, n1)
         else do {
           (hascode, code_out) \<leftarrow> discord_parse_field resp (ascii ''code'') code_size;
           (hassig, sig_hex) \<leftarrow> parse_field resp ''sig_hex'' 97;
           if \<not> hascode \<or> \<not> hassig then Some (-1, code_out, s, n1)
           else let code = the code_out; auth_hex = build_auth key (script_message titleid code) (g_counter s)
                in if length sig_hex \<noteq> 96 \<or> \<not> ct_equal auth_hex sig_hex 96 then Some (1, code_out, s, n1)
                   else Some (0, code_out, s\<lparr>g_counter := g_counter s + 1\<rparr>, n1)
         })"

text \<open>The end of the update and of the heartbeat.\<close>

definition after_activity :: "presence \<Rightarrow> int \<Rightarrow> bytes \<Rightarrow> (int \<times> presence) option" where
  "after_activity s r resp =
     (if r < 0 then Some (2, s)
      else do {
        ok \<leftarrow> (if r = 0 then success_true resp else Some False);
        if ok then Some (0, s\<lparr>g_counter := g_counter s + 1\<rparr>)
        else do {
          expired \<leftarrow> session_expired resp;
          Some (if expired then 1 else -1, s)
        }
      })"

definition discord_activity_update :: "'n discord_env \<Rightarrow> bytes \<Rightarrow> presence \<Rightarrow> 'n \<Rightarrow> (int \<times> presence \<times> 'n) option" where
  "discord_activity_update e msg s n =
     (let auth_hex = build_auth (decode_aes_key (g_aes_key_hex e)) msg (g_counter s);
          body = with_more (snprintf 160 (ascii ''uuid='' @ g_uuid e @ ascii ''&auth_hex='' @ auth_hex)) msg;
          (r, resp, n1) = discord_http_post e n (API_ROUTE ''activity/set'') body msg
      in do {
        (ret, s1) \<leftarrow> after_activity s r resp;
        Some (ret, s1, n1)
      })"

definition discord_activity_heartbeat :: "'n discord_env \<Rightarrow> presence \<Rightarrow> 'n \<Rightarrow> (int \<times> presence \<times> 'n) option" where
  "discord_activity_heartbeat e s n =
     (let auth_hex = build_auth (decode_aes_key (g_aes_key_hex e)) [] (g_counter s);
          body = snprintf 512 (ascii ''uuid='' @ g_uuid e @ ascii ''&auth_hex='' @ auth_hex);
          (r, resp, n1) = discord_http_post e n (API_ROUTE ''activity/heartbeat'') body []
      in do {
        (ret, s1) \<leftarrow> after_activity s r resp;
        Some (ret, s1, n1)
      })"

definition discord_logout :: "'n discord_env \<Rightarrow> bool \<Rightarrow> presence \<Rightarrow> 'n \<Rightarrow> presence \<times> 'n" where
  "discord_logout e sleep s n =
     (let flag = (if sleep then ascii ''1'' else ascii ''0'');
          auth_hex = build_auth (decode_aes_key (g_aes_key_hex e)) (snprintf 32 (ascii ''logout&sleep='' @ flag)) (g_counter s);
          body = snprintf 512 (ascii ''uuid='' @ g_uuid e @ ascii ''&auth_hex='' @ auth_hex @ ascii ''&sleep='' @ flag);
          (r, resp, n1) = discord_http_post e n (API_ROUTE ''logout'') body []
      in (s, n1))"

end
