(* ===== verification/Discord_Session_Claims.thy ===== *)
theory Discord_Session_Claims
  imports Discord_Session
begin

text \<open>
  The properties of the Presence protocol: every request returns, the counter moves exactly with the
  requests the server accepted, and a memory script is taken only with a signature that decrypts
  to the current counter and the hash of the title and the code.
\<close>

section \<open>Fields of the protocol\<close>

lemma names_ok:
  "\<forall>name \<in> {''success'', ''error'', ''nonce'', ''ver'', ''code'', ''sig_hex''}.
     ascii name \<noteq> [] \<and> (\<forall>c \<in> set (ascii name). \<not> ends_value c)"
  by code_simp

text \<open>The searches of the protocol end.\<close>

lemma protocol_fields:
  assumes "name \<in> {''success'', ''error'', ''nonce'', ''ver'', ''code'', ''sig_hex''}"
  shows "\<exists>found v. discord_parse_field resp (ascii name) m = Some (found, v) \<and> (found \<longrightarrow> v \<noteq> None)"
    and "\<exists>found t. parse_field resp name m = Some (found, t)"
proof -
  show "\<exists>found v. discord_parse_field resp (ascii name) m = Some (found, v) \<and> (found \<longrightarrow> v \<noteq> None)"
    using parse_field_lookup [of "ascii name" resp m] names_ok assms
    by (cases "field_value (ascii name) resp") (auto simp: Let_def)
  then show "\<exists>found t. parse_field resp name m = Some (found, t)" unfolding parse_field_def by fastforce
qed

lemma field_ends:
  "\<exists>x. parse_field resp ''success'' m = Some x" "\<exists>x. parse_field resp ''error'' m = Some x"
  "\<exists>x. parse_field resp ''nonce'' m = Some x" "\<exists>x. parse_field resp ''ver'' m = Some x"
  "\<exists>x. parse_field resp ''sig_hex'' m = Some x"
  using protocol_fields(2) [of "''success''" resp m] protocol_fields(2) [of "''error''" resp m]
    protocol_fields(2) [of "''nonce''" resp m] protocol_fields(2) [of "''ver''" resp m]
    protocol_fields(2) [of "''sig_hex''" resp m]
  by simp_all

lemma code_field_ends: "\<exists>found v. discord_parse_field resp (ascii ''code'') m = Some (found, v) \<and> (found \<longrightarrow> v \<noteq> None)"
  by (rule protocol_fields(1)) simp

lemma success_true_ends: "\<exists>b. success_true resp = Some b"
  using field_ends(1) [of resp 8] by (auto simp: success_true_def)

lemma session_expired_ends: "\<exists>b. session_expired resp = Some b"
  using field_ends(2) [of resp 64] by (auto simp: session_expired_def)

section \<open>The counter\<close>

definition tick :: "presence \<Rightarrow> presence" where
  "tick s = s\<lparr>g_counter := g_counter s + 1\<rparr>"

lemma after_activity_cases:
  "\<exists>ret. after_activity s r resp = Some (ret, if ret = 0 then tick s else s)"
proof -
  obtain b where b: "success_true resp = Some b" using success_true_ends by blast
  obtain x where x: "session_expired resp = Some x" using session_expired_ends by blast
  show ?thesis using b x by (auto simp: after_activity_def tick_def)
qed

text \<open>The calls of a client, and one of them.\<close>

datatype call = Login | Verify bytes | Script u64 u32 | Update bytes | Heartbeat | Logout bool

definition do_call :: "'n discord_env \<Rightarrow> call \<Rightarrow> presence \<times> 'n \<Rightarrow> (int \<times> presence \<times> 'n) option" where
  "do_call e c = (\<lambda>(s, n). case c of
     Login \<Rightarrow> discord_login e s n
   | Verify extra \<Rightarrow> map_option (\<lambda>(ok, s1, n1). (if ok then 0 else 1, s1, n1)) (discord_verify e extra s n)
   | Script titleid cap \<Rightarrow> map_option (\<lambda>(ret, code, s1, n1). (ret, s1, n1)) (discord_get_script e titleid cap s n)
   | Update msg \<Rightarrow> discord_activity_update e msg s n
   | Heartbeat \<Rightarrow> discord_activity_heartbeat e s n
   | Logout sleep \<Rightarrow> (case discord_logout e sleep s n of (s1, n1) \<Rightarrow> Some (0, s1, n1)))"

definition counts :: "call \<Rightarrow> bool" where
  "counts c \<longleftrightarrow> (case c of Login \<Rightarrow> False | Logout sleep \<Rightarrow> False | _ \<Rightarrow> True)"

lemma login_ends:
  "\<exists>ret s' n'. discord_login e s n = Some (ret, s', n') \<and>
    (if ret = 0 then active_session s' = active_session s else s' = s)"
proof -
  obtain r resp n1 where p: "discord_http_post e n (API_ROUTE ''login'') (snprintf 128 (ascii ''uuid='' @ g_uuid e)) [] = (r, resp, n1)"
    by (rule prod_cases3)
  obtain f t where "parse_field resp ''nonce'' 32 = Some (f, t)" using field_ends(3) [of resp 32] by auto
  moreover obtain f' t' where "parse_field resp ''ver'' 32 = Some (f', t')" using field_ends(4) [of resp 32] by auto
  ultimately show ?thesis using p by (cases f) (simp_all add: discord_login_def Let_def)
qed

lemma verify_ends:
  "\<exists>ok s' n'. discord_verify e extra s n = Some (ok, s', n') \<and>
    s' = (if ok then (tick s)\<lparr>active_session := True\<rparr> else s)"
proof -
  have "\<exists>ok s' n'. (case x of (r, resp, n1) \<Rightarrow>
      if r = 0 then success_true resp \<bind> (\<lambda>ok. if ok then Some (True, s\<lparr>active_session := True, g_counter := g_counter s + 1\<rparr>, n1) else Some (False, s, n1))
      else Some (False, s, n1)) = Some (ok, s', n') \<and> s' = (if ok then (tick s)\<lparr>active_session := True\<rparr> else s)"
    for x :: "int \<times> bytes \<times> 'a"
  proof -
    obtain r resp n1 where x: "x = (r, resp, n1)" by (rule prod_cases3)
    obtain b where "success_true resp = Some b" using success_true_ends by blast
    then show ?thesis by (auto simp: x tick_def)
  qed
  then show ?thesis unfolding discord_verify_def Let_def .
qed

lemma script_ends:
  "\<exists>ret code s' n'. discord_get_script e titleid cap s n = Some (ret, code, s', n') \<and> s' = (if ret = 0 then tick s else s)"
proof -
  let ?key = "decode_aes_key (g_aes_key_hex e)"
  obtain r resp n1 where p: "discord_http_post e n (API_ROUTE ''script'')
      (snprintf 256 (ascii ''uuid='' @ g_uuid e @ ascii ''&auth_hex='' @
        build_auth ?key (snprintf 64 (ascii ''titleid='' @ hex16 titleid)) (g_counter s) @ ascii ''&titleid='' @ hex16 titleid)) []
      = (r, resp, n1)"
    by (rule prod_cases3)
  obtain f c where "discord_parse_field resp (ascii ''code'') cap = Some (f, c)" using code_field_ends [of resp cap] by blast
  moreover obtain f' t' where "parse_field resp ''sig_hex'' 97 = Some (f', t')" using field_ends(5) [of resp 97] by auto
  ultimately show ?thesis using p by (simp add: discord_get_script_def Let_def tick_def)
qed

lemma update_ends:
  "\<exists>ret s' n'. discord_activity_update e msg s n = Some (ret, s', n') \<and> s' = (if ret = 0 then tick s else s)"
  "\<exists>ret s' n'. discord_activity_heartbeat e s n = Some (ret, s', n') \<and> s' = (if ret = 0 then tick s else s)"
proof -
  have "\<exists>ret s' n'. (case x of (r, resp, n1) \<Rightarrow> after_activity s r resp \<bind> (\<lambda>(ret, s1). Some (ret, s1, n1))) = Some (ret, s', n') \<and>
      s' = (if ret = 0 then tick s else s)" for x :: "int \<times> bytes \<times> 'a"
  proof -
    obtain r resp n1 where x: "x = (r, resp, n1)" by (rule prod_cases3)
    obtain ret where "after_activity s r resp = Some (ret, if ret = 0 then tick s else s)" using after_activity_cases by blast
    then show ?thesis by (simp add: x)
  qed
  then show "\<exists>ret s' n'. discord_activity_update e msg s n = Some (ret, s', n') \<and> s' = (if ret = 0 then tick s else s)"
    "\<exists>ret s' n'. discord_activity_heartbeat e s n = Some (ret, s', n') \<and> s' = (if ret = 0 then tick s else s)"
    unfolding discord_activity_update_def discord_activity_heartbeat_def Let_def by blast+
qed

text \<open>C15: every call of the protocol returns, whatever the server answers; the counter moves by one exactly
  when a counted call succeeds, only a login sets it otherwise, and a failed call leaves the session
  as it was.\<close>

theorem counter_moves_with_success:
  "\<exists>ret s' n'. do_call e c (s, n) = Some (ret, s', n') \<and>
    (ret \<noteq> 0 \<longrightarrow> s' = s) \<and> (counts c \<and> ret = 0 \<longrightarrow> g_counter s' = g_counter s + 1) \<and>
    (\<not> counts c \<and> c \<noteq> Login \<longrightarrow> s' = s) \<and>
    (active_session s' \<noteq> active_session s \<longrightarrow> (\<exists>extra. c = Verify extra))"
proof (cases c)
  case Login
  from login_ends [of e s n] show ?thesis by (auto simp: do_call_def counts_def Login split: if_splits)
next
  case (Verify extra)
  from verify_ends [of e extra s n] obtain ok s' n' where
    v: "discord_verify e extra s n = Some (ok, s', n')" "s' = (if ok then (tick s)\<lparr>active_session := True\<rparr> else s)" by blast
  then show ?thesis by (simp add: do_call_def counts_def Verify tick_def)
next
  case (Script titleid cap)
  from script_ends [of e titleid cap s n] show ?thesis by (auto simp: do_call_def counts_def Script tick_def)
next
  case (Update msg)
  from update_ends(1) [of e msg s n] show ?thesis by (auto simp: do_call_def counts_def Update tick_def)
next
  case Heartbeat
  from update_ends(2) [of e s n] show ?thesis by (auto simp: do_call_def counts_def Heartbeat tick_def)
next
  case (Logout sleep)
  have "\<exists>n'. discord_logout e sleep s n = (s, n')" by (auto simp: discord_logout_def Let_def split: prod.splits)
  then show ?thesis by (auto simp: do_call_def counts_def Logout)
qed

section \<open>Signatures\<close>

text \<open>Reading a hexadecimal text back.\<close>

fun unhex :: "bytes \<Rightarrow> bytes" where
  "unhex (h # l # s) = word_of_nat (digit_value h * 16 + digit_value l) # unhex s"
| "unhex s = []"

lemma hex_chars_value: "n < 16 \<Longrightarrow> digit_value (hex_chars ! n) = n"
proof -
  have m: "map digit_value hex_chars = [0..<16]" by code_simp
  moreover have "length hex_chars = 16" by (simp add: hex_chars_def)
  moreover assume "n < 16"
  ultimately show ?thesis using nth_map [of n hex_chars digit_value] by simp
qed

lemma unat_split: "unat (drop_bit 4 b) * 16 + unat (b AND 0xf) = unat (b :: u8)"
proof -
  have "unat (drop_bit 4 b) = unat b div 16" by (simp only: unat_drop_bit_eq) (simp add: drop_bit_eq_div)
  moreover have "unat (b AND 0xf) = unat b mod 16" unfolding low_nibble
    by (simp only: unsigned_take_bit_eq) (simp add: take_bit_eq_mod)
  ultimately show ?thesis by simp
qed

lemma unhex_bytes: "unhex (bytes_to_hex bs) = bs"
  by (induction bs) (simp_all add: bytes_to_hex_def hex_chars_value unat_nibbles unat_split)

lemma length_bytes_to_hex: "length (bytes_to_hex bs) = 2 * length bs"
  by (induction bs) (simp_all add: bytes_to_hex_def)

lemma ct_equal_iff:
  assumes "n \<le> length a" and "n \<le> length b"
  shows "ct_equal a b n \<longleftrightarrow> take n a = take n b"
proof -
  have "fold (\<lambda>i diff. diff OR (a ! i XOR b ! i)) is d = 0 \<longleftrightarrow> d = 0 \<and> (\<forall>i \<in> set is. a ! i = b ! i)" for "is" and d :: u8
  proof (induction "is" arbitrary: d)
    case (Cons i "is")
    have "(d OR (a ! i XOR b ! i) = 0) \<longleftrightarrow> d = 0 \<and> a ! i = b ! i"
      by (metis bit.xor_self or.left_neutral or_eq_0_iff xor.left_neutral xor_cancel xor.commute)
    with Cons show ?case by auto
  qed simp
  then have "ct_equal a b n \<longleftrightarrow> (\<forall>i < n. a ! i = b ! i)" by (auto simp: ct_equal_def)
  also have "\<dots> \<longleftrightarrow> take n a = take n b" using assms by (simp add: list_eq_iff_nth_eq)
  finally show ?thesis .
qed

text \<open>What an authentication text decrypts to.\<close>

lemma sha256_of_eq: "sha256_of msg = sha256 msg"
proof -
  let ?c = "\<lparr>data = replicate 64 0, datalen = 0, bitlen = 0, state = []\<rparr>"
  have "sha_rep [] (sha256_init ?c)" by (rule sha_rep_init) simp
  from sha_rep_final [OF sha_rep_update [OF this, of msg]] show ?thesis by (simp add: sha256_of_def)
qed

lemma auth_decrypts:
  "length (build_auth key msg counter) = 96 \<and>
   aes256_cbc_decrypt key (replicate 16 0) (unhex (build_auth key msg counter)) = discord_pack_counter counter @ sha256 msg"
proof -
  let ?m = "discord_pack_counter counter @ sha256 msg"
  have l: "length ?m = 40" by (simp add: discord_pack_counter_def length_sha256)
  have "length (replicate 16 (0 :: u8)) = 16" by simp
  from cbc_roundtrip [OF this, of key ?m] l show ?thesis
    by (simp add: build_auth_def aes256_cbc_encrypt_to_hex_def Let_def sha256_of_eq unhex_bytes length_bytes_to_hex)
qed

text \<open>The counter of a packed counter.\<close>

lemma pack_counter_inj: "discord_pack_counter c @ x = discord_pack_counter c' @ y \<Longrightarrow> c = c'"
proof -
  assume "discord_pack_counter c @ x = discord_pack_counter c' @ y"
  then have "\<forall>k \<in> set [0..<8]. (ucast (drop_bit (8 * k) c) :: u8) = ucast (drop_bit (8 * k) c')"
    by (simp add: discord_pack_counter_def upt_rec)
  then have b: "(ucast (drop_bit (8 * k) c) :: u8) = ucast (drop_bit (8 * k) c')" if "k < 8" for k using that by simp
  show ?thesis
  proof (rule bit_word_eqI)
    fix i assume i: "i < LENGTH(64)"
    have "bit (ucast (drop_bit (8 * (i div 8)) c) :: u8) (i mod 8) = bit (ucast (drop_bit (8 * (i div 8)) c') :: u8) (i mod 8)"
      using b [of "i div 8"] i by simp
    then show "bit c i = bit c' i" by (simp add: bit_simps mult_div_mod_eq)
  qed
qed

text \<open>C14: a memory script is accepted only with a signature that decrypts, under the key of the console, to
  the client's current counter and the FIPS 180-4 hash of the title and of the very code handed
  out; accepting it takes one tick.\<close>

theorem script_is_authentic:
  assumes "discord_get_script e titleid cap s n = Some (0, code_out, s', n')"
  shows "\<exists>code sig r resp. code_out = Some code \<and> r \<ge> 0 \<and>
    (\<exists>body. discord_http_post e n (API_ROUTE ''script'') body [] = (r, resp, n')) \<and>
    parse_field resp ''sig_hex'' 97 = Some (True, sig) \<and>
    aes256_cbc_decrypt (decode_aes_key (g_aes_key_hex e)) (replicate 16 0) (unhex sig) =
      discord_pack_counter (g_counter s) @ sha256 (script_message titleid code) \<and>
    s' = tick s"
proof -
  let ?key = "decode_aes_key (g_aes_key_hex e)"
  let ?body = "snprintf 256 (ascii ''uuid='' @ g_uuid e @ ascii ''&auth_hex='' @
        build_auth ?key (snprintf 64 (ascii ''titleid='' @ hex16 titleid)) (g_counter s) @ ascii ''&titleid='' @ hex16 titleid)"
  obtain r resp n1 where p: "discord_http_post e n (API_ROUTE ''script'') ?body [] = (r, resp, n1)"
    by (rule prod_cases3)
  obtain f c where c: "discord_parse_field resp (ascii ''code'') cap = Some (f, c)" "f \<longrightarrow> c \<noteq> None"
    using code_field_ends [of resp cap] by blast
  obtain f' sig where sig: "parse_field resp ''sig_hex'' 97 = Some (f', sig)" using field_ends(5) [of resp 97] by auto
  let ?auth = "build_auth ?key (script_message titleid (the c)) (g_counter s)"
  have A: "\<not> r < 0" "f" "f'" "length sig = 96" "ct_equal ?auth sig 96" "code_out = c" "s' = tick s" "n' = n1"
    using assms p c(1) sig by (auto simp: discord_get_script_def Let_def tick_def split: if_splits)
  have l: "length ?auth = 96" using auth_decrypts by blast
  have "sig = ?auth" using A(4,5) l ct_equal_iff [of 96 ?auth sig] by simp
  then have "aes256_cbc_decrypt ?key (replicate 16 0) (unhex sig) = discord_pack_counter (g_counter s) @ sha256 (script_message titleid (the c))"
    using auth_decrypts by blast
  moreover have "0 \<le> r" "code_out = Some (the c)" "parse_field resp ''sig_hex'' 97 = Some (True, sig)" using A c(2) sig by auto
  moreover have "\<exists>body. discord_http_post e n (API_ROUTE ''script'') body [] = (r, resp, n')" unfolding A(8) using p by (rule exI)
  ultimately show ?thesis using A(7) by blast
qed

text \<open>A signature made for another counter is refused, whatever the code: an answer recorded in an
  earlier exchange is of no use.\<close>

theorem script_replay_refused:
  assumes "\<And>body. discord_http_post e n (API_ROUTE ''script'') body [] = (0, resp, n1)"
    and "discord_parse_field resp (ascii ''code'') cap = Some (True, Some code)"
    and "parse_field resp ''sig_hex'' 97 = Some (True, build_auth (decode_aes_key (g_aes_key_hex e)) msg counter)"
    and "counter \<noteq> g_counter s"
  shows "discord_get_script e titleid cap s n = Some (1, Some code, s, n1)"
proof -
  let ?key = "decode_aes_key (g_aes_key_hex e)"
  let ?auth = "build_auth ?key (script_message titleid code) (g_counter s)" and ?sig = "build_auth ?key msg counter"
  have l: "length ?auth = 96" "length ?sig = 96" using auth_decrypts by blast+
  have "?auth \<noteq> ?sig"
  proof
    assume "?auth = ?sig"
    then have "discord_pack_counter (g_counter s) @ sha256 (script_message titleid code) = discord_pack_counter counter @ sha256 msg"
      using auth_decrypts by metis
    then show False using pack_counter_inj assms(4) by blast
  qed
  then have "\<not> ct_equal ?auth ?sig 96" using ct_equal_iff [of 96 ?auth ?sig] l by simp
  then show ?thesis using assms(1-3) l by (simp add: discord_get_script_def Let_def)
qed

section \<open>A server\<close>

definition demo_key_hex :: bytes where
  "demo_key_hex = replicate 64 0x31 @ [0]"

definition demo_resp :: "u64 \<Rightarrow> bytes" where
  "demo_resp counter = ascii ''code=00100000w&sig_hex='' @
     build_auth (decode_aes_key demo_key_hex) (script_message 7 (ascii ''00100000w'')) counter"

definition demo_net :: "u64 \<Rightarrow> unit discord_env" where
  "demo_net counter = \<lparr>g_aes_key_hex = demo_key_hex, g_uuid = ascii ''u'',
     discord_http_post = (\<lambda>n path body extra. (0, demo_resp counter, n)), DiscordUpdate_CheckRemote = (\<lambda>n ver. n)\<rparr>"

lemma segments_plain: "\<forall>c \<in> set xs. \<not> ends_value c \<Longrightarrow> segments xs = [xs]"
proof -
  assume "\<forall>c \<in> set xs. \<not> ends_value c"
  then have t: "takeWhile (\<lambda>c. \<not> ends_value c) xs = xs" "dropWhile (\<lambda>c. \<not> ends_value c) xs = []" by simp_all
  show ?thesis unfolding segments.simps [of xs] t by simp
qed

lemma segments_cons: "\<forall>c \<in> set xs. \<not> ends_value c \<Longrightarrow> ends_value s \<Longrightarrow> segments (xs @ s # ys) = xs # segments ys"
proof -
  assume "\<forall>c \<in> set xs. \<not> ends_value c" "ends_value s"
  then have "takeWhile (\<lambda>c. \<not> ends_value c) (xs @ s # ys) = xs" "dropWhile (\<lambda>c. \<not> ends_value c) (xs @ s # ys) = s # ys" by simp_all
  note t = this
  show ?thesis unfolding segments.simps [of "xs @ s # ys"] t by simp
qed

lemma hex_text_plain: "\<forall>c \<in> set (bytes_to_hex bs). \<not> ends_value c"
proof -
  have "\<forall>c \<in> set hex_chars. \<not> ends_value c" by (simp add: hex_chars_def ends_value_def)
  moreover have "length hex_chars = 16" by (simp add: hex_chars_def)
  ultimately have h: "n < 16 \<Longrightarrow> \<not> ends_value (hex_chars ! n)" for n by (metis nth_mem)
  show ?thesis by (induction bs) (simp_all add: bytes_to_hex_def h unat_nibbles)
qed

lemma auth_text_plain: "\<forall>c \<in> set (build_auth key msg counter). \<not> ends_value c"
  by (simp add: build_auth_def aes256_cbc_encrypt_to_hex_def Let_def hex_text_plain)

text \<open>The fields of a response with a code and a signature.\<close>

lemma demo_segments:
  assumes "\<forall>c \<in> set sig. \<not> ends_value c"
  shows "segments (ascii ''code=00100000w&sig_hex='' @ sig) = [ascii ''code=00100000w'', ascii ''sig_hex='' @ sig]"
proof -
  have x: "ascii ''code=00100000w&sig_hex='' = ascii ''code=00100000w'' @ 0x26 # ascii ''sig_hex=''" by (simp add: ascii_def)
  have p: "\<forall>c \<in> set (ascii ''code=00100000w''). \<not> ends_value c" "\<forall>c \<in> set (ascii ''sig_hex=''). \<not> ends_value c" "ends_value 0x26"
    by code_simp+
  have "\<forall>c \<in> set (ascii ''sig_hex='' @ sig). \<not> ends_value c" using p(2) assms by auto
  from segments_cons [OF p(1,3), of "ascii ''sig_hex='' @ sig"] segments_plain [OF this] show ?thesis
    by (simp add: x)
qed

lemma demo_resp_fields:
  assumes "\<forall>c \<in> set sig. \<not> ends_value c" and "length sig = 96" and "cap \<in> {64, 1024}"
  shows "discord_parse_field (ascii ''code=00100000w&sig_hex='' @ sig) (ascii ''code'') cap = Some (True, Some (ascii ''00100000w''))"
    and "parse_field (ascii ''code=00100000w&sig_hex='' @ sig) ''sig_hex'' 97 = Some (True, sig)"
proof -
  have s: "starts_with (ascii ''code='') (ascii ''code=00100000w'')" "\<not> starts_with (ascii ''sig_hex='') (ascii ''code=00100000w'')"
    "drop 5 (ascii ''code=00100000w'') = ascii ''00100000w''" "length (ascii ''00100000w'') = 9" "length (ascii ''code'') = 4"
    "length (ascii ''sig_hex'') = 7" "ascii ''code'' @ [0x3D] = ascii ''code=''" "ascii ''sig_hex'' @ [0x3D] = ascii ''sig_hex=''"
    by code_simp+
  have g: "starts_with (ascii ''sig_hex='') (ascii ''sig_hex='' @ sig)" "length (ascii ''sig_hex='') = 8"
    by (simp_all add: starts_with_def ascii_def)
  have "field_value (ascii ''code'') (ascii ''code=00100000w&sig_hex='' @ sig) = Some (ascii ''00100000w'')"
    using s by (simp add: field_value_def demo_segments [OF assms(1)])
  moreover have "take (unat (cap - 1)) (ascii ''00100000w'') = ascii ''00100000w''" "ascii ''00100000w'' \<noteq> []" using s(4) assms(3) by auto
  ultimately show "discord_parse_field (ascii ''code=00100000w&sig_hex='' @ sig) (ascii ''code'') cap = Some (True, Some (ascii ''00100000w''))"
    using parse_field_lookup [of "ascii ''code''" _ cap] names_ok by (simp add: Let_def)
  have "field_value (ascii ''sig_hex'') (ascii ''code=00100000w&sig_hex='' @ sig) = Some sig"
    using s g by (simp add: field_value_def demo_segments [OF assms(1)])
  moreover have "take (unat (97 - 1 :: u32)) sig = sig" "sig \<noteq> []" using assms(2) by auto
  ultimately show "parse_field (ascii ''code=00100000w&sig_hex='' @ sig) ''sig_hex'' 97 = Some (True, sig)"
    using parse_field_lookup [of "ascii ''sig_hex''" _ 97] names_ok by (simp add: parse_field_def Let_def)
qed

lemma demo_net_fields:
  "cap \<in> {64, 1024} \<Longrightarrow> discord_parse_field (demo_resp c) (ascii ''code'') cap = Some (True, Some (ascii ''00100000w''))"
  "parse_field (demo_resp c) ''sig_hex'' 97 =
     Some (True, build_auth (decode_aes_key demo_key_hex) (script_message 7 (ascii ''00100000w'')) c)"
  unfolding demo_resp_def using demo_resp_fields [OF auth_text_plain] auth_decrypts by blast+

definition demo_session :: presence where
  "demo_session = \<lparr>g_counter = 5, active_session = True\<rparr>"

lemma demo_accepts:
  assumes "cap \<in> {64, 1024}"
  shows "discord_get_script (demo_net 5) 7 cap demo_session () = Some (0, Some (ascii ''00100000w''), tick demo_session, ())"
proof -
  have "ct_equal a a 96" if "length a = 96" for a using ct_equal_iff [of 96 a a] that by simp
  then show ?thesis using demo_net_fields(1) [OF assms, of 5] demo_net_fields(2) [of 5] auth_decrypts
    by (simp add: discord_get_script_def Let_def demo_net_def demo_session_def tick_def)
qed

theorem script_is_authentic_witness:
  "\<exists>sig. parse_field (demo_resp 5) ''sig_hex'' 97 = Some (True, sig) \<and>
    aes256_cbc_decrypt (decode_aes_key demo_key_hex) (replicate 16 0) (unhex sig) =
      discord_pack_counter 5 @ sha256 (script_message 7 (ascii ''00100000w''))"
  using script_is_authentic [OF demo_accepts, of 64] by (auto simp: demo_net_def demo_session_def)

theorem script_replay_refused_witness:
  "discord_get_script (demo_net 4) 7 64 demo_session () = Some (1, Some (ascii ''00100000w''), demo_session, ())"
proof -
  have e: "g_aes_key_hex (demo_net 4) = demo_key_hex" "(4 :: u64) \<noteq> g_counter demo_session" by (simp_all add: demo_net_def demo_session_def)
  have p: "discord_http_post (demo_net 4) () (API_ROUTE ''script'') body [] = (0, demo_resp 4, ())" for body by (simp add: demo_net_def)
  show ?thesis by (rule script_replay_refused [OF p demo_net_fields(1) [of 64, simplified] demo_net_fields(2) [of 4, folded e(1)] e(2)])
qed

theorem counter_moves_with_success_witness:
  "\<exists>s' n'. do_call (demo_net 5) (Script 7 64) (demo_session, ()) = Some (0, s', n') \<and> g_counter s' = 6 \<and> counts (Script 7 64)"
proof -
  have "do_call (demo_net 5) (Script 7 64) (demo_session, ()) = Some (0, tick demo_session, ())"
    by (simp add: do_call_def demo_accepts [of 64])
  moreover have "counts (Script 7 64)" by (simp add: counts_def)
  ultimately show ?thesis
    using counter_moves_with_success [of "demo_net 5" "Script 7 64" demo_session "()"] by (auto simp: demo_session_def)
qed

end
