(* ===== verification/Discord_Config.thy ===== *)
theory Discord_Config
  imports Discord_Session
begin

text \<open>
  The configuration of the Presence client: the reader of \<open>KEY=VALUE\<close> files
  (\<open>discord/utils/config_reader.c\<close>), the account and server (\<open>discord/discord_config.c\<close>) and the
  preferences (\<open>discord/user_prefs.c\<close>).

  The file server is a record of functions over an abstract state; \<open>sd_ok\<close> names what its
  documentation promises, for theorems that write a file and read it again. Log lines are left out.
\<close>

section \<open>The file server\<close>

record 'n sd_env =
  FSUSER_OpenFileDirectly :: "'n \<Rightarrow> bytes \<Rightarrow> u32 \<Rightarrow> result \<times> handle \<times> 'n"
  FSFILE_Read :: "'n \<Rightarrow> handle \<Rightarrow> nat \<Rightarrow> result \<times> bytes \<times> 'n"
  FSFILE_Write :: "'n \<Rightarrow> handle \<Rightarrow> bytes \<Rightarrow> result \<times> 'n"
  FSFILE_SetSize :: "'n \<Rightarrow> handle \<Rightarrow> nat \<Rightarrow> 'n"
  FSFILE_Close :: "'n \<Rightarrow> handle \<Rightarrow> 'n"
  FSUSER_DeleteFile :: "'n \<Rightarrow> bytes \<Rightarrow> result \<times> 'n"

definition FS_OPEN_READ :: u32 where "FS_OPEN_READ = 1"
definition FS_OPEN_WRITE :: u32 where "FS_OPEN_WRITE = 2"
definition FS_OPEN_CREATE :: u32 where "FS_OPEN_CREATE = 4"

section \<open>Reading a configuration file\<close>

text \<open>The C string in a buffer, and the tokens \<open>strtok_r\<close> gives one after the other.\<close>

definition c_string :: "bytes \<Rightarrow> bytes" where
  "c_string buf = takeWhile (\<lambda>c. c \<noteq> 0) buf"

function (sequential) tokens :: "(u8 \<Rightarrow> bool) \<Rightarrow> bytes \<Rightarrow> bytes list" where
  "tokens delim s =
     (case dropWhile delim s of
        [] \<Rightarrow> []
      | c # r \<Rightarrow> takeWhile (\<lambda>x. \<not> delim x) (c # r) # tokens delim (dropWhile (\<lambda>x. \<not> delim x) (c # r)))"
  by pat_completeness auto

lemma dropWhile_shorter:
  assumes "dropWhile d s = c # r"
  shows "length (dropWhile (\<lambda>x. \<not> d x) (c # r)) < length s"
proof -
  have "\<not> d c" using assms by (metis hd_dropWhile list.distinct(1) list.sel(1))
  moreover have "length (c # r) \<le> length s" using length_dropWhile_le [of d s] assms by simp
  ultimately show ?thesis using length_dropWhile_le [of "\<lambda>x. \<not> d x" r] by simp
qed

termination tokens
  by (relation "measure (\<lambda>(d, s). length s)") (auto dest: dropWhile_shorter)

declare tokens.simps [simp del]

definition is_blank_char :: "u8 \<Rightarrow> bool" where
  "is_blank_char c \<longleftrightarrow> c = 0x20 \<or> c = 0x09"

definition is_trailer :: "u8 \<Rightarrow> bool" where
  "is_trailer c \<longleftrightarrow> c = 0x0D \<or> c = 0x0A \<or> c = 0x20 \<or> c = 0x09"

definition rstrip :: "(u8 \<Rightarrow> bool) \<Rightarrow> bytes \<Rightarrow> bytes" where
  "rstrip d s = rev (dropWhile d (rev s))"

definition split_entry :: "bytes \<Rightarrow> (bytes \<times> bytes) option" where
  "split_entry line =
     (if line = [] \<or> hd line = 0x23 then None
      else case dropWhile (\<lambda>c. c \<noteq> 0x3D) line of
        [] \<Rightarrow> None
      | _ # val \<Rightarrow> Some (rstrip is_blank_char (takeWhile (\<lambda>c. c \<noteq> 0x3D) line), rstrip is_trailer val))"

fun parse_lines :: "(bytes \<Rightarrow> bytes \<Rightarrow> 's \<Rightarrow> bool \<times> 's) \<Rightarrow> bytes list \<Rightarrow> 's \<Rightarrow> 's" where
  "parse_lines handler [] s = s"
| "parse_lines handler (line # lines) s =
     (case split_entry line of
        None \<Rightarrow> parse_lines handler lines s
      | Some (key, val) \<Rightarrow>
          (case handler key val s of (go, s') \<Rightarrow> if go then parse_lines handler lines s' else s'))"

definition config_lines :: "bytes \<Rightarrow> bytes list" where
  "config_lines buf = tokens (\<lambda>c. c = 0x0A) (c_string buf)"

definition ConfigReader_Parse ::
    "'n sd_env \<Rightarrow> 'n \<Rightarrow> bytes \<Rightarrow> (bytes \<Rightarrow> bytes \<Rightarrow> 's \<Rightarrow> bool \<times> 's) \<Rightarrow> 's \<Rightarrow> result \<times> 's \<times> 'n" where
  "ConfigReader_Parse e k path handler s =
     (let (res, h, k1) = FSUSER_OpenFileDirectly e k path FS_OPEN_READ
      in if rfailed res then (res, s, k1)
         else let (res, buf, k2) = FSFILE_Read e k1 h 255; k3 = FSFILE_Close e k2 h
           in if rfailed res then (res, s, k3)
              else (0, parse_lines handler (config_lines buf) s, k3))"

section \<open>Account and server\<close>

record discord_config =
  uuid_buf :: bytes
  aes_key_buf :: bytes
  host_buf :: bytes
  server_port :: u16
  config_loaded :: bool

record config_context =
  has_uuid :: bool
  has_key :: bool
  has_host :: bool
  has_port :: bool

text \<open>\<open>memcpy\<close> of a text and its terminator over what the buffer held.\<close>

definition put_text :: "bytes \<Rightarrow> bytes \<Rightarrow> bytes" where
  "put_text t buf = t @ 0 # drop (length t + 1) buf"

fun parse_port :: "u32 \<Rightarrow> bytes \<Rightarrow> u32 \<times> bool" where
  "parse_port port [] = (port, True)"
| "parse_port port (c # p) =
     (if 0x30 \<le> c \<and> c \<le> 0x39 then parse_port (port * 10 + ucast (c - 0x30)) p else (port, False))"

definition config_handler ::
    "bytes \<Rightarrow> bytes \<Rightarrow> discord_config \<times> config_context \<Rightarrow> bool \<times> discord_config \<times> config_context" where
  "config_handler key val s =
     (let (g, ctx) = s; len = length val
      in if key = ascii ''UUID'' then
           (if 0 < len \<and> len < 37 then (True, g\<lparr>uuid_buf := put_text val (uuid_buf g)\<rparr>, ctx\<lparr>has_uuid := True\<rparr>)
            else (True, g, ctx))
         else if key = ascii ''AES_KEY'' then
           (if 0 < len \<and> len < 65 then (True, g\<lparr>aes_key_buf := put_text val (aes_key_buf g)\<rparr>, ctx\<lparr>has_key := True\<rparr>)
            else (True, g, ctx))
         else if key = ascii ''SERVER_HOST'' then
           (if 0 < len \<and> len < 256 then (True, g\<lparr>host_buf := put_text val (host_buf g)\<rparr>, ctx\<lparr>has_host := True\<rparr>)
            else (True, g, ctx))
         else if key = ascii ''SERVER_PORT'' then
           (let (port, port_ok) = parse_port 0 val
            in if port_ok \<and> 0 < port \<and> port \<le> 65535
               then (True, g\<lparr>server_port := ucast port\<rparr>, ctx\<lparr>has_port := True\<rparr>) else (True, g, ctx))
         else (True, g, ctx))"

definition DISCORD_CONFIG_PATH :: bytes where
  "DISCORD_CONFIG_PATH = ascii ''/presence3ds/discord_rpc.conf''"

definition reset_config :: "discord_config \<Rightarrow> discord_config" where
  "reset_config g = g\<lparr>uuid_buf := (uuid_buf g)[0 := 0], aes_key_buf := (aes_key_buf g)[0 := 0],
     host_buf := (host_buf g)[0 := 0], server_port := 0, config_loaded := False\<rparr>"

definition DiscordConfig_Load :: "'n sd_env \<Rightarrow> 'n \<Rightarrow> discord_config \<Rightarrow> result \<times> discord_config \<times> 'n" where
  "DiscordConfig_Load e k g =
     (let (res, (g1, ctx), k1) =
        ConfigReader_Parse e k DISCORD_CONFIG_PATH config_handler
          (reset_config g, \<lparr>has_uuid = False, has_key = False, has_host = False, has_port = False\<rparr>)
      in if rfailed res then (res, g1, k1)
         else if has_uuid ctx \<and> has_key ctx \<and> has_host ctx \<and> has_port ctx
           then (0, g1\<lparr>config_loaded := True\<rparr>, k1)
           else (-1, g1, k1))"

section \<open>Preferences\<close>

datatype pref_type = PREF_BOOL | PREF_INT

record pref_meta =
  pref_key :: bytes
  pref_kind :: pref_type
  pref_def :: u8
  pref_max :: u8

definition RPC_LANGUAGE_AUTO :: u8 where "RPC_LANGUAGE_AUTO = 0"
definition RPC_LANGUAGE_MAX :: u8 where "RPC_LANGUAGE_MAX = 12"

definition bool_pref :: "string \<Rightarrow> pref_meta" where
  "bool_pref s = \<lparr>pref_key = ascii s, pref_kind = PREF_BOOL, pref_def = 0, pref_max = 0\<rparr>"

text \<open>The table, in the order of the indices.\<close>

definition g_user_prefs :: "pref_meta list" where
  "g_user_prefs =
     [bool_pref ''HIDE_MII'', bool_pref ''HIDE_HOME'', bool_pref ''AUTO_START_AT_BOOT'',
      bool_pref ''DISABLE_UPDATE_LED'', bool_pref ''ALLOW_UNSAFE'', bool_pref ''DISABLE_CUSTOMRPC'',
      \<lparr>pref_key = ascii ''RPC_LANGUAGE'', pref_kind = PREF_INT, pref_def = RPC_LANGUAGE_AUTO, pref_max = RPC_LANGUAGE_MAX\<rparr>]"

definition PREFS_COUNT :: nat where "PREFS_COUNT = 7"
definition PREFS_DISABLE_UPDATE_LED :: nat where "PREFS_DISABLE_UPDATE_LED = 3"
definition PREFS_DISABLE_CUSTOMRPC :: nat where "PREFS_DISABLE_CUSTOMRPC = 5"
definition PREFS_RPC_LANGUAGE :: nat where "PREFS_RPC_LANGUAGE = 6"

record prefs =
  g_pref_values :: "u8 list"
  g_prefs_loaded :: bool

definition to_lower :: "u8 \<Rightarrow> u8" where
  "to_lower c = (if 0x41 \<le> c \<and> c \<le> 0x5A then c + 0x20 else c)"

definition strcaseeq :: "bytes \<Rightarrow> bytes \<Rightarrow> bool" where
  "strcaseeq a b \<longleftrightarrow> map to_lower a = map to_lower b"

definition parse_bool :: "bytes \<Rightarrow> u8 option" where
  "parse_bool val =
     (let v = dropWhile is_blank_char val
      in if strcaseeq v (ascii ''true'') \<or> v = ascii ''1'' then Some 1
         else if strcaseeq v (ascii ''false'') \<or> v = ascii ''0'' then Some 0 else None)"

text \<open>\<open>strtoul(s, NULL, 10)\<close> in 32 bits of a text that starts with a digit.\<close>

definition strtoul10 :: "bytes \<Rightarrow> u32" where
  "strtoul10 s = (let n = digits_value 10 (takeWhile is_dec_digit s) in if n \<ge> 2 ^ 32 then -1 else word_of_nat n)"

definition parse_int :: "bytes \<Rightarrow> u8 \<Rightarrow> u8 option" where
  "parse_int val m =
     (case dropWhile is_blank_char val of
        [] \<Rightarrow> None
      | c # r \<Rightarrow>
          if c < 0x30 \<or> c > 0x39 then None
          else let v = strtoul10 (c # r) in if v > ucast m then None else Some (ucast v))"

fun find_pref :: "bytes \<Rightarrow> pref_meta list \<Rightarrow> nat \<Rightarrow> (nat \<times> pref_meta) option" where
  "find_pref key [] i = None"
| "find_pref key (p # ps) i = (if strcaseeq key (pref_key p) then Some (i, p) else find_pref key ps (i + 1))"

definition pref_value :: "pref_meta \<Rightarrow> bytes \<Rightarrow> u8 \<Rightarrow> u8" where
  "pref_value p val old =
     (case pref_kind p of
        PREF_INT \<Rightarrow> (case parse_int val (pref_max p) of Some v \<Rightarrow> v | None \<Rightarrow> pref_def p)
      | PREF_BOOL \<Rightarrow> (case parse_bool val of Some v \<Rightarrow> v | None \<Rightarrow> old))"

definition prefs_handler :: "bytes \<Rightarrow> bytes \<Rightarrow> u8 list \<Rightarrow> bool \<times> u8 list" where
  "prefs_handler key val vs =
     (True, case find_pref key g_user_prefs 0 of None \<Rightarrow> vs | Some (i, p) \<Rightarrow> vs[i := pref_value p val (vs ! i)])"

definition USER_PREFS_PATH :: bytes where
  "USER_PREFS_PATH = ascii ''/presence3ds/user_prefs.conf''"

definition UserPrefs_Load :: "'n sd_env \<Rightarrow> 'n \<Rightarrow> prefs \<Rightarrow> result \<times> prefs \<times> 'n" where
  "UserPrefs_Load e k g =
     (let (res, vs, k1) = ConfigReader_Parse e k USER_PREFS_PATH prefs_handler (map pref_def g_user_prefs)
      in (0, \<lparr>g_pref_values = vs, g_prefs_loaded = \<not> rfailed res\<rparr>, k1))"

text \<open>\<open>%u\<close>, for a value below a thousand.\<close>

definition decimal8 :: "u8 \<Rightarrow> bytes" where
  "decimal8 v = (let n = unat v in
     (if 100 \<le> n then [word_of_nat (48 + n div 100)] else []) @
     (if 10 \<le> n then [word_of_nat (48 + n div 10 mod 10)] else []) @ [word_of_nat (48 + n mod 10)])"

definition pref_line :: "pref_meta \<Rightarrow> u8 \<Rightarrow> bytes" where
  "pref_line p v = pref_key p @ ascii ''='' @
     (case pref_kind p of PREF_INT \<Rightarrow> decimal8 v
      | PREF_BOOL \<Rightarrow> if v \<noteq> 0 then ascii ''true'' else ascii ''false'') @ [0x0A]"

text \<open>\<open>snprintf\<close> at a position of the buffer; the result is the length of the whole text.\<close>

definition put_text_at :: "bytes \<Rightarrow> nat \<Rightarrow> bytes \<Rightarrow> bytes" where
  "put_text_at buf pos t = (let u = take (length buf - pos - 1) t in take pos buf @ u @ 0 # drop (pos + length u + 1) buf)"

fun save_lines :: "(pref_meta \<times> u8) list \<Rightarrow> bytes \<Rightarrow> nat \<Rightarrow> bytes \<times> nat" where
  "save_lines [] buf len = (buf, len)"
| "save_lines ((p, v) # pvs) buf len =
     (if len < 256 then save_lines pvs (put_text_at buf len (pref_line p v)) (len + length (pref_line p v)) else (buf, len))"

text \<open>\<open>buf\<close> is the uninitialised buffer of 256 bytes.\<close>

definition UserPrefs_Save :: "'n sd_env \<Rightarrow> bytes \<Rightarrow> 'n \<Rightarrow> prefs \<Rightarrow> result \<times> 'n" where
  "UserPrefs_Save e buf k g =
     (let (res, h, k1) = FSUSER_OpenFileDirectly e k USER_PREFS_PATH (FS_OPEN_WRITE OR FS_OPEN_CREATE)
      in if rfailed res then (res, k1)
         else let (b, len) = save_lines (zip g_user_prefs (g_pref_values g)) buf 0;
                  (res, k2) = FSFILE_Write e k1 h (take len b);
                  k3 = FSFILE_Close e k2 h
           in if rfailed res then (res, k3) else (0, k3))"

end
