(* ===== verification/Discord_Config_Proofs.thy ===== *)
theory Discord_Config_Proofs
  imports Discord_Config
begin

text \<open>
  What the reader of configuration files computes: the fold of the handler over the entries of the
  text, and how it splits a text that is written line by line.
\<close>

section \<open>Tokens\<close>

lemma tokens_none: "dropWhile delim s = [] \<Longrightarrow> tokens delim s = []"
  by (subst tokens.simps, simp only: list.case)

lemma tokens_some:
  "dropWhile delim s = c # r \<Longrightarrow>
   tokens delim s = takeWhile (\<lambda>x. \<not> delim x) (c # r) # tokens delim (dropWhile (\<lambda>x. \<not> delim x) (c # r))"
  by (subst tokens.simps, simp only: list.case)

lemma tokens_skip: "delim c \<Longrightarrow> tokens delim (c # s) = tokens delim s"
  by (subst (1 2) tokens.simps) simp

lemma tokens_Nil [simp]: "tokens delim [] = []"
  by (simp add: tokens.simps)

lemma tokens_line:
  assumes "l \<noteq> []" and "\<forall>c \<in> set l. \<not> delim c" and "delim d"
  shows "tokens delim (l @ d # s) = l # tokens delim s"
proof -
  have dw: "dropWhile delim (l @ d # s) = l @ d # s" using assms(1,2) by (cases l) auto
  have tw: "takeWhile (\<lambda>x. \<not> delim x) (l @ d # s) = l" using assms by (simp add: takeWhile_append)
  have rest: "dropWhile (\<lambda>x. \<not> delim x) (l @ d # s) = d # s" using assms by (simp add: dropWhile_append)
  obtain c r where cr: "l @ d # s = c # r" using assms(1) by (cases l) auto
  show ?thesis
    using dw tw rest unfolding cr by (subst tokens.simps) (simp add: tokens_skip assms(3))
qed

lemma tokens_concat_lines:
  assumes "\<forall>l \<in> set ls. l \<noteq> [] \<and> 0x0A \<notin> set l"
  shows "tokens (\<lambda>c. c = 0x0A) (concat (map (\<lambda>l. l @ [0x0A]) ls) @ s) = ls @ tokens (\<lambda>c. c = 0x0A) s"
  using assms
proof (induction ls)
  case (Cons l ls)
  then have "\<forall>c \<in> set l. c \<noteq> 0x0A" by auto
  with Cons show ?case
    using tokens_line [of l "\<lambda>c. c = 0x0A" "0x0A" "concat (map (\<lambda>l. l @ [0x0A]) ls) @ s"] by simp
qed simp

lemma set_dropWhile_subset: "set (dropWhile P xs) \<subseteq> set xs"
  by (induction xs) auto

lemma set_takeWhile_subset: "set (takeWhile P xs) \<subseteq> set xs"
  by (auto dest: set_takeWhileD)

lemma tokens_subset: "t \<in> set (tokens delim s) \<Longrightarrow> set t \<subseteq> set s \<and> length t \<le> length s"
proof (induction delim s rule: tokens.induct)
  case (1 delim s)
  show ?case
  proof (cases "dropWhile delim s")
    case Nil
    then show ?thesis using "1.prems" tokens_none [of delim s] by simp
  next
    case (Cons c r)
    let ?d = "dropWhile (\<lambda>x. \<not> delim x) (c # r)"
    have s: "set (c # r) \<subseteq> set s" "length (c # r) \<le> length s"
      using Cons set_dropWhile_subset [of delim s] length_dropWhile_le [of delim s] by simp_all
    have "t = takeWhile (\<lambda>x. \<not> delim x) (c # r) \<or> t \<in> set (tokens delim ?d)"
      using "1.prems" unfolding tokens_some [OF Cons] by simp
    then show ?thesis
    proof
      assume t: "t = takeWhile (\<lambda>x. \<not> delim x) (c # r)"
      have "set t \<subseteq> set (c # r)" "length t \<le> length (c # r)"
        unfolding t by (rule set_takeWhile_subset, rule length_takeWhile_le)
      then show ?thesis using s by (meson order_trans)
    next
      assume "t \<in> set (tokens delim ?d)"
      from "1.IH" [OF Cons this] have "set t \<subseteq> set ?d" "length t \<le> length ?d" by simp_all
      moreover have "set ?d \<subseteq> set (c # r)" "length ?d \<le> length (c # r)"
        by (rule set_dropWhile_subset, rule length_dropWhile_le)
      ultimately show ?thesis using s by (meson order_trans)
    qed
  qed
qed

lemma c_string_no_nul: "0 \<notin> set (c_string buf)"
  by (auto simp: c_string_def dest: set_takeWhileD)

lemma c_string_id: "0 \<notin> set s \<Longrightarrow> c_string s = s"
  unfolding c_string_def takeWhile_eq_all_conv by auto

lemma c_string_put_text: "0 \<notin> set t \<Longrightarrow> c_string (put_text t buf) = t"
  unfolding c_string_def put_text_def by (subst takeWhile_append2) auto

section \<open>Entries\<close>

definition config_entries :: "bytes \<Rightarrow> (bytes \<times> bytes) list" where
  "config_entries buf = List.map_filter split_entry (config_lines buf)"

lemma parse_lines_fold:
  assumes "\<And>k v s. fst (handler k v s)"
  shows "parse_lines handler ls s = fold (\<lambda>(k, v) s. snd (handler k v s)) (List.map_filter split_entry ls) s"
proof (induction ls arbitrary: s)
  case (Cons l ls)
  then show ?case using assms
    by (auto simp: List.map_filter_simps split: option.split prod.split) (metis fst_conv)+
qed (simp add: List.map_filter_simps)

lemma parse_lines_append:
  assumes "\<And>k v s. fst (handler k v s)"
  shows "parse_lines handler (ls @ ms) s = parse_lines handler ms (parse_lines handler ls s)"
  by (simp add: parse_lines_fold [OF assms] List.map_filter_def)

lemma parse_lines_inv:
  assumes "\<And>k v s. I s \<Longrightarrow> I (snd (handler k v s))" and "I s"
  shows "I (parse_lines handler ls s)"
  using assms(2)
proof (induction ls arbitrary: s)
  case (Cons l ls)
  then show ?case
    using assms(1) [OF Cons.prems]
    by (auto split: option.split prod.split) (metis snd_conv)+
qed simp

lemma set_rstrip: "set (rstrip d s) \<subseteq> set s"
  unfolding rstrip_def using set_dropWhile_subset [of d "rev s"] by simp

lemma length_rstrip: "length (rstrip d s) \<le> length s"
  unfolding rstrip_def using length_dropWhile_le [of d "rev s"] by simp

lemma rstrip_id: "s \<noteq> [] \<Longrightarrow> \<not> d (last s) \<Longrightarrow> rstrip d s = s"
  unfolding rstrip_def by (cases s rule: rev_cases) simp_all

lemma split_entry_subset:
  assumes "split_entry l = Some (k, v)"
  shows "set k \<subseteq> set l" "set v \<subseteq> set l" "length k < length l"
proof -
  obtain x val where d: "dropWhile (\<lambda>c. c \<noteq> 0x3D) l = x # val"
    and k: "k = rstrip is_blank_char (takeWhile (\<lambda>c. c \<noteq> 0x3D) l)" and v: "v = rstrip is_trailer val"
    using assms by (auto simp: split_entry_def split: if_splits list.splits)
  have l: "l = takeWhile (\<lambda>c. c \<noteq> 0x3D) l @ x # val" using takeWhile_dropWhile_id [of "\<lambda>c. c \<noteq> 0x3D" l] d by simp
  have s: "set (takeWhile (\<lambda>c. c \<noteq> 0x3D) l) \<subseteq> set l" by (rule set_takeWhile_subset)
  have "set (x # val) \<subseteq> set l" using set_dropWhile_subset [of "\<lambda>c. c \<noteq> 0x3D" l] unfolding d .
  then have s2: "set val \<subseteq> set l" by simp
  show "set k \<subseteq> set l" unfolding k using set_rstrip s by (rule order_trans)
  show "set v \<subseteq> set l" unfolding v using set_rstrip s2 by (rule order_trans)
  have "length (takeWhile (\<lambda>c. c \<noteq> 0x3D) l) < length l" by (subst (2) l) simp
  then show "length k < length l" unfolding k using length_rstrip [of is_blank_char "takeWhile (\<lambda>c. c \<noteq> 0x3D) l"] by linarith
qed

lemma split_entry_text:
  assumes "k \<noteq> []" "hd k \<noteq> 0x23" "0x3D \<notin> set k" "\<not> is_blank_char (last k)" "v \<noteq> []" "\<not> is_trailer (last v)"
  shows "split_entry (k @ 0x3D # v) = Some (k, v)"
proof -
  have "takeWhile (\<lambda>c. c \<noteq> 0x3D) (k @ 0x3D # v) = k" "dropWhile (\<lambda>c. c \<noteq> 0x3D) (k @ 0x3D # v) = 0x3D # v"
    using assms(3) by (auto simp: takeWhile_append dropWhile_append)
  then show ?thesis using assms by (simp add: split_entry_def rstrip_id)
qed

lemma config_entries_no_nul:
  assumes "(k, v) \<in> set (config_entries buf)"
  shows "0 \<notin> set k" "0 \<notin> set v"
proof -
  obtain l where l: "l \<in> set (config_lines buf)" "split_entry l = Some (k, v)"
    using assms by (auto simp: config_entries_def List.map_filter_def)
  then have "0 \<notin> set l" unfolding config_lines_def using tokens_subset c_string_no_nul by blast
  then show "0 \<notin> set k" "0 \<notin> set v" using split_entry_subset [OF l(2)] by auto
qed

end
