(* ===== verification/Discord_Config_Claims.thy ===== *)
theory Discord_Config_Claims
  imports Discord_Config_Proofs
begin

text \<open>
  Properties of the configuration: the preferences stay in their ranges, survive being saved and
  loaded, and the account is the last valid value of each key; the places where the code departs
  from its comments.
\<close>

section \<open>Preferences\<close>

definition pref_ok :: "pref_meta \<Rightarrow> u8 \<Rightarrow> bool" where
  "pref_ok p v \<longleftrightarrow> (case pref_kind p of PREF_BOOL \<Rightarrow> v = 0 \<or> v = 1 | PREF_INT \<Rightarrow> v \<le> pref_max p)"

definition prefs_ok :: "u8 list \<Rightarrow> bool" where
  "prefs_ok vs \<longleftrightarrow> length vs = PREFS_COUNT \<and> (\<forall>i < PREFS_COUNT. pref_ok (g_user_prefs ! i) (vs ! i))"

lemma length_prefs [simp]: "length g_user_prefs = PREFS_COUNT"
  by (simp add: g_user_prefs_def PREFS_COUNT_def)

lemma parse_int_range:
  assumes "parse_int val m = Some v"
  shows "v \<le> m"
proof -
  obtain w :: u32 where w: "w \<le> ucast m" "v = ucast w"
    using assms by (auto simp: parse_int_def Let_def not_less split: list.splits if_splits)
  have m: "unat m < 256" using unsigned_less [of m] by simp
  then have "unat w \<le> unat m" using w(1) by (simp add: word_le_nat_alt unsigned_ucast_eq take_bit_eq_mod)
  with m show ?thesis unfolding w(2) by (simp add: word_le_nat_alt unsigned_ucast_eq take_bit_eq_mod)
qed

lemma parse_bool_range: "parse_bool val = Some v \<Longrightarrow> v = 0 \<or> v = 1"
  by (auto simp: parse_bool_def Let_def split: if_splits)

lemma find_pref_nth: "find_pref key ps i = Some (j, p) \<Longrightarrow> i \<le> j \<and> j < i + length ps \<and> p = ps ! (j - i)"
proof (induction ps arbitrary: i)
  case (Cons q ps)
  show ?case
  proof (cases "strcaseeq key (pref_key q)")
    case False
    then have "find_pref key ps (i + 1) = Some (j, p)" using Cons.prems by simp
    from Cons.IH [OF this] have "i + 1 \<le> j" "j < i + 1 + length ps" "p = ps ! (j - (i + 1))" by simp_all
    moreover from this have "j - i = Suc (j - (i + 1))" by simp
    ultimately show ?thesis by simp
  qed (use Cons.prems in auto)
qed simp

lemma pref_def_ok: "i < PREFS_COUNT \<Longrightarrow> pref_ok (g_user_prefs ! i) (pref_def (g_user_prefs ! i))"
  by (auto simp: PREFS_COUNT_def g_user_prefs_def bool_pref_def pref_ok_def RPC_LANGUAGE_AUTO_def less_Suc_eq
      numeral_eq_Suc)

lemma prefs_handler_ok:
  assumes "prefs_ok vs"
  shows "prefs_ok (snd (prefs_handler key val vs))"
proof (cases "find_pref key g_user_prefs 0")
  case (Some r)
  obtain j p where r: "r = (j, p)" by force
  with Some have j: "j < PREFS_COUNT" "p = g_user_prefs ! j" using find_pref_nth by fastforce+
  have "pref_ok p (pref_value p val (vs ! j))"
    using assms j pref_def_ok [OF j(1)] parse_int_range parse_bool_range
    by (auto simp: prefs_ok_def pref_ok_def pref_value_def split: pref_type.splits option.splits)
  then show ?thesis using assms Some r j by (auto simp: prefs_ok_def prefs_handler_def nth_list_update)
qed (use assms in \<open>simp add: prefs_handler_def\<close>)

lemma prefs_default_ok: "prefs_ok (map pref_def g_user_prefs)"
  unfolding prefs_ok_def using pref_def_ok by simp

lemma parse_result:
  "ConfigReader_Parse e k path handler s = (r, t, k') \<Longrightarrow> t = s \<or> (\<exists>ls. t = parse_lines handler ls s)"
  by (auto simp: ConfigReader_Parse_def Let_def split: prod.splits if_splits)

text \<open>C22: whatever the file holds and whether it can be read or not, the preferences that
  UserPrefs_Load leaves have their type: each switch is 0 or 1 and the language is one of the
  thirteen of the menu.\<close>

theorem prefs_load_typed: "prefs_ok (g_pref_values (fst (snd (UserPrefs_Load e k g))))"
proof -
  obtain r vs k' where p: "ConfigReader_Parse e k USER_PREFS_PATH prefs_handler (map pref_def g_user_prefs) = (r, vs, k')"
    by (rule prod_cases3)
  have "prefs_ok (parse_lines prefs_handler ls (map pref_def g_user_prefs))" for ls
    by (rule parse_lines_inv [where I = prefs_ok, OF prefs_handler_ok prefs_default_ok])
  then have "prefs_ok vs" using parse_result [OF p] prefs_default_ok by auto
  then show ?thesis by (simp add: UserPrefs_Load_def p)
qed

section \<open>Saving and loading\<close>

text \<open>What the file server promises: \<open>file\<close> gives the files of a state, \<open>opened\<close> the path of a
  handle. Writing at offset 0 keeps what lies behind the data; only \<open>SetSize\<close> truncates.\<close>

definition sd_ok :: "'n sd_env \<Rightarrow> ('n \<Rightarrow> bytes \<Rightarrow> bytes option) \<Rightarrow> ('n \<Rightarrow> handle \<Rightarrow> bytes option) \<Rightarrow> bool" where
  "sd_ok e file opened \<longleftrightarrow>
     (\<forall>k p fl r h k'. FSUSER_OpenFileDirectly e k p fl = (r, h, k') \<and> \<not> rfailed r \<longrightarrow>
        opened k' h = Some p \<and> file k' p \<noteq> None \<and>
        file k' = (if fl AND FS_OPEN_CREATE \<noteq> 0 \<and> file k p = None then (file k)(p \<mapsto> []) else file k)) \<and>
     (\<forall>k h n r d k' p t. FSFILE_Read e k h n = (r, d, k') \<and> \<not> rfailed r \<and> opened k h = Some p \<and> file k p = Some t \<longrightarrow>
        d = take n t) \<and>
     (\<forall>k h n r d k'. FSFILE_Read e k h n = (r, d, k') \<longrightarrow> file k' = file k) \<and>
     (\<forall>k h d r k' p t. FSFILE_Write e k h d = (r, k') \<and> \<not> rfailed r \<and> opened k h = Some p \<and> file k p = Some t \<longrightarrow>
        file k' = (file k)(p \<mapsto> d @ drop (length d) t)) \<and>
     (\<forall>k h n p t. opened k h = Some p \<and> file k p = Some t \<longrightarrow>
        file (FSFILE_SetSize e k h n) = (file k)(p \<mapsto> take n t @ replicate (n - length t) 0)) \<and>
     (\<forall>k h n. opened (FSFILE_SetSize e k h n) = opened k) \<and>
     (\<forall>k h. file (FSFILE_Close e k h) = file k) \<and>
     (\<forall>k p fl r h k'. FSUSER_OpenFileDirectly e k p fl = (r, h, k') \<and> rfailed r \<longrightarrow> file k' = file k) \<and>
     (\<forall>k p r k'. FSUSER_DeleteFile e k p = (r, k') \<and> \<not> rfailed r \<longrightarrow> file k' = (file k)(p := None))"

fun lines_text :: "(pref_meta \<times> u8) list \<Rightarrow> bytes" where
  "lines_text [] = []"
| "lines_text ((p, v) # pvs) = pref_line p v @ lines_text pvs"

definition saved_text :: "u8 list \<Rightarrow> bytes" where
  "saved_text vs = lines_text (zip g_user_prefs vs)"

lemma put_text_at_take:
  assumes "pos + length t < length buf"
  shows "take (pos + length t) (put_text_at buf pos t) = take pos buf @ t" "length (put_text_at buf pos t) = length buf"
  using assms by (simp_all add: put_text_at_def Let_def)

lemma save_lines_text:
  assumes "len + length (lines_text pvs) < 256" and "length buf = 256"
    and "save_lines pvs buf len = (b, n)"
  shows "n = len + length (lines_text pvs) \<and>
    take n b = take len buf @ lines_text pvs"
  using assms
proof (induction pvs arbitrary: buf len)
  case (Cons pv pvs)
  obtain p v where pv: "pv = (p, v)" by force
  let ?t = "pref_line p v"
  have l: "len + length ?t < length buf" using Cons.prems pv by simp
  note put = put_text_at_take [OF l]
  have "len + length ?t + length (lines_text pvs) < 256"
    using Cons.prems(1) pv by simp
  moreover have "save_lines pvs (put_text_at buf len ?t) (len + length ?t) = (b, n)"
    using Cons.prems pv l by simp
  ultimately show ?case
    using Cons.IH [of "len + length ?t" "put_text_at buf len ?t"] Cons.prems(2) pv put by auto
qed simp

lemma length_decimal8: "length (decimal8 v) \<le> 3" "decimal8 v \<noteq> []" "v \<le> 12 \<Longrightarrow> length (decimal8 v) \<le> 2"
  by (auto simp: decimal8_def Let_def word_le_nat_alt)

lemma prefs_ok_cases:
  assumes "prefs_ok vs"
  obtains a b c d e f n where "vs = [a, b, c, d, e, f, n]" "a \<le> 1" "b \<le> 1" "c \<le> 1" "d \<le> 1" "e \<le> 1" "f \<le> 1" "n \<le> 12"
proof -
  have l: "length vs = 7" using assms by (simp add: prefs_ok_def PREFS_COUNT_def)
  then obtain a b c d e f n where vs: "vs = [a, b, c, d, e, f, n]" by (auto simp: numeral_eq_Suc length_Suc_conv)
  have "\<forall>i < 7. pref_ok (g_user_prefs ! i) (vs ! i)" using assms by (simp add: prefs_ok_def PREFS_COUNT_def)
  then have p: "list_all2 pref_ok g_user_prefs vs"
    by (simp add: list_all2_conv_all_nth l PREFS_COUNT_def)
  have "(x = 0 \<or> x = 1) = (x \<le> 1)" for x :: u8
    by (simp add: word_le_nat_alt word_unat_eq_iff) linarith
  with p show ?thesis
    by (intro that [OF vs]) (simp_all add: vs g_user_prefs_def pref_ok_def bool_pref_def RPC_LANGUAGE_MAX_def)
qed

lemma saved_text_length:
  assumes "prefs_ok vs"
  shows "133 \<le> length (saved_text vs)" "length (saved_text vs) \<le> 140"
proof -
  obtain a b c d e f n where v: "vs = [a, b, c, d, e, f, n]" "n \<le> 12" using assms by (rule prefs_ok_cases)
  have l: "1 \<le> length (decimal8 n)" "length (decimal8 n) \<le> 2"
    using length_decimal8 [of n] v(2) by (auto simp: Suc_le_eq)
  show "133 \<le> length (saved_text vs)" "length (saved_text vs) \<le> 140"
    using l by (simp_all add: saved_text_def v(1) g_user_prefs_def bool_pref_def pref_line_def ascii_def)
qed

lemma write_saved:
  assumes "prefs_ok vs" and "length buf = 256" and "save_lines (zip g_user_prefs vs) buf 0 = (b, n)"
  shows "take n b = saved_text vs"
proof -
  have "length (saved_text vs) < 256" using saved_text_length(2) [OF assms(1)] by simp
  then show ?thesis using save_lines_text [of 0 "zip g_user_prefs vs" buf b n] assms(2,3)
    by (auto simp: saved_text_def)
qed

text \<open>One line of the file.\<close>

definition pref_text :: "pref_meta \<Rightarrow> u8 \<Rightarrow> bytes" where
  "pref_text p v = (case pref_kind p of PREF_INT \<Rightarrow> decimal8 v | PREF_BOOL \<Rightarrow> if v \<noteq> 0 then ascii ''true'' else ascii ''false'')"

lemma pref_line_text: "pref_line p v = (pref_key p @ 0x3D # pref_text p v) @ [0x0A]"
  by (simp add: pref_line_def pref_text_def ascii_def)

definition pref_key_ok :: "pref_meta \<Rightarrow> bool" where
  "pref_key_ok p \<longleftrightarrow> 8 \<le> length (pref_key p) \<and> hd (pref_key p) \<noteq> 0x23 \<and> \<not> is_blank_char (last (pref_key p)) \<and>
     list_all (\<lambda>c. c \<noteq> 0x3D \<and> c \<noteq> 0 \<and> c \<noteq> 0x0A) (pref_key p)"

lemma pref_keys_ok: "list_all pref_key_ok g_user_prefs"
  by (simp add: g_user_prefs_def bool_pref_def pref_key_ok_def ascii_def is_blank_char_def)

lemma find_pref_distinct:
  "distinct (map (\<lambda>p. map to_lower (pref_key p)) ps) \<Longrightarrow> i < length ps \<Longrightarrow>
   find_pref (pref_key (ps ! i)) ps j = Some (j + i, ps ! i)"
proof (induction ps arbitrary: i j)
  case (Cons p ps)
  show ?case
  proof (cases i)
    case (Suc m)
    have "m < length ps" using Cons.prems Suc by simp
    then have "ps ! m \<in> set ps" by (rule nth_mem)
    then have "map to_lower (pref_key (ps ! m)) \<in> set (map (\<lambda>p. map to_lower (pref_key p)) ps)" by simp
    then have "\<not> strcaseeq (pref_key (ps ! m)) (pref_key p)"
      using Cons.prems(1) unfolding strcaseeq_def distinct.simps list.map by metis
    then show ?thesis using Cons Suc by simp
  qed (simp add: strcaseeq_def)
qed simp

lemma find_each_pref:
  assumes "i < PREFS_COUNT"
  shows "find_pref (pref_key (g_user_prefs ! i)) g_user_prefs 0 = Some (i, g_user_prefs ! i)"
proof -
  have "distinct (map (\<lambda>p. map to_lower (pref_key p)) g_user_prefs)"
    by (simp add: g_user_prefs_def bool_pref_def ascii_def to_lower_def)
  from find_pref_distinct [OF this, of i 0] show ?thesis using assms by simp
qed

lemma word_le_12:
  assumes "(n :: u8) \<le> 12"
  obtains i where "i < 13" "n = word_of_nat i"
  using assms by (intro that [of "unat n"]) (simp_all add: word_le_nat_alt)

lemma decimal_small:
  "list_all (\<lambda>i. parse_int (decimal8 i) 12 = Some i \<and> list_all (\<lambda>c. c \<noteq> 0 \<and> c \<noteq> 0x0A) (decimal8 i) \<and>
     \<not> is_trailer (last (decimal8 i))) [0, 1, 2, 3, 4, 5, 6, 7, 8, 9, 10, 11, 12]"
  by (simp add: decimal8_def parse_int_def is_blank_char_def is_trailer_def strtoul10_def digits_value_def is_dec_digit_def
      digit_value_def)

lemma pref_text_ok:
  assumes "p \<in> set g_user_prefs" and "pref_ok p v"
  shows "pref_text p v \<noteq> []" "\<not> is_trailer (last (pref_text p v))" "0 \<notin> set (pref_text p v)" "0x0A \<notin> set (pref_text p v)"
    and "pref_value p (pref_text p v) old = v"
proof -
  have m: "pref_kind p = PREF_INT \<Longrightarrow> pref_max p = 12"
    using assms(1) by (auto simp: g_user_prefs_def bool_pref_def RPC_LANGUAGE_MAX_def)
  have i: "v \<in> set [0, 1, 2, 3, 4, 5, 6, 7, 8, 9, 10, 11, 12]" if "v \<le> 12"
  proof -
    have "unat v \<le> 12" using that by (simp add: word_le_nat_alt)
    then have "unat v \<in> set [0..<13]" by simp
    then have "word_of_nat (unat v) \<in> set (map (word_of_nat :: nat \<Rightarrow> u8) [0..<13])" unfolding set_map by (rule imageI)
    then show ?thesis by (simp add: upt_rec)
  qed
  have t: "pref_text p v \<noteq> [] \<and> \<not> is_trailer (last (pref_text p v)) \<and> 0 \<notin> set (pref_text p v) \<and>
    0x0A \<notin> set (pref_text p v) \<and> pref_value p (pref_text p v) old = v"
  proof (cases "pref_kind p")
    case PREF_BOOL
    then have "v = 0 \<or> v = 1" using assms(2) by (simp add: pref_ok_def)
    then show ?thesis using PREF_BOOL
      by (auto simp: pref_text_def pref_value_def ascii_def is_trailer_def parse_bool_def strcaseeq_def to_lower_def
          is_blank_char_def)
  next
    case PREF_INT
    then have "v \<le> 12" using assms(2) m by (simp add: pref_ok_def)
    from decimal_small [unfolded list_all_iff, rule_format, OF i [OF this]] show ?thesis
      using PREF_INT m length_decimal8(2) [of v] by (auto simp: pref_text_def pref_value_def)
  qed
  then show "pref_text p v \<noteq> []" "\<not> is_trailer (last (pref_text p v))" "0 \<notin> set (pref_text p v)"
    "0x0A \<notin> set (pref_text p v)" "pref_value p (pref_text p v) old = v" by simp_all
qed


definition pref_entry :: "pref_meta \<Rightarrow> u8 \<Rightarrow> bytes" where
  "pref_entry p v = pref_key p @ 0x3D # pref_text p v"

lemma entry_facts:
  assumes "p \<in> set g_user_prefs" and "pref_ok p v"
  shows "split_entry (pref_entry p v) = Some (pref_key p, pref_text p v)"
    and "pref_entry p v \<noteq> [] \<and> 0x0A \<notin> set (pref_entry p v)" "0 \<notin> set (pref_entry p v)"
proof -
  have "pref_key_ok p" using pref_keys_ok assms(1) by (auto simp: list_all_iff)
  then have k: "pref_key p \<noteq> []" "hd (pref_key p) \<noteq> 0x23" "\<not> is_blank_char (last (pref_key p))"
    "0x3D \<notin> set (pref_key p)" "0 \<notin> set (pref_key p)" "0x0A \<notin> set (pref_key p)"
    by (auto simp: pref_key_ok_def list_all_iff)
  note t = pref_text_ok [OF assms]
  show "split_entry (pref_entry p v) = Some (pref_key p, pref_text p v)"
    unfolding pref_entry_def by (rule split_entry_text) (use k t in auto)
  show "pref_entry p v \<noteq> [] \<and> 0x0A \<notin> set (pref_entry p v)" "0 \<notin> set (pref_entry p v)"
    using k t by (auto simp: pref_entry_def)
qed

lemma prefs_handler_goes_on: "fst (prefs_handler k v s)"
  by (simp add: prefs_handler_def)

lemma entry_read_back:
  assumes "i < PREFS_COUNT" and "pref_ok (g_user_prefs ! i) v"
  shows "parse_lines prefs_handler [pref_entry (g_user_prefs ! i) v] ws = ws[i := v]"
proof -
  have p: "g_user_prefs ! i \<in> set g_user_prefs" using assms(1) by simp
  show ?thesis
    using entry_facts(1) [OF p assms(2)] pref_text_ok(5) [OF p assms(2), of "ws ! i"] find_each_pref [OF assms(1)]
    by (simp add: prefs_handler_def)
qed

lemma entries_read_back:
  assumes "prefs_ok vs" and "length ws = PREFS_COUNT"
  shows "n \<le> PREFS_COUNT \<Longrightarrow>
    parse_lines prefs_handler (map (\<lambda>i. pref_entry (g_user_prefs ! i) (vs ! i)) [0..<n]) ws = take n vs @ drop n ws"
proof (induction n)
  case (Suc n)
  then have n: "n < PREFS_COUNT" by simp
  have o: "pref_ok (g_user_prefs ! n) (vs ! n)" and l: "length vs = PREFS_COUNT" using assms(1) n by (simp_all add: prefs_ok_def)
  have "parse_lines prefs_handler (map (\<lambda>i. pref_entry (g_user_prefs ! i) (vs ! i)) [0..<Suc n]) ws =
      (take n vs @ drop n ws)[n := vs ! n]"
    using Suc entry_read_back [OF n o] by (simp add: parse_lines_append [OF prefs_handler_goes_on])
  also have "\<dots> = take (Suc n) vs @ drop (Suc n) ws"
    using n l assms(2) by (simp add: list_update_append take_Suc_conv_app_nth Cons_nth_drop_Suc [symmetric])
  finally show ?case .
qed simp

lemma lines_text_zip:
  "length ps = length vs \<Longrightarrow>
   lines_text (zip ps vs) = concat (map (\<lambda>l. l @ [0x0A]) (map (\<lambda>i. pref_entry (ps ! i) (vs ! i)) [0..<length ps]))"
proof (induction ps vs rule: list_induct2)
  case (Cons p ps v vs)
  have u: "[0..<length (p # ps)] = 0 # map Suc [0..<length ps]" by (simp add: upt_conv_Cons map_Suc_upt del: upt_Suc)
  show ?case unfolding u using Cons by (simp add: pref_line_text pref_entry_def comp_def)
qed simp

lemma parse_lines_noop:
  assumes "\<And>l k v. l \<in> set ls \<Longrightarrow> split_entry l = Some (k, v) \<Longrightarrow> handler k v s = (True, s)"
  shows "parse_lines handler ls s = s"
  using assms
proof (induction ls)
  case (Cons l ls)
  have "parse_lines handler ls s = s" using Cons.prems by (intro Cons.IH) auto
  moreover have "handler k v s = (True, s)" if "split_entry l = Some (k, v)" for k v
    using Cons.prems [of l] that by simp
  ultimately show ?case by (cases "split_entry l") auto
qed simp

lemma short_key_unknown:
  assumes "length key < 8"
  shows "prefs_handler key v vs = (True, vs)"
proof -
  have "find_pref key ps i = None" if "list_all pref_key_ok ps" for ps i
    using that
  proof (induction ps arbitrary: i)
    case (Cons p ps)
    then have "length (pref_key p) \<noteq> length key" using assms by (auto simp: pref_key_ok_def)
    then have "\<not> strcaseeq key (pref_key p)" unfolding strcaseeq_def by (metis length_map)
    with Cons show ?case by simp
  qed simp
  then show ?thesis using pref_keys_ok by (simp add: prefs_handler_def)
qed

lemma no_nul_lines: "(\<And>l. l \<in> set ls \<Longrightarrow> (0 :: u8) \<notin> set l) \<Longrightarrow> 0 \<notin> set (concat (map (\<lambda>l. l @ [0x0A]) ls))"
  by auto

text \<open>What a saved text with a short rest behind it is read as.\<close>

lemma saved_text_then:
  assumes "prefs_ok vs" and "length rest \<le> 100" and "length ws = PREFS_COUNT"
  shows "parse_lines prefs_handler (config_lines (take 255 (saved_text vs @ rest))) ws =
    parse_lines prefs_handler (config_lines rest) vs"
proof -
  let ?es = "map (\<lambda>i. pref_entry (g_user_prefs ! i) (vs ! i)) [0..<PREFS_COUNT]"
  have lv: "length vs = PREFS_COUNT" using assms(1) by (simp add: prefs_ok_def)
  have es: "\<exists>p v. l = pref_entry p v \<and> p \<in> set g_user_prefs \<and> pref_ok p v" if l: "l \<in> set ?es" for l
  proof -
    obtain i where i: "i < PREFS_COUNT" "l = pref_entry (g_user_prefs ! i) (vs ! i)" using l by auto
    moreover have "pref_ok (g_user_prefs ! i) (vs ! i)" using assms(1) i(1) by (simp add: prefs_ok_def)
    moreover have "g_user_prefs ! i \<in> set g_user_prefs" using i(1) by simp
    ultimately show ?thesis by blast
  qed
  have tx: "saved_text vs = concat (map (\<lambda>l. l @ [0x0A]) ?es)"
    using lines_text_zip [of g_user_prefs vs] lv by (simp add: saved_text_def)
  have nn: "0 \<notin> set (saved_text vs)" unfolding tx
  proof (rule no_nul_lines)
    fix l assume "l \<in> set ?es"
    from es [OF this] show "0 \<notin> set l" using entry_facts(3) by blast
  qed
  have tk: "take 255 (saved_text vs @ rest) = saved_text vs @ rest"
    using saved_text_length(2) [OF assms(1)] assms(2) by simp
  have cs: "c_string (saved_text vs @ rest) = saved_text vs @ c_string rest"
    unfolding c_string_def by (rule takeWhile_append2) (use nn in auto)
  have ls: "\<forall>l \<in> set ?es. l \<noteq> [] \<and> 0x0A \<notin> set l"
  proof
    fix l assume "l \<in> set ?es"
    from es [OF this] obtain p v where "l = pref_entry p v" "p \<in> set g_user_prefs" "pref_ok p v" by blast
    then show "l \<noteq> [] \<and> 0x0A \<notin> set l" using entry_facts(2) by simp
  qed
  have "config_lines (take 255 (saved_text vs @ rest)) = ?es @ tokens (\<lambda>c. c = 0x0A) (c_string rest)"
    unfolding config_lines_def tk cs unfolding tx by (rule tokens_concat_lines [OF ls])
  then show ?thesis
    using entries_read_back [OF assms(1,3) order_refl] lv assms(3)
    by (simp add: parse_lines_append [OF prefs_handler_goes_on] config_lines_def)
qed

lemma saved_text_read:
  assumes "prefs_ok vs" and "length rest \<le> 8" and "length ws = PREFS_COUNT"
  shows "parse_lines prefs_handler (config_lines (take 255 (saved_text vs @ rest))) ws = vs"
proof -
  have "parse_lines prefs_handler (config_lines rest) vs = vs"
  proof (rule parse_lines_noop)
    fix l k v assume l: "l \<in> set (config_lines rest)" and sp: "split_entry l = Some (k, v)"
    have "length l \<le> length (c_string rest)" using tokens_subset [OF l [unfolded config_lines_def]] by simp
    also have "\<dots> \<le> length rest" unfolding c_string_def by (rule length_takeWhile_le)
    finally have "length k < 8" using split_entry_subset(3) [OF sp] assms(2) by linarith
    then show "prefs_handler k v vs = (True, vs)" by (rule short_key_unknown)
  qed
  then show ?thesis using saved_text_then [OF assms(1) _ assms(3), of rest] assms(2) by simp
qed

text \<open>A longer file of another origin: what lies behind the saved text is read after it and wins.\<close>

lemma longer_file_wins:
  assumes "prefs_ok vs"
  shows "parse_lines prefs_handler (config_lines (take 255 (saved_text vs @ ascii ''HIDE_MII=1'')))
    (map pref_def g_user_prefs) = vs[0 := 1]"
proof -
  have "config_lines (ascii ''HIDE_MII=1'') = [ascii ''HIDE_MII=1'']" by code_simp
  moreover have "split_entry (ascii ''HIDE_MII=1'') = Some (ascii ''HIDE_MII'', ascii ''1'')" by code_simp
  moreover have "prefs_handler (ascii ''HIDE_MII'') (ascii ''1'') vs = (True, vs[0 := 1])"
    using find_each_pref [of 0]
    by (simp add: prefs_handler_def PREFS_COUNT_def) (simp add: g_user_prefs_def bool_pref_def pref_value_def parse_bool_def
        ascii_def is_blank_char_def)
  ultimately show ?thesis using saved_text_then [OF assms, of "ascii ''HIDE_MII=1''"] by (simp add: ascii_def)
qed

lemma sd_okD:
  assumes "sd_ok e file opened"
  shows "FSUSER_OpenFileDirectly e k p fl = (r, h, k') \<Longrightarrow> \<not> rfailed r \<Longrightarrow> opened k' h = Some p \<and> file k' p \<noteq> None \<and>
      file k' = (if fl AND FS_OPEN_CREATE \<noteq> 0 \<and> file k p = None then (file k)(p \<mapsto> []) else file k)"
    and "FSFILE_Read e k h n = (r, d, k') \<Longrightarrow> \<not> rfailed r \<Longrightarrow> opened k h = Some p \<Longrightarrow> file k p = Some t \<Longrightarrow> d = take n t"
    and "FSFILE_Read e k h n = (r, d, k') \<Longrightarrow> file k' = file k"
    and "FSFILE_Write e k h d = (r, k') \<Longrightarrow> \<not> rfailed r \<Longrightarrow> opened k h = Some p \<Longrightarrow> file k p = Some t \<Longrightarrow>
      file k' = (file k)(p \<mapsto> d @ drop (length d) t)"
    and "opened k h = Some p \<Longrightarrow> file k p = Some t \<Longrightarrow>
      file (FSFILE_SetSize e k h n) = (file k)(p \<mapsto> take n t @ replicate (n - length t) 0)"
    and "opened (FSFILE_SetSize e k h n) = opened k" and "file (FSFILE_Close e k h) = file k"
    and "FSUSER_OpenFileDirectly e k p fl = (r, h, k') \<Longrightarrow> rfailed r \<Longrightarrow> file k' = file k"
    and "FSUSER_DeleteFile e k p = (r, k') \<Longrightarrow> \<not> rfailed r \<Longrightarrow> file k' = (file k)(p := None)"
proof -
  note a = assms [unfolded sd_ok_def]
  show "FSUSER_OpenFileDirectly e k p fl = (r, h, k') \<Longrightarrow> \<not> rfailed r \<Longrightarrow> opened k' h = Some p \<and> file k' p \<noteq> None \<and>
      file k' = (if fl AND FS_OPEN_CREATE \<noteq> 0 \<and> file k p = None then (file k)(p \<mapsto> []) else file k)"
    using conjunct1 [OF a] by blast
  note a = conjunct2 [OF a]
  show "FSFILE_Read e k h n = (r, d, k') \<Longrightarrow> \<not> rfailed r \<Longrightarrow> opened k h = Some p \<Longrightarrow> file k p = Some t \<Longrightarrow> d = take n t"
    using conjunct1 [OF a] by blast
  note a = conjunct2 [OF a]
  show "FSFILE_Read e k h n = (r, d, k') \<Longrightarrow> file k' = file k" using conjunct1 [OF a] by blast
  note a = conjunct2 [OF a]
  show "FSFILE_Write e k h d = (r, k') \<Longrightarrow> \<not> rfailed r \<Longrightarrow> opened k h = Some p \<Longrightarrow> file k p = Some t \<Longrightarrow>
      file k' = (file k)(p \<mapsto> d @ drop (length d) t)" using conjunct1 [OF a] by blast
  note a = conjunct2 [OF a]
  show "opened k h = Some p \<Longrightarrow> file k p = Some t \<Longrightarrow>
      file (FSFILE_SetSize e k h n) = (file k)(p \<mapsto> take n t @ replicate (n - length t) 0)" using conjunct1 [OF a] by blast
  note a = conjunct2 [OF a]
  show "opened (FSFILE_SetSize e k h n) = opened k" "file (FSFILE_Close e k h) = file k"
    using conjunct1 [OF a] conjunct1 [OF conjunct2 [OF a]] by simp_all
  note a = conjunct2 [OF conjunct2 [OF a]]
  show "FSUSER_OpenFileDirectly e k p fl = (r, h, k') \<Longrightarrow> rfailed r \<Longrightarrow> file k' = file k" using conjunct1 [OF a] by blast
  show "FSUSER_DeleteFile e k p = (r, k') \<Longrightarrow> \<not> rfailed r \<Longrightarrow> file k' = (file k)(p := None)" using conjunct2 [OF a] by blast
qed

definition own_file :: "bytes option \<Rightarrow> u8 list \<Rightarrow> bool" where
  "own_file old vs \<longleftrightarrow> (case old of None \<Rightarrow> True
     | Some t \<Rightarrow> length t \<le> length (saved_text vs) + 8 \<or> (\<exists>vs'. prefs_ok vs' \<and> t = saved_text vs'))"

lemma save_writes:
  assumes "sd_ok e file opened" and "prefs_ok (g_pref_values g)" and "length buf = 256" and "UserPrefs_Save e buf k g = (0, k1)"
  shows "file k1 USER_PREFS_PATH = Some (saved_text (g_pref_values g) @
    drop (length (saved_text (g_pref_values g))) (case file k USER_PREFS_PATH of Some t \<Rightarrow> t | None \<Rightarrow> []))"
proof -
  let ?P = USER_PREFS_PATH
  obtain r h k2 where op: "FSUSER_OpenFileDirectly e k ?P (FS_OPEN_WRITE OR FS_OPEN_CREATE) = (r, h, k2)" by (rule prod_cases3)
  obtain b n where sl: "save_lines (zip g_user_prefs (g_pref_values g)) buf 0 = (b, n)" by force
  obtain r2 k3 where w: "FSFILE_Write e k2 h (take n b) = (r2, k3)" by force
  have z: "\<not> rfailed 0" by (simp add: rfailed_def)
  have res: "\<not> rfailed r" "\<not> rfailed r2" "k1 = FSFILE_Close e k3 h"
    using assms(4) z by (auto simp: UserPrefs_Save_def op sl w Let_def split: if_splits)
  have fl: "(FS_OPEN_WRITE OR FS_OPEN_CREATE) AND FS_OPEN_CREATE \<noteq> 0" by (simp add: FS_OPEN_WRITE_def FS_OPEN_CREATE_def)
  have o: "opened k2 h = Some ?P" "file k2 ?P = Some (case file k ?P of Some t \<Rightarrow> t | None \<Rightarrow> [])"
    using sd_okD(1) [OF assms(1) op res(1)] fl by (auto split: option.splits)
  have "file k3 = (file k2)(?P \<mapsto> take n b @ drop (length (take n b)) (case file k ?P of Some t \<Rightarrow> t | None \<Rightarrow> []))"
    by (rule sd_okD(4) [OF assms(1) w res(2) o])
  moreover have "file k1 = file k3" by (simp add: res(3) sd_okD(7) [OF assms(1)])
  ultimately show ?thesis using write_saved [OF assms(2,3) sl] by simp
qed

lemma load_reads:
  assumes "sd_ok e file opened" and "file k USER_PREFS_PATH = Some t" and "UserPrefs_Load e k g = (r, g', k')" "g_prefs_loaded g'"
  shows "g_pref_values g' = parse_lines prefs_handler (config_lines (take 255 t)) (map pref_def g_user_prefs)"
proof -
  let ?P = USER_PREFS_PATH
  obtain r1 h k2 where op: "FSUSER_OpenFileDirectly e k ?P FS_OPEN_READ = (r1, h, k2)" by (rule prod_cases3)
  obtain r2 b k3 where rd: "FSFILE_Read e k2 h 255 = (r2, b, k3)" by (rule prod_cases3)
  have ok: "\<not> rfailed r1" "\<not> rfailed r2" and v: "g_pref_values g' = parse_lines prefs_handler (config_lines b) (map pref_def g_user_prefs)"
    using assms(3,4) by (auto simp: UserPrefs_Load_def ConfigReader_Parse_def op rd Let_def split: if_splits)
  have "FS_OPEN_READ AND FS_OPEN_CREATE = 0" by (simp add: FS_OPEN_READ_def FS_OPEN_CREATE_def)
  then have o: "opened k2 h = Some ?P" "file k2 ?P = Some t"
    using sd_okD(1) [OF assms(1) op ok(1)] assms(2) by auto
  have "b = take 255 t" by (rule sd_okD(2) [OF assms(1) rd ok(2) o])
  then show ?thesis using v by simp
qed

text \<open>C21: saving the preferences and loading them gives them back, for every value of them, when
  the file of before was one the client had saved, or no longer than the new one by more than
  eight bytes. UserPrefs_Save does not truncate the file; the rest of a former file of the client
  is at most seven bytes, and no key is that short.\<close>

theorem prefs_save_load:
  assumes "sd_ok e file opened" and "prefs_ok (g_pref_values g)" and "length buf = 256"
    and "own_file (file k USER_PREFS_PATH) (g_pref_values g)"
    and "UserPrefs_Save e buf k g = (0, k1)" and "UserPrefs_Load e k1 g0 = (r, g', k2)" and "g_prefs_loaded g'"
  shows "g_pref_values g' = g_pref_values g"
proof -
  let ?t = "saved_text (g_pref_values g)"
  let ?old = "case file k USER_PREFS_PATH of Some t \<Rightarrow> t | None \<Rightarrow> []"
  have "length ?old \<le> length ?t + 8"
    using assms(4) saved_text_length(1) [OF assms(2)] saved_text_length(2)
    by (fastforce simp: own_file_def split: option.splits)
  then have "length (drop (length ?t) ?old) \<le> 8" by simp
  from saved_text_read [OF assms(2) this, of "map pref_def g_user_prefs"] show ?thesis
    using load_reads [OF assms(1) save_writes [OF assms(1-3,5)] assms(6,7)] by simp
qed

text \<open>A card in memory: the files and the path that is open.\<close>

definition demo_sd :: "((bytes \<Rightarrow> bytes option) \<times> bytes option) sd_env" where
  "demo_sd =
     \<lparr>FSUSER_OpenFileDirectly = (\<lambda>(f, c) p fl.
        if f p \<noteq> None then (0, 1, (f, Some p))
        else if fl AND FS_OPEN_CREATE \<noteq> 0 then (0, 1, (f(p \<mapsto> []), Some p)) else (-1, 0, (f, c))),
      FSFILE_Read = (\<lambda>(f, c) h n. (0, case c of None \<Rightarrow> [] | Some p \<Rightarrow> take n (the (f p)), (f, c))),
      FSFILE_Write = (\<lambda>(f, c) h d. (0, case c of None \<Rightarrow> (f, c) | Some p \<Rightarrow> (f(p \<mapsto> d @ drop (length d) (the (f p))), c))),
      FSFILE_SetSize = (\<lambda>(f, c) h n. case c of None \<Rightarrow> (f, c)
        | Some p \<Rightarrow> (f(p \<mapsto> take n (the (f p)) @ replicate (n - length (the (f p))) 0), c)),
      FSFILE_Close = (\<lambda>(f, c) h. (f, c)),
      FSUSER_DeleteFile = (\<lambda>(f, c) p. (0, (f(p := None), c)))\<rparr>"

lemma demo_sd_ok: "sd_ok demo_sd fst (\<lambda>(f, c) h. c)"
  by (auto simp: sd_ok_def demo_sd_def rfailed_def fun_upd_same split: if_splits option.splits)

lemma all_less_seven: "(\<forall>i < 7. P i) \<longleftrightarrow> P 0 \<and> P 1 \<and> P 2 \<and> P 3 \<and> P 4 \<and> P 5 \<and> P (6 :: nat)"
  by (auto simp: eval_nat_numeral All_less_Suc)

definition demo_prefs :: prefs where
  "demo_prefs = \<lparr>g_pref_values = [1, 0, 1, 0, 0, 1, 5], g_prefs_loaded = True\<rparr>"

lemma demo_prefs_ok: "prefs_ok (g_pref_values demo_prefs)"
  by (simp add: demo_prefs_def prefs_ok_def PREFS_COUNT_def g_user_prefs_def bool_pref_def pref_ok_def RPC_LANGUAGE_MAX_def
      all_less_seven)

lemma demo_save:
  obtains f where "UserPrefs_Save demo_sd buf (Map.empty, None) g = (0, (f, Some USER_PREFS_PATH))" "f USER_PREFS_PATH \<noteq> None"
proof -
  obtain b n where "save_lines (zip g_user_prefs (g_pref_values g)) buf 0 = (b, n)" by force
  then show ?thesis
    by (intro that [of "[USER_PREFS_PATH \<mapsto> take n b]"])
       (simp_all add: UserPrefs_Save_def demo_sd_def rfailed_def FS_OPEN_CREATE_def FS_OPEN_WRITE_def Let_def)
qed

lemma demo_load: "f USER_PREFS_PATH \<noteq> None \<Longrightarrow> g_prefs_loaded (fst (snd (UserPrefs_Load demo_sd (f, c) g)))"
  by (simp add: UserPrefs_Load_def ConfigReader_Parse_def demo_sd_def rfailed_def Let_def)

theorem prefs_save_load_witness:
  "g_pref_values (fst (snd (UserPrefs_Load demo_sd
     (snd (UserPrefs_Save demo_sd (replicate 256 0) (Map.empty, None) demo_prefs)) demo_prefs))) = [1, 0, 1, 0, 0, 1, 5]"
proof -
  obtain f where s: "UserPrefs_Save demo_sd (replicate 256 0) (Map.empty, None) demo_prefs = (0, (f, Some USER_PREFS_PATH))"
    and f: "f USER_PREFS_PATH \<noteq> None" by (rule demo_save)
  obtain r g' k2 where l: "UserPrefs_Load demo_sd (f, Some USER_PREFS_PATH) demo_prefs = (r, g', k2)" by (rule prod_cases3)
  have "g_prefs_loaded g'" using demo_load [of f "Some USER_PREFS_PATH" demo_prefs, OF f] by (simp add: l)
  from prefs_save_load [OF demo_sd_ok demo_prefs_ok _ _ s l this] show ?thesis
    by (simp add: s l own_file_def) (simp add: demo_prefs_def)
qed

text \<open>A longer file of another origin: what lies behind the saved text is read after it and wins.\<close>


section \<open>The account\<close>

definition last_value :: "bytes \<Rightarrow> (bytes \<Rightarrow> bool) \<Rightarrow> (bytes \<times> bytes) list \<Rightarrow> bytes option" where
  "last_value key ok kvs = fold (\<lambda>(k, v) r. if k = key \<and> ok v then Some v else r) kvs None"

definition fits :: "nat \<Rightarrow> bytes \<Rightarrow> bool" where
  "fits n v \<longleftrightarrow> 0 < length v \<and> length v < n"

text \<open>The number is computed in 32 bits.\<close>

definition port_number :: "bytes \<Rightarrow> nat" where
  "port_number v = digits_value 10 v mod 2 ^ 32"

definition is_port :: "bytes \<Rightarrow> bool" where
  "is_port v \<longleftrightarrow> list_all is_dec_digit v \<and> 0 < port_number v \<and> port_number v \<le> 65535"

lemma parse_port_foldl:
  "parse_port (word_of_nat a) v = (x, ok) \<Longrightarrow> ok = list_all is_dec_digit v \<and>
   (ok \<longrightarrow> x = word_of_nat (foldl (\<lambda>n c. n * 10 + digit_value c) a v))"
proof (induction v arbitrary: a)
  case (Cons c v)
  show ?case
  proof (cases "0x30 \<le> c \<and> c \<le> 0x39")
    case True
    then have "unat (c - 0x30) = digit_value c" by (simp add: digit_value_def)
    moreover have "(ucast w :: u32) = word_of_nat (unat w)" for w :: u8
      by (simp add: word_unat_eq_iff unsigned_ucast_eq unat_of_nat take_bit_eq_mod)
    ultimately have "(ucast (c - 0x30) :: u32) = word_of_nat (digit_value c)" by metis
    then have "word_of_nat a * 10 + ucast (c - 0x30) = (word_of_nat (a * 10 + digit_value c) :: u32)" by simp
    then have "parse_port (word_of_nat (a * 10 + digit_value c)) v = (x, ok)" using Cons.prems True by simp
    from Cons.IH [OF this] show ?thesis using True by (simp add: is_dec_digit_def)
  qed (use Cons.prems in \<open>auto simp: is_dec_digit_def\<close>)
qed auto

lemma parse_port_spec:
  assumes "parse_port 0 v = (x, ok)"
  shows "ok \<and> 0 < x \<and> x \<le> 65535 \<longleftrightarrow> is_port v" "is_port v \<Longrightarrow> unat x = port_number v"
proof -
  have p: "ok = list_all is_dec_digit v" "ok \<Longrightarrow> x = word_of_nat (digits_value 10 v)"
    using parse_port_foldl [of 0 v x ok] assms by (auto simp: digits_value_def)
  have u: "unat x = port_number v" if ok
    using p(2) [OF that] by (simp add: port_number_def unsigned_of_nat take_bit_eq_mod)
  show "ok \<and> 0 < x \<and> x \<le> 65535 \<longleftrightarrow> is_port v"
    using p(1) u by (cases ok) (auto simp: is_port_def word_le_nat_alt word_less_nat_alt)
  show "is_port v \<Longrightarrow> unat x = port_number v" using p(1) u by (simp add: is_port_def)
qed

lemma config_handler_fields:
  assumes "config_handler k v (g, ctx) = (go, g', ctx')"
  shows "go" "config_loaded g' = config_loaded g"
    and "uuid_buf g' = (if k = ascii ''UUID'' \<and> fits 37 v then put_text v (uuid_buf g) else uuid_buf g)"
    and "has_uuid ctx' = (has_uuid ctx \<or> (k = ascii ''UUID'' \<and> fits 37 v))"
    and "aes_key_buf g' = (if k = ascii ''AES_KEY'' \<and> fits 65 v then put_text v (aes_key_buf g) else aes_key_buf g)"
    and "has_key ctx' = (has_key ctx \<or> (k = ascii ''AES_KEY'' \<and> fits 65 v))"
    and "host_buf g' = (if k = ascii ''SERVER_HOST'' \<and> fits 256 v then put_text v (host_buf g) else host_buf g)"
    and "has_host ctx' = (has_host ctx \<or> (k = ascii ''SERVER_HOST'' \<and> fits 256 v))"
    and "server_port g' = (if k = ascii ''SERVER_PORT'' \<and> is_port v then word_of_nat (port_number v) else server_port g)"
    and "has_port ctx' = (has_port ctx \<or> (k = ascii ''SERVER_PORT'' \<and> is_port v))"
proof -
  obtain x ok where p: "parse_port 0 v = (x, ok)" by force
  have d: "ascii ''UUID'' \<noteq> ascii ''AES_KEY''" "ascii ''UUID'' \<noteq> ascii ''SERVER_HOST''" "ascii ''UUID'' \<noteq> ascii ''SERVER_PORT''"
    "ascii ''AES_KEY'' \<noteq> ascii ''SERVER_HOST''" "ascii ''AES_KEY'' \<noteq> ascii ''SERVER_PORT''"
    "ascii ''SERVER_HOST'' \<noteq> ascii ''SERVER_PORT''" by (simp_all add: ascii_def)
  have u: "(ucast x :: u16) = word_of_nat (port_number v)" if "is_port v"
  proof -
    have "(ucast x :: u16) = word_of_nat (unat x)"
      by (simp add: word_unat_eq_iff unsigned_ucast_eq unat_of_nat take_bit_eq_mod)
    then show ?thesis using parse_port_spec(2) [OF p that] by metis
  qed
  note h = assms [unfolded config_handler_def Let_def prod.case p]
  note ip = parse_port_spec(1) [OF p]
  have fields: "go \<and>
    (config_loaded g' = config_loaded g) \<and>
    (uuid_buf g' = (if k = ascii ''UUID'' \<and> fits 37 v then put_text v (uuid_buf g) else uuid_buf g)) \<and>
    (has_uuid ctx' = (has_uuid ctx \<or> (k = ascii ''UUID'' \<and> fits 37 v))) \<and>
    (aes_key_buf g' = (if k = ascii ''AES_KEY'' \<and> fits 65 v then put_text v (aes_key_buf g) else aes_key_buf g)) \<and>
    (has_key ctx' = (has_key ctx \<or> (k = ascii ''AES_KEY'' \<and> fits 65 v))) \<and>
    (host_buf g' = (if k = ascii ''SERVER_HOST'' \<and> fits 256 v then put_text v (host_buf g) else host_buf g)) \<and>
    (has_host ctx' = (has_host ctx \<or> (k = ascii ''SERVER_HOST'' \<and> fits 256 v))) \<and>
    (server_port g' = (if k = ascii ''SERVER_PORT'' \<and> is_port v then word_of_nat (port_number v) else server_port g)) \<and>
    (has_port ctx' = (has_port ctx \<or> (k = ascii ''SERVER_PORT'' \<and> is_port v)))"
  proof (cases "k = ascii ''UUID''")
    case True
    then show ?thesis using h d by (cases "fits 37 v") (auto simp: fits_def)
  next
    case nU: False
    show ?thesis
    proof (cases "k = ascii ''AES_KEY''")
      case True
      then show ?thesis using h d by (cases "fits 65 v") (auto simp: fits_def)
    next
      case nA: False
      show ?thesis
      proof (cases "k = ascii ''SERVER_HOST''")
        case True
        then show ?thesis using h d by (cases "fits 256 v") (auto simp: fits_def)
      next
        case nH: False
        then show ?thesis
          using h nU nA ip u by (cases "k = ascii ''SERVER_PORT''"; cases "is_port v") auto
      qed
    qed
  qed
  show "go" "config_loaded g' = config_loaded g"
    "uuid_buf g' = (if k = ascii ''UUID'' \<and> fits 37 v then put_text v (uuid_buf g) else uuid_buf g)"
    "has_uuid ctx' = (has_uuid ctx \<or> (k = ascii ''UUID'' \<and> fits 37 v))"
    "aes_key_buf g' = (if k = ascii ''AES_KEY'' \<and> fits 65 v then put_text v (aes_key_buf g) else aes_key_buf g)"
    "has_key ctx' = (has_key ctx \<or> (k = ascii ''AES_KEY'' \<and> fits 65 v))"
    "host_buf g' = (if k = ascii ''SERVER_HOST'' \<and> fits 256 v then put_text v (host_buf g) else host_buf g)"
    "has_host ctx' = (has_host ctx \<or> (k = ascii ''SERVER_HOST'' \<and> fits 256 v))"
    "server_port g' = (if k = ascii ''SERVER_PORT'' \<and> is_port v then word_of_nat (port_number v) else server_port g)"
    "has_port ctx' = (has_port ctx \<or> (k = ascii ''SERVER_PORT'' \<and> is_port v))"
    using fields by simp_all
qed

text \<open>The state after some entries.\<close>

definition text_or_empty :: "bytes option \<Rightarrow> bytes" where
  "text_or_empty r = (case r of None \<Rightarrow> [] | Some v \<Rightarrow> v)"

definition config_after :: "(bytes \<times> bytes) list \<Rightarrow> discord_config \<Rightarrow> config_context \<Rightarrow> bool" where
  "config_after kvs g ctx \<longleftrightarrow>
     has_uuid ctx = (last_value (ascii ''UUID'') (fits 37) kvs \<noteq> None) \<and>
     has_key ctx = (last_value (ascii ''AES_KEY'') (fits 65) kvs \<noteq> None) \<and>
     has_host ctx = (last_value (ascii ''SERVER_HOST'') (fits 256) kvs \<noteq> None) \<and>
     has_port ctx = (last_value (ascii ''SERVER_PORT'') is_port kvs \<noteq> None) \<and>
     c_string (uuid_buf g) = text_or_empty (last_value (ascii ''UUID'') (fits 37) kvs) \<and>
     c_string (aes_key_buf g) = text_or_empty (last_value (ascii ''AES_KEY'') (fits 65) kvs) \<and>
     c_string (host_buf g) = text_or_empty (last_value (ascii ''SERVER_HOST'') (fits 256) kvs) \<and>
     server_port g = (case last_value (ascii ''SERVER_PORT'') is_port kvs of None \<Rightarrow> 0 | Some v \<Rightarrow> word_of_nat (port_number v)) \<and>
     \<not> config_loaded g"

lemma last_value_snoc:
  "last_value key ok (kvs @ [(k, v)]) = (if k = key \<and> ok v then Some v else last_value key ok kvs)"
  by (simp add: last_value_def)

lemma config_after_step:
  assumes "config_after kvs g ctx" and "config_handler k v (g, ctx) = (go, g', ctx')" and "0 \<notin> set v"
  shows "config_after (kvs @ [(k, v)]) g' ctx'"
proof -
  note f = config_handler_fields [OF assms(2)]
  note a = assms(1) [unfolded config_after_def]
  note t = c_string_put_text [OF assms(3)]
  show ?thesis
    unfolding config_after_def last_value_snoc f
    by (intro conjI; insert a; elim conjE; auto simp: t text_or_empty_def)
qed

lemma config_after_fold:
  assumes "\<forall>(k, v) \<in> set kvs. 0 \<notin> set v" and "config_after [] g0 ctx0"
    and "fold (\<lambda>(k, v) s. snd (config_handler k v s)) kvs (g0, ctx0) = (g, ctx)"
  shows "config_after kvs g ctx"
  using assms(1,3)
proof (induction kvs arbitrary: g ctx rule: rev_induct)
  case (snoc kv kvs)
  obtain k v where kv: "kv = (k, v)" by force
  obtain g1 c1 where f: "fold (\<lambda>(k, v) s. snd (config_handler k v s)) kvs (g0, ctx0) = (g1, c1)" by force
  obtain go g' c' where h: "config_handler k v (g1, c1) = (go, g', c')" by (rule prod_cases3)
  have "config_after kvs g1 c1" using snoc f by simp
  from config_after_step [OF this h] show ?case using snoc.prems kv f h by simp
qed (use assms(2) in simp)


lemma config_load_fold:
  assumes "FSUSER_OpenFileDirectly e k DISCORD_CONFIG_PATH FS_OPEN_READ = (r1, h, k1)" "\<not> rfailed r1"
    and "FSFILE_Read e k1 h 255 = (r2, buf, k2)" "\<not> rfailed r2"
    and "uuid_buf g \<noteq> []" "aes_key_buf g \<noteq> []" "host_buf g \<noteq> []"
  obtains g1 ctx where "config_after (config_entries buf) g1 ctx"
    and "DiscordConfig_Load e k g =
      (if has_uuid ctx \<and> has_key ctx \<and> has_host ctx \<and> has_port ctx
       then (0, g1\<lparr>config_loaded := True\<rparr>, FSFILE_Close e k2 h) else (-1, g1, FSFILE_Close e k2 h))"
proof -
  let ?c0 = "\<lparr>has_uuid = False, has_key = False, has_host = False, has_port = False\<rparr>"
  obtain g1 ctx where f: "fold (\<lambda>(k, v) s. snd (config_handler k v s)) (config_entries buf) (reset_config g, ?c0) = (g1, ctx)"
    by force
  have go: "fst (config_handler k v s)" for k v s
    using config_handler_fields(1) by (metis prod.collapse)
  have init: "config_after [] (reset_config g) ?c0"
    using assms(5-7) by (auto simp: config_after_def last_value_def text_or_empty_def reset_config_def c_string_def neq_Nil_conv)
  have "config_after (config_entries buf) g1 ctx"
    by (rule config_after_fold [OF _ init f]) (use config_entries_no_nul(2) in auto)
  moreover have "parse_lines config_handler (config_lines buf) (reset_config g, ?c0) = (g1, ctx)"
    using f by (simp add: parse_lines_fold [OF go] config_entries_def)
  then have "ConfigReader_Parse e k DISCORD_CONFIG_PATH config_handler (reset_config g, ?c0) = (0, (g1, ctx), FSFILE_Close e k2 h)"
    using assms(1-4) by (simp add: ConfigReader_Parse_def)
  then have "DiscordConfig_Load e k g =
      (if has_uuid ctx \<and> has_key ctx \<and> has_host ctx \<and> has_port ctx
       then (0, g1\<lparr>config_loaded := True\<rparr>, FSFILE_Close e k2 h) else (-1, g1, FSFILE_Close e k2 h))"
    by (simp add: DiscordConfig_Load_def rfailed_def)
  ultimately show ?thesis by (rule that)
qed

text \<open>What the entries of the file are worth.\<close>

definition account_of :: "(bytes \<times> bytes) list \<Rightarrow> (bytes \<times> bytes \<times> bytes \<times> nat) option" where
  "account_of kvs =
     (case (last_value (ascii ''UUID'') (fits 37) kvs, last_value (ascii ''AES_KEY'') (fits 65) kvs,
            last_value (ascii ''SERVER_HOST'') (fits 256) kvs, last_value (ascii ''SERVER_PORT'') is_port kvs) of
        (Some u, Some a, Some s, Some p) \<Rightarrow> Some (u, a, s, port_number p)
      | _ \<Rightarrow> None)"

definition loaded_account :: "result \<times> discord_config \<times> 'n \<Rightarrow> (bytes \<times> bytes \<times> bytes \<times> nat) option" where
  "loaded_account res = (case res of (r, g, k) \<Rightarrow>
     if r = 0 \<and> config_loaded g
     then Some (c_string (uuid_buf g), c_string (aes_key_buf g), c_string (host_buf g), unat (server_port g)) else None)"

lemma last_value_ok: "last_value key ok kvs = Some v \<Longrightarrow> ok v"
proof (induction kvs rule: rev_induct)
  case (snoc kv kvs)
  then show ?case by (cases kv) (auto simp: last_value_snoc split: if_splits)
qed (simp add: last_value_def)

text \<open>C20: when the file can be read, DiscordConfig_Load succeeds exactly if its first 255 bytes have
  a valid value for each of the four keys, and then the account and the server are the last valid
  values. A port counts modulo 2 to the 32.\<close>

theorem config_load_last_valid:
  assumes "FSUSER_OpenFileDirectly e k DISCORD_CONFIG_PATH FS_OPEN_READ = (r1, h, k1)" "\<not> rfailed r1"
    and "FSFILE_Read e k1 h 255 = (r2, buf, k2)" "\<not> rfailed r2"
    and "uuid_buf g \<noteq> []" "aes_key_buf g \<noteq> []" "host_buf g \<noteq> []"
  shows "loaded_account (DiscordConfig_Load e k g) = account_of (config_entries buf)"
proof -
  obtain g1 ctx where a: "config_after (config_entries buf) g1 ctx" and l: "DiscordConfig_Load e k g =
      (if has_uuid ctx \<and> has_key ctx \<and> has_host ctx \<and> has_port ctx
       then (0, g1\<lparr>config_loaded := True\<rparr>, FSFILE_Close e k2 h) else (-1, g1, FSFILE_Close e k2 h))"
    using assms by (rule config_load_fold)
  have p: "unat (word_of_nat (port_number v) :: u16) = port_number v" if "last_value (ascii ''SERVER_PORT'') is_port kvs = Some v" for kvs v
    using last_value_ok [OF that] by (simp add: is_port_def unsigned_of_nat take_bit_eq_mod)
  show ?thesis
    using a unfolding l config_after_def loaded_account_def account_of_def
    by (auto simp: text_or_empty_def p split: option.splits)
qed

definition demo_config :: bytes where
  "demo_config = ascii ''UUID=a-1'' @ [0x0A] @ ascii ''AES_KEY=00ff'' @ [0x0A, 0x23, 0x0A] @ ascii ''SERVER_HOST=h.org '' @ [0x0A] @
     ascii ''SERVER_PORT=8080''"

lemma demo_entries:
  "config_entries demo_config = [(ascii ''UUID'', ascii ''a-1''), (ascii ''AES_KEY'', ascii ''00ff''),
     (ascii ''SERVER_HOST'', ascii ''h.org''), (ascii ''SERVER_PORT'', ascii ''8080'')]"
  by code_simp

lemma demo_account: "account_of (config_entries demo_config) = Some (ascii ''a-1'', ascii ''00ff'', ascii ''h.org'', 8080)"
  unfolding demo_entries
  by (simp add: account_of_def last_value_def ascii_def fits_def is_port_def port_number_def digits_value_def digit_value_def
      is_dec_digit_def)

theorem config_load_last_valid_witness:
  "loaded_account (DiscordConfig_Load demo_sd ([DISCORD_CONFIG_PATH \<mapsto> demo_config], None)
     \<lparr>uuid_buf = replicate 37 0, aes_key_buf = replicate 65 0, host_buf = replicate 256 0, server_port = 0, config_loaded = False\<rparr>) =
   Some (ascii ''a-1'', ascii ''00ff'', ascii ''h.org'', 8080)"
proof -
  let ?f = "[DISCORD_CONFIG_PATH \<mapsto> demo_config]"
  have "FSUSER_OpenFileDirectly demo_sd (?f, None) DISCORD_CONFIG_PATH FS_OPEN_READ = (0, 1, (?f, Some DISCORD_CONFIG_PATH))"
    "FSFILE_Read demo_sd (?f, Some DISCORD_CONFIG_PATH) 1 255 = (0, take 255 demo_config, (?f, Some DISCORD_CONFIG_PATH))"
    by (simp_all add: demo_sd_def)
  moreover have "take 255 demo_config = demo_config" by (simp add: demo_config_def ascii_def)
  ultimately show ?thesis
    using config_load_last_valid [of demo_sd "(?f, None)" 0 1 "(?f, Some DISCORD_CONFIG_PATH)" 0 demo_config
        "(?f, Some DISCORD_CONFIG_PATH)"] demo_account by (simp add: rfailed_def)
qed

text \<open>The buffer of the key is cleared at its first byte only, and \<open>decode_aes_key\<close> reads all 64
  digits: behind a shorter key it uses what a former configuration has left.\<close>

lemma short_key_keeps_old_digits:
  assumes "config_handler (ascii ''AES_KEY'') v (reset_config g, ctx) = (go, g', ctx')"
    and "fits 65 v" and "length v < i" and "i < length (aes_key_buf g)"
  shows "aes_key_buf g' ! i = aes_key_buf g ! i"
proof -
  have "aes_key_buf g' = put_text v ((aes_key_buf g)[0 := 0])"
    using config_handler_fields(5) [OF assms(1)] assms(2) by (simp add: reset_config_def)
  moreover obtain j where "i = Suc (length v + j)" using assms(3) less_iff_Suc_add by auto
  ultimately show ?thesis using assms(4) by (simp add: put_text_def nth_append)
qed

end
