(* ===== verification/Custom_Rpc.thy ===== *)
theory Custom_Rpc
  imports Discord_Config
begin

text \<open>
  The memory values of a running title: the mapping of the title's memory
  (\<open>discord/customRPC/read_memory.c\<close>) and the list of addresses the server asks for
  (\<open>discord/customRPC/memory_config.c\<close>).

  Kernel calls and the bytes of the own address space are fields of an environment. An array with
  a count is the list of its used entries; log lines are left out.
\<close>

section \<open>Mapping\<close>

record mapped_page =
  g_mappedProcessHandle :: handle
  g_mappedPid :: u32
  g_mappedPageStart :: u32
  g_mappedSize :: u32
  g_isMapped :: bool

record 'n map_env =
  svc_OpenProcess :: "'n \<Rightarrow> u32 \<Rightarrow> result \<times> handle \<times> 'n"
  svc_GetProcessInfo :: "'n \<Rightarrow> handle \<Rightarrow> u32 \<Rightarrow> u64"
  svc_MapProcessMemoryEx :: "'n \<Rightarrow> u32 \<Rightarrow> handle \<Rightarrow> u32 \<Rightarrow> u32 \<Rightarrow> result \<times> 'n"
  svc_UnmapProcessMemoryEx :: "'n \<Rightarrow> u32 \<Rightarrow> u32 \<Rightarrow> 'n"
  svc_CloseHandle :: "'n \<Rightarrow> handle \<Rightarrow> 'n"
  own_byte :: "'n \<Rightarrow> u32 \<Rightarrow> u8"

definition DEST_ADDR :: u32 where "DEST_ADDR = 0x00100000"

definition CustomRPC_Init :: "mapped_page \<Rightarrow> mapped_page" where
  "CustomRPC_Init p = p\<lparr>g_mappedPid := 0, g_isMapped := False\<rparr>"

definition CustomRPC_UnmapPage :: "'n map_env \<Rightarrow> mapped_page \<Rightarrow> 'n \<Rightarrow> mapped_page \<times> 'n" where
  "CustomRPC_UnmapPage e p k =
     (if \<not> g_isMapped p then (p, k)
      else let k1 = svc_UnmapProcessMemoryEx e k DEST_ADDR (g_mappedSize p);
               k2 = svc_CloseHandle e k1 (g_mappedProcessHandle p)
           in (p\<lparr>g_mappedPid := 0, g_isMapped := False\<rparr>, k2))"

definition CustomRPC_MapPage :: "'n map_env \<Rightarrow> u32 \<Rightarrow> mapped_page \<Rightarrow> 'n \<Rightarrow> bool \<times> mapped_page \<times> 'n" where
  "CustomRPC_MapPage e pid p k =
     (let (p, k) = (if g_isMapped p then CustomRPC_UnmapPage e p k else (p, k));
          (res, h, k) = svc_OpenProcess e k pid;
          p = p\<lparr>g_mappedProcessHandle := h\<rparr>
      in if rfailed res then (False, p, k)
         else let textSize = svc_GetProcessInfo e k h 0x10002;
                  rodataSize = svc_GetProcessInfo e k h 0x10003;
                  dataSize = svc_GetProcessInfo e k h 0x10004;
                  startAddr = svc_GetProcessInfo e k h 0x10005;
                  codeStartAddress = ucast startAddr;
                  codeTotalSize = ucast (textSize + rodataSize + dataSize);
                  (res, k) = svc_MapProcessMemoryEx e k DEST_ADDR h codeStartAddress codeTotalSize
              in if \<not> rfailed res
                 then (True, p\<lparr>g_mappedPid := pid, g_mappedPageStart := codeStartAddress,
                         g_mappedSize := codeTotalSize, g_isMapped := True\<rparr>, k)
                 else (False, p, svc_CloseHandle e k h))"

text \<open>The processor reads little-endian.\<close>

definition load_u16 :: "(u32 \<Rightarrow> u8) \<Rightarrow> u32 \<Rightarrow> u16" where
  "load_u16 b a = ucast (b a) OR push_bit 8 (ucast (b (a + 1)))"

definition load_u32 :: "(u32 \<Rightarrow> u8) \<Rightarrow> u32 \<Rightarrow> u32" where
  "load_u32 b a = ucast (b a) OR push_bit 8 (ucast (b (a + 1))) OR push_bit 16 (ucast (b (a + 2))) OR push_bit 24 (ucast (b (a + 3)))"

definition CustomRPC_ReadByte :: "(u32 \<Rightarrow> u8) \<Rightarrow> mapped_page \<Rightarrow> u32 \<Rightarrow> u8" where
  "CustomRPC_ReadByte b p address =
     (if \<not> g_isMapped p then 0
      else let offset = address - g_mappedPageStart p
           in if offset \<ge> g_mappedSize p then 0 else b (DEST_ADDR + offset))"

definition CustomRPC_ReadHalfWord :: "(u32 \<Rightarrow> u8) \<Rightarrow> mapped_page \<Rightarrow> u32 \<Rightarrow> u16" where
  "CustomRPC_ReadHalfWord b p address =
     (if \<not> g_isMapped p then 0
      else let offset = address - g_mappedPageStart p
           in if offset + 2 > g_mappedSize p then 0 else load_u16 b (DEST_ADDR + offset))"

definition CustomRPC_ReadWord :: "(u32 \<Rightarrow> u8) \<Rightarrow> mapped_page \<Rightarrow> u32 \<Rightarrow> u32" where
  "CustomRPC_ReadWord b p address =
     (if \<not> g_isMapped p then 0
      else let offset = address - g_mappedPageStart p
           in if offset + 4 > g_mappedSize p then 0 else load_u32 b (DEST_ADDR + offset))"

definition CustomRPC_GetMappedPid :: "mapped_page \<Rightarrow> u32" where
  "CustomRPC_GetMappedPid p = g_mappedPid p"

section \<open>The addresses of a title\<close>

definition CUSTOMRPC_MAX_ENTRIES :: nat where "CUSTOMRPC_MAX_ENTRIES = 32"
definition CUSTOMRPC_EXTRA_SIZE :: nat where "CUSTOMRPC_EXTRA_SIZE = 1024"

record address_entry =
  address :: u32
  entry_type :: u8

record custom_rpc =
  g_entries :: "address_entry list"
  g_loaded_titleid :: u64
  g_tried :: bool

definition CustomRPC_ClearConfig :: "custom_rpc \<Rightarrow> custom_rpc" where
  "CustomRPC_ClearConfig c = c\<lparr>g_entries := [], g_loaded_titleid := 0, g_tried := False\<rparr>"

definition is_separator :: "u8 \<Rightarrow> bool" where
  "is_separator c \<longleftrightarrow> c = 0x2C \<or> c = 0x09 \<or> c = 0x0D \<or> c = 0x0A \<or> c = 0x20"

definition parse_entry :: "bytes \<Rightarrow> address_entry option" where
  "parse_entry tok =
     (if length tok \<noteq> 9 then None
      else let ty = tok ! 8
           in if ty \<noteq> 0x62 \<and> ty \<noteq> 0x68 \<and> ty \<noteq> 0x77 then None
              else let addr = strtoul16 (take 8 tok)
                   in if addr = 0 then None else Some \<lparr>address = addr, entry_type = ty\<rparr>)"

fun parse_loop_entries :: "bytes list \<Rightarrow> address_entry list \<Rightarrow> address_entry list" where
  "parse_loop_entries [] es = es"
| "parse_loop_entries (tok # toks) es =
     (if length es < CUSTOMRPC_MAX_ENTRIES
      then parse_loop_entries toks (case parse_entry tok of None \<Rightarrow> es | Some x \<Rightarrow> es @ [x]) else es)"

definition parse_entries :: "bytes \<Rightarrow> custom_rpc \<Rightarrow> custom_rpc" where
  "parse_entries buf c = c\<lparr>g_entries := parse_loop_entries (tokens is_separator buf) (g_entries c)\<rparr>"

definition CustomRPC_LoadConfigFromString :: "u64 \<Rightarrow> bytes option \<Rightarrow> custom_rpc \<Rightarrow> bool \<times> custom_rpc" where
  "CustomRPC_LoadConfigFromString titleId str c =
     (let c = CustomRPC_ClearConfig c
      in case str of
           None \<Rightarrow> (False, c)
         | Some t \<Rightarrow>
             let buf = take (CUSTOMRPC_EXTRA_SIZE - 1) t;
                 c = (parse_entries buf c)\<lparr>g_loaded_titleid := titleId, g_tried := True\<rparr>
             in (g_entries c \<noteq> [], c))"

definition CustomRPC_HasConfig :: "custom_rpc \<Rightarrow> bool" where
  "CustomRPC_HasConfig c \<longleftrightarrow> g_tried c \<and> g_entries c \<noteq> [] \<and> g_loaded_titleid c \<noteq> 0"

definition CustomRPC_TriedForTitle :: "u64 \<Rightarrow> custom_rpc \<Rightarrow> bool" where
  "CustomRPC_TriedForTitle titleId c \<longleftrightarrow> g_tried c \<and> g_loaded_titleid c = titleId"

definition CustomRPC_MarkTried :: "u64 \<Rightarrow> custom_rpc \<Rightarrow> custom_rpc" where
  "CustomRPC_MarkTried titleId c = c\<lparr>g_tried := True, g_loaded_titleid := titleId\<rparr>"

text \<open>\<open>%0nlX\<close> of a value that has at most \<open>n\<close> digits.\<close>

definition hex_digits :: "nat \<Rightarrow> u32 \<Rightarrow> bytes" where
  "hex_digits n w = map (\<lambda>i. upper_hex ! unat (drop_bit (4 * (n - 1 - i)) w AND 0xf)) [0..<n]"

definition entry_text :: "(u32 \<Rightarrow> u8) \<Rightarrow> mapped_page \<Rightarrow> address_entry \<Rightarrow> bytes option" where
  "entry_text b p x =
     (let addr = address x in
      if entry_type x = 0x62 then Some (hex_digits 8 addr @ [0x3D] @ hex_digits 2 (ucast (CustomRPC_ReadByte b p addr)))
      else if entry_type x = 0x68 then Some (hex_digits 8 addr @ [0x3D] @ hex_digits 4 (ucast (CustomRPC_ReadHalfWord b p addr)))
      else if entry_type x = 0x77 then Some (hex_digits 8 addr @ [0x3D] @ hex_digits 8 (CustomRPC_ReadWord b p addr))
      else None)"

text \<open>The text in the buffer of \<open>extra_size\<close> bytes; its length is the position.\<close>

fun extra_loop :: "(u32 \<Rightarrow> u8) \<Rightarrow> mapped_page \<Rightarrow> nat \<Rightarrow> address_entry list \<Rightarrow> bytes \<Rightarrow> bytes" where
  "extra_loop b p extra_size [] out = out"
| "extra_loop b p extra_size (x # xs) out =
     (if length out < extra_size then
        (case entry_text b p x of
           None \<Rightarrow> extra_loop b p extra_size xs out
         | Some t \<Rightarrow>
             let out1 = (if out \<noteq> [] \<and> length out + 1 < extra_size then out @ [0x26] else out)
             in if length out1 + length t \<ge> extra_size then out1 @ take (extra_size - length out1 - 1) t
                else extra_loop b p extra_size xs (out1 @ t))
      else out)"

definition CustomRPC_BuildExtraString :: "(u32 \<Rightarrow> u8) \<Rightarrow> mapped_page \<Rightarrow> nat \<Rightarrow> custom_rpc \<Rightarrow> bytes" where
  "CustomRPC_BuildExtraString b p extra_size c =
     (if \<not> CustomRPC_HasConfig c then [] else extra_loop b p extra_size (g_entries c) [])"

end
