(* ===== verification/Custom_Rpc_Claims.thy ===== *)
theory Custom_Rpc_Claims
  imports Custom_Rpc Discord_Config_Proofs
begin

text \<open>
  Properties of the memory values: the server's text and the table of addresses are inverse, the
  values sent are those of all entries, reads stay in the mapping, and the mapping is the kernel's.
\<close>

section \<open>Hexadecimal numbers\<close>

lemma nibble_unat: "unat (drop_bit k (w :: u32) AND 0xf) = unat w div 2 ^ k mod 16"
proof -
  have "drop_bit k w AND 0xf = take_bit 4 (drop_bit k w)" by (simp add: take_bit_eq_mask mask_eq_decr_exp)
  then have "unat (drop_bit k w AND 0xf) = take_bit 4 (drop_bit k (unat w))"
    by (simp only: unsigned_take_bit_eq unat_drop_bit_eq)
  then show ?thesis by (simp add: take_bit_eq_mod drop_bit_eq_div)
qed

lemma upper_hex_digit:
  assumes "n < 16"
  shows "digit_value (upper_hex ! n) = n" "is_hex_digit (upper_hex ! n)" "upper_hex ! n \<noteq> 0"
    "\<not> is_space (upper_hex ! n)" "upper_hex ! n \<notin> {0x2D, 0x2B, 0x78, 0x58}" "\<not> is_separator (upper_hex ! n)"
proof -
  have l: "length upper_hex = 16" by (simp add: upper_hex_def)
  have "map digit_value upper_hex = [0..<16]" by (simp add: upper_hex_def digit_value_def upt_rec)
  then show "digit_value (upper_hex ! n) = n" using assms l by (metis add_0 nth_map nth_upt)
  have "list_all (\<lambda>c. is_hex_digit c \<and> c \<noteq> 0 \<and> \<not> is_space c \<and> c \<notin> {0x2D, 0x2B, 0x78, 0x58} \<and> \<not> is_separator c) upper_hex"
    by (simp add: upper_hex_def is_hex_digit_def is_space_def is_separator_def)
  then have "is_hex_digit (upper_hex ! n) \<and> upper_hex ! n \<noteq> 0 \<and> \<not> is_space (upper_hex ! n) \<and>
    upper_hex ! n \<notin> {0x2D, 0x2B, 0x78, 0x58} \<and> \<not> is_separator (upper_hex ! n)"
    unfolding list_all_length l using assms by blast
  then show "is_hex_digit (upper_hex ! n)" "upper_hex ! n \<noteq> 0" "\<not> is_space (upper_hex ! n)"
    "upper_hex ! n \<notin> {0x2D, 0x2B, 0x78, 0x58}" "\<not> is_separator (upper_hex ! n)" by simp_all
qed

lemma length_hex_digits [simp]: "length (hex_digits n w) = n"
  by (simp add: hex_digits_def)

lemma hex_digits_nth: "i < n \<Longrightarrow> \<exists>d < 16. hex_digits n w ! i = upper_hex ! d"
  by (rule exI [of _ "unat (drop_bit (4 * (n - Suc i)) w AND 0xf)"])
     (simp add: hex_digits_def nibble_unat)

lemma hex_digits_set: "c \<in> set (hex_digits n w) \<Longrightarrow> \<exists>d < 16. c = upper_hex ! d"
  using hex_digits_nth [of _ n w] by (metis in_set_conv_nth length_hex_digits)

lemma hex_foldl:
  "m \<le> n \<Longrightarrow> foldl (\<lambda>v i. v * 16 + W div 2 ^ (4 * (n - Suc i)) mod 16) 0 [0..<m] = (W div 16 ^ (n - m)) mod (16 :: nat) ^ m"
proof (induction m)
  case (Suc m)
  let ?X = "W div 16 ^ (n - Suc m)"
  have p: "(2 :: nat) ^ (4 * (n - Suc m)) = 16 ^ (n - Suc m)" by (simp add: power_mult)
  have "n - m = Suc (n - Suc m)" using Suc.prems by simp
  then have "W div 16 ^ (n - m) = ?X div 16" by (simp add: div_mult2_eq [symmetric] mult.commute)
  then have "foldl (\<lambda>v i. v * 16 + W div 2 ^ (4 * (n - Suc i)) mod 16) 0 [0..<Suc m] = (?X div 16 mod 16 ^ m) * 16 + ?X mod 16"
    using Suc by (simp add: p)
  also have "\<dots> = ?X mod (16 * 16 ^ m)" by (subst mod_mult2_eq) simp
  finally show ?case by simp
qed simp

lemma digits_value_hex: "digits_value 16 (hex_digits n w) = unat w mod 16 ^ n"
proof -
  have "digits_value 16 (hex_digits n w) =
      foldl (\<lambda>v i. v * 16 + digit_value (upper_hex ! unat (drop_bit (4 * (n - Suc i)) w AND 0xf))) 0 [0..<n]"
    unfolding digits_value_def hex_digits_def foldl_map by simp
  also have "\<dots> = foldl (\<lambda>v i. v * 16 + unat w div 2 ^ (4 * (n - Suc i)) mod 16) 0 [0..<n]"
    by (rule foldl_cong) (simp_all add: nibble_unat upper_hex_digit(1))
  finally show ?thesis by (simp add: hex_foldl)
qed

lemma strtoul16_hex: "strtoul16 (hex_digits 8 w) = w"
proof -
  obtain c d r where h: "hex_digits 8 w = c # d # r"
    by (metis length_hex_digits length_Suc_conv numeral_eq_Suc pred_numeral_simps(2) eval_nat_numeral)
  have cd: "\<exists>i < 16. c = upper_hex ! i" "\<exists>i < 16. d = upper_hex ! i"
    using hex_digits_set [of _ 8 w] h by auto
  then have "\<not> is_space c" "c \<noteq> 0x2D" "c \<noteq> 0x2B" "d \<noteq> 0x78" "d \<noteq> 0x58" using upper_hex_digit(4,5) by fastforce+
  then have "skip_sign (hex_digits 8 w) = (False, hex_digits 8 w)" "skip_0x (hex_digits 8 w) = hex_digits 8 w"
    by (simp_all add: h skip_sign_def skip_0x_def)
  moreover have t: "takeWhile is_hex_digit (hex_digits 8 w) = hex_digits 8 w"
    using hex_digits_set [of _ 8 w] upper_hex_digit(2) by (force simp: takeWhile_eq_all_conv)
  moreover have u: "unat w < 4294967296" using unsigned_less [of w] by simp
  then have "unat w mod 16 ^ 8 = unat w" "\<not> 2 ^ 32 \<le> unat w" by simp_all
  ultimately have "strtoul16 (hex_digits 8 w) = word_of_nat (unat w)"
    unfolding strtoul16_def by (simp only: prod.case Let_def t digits_value_hex if_False)
  then show ?thesis by simp
qed

section \<open>The text of the server\<close>

fun join :: "u8 \<Rightarrow> bytes list \<Rightarrow> bytes" where
  "join s [] = []"
| "join s [x] = x"
| "join s (x # y # r) = x @ s # join s (y # r)"

lemma tokens_single: "l \<noteq> [] \<Longrightarrow> \<forall>c \<in> set l. \<not> delim c \<Longrightarrow> tokens delim l = [l]"
proof -
  assume a: "l \<noteq> []" "\<forall>c \<in> set l. \<not> delim c"
  then obtain c r where l: "l = c # r" by (cases l) auto
  have "dropWhile delim l = c # r" using a l by simp
  moreover have "takeWhile (\<lambda>x. \<not> delim x) (c # r) = l" "dropWhile (\<lambda>x. \<not> delim x) (c # r) = []"
    using a(2) unfolding l [symmetric] by (simp_all add: takeWhile_eq_all_conv)
  ultimately show "tokens delim l = [l]" by (simp add: tokens_some)
qed

lemma tokens_join:
  assumes "\<forall>l \<in> set ls. l \<noteq> [] \<and> (\<forall>c \<in> set l. \<not> delim c)" and "delim s"
  shows "tokens delim (join s ls) = ls"
  using assms
proof (induction s ls rule: join.induct)
  case (3 s x y r)
  then show ?case using tokens_line [of x delim s "join s (y # r)"] by simp
qed (simp_all add: tokens_single)

definition entry_ok :: "address_entry \<Rightarrow> bool" where
  "entry_ok x \<longleftrightarrow> address x \<noteq> 0 \<and> entry_type x \<in> {0x62, 0x68, 0x77}"

text \<open>How the server writes an entry.\<close>

definition entry_code :: "address_entry \<Rightarrow> bytes" where
  "entry_code x = hex_digits 8 (address x) @ [entry_type x]"

lemma entry_code_token:
  assumes "entry_ok x"
  shows "entry_code x \<noteq> [] \<and> (\<forall>c \<in> set (entry_code x). \<not> is_separator c)" "parse_entry (entry_code x) = Some x"
proof -
  have "\<not> is_separator (entry_type x)" using assms by (auto simp: entry_ok_def is_separator_def)
  moreover have "\<not> is_separator c" if "c \<in> set (hex_digits 8 (address x))" for c
    using hex_digits_set [OF that] upper_hex_digit(6) by auto
  ultimately show "entry_code x \<noteq> [] \<and> (\<forall>c \<in> set (entry_code x). \<not> is_separator c)" by (auto simp: entry_code_def)
  show "parse_entry (entry_code x) = Some x"
    using assms by (cases x) (auto simp: parse_entry_def entry_code_def entry_ok_def nth_append strtoul16_hex)
qed

lemma parse_loop_append:
  "\<forall>x \<in> set xs. entry_ok x \<Longrightarrow> length es + length xs \<le> CUSTOMRPC_MAX_ENTRIES \<Longrightarrow>
   parse_loop_entries (map entry_code xs) es = es @ xs"
proof (induction xs arbitrary: es)
  case (Cons x xs)
  then show ?case by (simp add: entry_code_token(2))
qed simp

lemma length_join: "length (join s (map f (xs :: 'x list))) \<le> (\<Sum>x\<leftarrow>xs. length (f x) + 1)"
proof (induction xs)
  case (Cons x xs)
  then show ?case by (cases xs) simp_all
qed simp

lemma script_text_roundtrip_fact:
  assumes "\<forall>x \<in> set xs. entry_ok x" and "length xs \<le> CUSTOMRPC_MAX_ENTRIES"
  shows "CustomRPC_LoadConfigFromString titleId (Some (join 0x2C (map entry_code xs))) c =
    (xs \<noteq> [], c\<lparr>g_entries := xs, g_loaded_titleid := titleId, g_tried := True\<rparr>)"
proof -
  have "length (join 0x2C (map entry_code xs)) \<le> (\<Sum>x\<leftarrow>xs. length (entry_code x) + 1)" by (rule length_join)
  also have "\<dots> = 10 * length xs" by (induction xs) (simp_all add: entry_code_def)
  finally have "take (CUSTOMRPC_EXTRA_SIZE - 1) (join 0x2C (map entry_code xs)) = join 0x2C (map entry_code xs)"
    using assms(2) by (simp add: CUSTOMRPC_EXTRA_SIZE_def CUSTOMRPC_MAX_ENTRIES_def)
  moreover have "tokens is_separator (join 0x2C (map entry_code xs)) = map entry_code xs"
    by (rule tokens_join) (use assms(1) entry_code_token(1) in \<open>auto simp: is_separator_def\<close>)
  ultimately show ?thesis
    using parse_loop_append [OF assms(1), of "[]"] assms(2)
    by (simp add: CustomRPC_LoadConfigFromString_def CustomRPC_ClearConfig_def parse_entries_def)
qed

text \<open>C23: the text the server makes of a table of at most 32 addresses, each with its type and none of
  them null, is loaded as that table.\<close>

theorem script_text_roundtrip:
  assumes "\<forall>x \<in> set xs. entry_ok x" and "length xs \<le> CUSTOMRPC_MAX_ENTRIES"
  shows "CustomRPC_LoadConfigFromString titleId (Some (join 0x2C (map entry_code xs))) c =
    (xs \<noteq> [], c\<lparr>g_entries := xs, g_loaded_titleid := titleId, g_tried := True\<rparr>)"
  using assms by (rule script_text_roundtrip_fact)

theorem script_text_roundtrip_witness:
  "g_entries (snd (CustomRPC_LoadConfigFromString 7
      (Some (join 0x2C (map entry_code [\<lparr>address = 0x100000, entry_type = 0x62\<rparr>, \<lparr>address = 0x8000004, entry_type = 0x77\<rparr>])))
      \<lparr>g_entries = [], g_loaded_titleid = 0, g_tried = False\<rparr>)) =
   [\<lparr>address = 0x100000, entry_type = 0x62\<rparr>, \<lparr>address = 0x8000004, entry_type = 0x77\<rparr>]"
  by (subst script_text_roundtrip) (simp_all add: entry_ok_def CUSTOMRPC_MAX_ENTRIES_def)

text \<open>Whatever the server sends, the table has at most 32 entries, all of them well formed.\<close>

lemma parse_entry_ok: "parse_entry tok = Some x \<Longrightarrow> entry_ok x"
  by (auto simp: parse_entry_def entry_ok_def Let_def split: if_splits)

lemma parse_loop_ok:
  "\<forall>x \<in> set es. entry_ok x \<Longrightarrow> length es \<le> CUSTOMRPC_MAX_ENTRIES \<Longrightarrow>
   (\<forall>x \<in> set (parse_loop_entries toks es). entry_ok x) \<and> length (parse_loop_entries toks es) \<le> CUSTOMRPC_MAX_ENTRIES"
proof (induction toks arbitrary: es)
  case (Cons t toks)
  show ?case
  proof (cases "length es < CUSTOMRPC_MAX_ENTRIES")
    case True
    have "\<forall>x \<in> set (case parse_entry t of None \<Rightarrow> es | Some x \<Rightarrow> es @ [x]). entry_ok x"
      using Cons.prems(1) parse_entry_ok by (auto split: option.split)
    moreover have "length (case parse_entry t of None \<Rightarrow> es | Some x \<Rightarrow> es @ [x]) \<le> CUSTOMRPC_MAX_ENTRIES"
      using True by (simp split: option.split)
    ultimately show ?thesis using Cons.IH True by simp
  qed (use Cons.prems in simp)
qed simp

definition custom_ok :: "custom_rpc \<Rightarrow> bool" where
  "custom_ok c \<longleftrightarrow> (\<forall>x \<in> set (g_entries c). entry_ok x) \<and> length (g_entries c) \<le> CUSTOMRPC_MAX_ENTRIES"

lemma custom_ok_ops:
  "custom_ok (CustomRPC_ClearConfig c)" "custom_ok (snd (CustomRPC_LoadConfigFromString titleId str c))"
  "custom_ok c \<Longrightarrow> custom_ok (CustomRPC_MarkTried titleId c)"
proof -
  show "custom_ok (CustomRPC_ClearConfig c)" by (simp add: custom_ok_def CustomRPC_ClearConfig_def)
  show "custom_ok (snd (CustomRPC_LoadConfigFromString titleId str c))"
    using parse_loop_ok [of "[]"]
    by (simp add: custom_ok_def CustomRPC_LoadConfigFromString_def CustomRPC_ClearConfig_def parse_entries_def Let_def
        split: option.split)
  show "custom_ok c \<Longrightarrow> custom_ok (CustomRPC_MarkTried titleId c)" by (simp add: custom_ok_def CustomRPC_MarkTried_def)
qed

text \<open>Eight characters that are no hexadecimal digits are accepted too.\<close>

lemma sloppy_entry_accepted: "parse_entry (ascii ''0x001000w'') = Some \<lparr>address = 0x1000, entry_type = 0x77\<rparr>"
  "parse_entry (ascii ''-0000001b'') = Some \<lparr>address = 0xFFFFFFFF, entry_type = 0x62\<rparr>"
  by (simp_all add: parse_entry_def ascii_def strtoul16_def skip_sign_def skip_0x_def is_space_def is_hex_digit_def
      digits_value_def digit_value_def)

section \<open>The values that are sent\<close>

lemma entry_text_length:
  assumes "entry_ok x"
  obtains t where "entry_text b p x = Some t" "length t \<le> 17" "t \<noteq> []"
  using assms by (auto simp: entry_ok_def entry_text_def Let_def intro: that)

lemma extra_loop_join:
  assumes "\<forall>x \<in> set xs. entry_ok x" and "length out + 18 * length xs < sz" and "out \<noteq> []"
  shows "extra_loop b p sz xs out = out @ concat (map (\<lambda>x. 0x26 # the (entry_text b p x)) xs)"
  using assms
proof (induction xs arbitrary: out)
  case (Cons x xs)
  obtain t where t: "entry_text b p x = Some t" "length t \<le> 17" using Cons.prems(1) entry_text_length by (metis list.set_intros(1))
  show ?case using Cons t by simp
qed simp

lemma join_concat: "join s (map f (x # xs)) = f x @ concat (map (\<lambda>y. s # f y) xs)"
  by (induction xs arbitrary: x) simp_all

text \<open>With the table that was loaded from whatever the server sent, the buffer of 1025 bytes takes the
  text of every entry: the string is their values joined by ampersands, none is cut off.\<close>

theorem extra_string_complete:
  assumes "CustomRPC_LoadConfigFromString titleId (Some str) c0 = (True, c)" and "titleId \<noteq> 0"
  shows "CustomRPC_BuildExtraString b p (CUSTOMRPC_EXTRA_SIZE + 1) c =
    join 0x26 (map (\<lambda>x. the (entry_text b p x)) (g_entries c))"
proof -
  have c: "g_entries c \<noteq> []" "g_tried c" "g_loaded_titleid c = titleId"
    using assms(1) by (auto simp: CustomRPC_LoadConfigFromString_def Let_def)
  have ok: "custom_ok c" using custom_ok_ops(2) [of titleId "Some str" c0] assms(1) by simp
  obtain x xs where e: "g_entries c = x # xs" using c(1) by (cases "g_entries c") auto
  have o: "entry_ok x" "\<forall>x \<in> set xs. entry_ok x" "length xs \<le> 31"
    using ok e by (simp_all add: custom_ok_def CUSTOMRPC_MAX_ENTRIES_def)
  obtain t where t: "entry_text b p x = Some t" "length t \<le> 17" "t \<noteq> []" using entry_text_length [OF o(1)] .
  have l: "length t + 18 * length xs < 1025" using t(2) o(3) by simp
  have "extra_loop b p 1025 (x # xs) [] = extra_loop b p 1025 xs t" using t by simp
  also have "\<dots> = t @ concat (map (\<lambda>x. 0x26 # the (entry_text b p x)) xs)" by (rule extra_loop_join [OF o(2) l t(3)])
  also have "\<dots> = join 0x26 (map (\<lambda>x. the (entry_text b p x)) (x # xs))" unfolding join_concat by (simp add: t(1))
  finally show ?thesis
    using c assms(2) e by (simp add: CustomRPC_BuildExtraString_def CustomRPC_HasConfig_def CUSTOMRPC_EXTRA_SIZE_def)
qed

definition demo_page :: mapped_page where
  "demo_page = \<lparr>g_mappedProcessHandle = 1, g_mappedPid = 40, g_mappedPageStart = 0x00100000, g_mappedSize = 0x1000, g_isMapped = True\<rparr>"

theorem extra_string_complete_witness:
  "CustomRPC_BuildExtraString (\<lambda>a. if a = 0x00100008 then 0xA7 else 0) demo_page 1025
     (snd (CustomRPC_LoadConfigFromString 7 (Some (ascii ''00100008b,00100008h'')) \<lparr>g_entries = [], g_loaded_titleid = 0, g_tried = False\<rparr>)) =
   ascii ''00100008=A7&00100008=00A7''"
proof -
  let ?c = "\<lparr>g_entries = [\<lparr>address = 0x00100008, entry_type = 0x62\<rparr>, \<lparr>address = 0x00100008, entry_type = 0x68\<rparr>],
    g_loaded_titleid = 7, g_tried = True\<rparr>"
  have s: "ascii ''00100008b,00100008h'' = join 0x2C (map entry_code (g_entries ?c))"
    by (simp add: ascii_def entry_code_def hex_digits_def upper_hex_def upt_rec)
  have l: "CustomRPC_LoadConfigFromString 7 (Some (ascii ''00100008b,00100008h''))
      \<lparr>g_entries = [], g_loaded_titleid = 0, g_tried = False\<rparr> = (True, ?c)"
    using script_text_roundtrip_fact [of "g_entries ?c" 7 "\<lparr>g_entries = [], g_loaded_titleid = 0, g_tried = False\<rparr>"]
    unfolding s by (simp add: entry_ok_def CUSTOMRPC_MAX_ENTRIES_def del: join.simps)
  have "CustomRPC_BuildExtraString (\<lambda>a. if a = 0x00100008 then 0xA7 else 0) demo_page (CUSTOMRPC_EXTRA_SIZE + 1) ?c =
      ascii ''00100008=A7&00100008=00A7''"
    by (subst extra_string_complete [OF l])
       (simp_all add: entry_text_def CustomRPC_ReadByte_def CustomRPC_ReadHalfWord_def load_u16_def demo_page_def DEST_ADDR_def
         ascii_def hex_digits_def upper_hex_def upt_rec)
  then show ?thesis by (simp add: l CUSTOMRPC_EXTRA_SIZE_def)
qed

section \<open>Reads and the mapping\<close>

lemma offset_inside:
  assumes "g_mappedPageStart p \<le> a" and "4 \<le> g_mappedPageStart p" and "n \<le> 4"
    and "\<not> a - g_mappedPageStart p + word_of_nat n > g_mappedSize p" and "j < n"
  shows "a - g_mappedPageStart p + word_of_nat j < g_mappedSize p"
proof -
  let ?o = "a - g_mappedPageStart p"
  have o: "unat ?o + 4 < 2 ^ 32"
  proof -
    have "unat a < 4294967296" using unsigned_less [of a] by simp
    then show ?thesis using assms(1,2) by (simp add: unat_sub word_le_nat_alt)
  qed
  have u: "unat (?o + word_of_nat m) = unat ?o + m" if "m \<le> 4" for m
    using o that by (simp add: unat_word_ariths unat_of_nat)
  show ?thesis
    using assms(3-5) u [of n] u [of j] by (simp add: word_less_nat_alt not_less word_le_nat_alt)
qed

lemma reads_agree:
  assumes b: "\<forall>i < g_mappedSize p. b (DEST_ADDR + i) = b' (DEST_ADDR + i)"
    and a: "4 \<le> g_mappedPageStart p" "g_mappedPageStart p \<le> a"
  shows "CustomRPC_ReadByte b p a = CustomRPC_ReadByte b' p a" "CustomRPC_ReadHalfWord b p a = CustomRPC_ReadHalfWord b' p a"
    "CustomRPC_ReadWord b p a = CustomRPC_ReadWord b' p a"
proof -
  let ?o = "a - g_mappedPageStart p"
  have at: "b (DEST_ADDR + ?o + word_of_nat j) = b' (DEST_ADDR + ?o + word_of_nat j)"
    if "n \<le> 4" "\<not> ?o + word_of_nat n > g_mappedSize p" "j < n" for n j
    using b offset_inside [OF a(2,1) that] by (simp add: add.assoc)
  show "CustomRPC_ReadByte b p a = CustomRPC_ReadByte b' p a" using b by (simp add: CustomRPC_ReadByte_def Let_def)
  show "CustomRPC_ReadHalfWord b p a = CustomRPC_ReadHalfWord b' p a"
    using at [of 2 0] at [of 2 1] by (simp add: CustomRPC_ReadHalfWord_def load_u16_def Let_def)
  show "CustomRPC_ReadWord b p a = CustomRPC_ReadWord b' p a"
    using at [of 4 0] at [of 4 1] at [of 4 2] at [of 4 3] by (simp add: CustomRPC_ReadWord_def load_u32_def Let_def)
qed

lemma extra_loop_cong:
  "(\<And>x. x \<in> set xs \<Longrightarrow> entry_text b p x = entry_text b' p x) \<Longrightarrow> extra_loop b p n xs out = extra_loop b' p n xs out"
proof (induction xs arbitrary: out)
  case (Cons x xs)
  then show ?case by (simp add: Let_def split: option.split)
qed simp

text \<open>C24: when no entry lies before the mapped memory, the string is computed from the mapped bytes
  alone: whatever the rest of the address space holds, it is the same.\<close>

theorem extra_reads_inside:
  assumes "\<forall>i < g_mappedSize p. b (DEST_ADDR + i) = b' (DEST_ADDR + i)"
    and "4 \<le> g_mappedPageStart p" and "\<forall>x \<in> set (g_entries c). g_mappedPageStart p \<le> address x"
  shows "CustomRPC_BuildExtraString b p n c = CustomRPC_BuildExtraString b' p n c"
proof -
  have "entry_text b p x = entry_text b' p x" if "x \<in> set (g_entries c)" for x
    using reads_agree [OF assms(1,2), of "address x"] assms(3) that by (simp add: entry_text_def Let_def)
  then have "extra_loop b p n (g_entries c) [] = extra_loop b' p n (g_entries c) []" by (rule extra_loop_cong)
  then show ?thesis by (simp add: CustomRPC_BuildExtraString_def)
qed

theorem extra_reads_inside_witness:
  "CustomRPC_BuildExtraString (\<lambda>a. if a < 0x00100000 then 1 else 5) demo_page 1025
     \<lparr>g_entries = [\<lparr>address = 0x00100FFC, entry_type = 0x77\<rparr>], g_loaded_titleid = 7, g_tried = True\<rparr> =
   CustomRPC_BuildExtraString (\<lambda>a. 5) demo_page 1025
     \<lparr>g_entries = [\<lparr>address = 0x00100FFC, entry_type = 0x77\<rparr>], g_loaded_titleid = 7, g_tried = True\<rparr>"
proof (rule extra_reads_inside)
  show "\<forall>i < g_mappedSize demo_page. (if DEST_ADDR + i < 0x00100000 then 1 else 5) = (5 :: u8)"
    by (auto simp: demo_page_def DEST_ADDR_def word_less_nat_alt unat_word_ariths)
qed (simp_all add: demo_page_def)

text \<open>The test of the size is computed in 32 bits: the word four bytes before the mapped memory passes
  it and is read from the address before the destination, which is not mapped.\<close>

lemma read_before_mapping:
  "g_isMapped p \<Longrightarrow> CustomRPC_ReadWord b p (g_mappedPageStart p - 4) = load_u32 b (DEST_ADDR - 4)"
  "g_isMapped p \<Longrightarrow> CustomRPC_ReadHalfWord b p (g_mappedPageStart p - 2) = load_u16 b (DEST_ADDR - 2)"
  by (simp_all add: CustomRPC_ReadWord_def CustomRPC_ReadHalfWord_def)

section \<open>The mapping is the kernel's\<close>

text \<open>What the kernel promises: \<open>maps\<close> is what lies at the destination (process, source, size) and \<open>opened\<close>
  the handles that are open.\<close>

definition map_env_ok :: "'n map_env \<Rightarrow> ('n \<Rightarrow> (handle \<times> u32 \<times> u32) option) \<Rightarrow> ('n \<Rightarrow> handle set) \<Rightarrow> bool" where
  "map_env_ok e maps opened \<longleftrightarrow>
     (\<forall>k pid r h k'. svc_OpenProcess e k pid = (r, h, k') \<longrightarrow> maps k' = maps k \<and>
        opened k' = (if rfailed r then opened k else insert h (opened k)) \<and> (\<not> rfailed r \<longrightarrow> h \<notin> opened k)) \<and>
     (\<forall>k h src sz r k'. svc_MapProcessMemoryEx e k DEST_ADDR h src sz = (r, k') \<longrightarrow>
        maps k' = (if rfailed r then maps k else Some (h, src, sz)) \<and> opened k' = opened k) \<and>
     (\<forall>k h src sz. maps k = Some (h, src, sz) \<longrightarrow> maps (svc_UnmapProcessMemoryEx e k DEST_ADDR sz) = None) \<and>
     (\<forall>k sz. opened (svc_UnmapProcessMemoryEx e k DEST_ADDR sz) = opened k) \<and>
     (\<forall>k h. maps (svc_CloseHandle e k h) = maps k \<and> opened (svc_CloseHandle e k h) = opened k - {h})"

datatype map_op = Map_page u32 | Unmap_page

definition do_map :: "'n map_env \<Rightarrow> map_op \<Rightarrow> mapped_page \<times> 'n \<Rightarrow> mapped_page \<times> 'n" where
  "do_map e oper s = (case s of (p, k) \<Rightarrow>
     (case oper of Map_page pid \<Rightarrow> snd (CustomRPC_MapPage e pid p k) | Unmap_page \<Rightarrow> CustomRPC_UnmapPage e p k))"

definition tracks :: "('n \<Rightarrow> (handle \<times> u32 \<times> u32) option) \<Rightarrow> ('n \<Rightarrow> handle set) \<Rightarrow> mapped_page \<times> 'n \<Rightarrow> bool" where
  "tracks maps opened s = (case s of (p, k) \<Rightarrow>
     if g_isMapped p
     then maps k = Some (g_mappedProcessHandle p, g_mappedPageStart p, g_mappedSize p) \<and> opened k = {g_mappedProcessHandle p}
     else maps k = None \<and> opened k = {} \<and> g_mappedPid p = 0)"

lemma map_env_okD:
  assumes "map_env_ok e maps opened"
  shows "svc_OpenProcess e k pid = (r, h, k') \<Longrightarrow> maps k' = maps k \<and>
        opened k' = (if rfailed r then opened k else insert h (opened k)) \<and> (\<not> rfailed r \<longrightarrow> h \<notin> opened k)"
    and "svc_MapProcessMemoryEx e k DEST_ADDR h src sz = (r, k') \<Longrightarrow>
        maps k' = (if rfailed r then maps k else Some (h, src, sz)) \<and> opened k' = opened k"
    and "maps k = Some (h, src, sz) \<Longrightarrow> maps (svc_UnmapProcessMemoryEx e k DEST_ADDR sz) = None"
    and "opened (svc_UnmapProcessMemoryEx e k DEST_ADDR sz) = opened k"
    and "maps (svc_CloseHandle e k h) = maps k" "opened (svc_CloseHandle e k h) = opened k - {h}"
proof -
  note a = assms [unfolded map_env_ok_def]
  show "svc_OpenProcess e k pid = (r, h, k') \<Longrightarrow> maps k' = maps k \<and>
        opened k' = (if rfailed r then opened k else insert h (opened k)) \<and> (\<not> rfailed r \<longrightarrow> h \<notin> opened k)"
    using conjunct1 [OF a] by blast
  note a = conjunct2 [OF a]
  show "svc_MapProcessMemoryEx e k DEST_ADDR h src sz = (r, k') \<Longrightarrow>
        maps k' = (if rfailed r then maps k else Some (h, src, sz)) \<and> opened k' = opened k"
    using conjunct1 [OF a] by blast
  note a = conjunct2 [OF a]
  show "maps k = Some (h, src, sz) \<Longrightarrow> maps (svc_UnmapProcessMemoryEx e k DEST_ADDR sz) = None"
    using conjunct1 [OF a] by blast
  note a = conjunct2 [OF a]
  show "opened (svc_UnmapProcessMemoryEx e k DEST_ADDR sz) = opened k" "maps (svc_CloseHandle e k h) = maps k"
    "opened (svc_CloseHandle e k h) = opened k - {h}" using a by simp_all
qed

lemma unmap_tracks:
  assumes "map_env_ok e maps opened" and "tracks maps opened (p, k)"
  shows "tracks maps opened (CustomRPC_UnmapPage e p k) \<and> \<not> g_isMapped (fst (CustomRPC_UnmapPage e p k))"
  using assms(2) map_env_okD(3) [OF assms(1), of k]
  by (auto simp: tracks_def CustomRPC_UnmapPage_def Let_def map_env_okD(4-6) [OF assms(1)])

lemma map_tracks:
  assumes "map_env_ok e maps opened" and "tracks maps opened (p, k)"
  shows "tracks maps opened (snd (CustomRPC_MapPage e pid p k))"
proof -
  obtain p1 k1 where u: "(if g_isMapped p then CustomRPC_UnmapPage e p k else (p, k)) = (p1, k1)" by force
  then have t1: "maps k1 = None" "opened k1 = {}" "g_mappedPid p1 = 0" "\<not> g_isMapped p1"
    using unmap_tracks [OF assms] assms(2) by (auto simp: tracks_def split: if_splits)
  obtain r h k2 where op: "svc_OpenProcess e k1 pid = (r, h, k2)" by (rule prod_cases3)
  then have t2: "maps k2 = None" "opened k2 = (if rfailed r then {} else {h})"
    using map_env_okD(1) [OF assms(1) op] t1 by simp_all
  show ?thesis
  proof (cases "rfailed r")
    case True
    then show ?thesis using t1 t2 by (simp add: CustomRPC_MapPage_def u op tracks_def)
  next
    case False
    let ?src = "ucast (svc_GetProcessInfo e k2 h 0x10005) :: u32"
    let ?sz = "ucast (svc_GetProcessInfo e k2 h 0x10002 + svc_GetProcessInfo e k2 h 0x10003 + svc_GetProcessInfo e k2 h 0x10004) :: u32"
    obtain r2 k3 where mp: "svc_MapProcessMemoryEx e k2 DEST_ADDR h ?src ?sz = (r2, k3)" by force
    then have t3: "maps k3 = (if rfailed r2 then None else Some (h, ?src, ?sz))" "opened k3 = {h}"
      using map_env_okD(2) [OF assms(1) mp] t2 False by simp_all
    show ?thesis using t1 t3 map_env_okD(5,6) [OF assms(1), of k3 h] False by (simp add: CustomRPC_MapPage_def u op mp tracks_def Let_def)
  qed
qed

text \<open>C25: however mapping and unmapping follow each other, at most one process is open and mapped, and
  it is the one the client believes in, with its start and size; every handle that was opened is closed
  when nothing is mapped, also after a failure half way.\<close>

theorem mapping_tracks_kernel:
  assumes "map_env_ok e maps opened" and "maps k = None" and "opened k = {}"
  shows "tracks maps opened (fold (do_map e) ops (CustomRPC_Init p, k))"
proof -
  have "tracks maps opened (do_map e oper s)" if "tracks maps opened s" for oper s
    using that unmap_tracks [OF assms(1)] map_tracks [OF assms(1)]
    by (cases s) (auto simp: do_map_def split: map_op.split)
  then have "tracks maps opened s \<Longrightarrow> tracks maps opened (fold (do_map e) ops s)" for s
    by (induction ops arbitrary: s) auto
  moreover have "tracks maps opened (CustomRPC_Init p, k)" using assms(2,3) by (simp add: tracks_def CustomRPC_Init_def)
  ultimately show ?thesis .
qed

text \<open>A kernel whose only process has the number 40.\<close>

definition demo_map :: "((handle \<times> u32 \<times> u32) option \<times> handle set) map_env" where
  "demo_map = \<lparr>svc_OpenProcess = (\<lambda>(m, s) pid. if pid = 40 \<and> 1 \<notin> s then (0, 1, (m, insert 1 s)) else (-1, 0, (m, s))),
     svc_GetProcessInfo = (\<lambda>k h ty. if ty = 0x10005 then 0x00100000 else 0x1000),
     svc_MapProcessMemoryEx = (\<lambda>(m, s) d h src sz. (0, (Some (h, src, sz), s))),
     svc_UnmapProcessMemoryEx = (\<lambda>(m, s) d sz. (None, s)),
     svc_CloseHandle = (\<lambda>(m, s) h. (m, s - {h})),
     own_byte = (\<lambda>k a. 0)\<rparr>"

lemma demo_map_ok: "map_env_ok demo_map fst snd"
  by (auto simp: map_env_ok_def demo_map_def rfailed_def split: if_splits)

theorem mapping_tracks_kernel_witness:
  "fst (snd (fold (do_map demo_map) [Map_page 40, Map_page 40] (CustomRPC_Init demo_page, (None, {})))) = Some (1, 0x00100000, 0x3000) \<and>
   tracks fst snd (fold (do_map demo_map) [Map_page 40, Map_page 40] (CustomRPC_Init demo_page, (None, {})))"
proof
  show "fst (snd (fold (do_map demo_map) [Map_page 40, Map_page 40] (CustomRPC_Init demo_page, (None, {})))) = Some (1, 0x00100000, 0x3000)"
    by (simp add: do_map_def demo_map_def CustomRPC_MapPage_def CustomRPC_UnmapPage_def CustomRPC_Init_def rfailed_def)
qed (rule mapping_tracks_kernel [OF demo_map_ok], simp_all)

end
