(* ===== verification/Discord_Update.thy ===== *)
theory Discord_Update
  imports Discord_Config_Claims
begin

text \<open>
  The check for updates (\<open>discord/discord_update.c\<close>) with its light (\<open>discord/utils/discord_led.c\<close>):
  the comparison of versions, the marker file that lets the notice survive a restart, and what
  the answer of the server does to both.

  The version of the running build, a constant of the sources, is an argument, so that an update
  can be stated. Log lines are left out.

  Lemmas: the comparison is the lexicographic order of the numbers; the marker of a newer version
  is found again after a restart, and removed once the version runs.
\<close>

section \<open>Versions\<close>

fun parse_number :: "u32 \<Rightarrow> bytes \<Rightarrow> u32 \<times> bytes" where
  "parse_number v [] = (v, [])"
| "parse_number v (c # s) = (if is_dec_digit c then parse_number (v * 10 + ucast (c - 0x30)) s else (v, c # s))"

text \<open>At most \<open>n\<close> components.\<close>

fun parse_parts :: "nat \<Rightarrow> bytes \<Rightarrow> u32 list" where
  "parse_parts 0 s = []"
| "parse_parts (Suc n) s =
     (if s = [] then []
      else let (v, r) = parse_number 0 s
           in v # (if r \<noteq> [] \<and> hd r = 0x2E then parse_parts n (tl r) else []))"

definition parse_ver_components :: "bytes \<Rightarrow> u32 list" where
  "parse_ver_components s = take 3 (parse_parts 3 (dropWhile (\<lambda>c. \<not> is_dec_digit c) s) @ [0, 0, 0])"

fun compare_parts :: "u32 list \<Rightarrow> u32 list \<Rightarrow> int" where
  "compare_parts (x # xs) (y # ys) = (if x \<noteq> y then (if x < y then -1 else 1) else compare_parts xs ys)"
| "compare_parts xs ys = 0"

definition DiscordUpdate_CompareVersions :: "bytes \<Rightarrow> bytes \<Rightarrow> int" where
  "DiscordUpdate_CompareVersions a b = compare_parts (parse_ver_components a) (parse_ver_components b)"

section \<open>The light\<close>

record led_pattern =
  delay :: u8
  smoothing :: u8
  loopDelay :: u8
  blinkSpeed :: u8
  redPattern :: bytes
  greenPattern :: bytes
  bluePattern :: bytes

record 'n led_env =
  mcuHwcInit :: "'n \<Rightarrow> result \<times> 'n"
  MCUHWC_SetInfoLedPattern :: "'n \<Rightarrow> led_pattern \<Rightarrow> 'n"
  mcuHwcExit :: "'n \<Rightarrow> 'n"

definition led_places :: "nat list" where
  "led_places = concat (map (\<lambda>i. map (\<lambda>j. i + j) [0..<5]) [1, 11, 21])"

definition led_colour :: "u8 \<Rightarrow> bytes" where
  "led_colour c = fold (\<lambda>i xs. xs[i := c]) led_places (replicate 32 0)"

definition blink_pattern :: led_pattern where
  "blink_pattern = \<lparr>delay = 3 * 0x10, smoothing = 0x5F, loopDelay = 0xFF, blinkSpeed = 0,
     redPattern = led_colour 28, greenPattern = led_colour 37, bluePattern = led_colour 255\<rparr>"

definition DiscordUpdate_BlinkLed :: "'n led_env \<Rightarrow> 'n \<Rightarrow> 'n" where
  "DiscordUpdate_BlinkLed e k =
     (let (res, k1) = mcuHwcInit e k
      in if rfailed res then k1 else mcuHwcExit e (MCUHWC_SetInfoLedPattern e k1 blink_pattern))"

section \<open>The marker\<close>

definition DISCORD_UPD_PATH :: bytes where
  "DISCORD_UPD_PATH = ascii ''/presence3ds/.upd''"

text \<open>The flag and the version, when it is to be used.\<close>

definition upd_read_file :: "'n sd_env \<Rightarrow> 'n \<Rightarrow> nat \<Rightarrow> bytes option \<times> 'n" where
  "upd_read_file e k max_len =
     (let (res, h, k1) = FSUSER_OpenFileDirectly e k DISCORD_UPD_PATH FS_OPEN_READ
      in if rfailed res then (None, k1)
         else let (res, buf, k2) = FSFILE_Read e k1 h (max_len - 1);
                  k3 = FSFILE_Close e k2 h;
                  ver = rstrip is_trailer (c_string buf)
              in if rfailed res \<or> ver = [] then (None, k3) else (Some ver, k3))"

definition upd_write_file :: "'n sd_env \<Rightarrow> bytes \<Rightarrow> 'n \<Rightarrow> 'n" where
  "upd_write_file e ver k =
     (let (cur, k1) = upd_read_file e k 32
      in if (case cur of None \<Rightarrow> False | Some c \<Rightarrow> DiscordUpdate_CompareVersions c ver \<ge> 0) then k1
         else let (res, h, k2) = FSUSER_OpenFileDirectly e k1 DISCORD_UPD_PATH (FS_OPEN_WRITE OR FS_OPEN_CREATE)
              in if rfailed res then k2
                 else let k3 = FSFILE_SetSize e k2 h (length ver);
                          (res, k4) = FSFILE_Write e k3 h ver
                      in FSFILE_Close e k4 h)"

definition upd_delete_file :: "'n sd_env \<Rightarrow> 'n \<Rightarrow> 'n" where
  "upd_delete_file e k = snd (FSUSER_DeleteFile e k DISCORD_UPD_PATH)"

text \<open>The state is the flag \<open>g_upd_available\<close>.\<close>

definition DiscordUpdate_Init :: "'n sd_env \<Rightarrow> bytes \<Rightarrow> 'n \<Rightarrow> bool \<times> 'n" where
  "DiscordUpdate_Init e running k =
     (let (ver, k1) = upd_read_file e k 32
      in case ver of
           None \<Rightarrow> (False, k1)
         | Some v \<Rightarrow>
             if DiscordUpdate_CompareVersions v running > 0 then (True, k1) else (False, upd_delete_file e k1))"

definition check_remote :: "'n sd_env \<Rightarrow> 'n led_env \<Rightarrow> u8 list \<Rightarrow> bytes \<Rightarrow> bytes \<Rightarrow> bool \<Rightarrow> 'n \<Rightarrow> bool \<times> 'n" where
  "check_remote e le vs running ver g_upd_available k =
     (if ver = [] then (g_upd_available, k)
      else if DiscordUpdate_CompareVersions ver running > 0 then
        let k1 = upd_write_file e ver k
        in (True, if vs ! PREFS_DISABLE_UPDATE_LED = 0 then DiscordUpdate_BlinkLed le k1 else k1)
      else (False, if g_upd_available then upd_delete_file e k else k))"

section \<open>The order of versions\<close>

text \<open>The text of a number and of a version.\<close>

fun nat_text :: "nat \<Rightarrow> bytes" where
  "nat_text n = (if n < 10 then [word_of_nat (48 + n)] else nat_text (n div 10) @ [word_of_nat (48 + n mod 10)])"

declare nat_text.simps [simp del]

definition version_text :: "nat \<times> nat \<times> nat \<Rightarrow> bytes" where
  "version_text v = (case v of (x, y, z) \<Rightarrow> 0x76 # nat_text x @ 0x2E # nat_text y @ 0x2E # nat_text z)"

lemma digit_byte:
  assumes "n < 10"
  shows "is_dec_digit (word_of_nat (48 + n))" "(ucast (word_of_nat (48 + n) - 0x30 :: u8) :: u32) = word_of_nat n"
    and "(word_of_nat (48 + n) :: u8) \<noteq> 0x2E" "\<not> is_trailer (word_of_nat (48 + n))" "(word_of_nat (48 + n) :: u8) \<noteq> 0"
proof -
  have u: "unat (word_of_nat (48 + n) :: u8) = 48 + n"
    by (simp only: unsigned_of_nat take_bit_eq_mod) (use assms in simp)
  show "is_dec_digit (word_of_nat (48 + n))" unfolding is_dec_digit_def word_le_nat_alt u using assms by simp
  have "(word_of_nat (48 + n) :: u8) - 0x30 = word_of_nat n" by simp
  moreover have "(ucast (word_of_nat n :: u8) :: u32) = word_of_nat n"
    using assms by (simp add: word_unat_eq_iff unsigned_ucast_eq unsigned_of_nat take_bit_eq_mod)
  ultimately show "(ucast (word_of_nat (48 + n) - 0x30 :: u8) :: u32) = word_of_nat n" by simp
  show "(word_of_nat (48 + n) :: u8) \<noteq> 0x2E" "\<not> is_trailer (word_of_nat (48 + n))" "(word_of_nat (48 + n) :: u8) \<noteq> 0"
    using assms unfolding is_trailer_def word_unat_eq_iff u by simp_all
qed

lemma parse_number_append:
  "\<forall>c \<in> set s. is_dec_digit c \<Longrightarrow> parse_number v (s @ r) = parse_number (fst (parse_number v s)) r"
  by (induction s arbitrary: v) auto

lemma nat_text_digits: "\<forall>c \<in> set (nat_text n). is_dec_digit c" "nat_text n \<noteq> []"
proof -
  show "\<forall>c \<in> set (nat_text n). is_dec_digit c"
  proof (induction n rule: nat_text.induct)
    case (1 n)
    then show ?case using digit_byte(1) [of n] digit_byte(1) [of "n mod 10"] by (subst nat_text.simps) auto
  qed
  show "nat_text n \<noteq> []" by (subst nat_text.simps) simp
qed

lemma parse_nat_text: "fst (parse_number 0 (nat_text n)) = word_of_nat n"
proof (induction n rule: nat_text.induct)
  case (1 n)
  show ?case
  proof (cases "n < 10")
    case True
    then show ?thesis using digit_byte(1,2) [of n] by (subst nat_text.simps) simp
  next
    case False
    have "fst (parse_number 0 (nat_text n)) = word_of_nat (n div 10) * 10 + word_of_nat (n mod 10)"
      using 1 False digit_byte(1,2) [of "n mod 10"] nat_text_digits(1) [of "n div 10"]
      by (subst nat_text.simps) (simp add: parse_number_append)
    also have "\<dots> = word_of_nat (n div 10 * 10 + n mod 10)" by (simp only: of_nat_add of_nat_mult of_nat_numeral)
    finally show ?thesis by (simp only: div_mult_mod_eq)
  qed
qed

lemma parse_number_rest:
  assumes "r = [] \<or> \<not> is_dec_digit (hd r)"
  shows "parse_number 0 (nat_text n @ r) = (word_of_nat n, r)"
proof -
  have "parse_number w r = (w, r)" for w using assms by (cases r) auto
  then show ?thesis using parse_number_append [OF nat_text_digits(1), of 0 n r] parse_nat_text [of n] by simp
qed

lemma parse_version_text: "parse_ver_components (version_text (x, y, z)) = [word_of_nat x, word_of_nat y, word_of_nat z]"
proof -
  have d: "\<not> is_dec_digit 0x76" "\<not> is_dec_digit 0x2E" by (simp_all add: is_dec_digit_def)
  have "dropWhile (\<lambda>c. \<not> is_dec_digit c) (nat_text x @ s) = nat_text x @ s" for s
    using nat_text_digits [of x] by (cases "nat_text x") auto
  then have "dropWhile (\<lambda>c. \<not> is_dec_digit c) (version_text (x, y, z)) = nat_text x @ 0x2E # nat_text y @ 0x2E # nat_text z"
    using d by (simp add: version_text_def)
  moreover have "parse_parts 3 (nat_text x @ 0x2E # nat_text y @ 0x2E # nat_text z) = [word_of_nat x, word_of_nat y, word_of_nat z]"
    using d nat_text_digits(2) parse_number_rest [of "[]" z] by (simp add: numeral_3_eq_3 parse_number_rest)
  ultimately show ?thesis by (simp add: parse_ver_components_def)
qed

definition lex_sign :: "nat \<times> nat \<times> nat \<Rightarrow> nat \<times> nat \<times> nat \<Rightarrow> int" where
  "lex_sign a b = (case (a, b) of ((x, y, z), (x', y', z')) \<Rightarrow>
     if x < x' \<or> x = x' \<and> (y < y' \<or> y = y' \<and> z < z') then -1
     else if (x, y, z) = (x', y', z') then 0 else 1)"

definition fits_32 :: "nat \<times> nat \<times> nat \<Rightarrow> bool" where
  "fits_32 v = (case v of (x, y, z) \<Rightarrow> x < 2 ^ 32 \<and> y < 2 ^ 32 \<and> z < 2 ^ 32)"

text \<open>Versions are compared by their numbers, the first one that differs decides.\<close>

theorem compare_is_lexicographic:
  assumes "fits_32 a" and "fits_32 b"
  shows "DiscordUpdate_CompareVersions (version_text a) (version_text b) = lex_sign a b"
proof -
  obtain x y z x' y' z' where v: "a = (x, y, z)" "b = (x', y', z')" by (metis prod_cases3)
  have w: "(word_of_nat n :: u32) = word_of_nat m \<longleftrightarrow> n = m" "(word_of_nat n :: u32) < word_of_nat m \<longleftrightarrow> n < m"
    if "n < 4294967296" "m < 4294967296" for n m
    using that by (simp_all add: word_unat_eq_iff word_less_nat_alt unsigned_of_nat take_bit_eq_mod)
  show ?thesis
    using assms by (simp add: v DiscordUpdate_CompareVersions_def parse_version_text lex_sign_def fits_32_def w)
qed

theorem compare_is_lexicographic_witness:
  "DiscordUpdate_CompareVersions (version_text (1, 10, 0)) (version_text (1, 9, 7)) = 1"
  by (subst compare_is_lexicographic) (simp_all add: fits_32_def lex_sign_def)

section \<open>The marker survives\<close>

lemma parse_number_strip:
  assumes "\<forall>c \<in> set t. \<not> is_dec_digit c"
  shows "parse_number v (s @ t) = (case parse_number v s of (w, r) \<Rightarrow> (w, r @ t))"
proof (induction s arbitrary: v)
  case Nil
  then show ?case using assms by (cases t) auto
qed auto


definition pad :: "nat \<Rightarrow> u32 list \<Rightarrow> u32 list" where
  "pad n xs = take n (xs @ replicate n 0)"

lemma pad_simps: "pad 0 xs = []" "pad (Suc n) (x # xs) = x # pad n xs" "pad n [] = replicate n 0"
  by (simp_all add: pad_def take_append del: replicate_Suc)

lemma parse_parts_strip:
  assumes "\<forall>c \<in> set t. \<not> is_dec_digit c \<and> c \<noteq> 0x2E"
  shows "pad n (parse_parts n (s @ t)) = pad n (parse_parts n s)"
proof (induction n arbitrary: s)
  case (Suc n)
  have dot: "t \<noteq> [] \<Longrightarrow> hd t \<noteq> 0x2E" using assms by (cases t) auto
  obtain w r where w: "parse_number 0 s = (w, r)" by force
  then have wt: "parse_number 0 (s @ t) = (w, r @ t)" using parse_number_strip [of t 0 s] assms by simp
  show ?case
  proof (cases "s = []")
    case True
    then show ?thesis using w wt dot by (cases "t = []") (auto simp: pad_simps)
  next
    case False
    then show ?thesis using w wt dot Suc [of "tl r"] by (cases r) (auto simp: pad_simps)
  qed
qed (simp add: pad_simps)

lemma parse_parts_length: "length (parse_parts n s) \<le> n"
  by (induction n arbitrary: s) (auto simp: Let_def split: prod.split)

lemma parse_ver_pad: "parse_ver_components s = pad 3 (parse_parts 3 (dropWhile (\<lambda>c. \<not> is_dec_digit c) s))"
  by (simp add: parse_ver_components_def pad_def numeral_3_eq_3)

lemma parse_ver_append:
  assumes "\<forall>c \<in> set t. \<not> is_dec_digit c \<and> c \<noteq> 0x2E"
  shows "parse_ver_components (s @ t) = parse_ver_components s"
proof (cases "\<exists>c \<in> set s. is_dec_digit c")
  case True
  then have "dropWhile (\<lambda>c. \<not> is_dec_digit c) (s @ t) = dropWhile (\<lambda>c. \<not> is_dec_digit c) s @ t"
    by (auto simp: dropWhile_append)
  then show ?thesis unfolding parse_ver_pad by (simp only: parse_parts_strip [OF assms])
next
  case False
  then have "dropWhile (\<lambda>c. \<not> is_dec_digit c) (s @ t) = []" "dropWhile (\<lambda>c. \<not> is_dec_digit c) s = []"
    using assms by auto
  then show ?thesis unfolding parse_ver_pad by (simp only:)
qed

lemma rstrip_append: "\<exists>t. s = rstrip d s @ t \<and> (\<forall>c \<in> set t. d c)"
proof (intro exI conjI)
  show "s = rstrip d s @ rev (takeWhile d (rev s))"
    unfolding rstrip_def rev_append [symmetric] takeWhile_dropWhile_id by simp
qed (auto dest: set_takeWhileD)

lemma parse_ver_rstrip: "parse_ver_components (rstrip is_trailer s) = parse_ver_components s"
proof -
  obtain t where t: "s = rstrip is_trailer s @ t" "\<forall>c \<in> set t. is_trailer c" using rstrip_append by blast
  have "\<forall>c \<in> set t. \<not> is_dec_digit c \<and> c \<noteq> 0x2E" using t(2) by (auto simp: is_trailer_def is_dec_digit_def)
  from parse_ver_append [OF this, of "rstrip is_trailer s"] show ?thesis using t(1) by simp
qed

lemma length_parse_ver [simp]: "length (parse_ver_components s) = 3"
  by (simp add: parse_ver_components_def)

lemma compare_parts_refl: "compare_parts xs xs = 0"
  by (induction xs) simp_all

lemma compare_parts_trans:
  "length a = length b \<Longrightarrow> length b = length c \<Longrightarrow> 0 \<le> compare_parts a b \<Longrightarrow> 0 < compare_parts b c \<Longrightarrow> 0 < compare_parts a c"
  by (induction a b c rule: list_induct3) (auto split: if_splits)

lemma compare_parts_zero: "compare_parts (replicate n 0) ys \<le> 0"
proof (induction n arbitrary: ys)
  case (Suc n)
  then show ?case by (cases ys) (auto simp: word_neq_0_conv)
qed simp

lemma newer_not_empty: "0 < DiscordUpdate_CompareVersions ver running \<Longrightarrow> rstrip is_trailer ver \<noteq> []"
proof
  assume c: "0 < DiscordUpdate_CompareVersions ver running" and "rstrip is_trailer ver = []"
  then have "parse_ver_components ver = replicate 3 0"
    using parse_ver_rstrip [of ver] by (simp add: parse_ver_components_def numeral_3_eq_3)
  with c show False using compare_parts_zero [of 3 "parse_ver_components running"]
    unfolding DiscordUpdate_CompareVersions_def by (metis not_less)
qed

text \<open>A card on which no access fails, but the opening of a file that is not there.\<close>

definition card_works :: "'n sd_env \<Rightarrow> ('n \<Rightarrow> bytes \<Rightarrow> bytes option) \<Rightarrow> bool" where
  "card_works e file \<longleftrightarrow>
     (\<forall>k p fl. fl AND FS_OPEN_CREATE \<noteq> 0 \<or> file k p \<noteq> None \<longrightarrow> \<not> rfailed (fst (FSUSER_OpenFileDirectly e k p fl))) \<and>
     (\<forall>k h n. \<not> rfailed (fst (FSFILE_Read e k h n))) \<and> (\<forall>k h d. \<not> rfailed (fst (FSFILE_Write e k h d))) \<and>
     (\<forall>k p. file k p \<noteq> None \<longrightarrow> \<not> rfailed (fst (FSUSER_DeleteFile e k p)))"

definition marker :: "bytes option \<Rightarrow> bytes option" where
  "marker t = (case t of None \<Rightarrow> None
     | Some s \<Rightarrow> let v = rstrip is_trailer (c_string (take 31 s)) in if v = [] then None else Some v)"

lemma read_marker:
  assumes "sd_ok e file opened" and "card_works e file" and "upd_read_file e k 32 = (v, k')"
  shows "v = marker (file k DISCORD_UPD_PATH)" "file k' = file k"
proof -
  let ?P = DISCORD_UPD_PATH
  obtain r h k1 where op: "FSUSER_OpenFileDirectly e k ?P FS_OPEN_READ = (r, h, k1)" by (rule prod_cases3)
  obtain r2 b k2 where rd: "FSFILE_Read e k1 h 31 = (r2, b, k2)" by (rule prod_cases3)
  have c: "FS_OPEN_READ AND FS_OPEN_CREATE = 0" by (simp add: FS_OPEN_READ_def FS_OPEN_CREATE_def)
  have "v = marker (file k ?P) \<and> file k' = file k"
  proof (cases "file k ?P")
    case None
    have "rfailed r" using sd_okD(1) [OF assms(1) op] c None by (cases "rfailed r") auto
    then show ?thesis using assms(3) op None sd_okD(8) [OF assms(1) op] by (simp add: upd_read_file_def marker_def)
  next
    case (Some t)
    then have "\<not> rfailed (fst (FSUSER_OpenFileDirectly e k ?P FS_OPEN_READ))"
      using assms(2) by (simp add: card_works_def)
    then have r: "\<not> rfailed r" by (simp add: op)
    have r2: "\<not> rfailed r2" using assms(2) rd unfolding card_works_def by (metis fst_conv)
    have o: "opened k1 h = Some ?P" "file k1 = file k" using sd_okD(1) [OF assms(1) op r] c by simp_all
    then have "b = take 31 t" "file k2 = file k"
      using sd_okD(2) [OF assms(1) rd r2] sd_okD(3) [OF assms(1) rd] Some by simp_all
    then show ?thesis
      using assms(3) op rd r r2 Some sd_okD(7) [OF assms(1)]
      by (auto simp: upd_read_file_def marker_def Let_def split: if_splits)
  qed
  then show "v = marker (file k DISCORD_UPD_PATH)" "file k' = file k" by simp_all
qed

lemma write_marker:
  assumes "sd_ok e file opened" and "card_works e file" and "length ver < 32" "0 \<notin> set ver" "rstrip is_trailer ver \<noteq> []"
  shows "\<exists>c. marker (file (upd_write_file e ver k) DISCORD_UPD_PATH) = Some c \<and> 0 \<le> DiscordUpdate_CompareVersions c ver"
proof -
  let ?P = DISCORD_UPD_PATH
  obtain v k1 where rd: "upd_read_file e k 32 = (v, k1)" by force
  note m = read_marker [OF assms(1,2) rd]
  show ?thesis
  proof (cases "case v of None \<Rightarrow> False | Some c \<Rightarrow> DiscordUpdate_CompareVersions c ver \<ge> 0")
    case True
    then show ?thesis using m rd by (auto simp: upd_write_file_def split: option.splits)
  next
    case False
    obtain r h k2 where op: "FSUSER_OpenFileDirectly e k1 ?P (FS_OPEN_WRITE OR FS_OPEN_CREATE) = (r, h, k2)" by (rule prod_cases3)
    let ?k3 = "FSFILE_SetSize e k2 h (length ver)"
    obtain r2 k4 where w: "FSFILE_Write e ?k3 h ver = (r2, k4)" by force
    have "(FS_OPEN_WRITE OR FS_OPEN_CREATE) AND FS_OPEN_CREATE \<noteq> 0" by (simp add: FS_OPEN_WRITE_def FS_OPEN_CREATE_def)
    then have "\<not> rfailed (fst (FSUSER_OpenFileDirectly e k1 ?P (FS_OPEN_WRITE OR FS_OPEN_CREATE)))"
      using assms(2) unfolding card_works_def by blast
    then have r: "\<not> rfailed r" by (simp add: op)
    have r2: "\<not> rfailed r2" using assms(2) w unfolding card_works_def by (metis fst_conv)
    obtain t where o: "opened k2 h = Some ?P" "file k2 ?P = Some t" using sd_okD(1) [OF assms(1) op r] by auto
    obtain u where o3: "opened ?k3 h = Some ?P" "file ?k3 ?P = Some u" "length u = length ver"
      using sd_okD(5) [OF assms(1) o] sd_okD(6) [OF assms(1), of k2 h] o(1) by (auto simp: min_def)
    have "file (FSFILE_Close e k4 h) ?P = Some ver"
      using sd_okD(4) [OF assms(1) w r2 o3(1,2)] sd_okD(7) [OF assms(1)] o3(3) by simp
    moreover have "upd_write_file e ver k = FSFILE_Close e k4 h"
      using False r by (simp add: upd_write_file_def rd op w Let_def)
    moreover have "marker (Some ver) = Some (rstrip is_trailer ver)"
      using assms(3-5) by (simp add: marker_def c_string_id)
    ultimately show ?thesis
      by (simp add: DiscordUpdate_CompareVersions_def parse_ver_rstrip compare_parts_refl)
  qed
qed

text \<open>A start with a marker on the card: the notice is the comparison, a notice leaves the files alone, and
  without one the marker is gone.\<close>

lemma init_with_marker:
  assumes "sd_ok e file opened" and "card_works e file" and "marker (file k DISCORD_UPD_PATH) = Some c"
  shows "fst (DiscordUpdate_Init e new k) = (DiscordUpdate_CompareVersions c new > 0)"
    and "fst (DiscordUpdate_Init e new k) \<Longrightarrow> file (snd (DiscordUpdate_Init e new k)) = file k"
    and "\<not> fst (DiscordUpdate_Init e new k) \<Longrightarrow> file (snd (DiscordUpdate_Init e new k)) DISCORD_UPD_PATH = None"
proof -
  obtain v k1 where rd: "upd_read_file e k 32 = (v, k1)" by force
  have v: "v = Some c" "file k1 = file k" using read_marker [OF assms(1,2) rd] assms(3) by simp_all
  show n: "fst (DiscordUpdate_Init e new k) = (DiscordUpdate_CompareVersions c new > 0)"
    by (simp add: DiscordUpdate_Init_def rd v)
  show "fst (DiscordUpdate_Init e new k) \<Longrightarrow> file (snd (DiscordUpdate_Init e new k)) = file k"
    unfolding n by (simp add: DiscordUpdate_Init_def rd v)
  obtain r k2 where d: "FSUSER_DeleteFile e k1 DISCORD_UPD_PATH = (r, k2)" by force
  have "file k1 DISCORD_UPD_PATH \<noteq> None" using assms(3) v(2) by (auto simp: marker_def split: option.splits)
  then have "\<not> rfailed (fst (FSUSER_DeleteFile e k1 DISCORD_UPD_PATH))" using assms(2) unfolding card_works_def by blast
  then have "\<not> rfailed r" by (simp add: d)
  then have "file (upd_delete_file e k1) DISCORD_UPD_PATH = None"
    using sd_okD(9) [OF assms(1) d] by (simp add: upd_delete_file_def d)
  then show "\<not> fst (DiscordUpdate_Init e new k) \<Longrightarrow> file (snd (DiscordUpdate_Init e new k)) DISCORD_UPD_PATH = None"
    unfolding n by (simp add: DiscordUpdate_Init_def rd v)
qed

text \<open>Any number of starts of builds older than the marker leave it on the card.\<close>

lemma restarts_keep_marker:
  assumes "sd_ok e file opened" and "card_works e file"
  shows "marker (file k DISCORD_UPD_PATH) = Some c \<Longrightarrow> \<forall>b \<in> set builds. DiscordUpdate_CompareVersions c b > 0 \<Longrightarrow>
    marker (file (fold (\<lambda>b k. snd (DiscordUpdate_Init e b k)) builds k) DISCORD_UPD_PATH) = Some c"
proof (induction builds arbitrary: k)
  case (Cons b builds)
  have "file (snd (DiscordUpdate_Init e b k)) = file k"
    using init_with_marker(1,2) [OF assms Cons.prems(1), of b] Cons.prems(2) by simp
  then show ?case using Cons.IH [of "snd (DiscordUpdate_Init e b k)"] Cons.prems by simp
qed simp

text \<open>C26: on a card on which no access fails, when the server advertises a newer version (of at most 31 bytes),
  the notice is shown, and again after every later start:
  whatever was on the card before, and after any number of starts of builds that are older than the
  advertised version. There is one version \<open>c\<close> on the card, not older than the advertised one, and a
  build shows the notice exactly when \<open>c\<close> is newer; a build that has caught up with it removes the
  marker.\<close>

theorem update_notice_survives:
  assumes "sd_ok e file opened" and "card_works e file" and "\<And>k. file (DiscordUpdate_BlinkLed le k) = file k"
    and "DiscordUpdate_CompareVersions ver running > 0" and "length ver < 32" "0 \<notin> set ver"
    and "check_remote e le vs running ver g k = (g', k')"
  shows "g' \<and> (\<exists>c. DiscordUpdate_CompareVersions c ver \<ge> 0 \<and>
    (\<forall>builds. (\<forall>b \<in> set builds. DiscordUpdate_CompareVersions ver b > 0) \<longrightarrow>
      (let k1 = fold (\<lambda>b k. snd (DiscordUpdate_Init e b k)) builds k'
       in fst (DiscordUpdate_Init e running k1) \<and>
          (\<forall>new. fst (DiscordUpdate_Init e new k1) = (DiscordUpdate_CompareVersions c new > 0) \<and>
            (\<not> fst (DiscordUpdate_Init e new k1) \<longrightarrow>
              file (snd (DiscordUpdate_Init e new k1)) DISCORD_UPD_PATH = None)))))"
proof -
  have ne: "ver \<noteq> []" using newer_not_empty [OF assms(4)] by (auto simp: rstrip_def)
  have g: "g'" and f: "file k' = file (upd_write_file e ver k)"
    using assms(7,3,4) ne by (auto simp: check_remote_def Let_def)
  obtain c where c: "marker (file k' DISCORD_UPD_PATH) = Some c" "0 \<le> DiscordUpdate_CompareVersions c ver"
    using write_marker [OF assms(1,2,5,6) newer_not_empty [OF assms(4)]] f by auto
  have older: "0 < DiscordUpdate_CompareVersions ver b \<Longrightarrow> 0 < DiscordUpdate_CompareVersions c b" for b
    using c(2) compare_parts_trans [of "parse_ver_components c" "parse_ver_components ver" "parse_ver_components b"]
    by (simp add: DiscordUpdate_CompareVersions_def)
  show ?thesis unfolding Let_def
  proof (intro conjI exI [of _ c] allI impI)
    fix builds
    assume "\<forall>b \<in> set builds. DiscordUpdate_CompareVersions ver b > 0"
    then have "\<forall>b \<in> set builds. DiscordUpdate_CompareVersions c b > 0" using older by blast
    from init_with_marker [OF assms(1,2) restarts_keep_marker [OF assms(1,2) c(1) this]]
    show "fst (DiscordUpdate_Init e running (fold (\<lambda>b k. snd (DiscordUpdate_Init e b k)) builds k'))"
      and "fst (DiscordUpdate_Init e new (fold (\<lambda>b k. snd (DiscordUpdate_Init e b k)) builds k')) =
        (DiscordUpdate_CompareVersions c new > 0)"
      and "\<not> fst (DiscordUpdate_Init e new (fold (\<lambda>b k. snd (DiscordUpdate_Init e b k)) builds k')) \<Longrightarrow>
        file (snd (DiscordUpdate_Init e new (fold (\<lambda>b k. snd (DiscordUpdate_Init e b k)) builds k'))) DISCORD_UPD_PATH = None"
      for new
      using older [OF assms(4)] by simp_all
  qed (use g c(2) in simp_all)
qed

lemma demo_card_works: "card_works demo_sd fst"
  by (auto simp: card_works_def demo_sd_def rfailed_def)

definition demo_led :: "'n led_env" where
  "demo_led = \<lparr>mcuHwcInit = (\<lambda>k. (-1, k)), MCUHWC_SetInfoLedPattern = (\<lambda>k p. k), mcuHwcExit = (\<lambda>k. k)\<rparr>"

text \<open>The notice after two restarts of the running build.\<close>

theorem update_notice_survives_witness:
  "let k' = snd (check_remote demo_sd demo_led (replicate 7 0) (ascii ''v1.3.2'') (ascii ''v1.4'') False (Map.empty, None));
       restart = \<lambda>k. snd (DiscordUpdate_Init demo_sd (ascii ''v1.3.2'') k)
   in fst (DiscordUpdate_Init demo_sd (ascii ''v1.3.2'') (restart (restart k')))"
proof -
  obtain g' k' where c: "check_remote demo_sd demo_led (replicate 7 0) (ascii ''v1.3.2'') (ascii ''v1.4'') False (Map.empty, None) = (g', k')"
    by (rule prod.exhaust)
  have n: "0 < DiscordUpdate_CompareVersions (ascii ''v1.4'') (ascii ''v1.3.2'')"
    by code_simp
  have b: "fst (DiscordUpdate_BlinkLed demo_led k) = fst k" for k :: "(bytes \<Rightarrow> bytes option) \<times> bytes option"
    by (simp add: DiscordUpdate_BlinkLed_def demo_led_def rfailed_def)
  have v: "length (ascii ''v1.4'') < 32" "0 \<notin> set (ascii ''v1.4'')" by (simp_all add: ascii_def)
  have "\<forall>b \<in> set [ascii ''v1.3.2'', ascii ''v1.3.2'']. 0 < DiscordUpdate_CompareVersions (ascii ''v1.4'') b" using n by simp
  with update_notice_survives [OF demo_sd_ok demo_card_works b n v c]
  have "fst (DiscordUpdate_Init demo_sd (ascii ''v1.3.2'') (fold (\<lambda>b k. snd (DiscordUpdate_Init demo_sd b k))
      [ascii ''v1.3.2'', ascii ''v1.3.2''] k'))"
    unfolding Let_def by blast
  then show ?thesis by (simp add: c Let_def)
qed

end
