(* ===== verification/Discord_Http.thy ===== *)
theory Discord_Http
  imports Discord_Update
begin

text \<open>
  The HTTP exchange of the Presence client (\<open>discord/discord_http.c\<close>) and the connection with a
  limit of time (\<open>discord/utils/soc_utils.c\<close>).

  The calls of the socket service are fields of an environment over an abstract state. A call that
  gives bytes gives the list of them, empty for an error or the end of the stream. The steps that
  only build the message of one service call are part of the field.
\<close>

record 'n sock_env =
  soc_socket_ex :: "'n \<Rightarrow> int \<times> 'n"
  resolve_host :: "'n \<Rightarrow> bytes \<Rightarrow> u32 option \<times> 'n"
  socu_open_handle :: "'n \<Rightarrow> bool \<times> 'n"
  socu_close_handle :: "'n \<Rightarrow> 'n"
  soc_set_nonblocking :: "'n \<Rightarrow> int \<Rightarrow> bool \<Rightarrow> bool \<times> 'n"
  socu_connect :: "'n \<Rightarrow> int \<Rightarrow> u32 \<Rightarrow> u16 \<Rightarrow> int \<times> 'n"
  cancel_signalled :: "'n \<Rightarrow> bool \<times> 'n"
  socPoll :: "'n \<Rightarrow> int \<Rightarrow> nat \<Rightarrow> int \<times> bool \<times> 'n"
  socSend :: "'n \<Rightarrow> int \<Rightarrow> bytes \<Rightarrow> int \<times> 'n"
  socRecv :: "'n \<Rightarrow> int \<Rightarrow> nat \<Rightarrow> bytes \<times> 'n"
  socClose :: "'n \<Rightarrow> int \<Rightarrow> 'n"

section \<open>Connecting\<close>

definition CONNECT_POLL_SLICE_MS :: nat where "CONNECT_POLL_SLICE_MS = 250"

text \<open>The loop, with the number of slices that are left.\<close>

fun connect_loop :: "'n sock_env \<Rightarrow> int \<Rightarrow> bool \<Rightarrow> nat \<Rightarrow> 'n \<Rightarrow> int \<times> 'n" where
  "connect_loop e fd has_cancel 0 k = (-1, k)"
| "connect_loop e fd has_cancel (Suc n) k =
     (let (stop, k) = (if has_cancel then cancel_signalled e k else (False, k))
      in if stop then (-1, k)
         else let (r, ready, k) = socPoll e k fd CONNECT_POLL_SLICE_MS
              in if r < 0 then (-1, k)
                 else if r = 0 then connect_loop e fd has_cancel n k
                 else if ready then (0, k) else (-1, k))"

definition max_slices :: "u64 \<Rightarrow> u64" where
  "max_slices timeout_ns =
     (let slice_ns = of_nat CONNECT_POLL_SLICE_MS * 1000 * 1000; n = (timeout_ns + slice_ns - 1) div slice_ns
      in if n = 0 then 1 else n)"

definition socu_connect_wait :: "'n sock_env \<Rightarrow> int \<Rightarrow> u32 \<Rightarrow> u16 \<Rightarrow> bool \<Rightarrow> u64 \<Rightarrow> 'n \<Rightarrow> int \<times> 'n" where
  "socu_connect_wait e fd ip port has_cancel timeout_ns k =
     (let (r, k) = socu_connect e k fd ip port
      in if r = 0 then (0, k)
         else if r < 0 then (-1, k)
         else connect_loop e fd has_cancel (unat (max_slices timeout_ns)) k)"

definition soc_connect_timeout :: "'n sock_env \<Rightarrow> int \<Rightarrow> u32 \<Rightarrow> u16 \<Rightarrow> bool \<Rightarrow> u64 \<Rightarrow> 'n \<Rightarrow> int \<times> 'n" where
  "soc_connect_timeout e fd ip port has_cancel timeout_ns k =
     (if fd < 0 then (-1, k)
      else let (ok, k) = socu_open_handle e k
           in if \<not> ok then (-1, k)
              else let (nb_set, k) = soc_set_nonblocking e k fd True;
                       (ret, k) = socu_connect_wait e fd ip port has_cancel timeout_ns k;
                       k = (if nb_set then snd (soc_set_nonblocking e k fd False) else k)
                   in (ret, socu_close_handle e k))"

section \<open>The exchange\<close>

definition CONNECT_TIMEOUT_NS :: u64 where "CONNECT_TIMEOUT_NS = 5 * 1000 * 1000 * 1000"
definition RECV_TIMEOUT_NS :: nat where "RECV_TIMEOUT_NS = 3 * 1000 * 1000 * 1000"
definition RECV_POLL_SLICE_MS :: nat where "RECV_POLL_SLICE_MS = 500"

text \<open>A socket that takes more than it was given would run past the buffer: \<^term>\<open>None\<close>.\<close>

function send_all :: "'n sock_env \<Rightarrow> int \<Rightarrow> bytes \<Rightarrow> 'n \<Rightarrow> (int \<times> 'n) option" where
  "send_all e fd buf k =
     (if buf = [] then Some (0, k)
      else let (sent, k1) = socSend e k fd buf
           in if sent \<le> 0 then Some (-1, k1)
              else if nat sent > length buf then None
              else send_all e fd (drop (nat sent) buf) k1)"
  by pat_completeness auto
termination by (relation "measure (\<lambda>(e, fd, buf, k). length buf)") auto

declare send_all.simps [simp del]

definition crlf :: bytes where "crlf = [0x0D, 0x0A]"

definition http_headers :: "bytes \<Rightarrow> bytes \<Rightarrow> u16 \<Rightarrow> nat \<Rightarrow> bytes" where
  "http_headers path host port content_length =
     ascii ''POST '' @ path @ ascii '' HTTP/1.1'' @ crlf @
     ascii ''Host: '' @ host @ ascii '':'' @ nat_text (unat port) @ crlf @
     ascii ''Content-Type: application/x-www-form-urlencoded'' @ crlf @
     ascii ''Content-Length: '' @ nat_text content_length @ crlf @
     ascii ''Connection: close'' @ crlf @ crlf"

definition max_idle_slices :: nat where
  "max_idle_slices = RECV_TIMEOUT_NS div (RECV_POLL_SLICE_MS * 1000)"

text \<open>The loop over what arrives: \<^term>\<open>None\<close> when it leaves with an error. \<open>cap\<close> is \<open>resp_size - 1\<close>.\<close>

function recv_loop :: "'n sock_env \<Rightarrow> int \<Rightarrow> nat \<Rightarrow> bytes \<Rightarrow> nat \<Rightarrow> 'n \<Rightarrow> bytes option \<times> 'n" where
  "recv_loop e fd cap out idle k =
     (if length out < cap then
        (let (n, pollin, k1) = socPoll e k fd RECV_POLL_SLICE_MS
         in if n < 0 then (None, k1)
            else if n = 0 then
              (if idle + 1 \<ge> max_idle_slices then (None, k1) else recv_loop e fd cap out (idle + 1) k1)
            else if \<not> pollin then (Some out, k1)
            else let (received, k2) = socRecv e k1 fd (cap - length out)
                 in if received = [] then (Some out, k2)
                    else recv_loop e fd cap (out @ take (cap - length out) received) 0 k2)
      else (Some out, k))"
  by pat_completeness auto
termination
  by (relation "measures [\<lambda>(e, fd, cap, out, idle, k). cap - length out, \<lambda>(e, fd, cap, out, idle, k). max_idle_slices - idle]")
     (auto simp: min_def neq_Nil_conv)

declare recv_loop.simps [simp del]

text \<open>Everything after the connection.\<close>

definition http_talk :: "'n sock_env \<Rightarrow> int \<Rightarrow> bytes \<Rightarrow> bytes \<Rightarrow> bytes \<Rightarrow> nat \<Rightarrow> 'n \<Rightarrow> (int \<times> bytes option \<times> 'n) option" where
  "http_talk e fd req body body_extra resp_size k = do {
     (r, k) \<leftarrow> send_all e fd req k;
     if r \<noteq> 0 then Some (-1, None, k)
     else do {
       (r, k) \<leftarrow> send_all e fd body k;
       if r \<noteq> 0 then Some (-1, None, k)
       else do {
         (r, k) \<leftarrow> (if body_extra \<noteq> [] then send_all e fd body_extra k else Some (0, k));
         if r \<noteq> 0 then Some (-1, None, k)
         else
           (case recv_loop e fd (resp_size - 1) [] 0 k of
              (None, k) \<Rightarrow> Some (-1, None, k)
            | (Some out, k) \<Rightarrow> if out \<noteq> [] then Some (0, Some out, k) else Some (-1, None, k))
       }
     }
   }"

text \<open>The result and the response, when one is written.\<close>

definition http_post :: "'n sock_env \<Rightarrow> bytes \<Rightarrow> u16 \<Rightarrow> bytes \<Rightarrow> bytes \<Rightarrow> bytes \<Rightarrow> nat \<Rightarrow> bool \<Rightarrow> 'n \<Rightarrow> (int \<times> bytes option \<times> 'n) option" where
  "http_post e host port path body body_extra resp_size has_event k =
     (let req = http_headers path host port (length body + length body_extra)
      in if length req \<ge> 512 then Some (-1, None, k)
         else let (fd, k) = soc_socket_ex e k
              in if fd < 0 then Some (-1, None, k)
                 else let (ip, k) = (if host = [] then (None, k) else resolve_host e k host)
                      in case ip of
                           None \<Rightarrow> Some (-1, None, socClose e k fd)
                         | Some ip \<Rightarrow>
                             let (r, k) = soc_connect_timeout e fd ip port has_event CONNECT_TIMEOUT_NS k
                             in if r \<noteq> 0 then Some (-1, None, socClose e k fd)
                                else do {
                                  (ret, resp, k) \<leftarrow> http_talk e fd req body body_extra resp_size k;
                                  Some (ret, resp, socClose e k fd)
                                })"

section \<open>What goes over the wire\<close>

text \<open>A service that never takes more than it is given; \<open>wire\<close> is what the peer has got on the socket.\<close>

definition send_ok :: "'n sock_env \<Rightarrow> ('n \<Rightarrow> bytes) \<Rightarrow> bool" where
  "send_ok e wire \<longleftrightarrow> (\<forall>k fd buf n k'. socSend e k fd buf = (n, k') \<longrightarrow>
     nat n \<le> length buf \<and> wire k' = wire k @ take (nat n) buf)"

text \<open>The other calls send nothing.\<close>

definition wire_kept :: "'n sock_env \<Rightarrow> ('n \<Rightarrow> bytes) \<Rightarrow> bool" where
  "wire_kept e wire \<longleftrightarrow>
     (\<forall>k. wire (snd (soc_socket_ex e k)) = wire k) \<and> (\<forall>k h. wire (snd (resolve_host e k h)) = wire k) \<and>
     (\<forall>k. wire (snd (socu_open_handle e k)) = wire k) \<and> (\<forall>k. wire (socu_close_handle e k) = wire k) \<and>
     (\<forall>k fd b. wire (snd (soc_set_nonblocking e k fd b)) = wire k) \<and>
     (\<forall>k fd ip p. wire (snd (socu_connect e k fd ip p)) = wire k) \<and>
     (\<forall>k. wire (snd (cancel_signalled e k)) = wire k) \<and> (\<forall>k fd n. wire (snd (snd (socPoll e k fd n))) = wire k) \<and>
     (\<forall>k fd n. wire (snd (socRecv e k fd n)) = wire k) \<and> (\<forall>k fd. wire (socClose e k fd) = wire k)"

text \<open>What one call adds to the wire: a prefix of what it was to send, all of it exactly when it succeeds.\<close>

definition adds :: "('n \<Rightarrow> bytes) \<Rightarrow> bytes \<Rightarrow> 'n \<Rightarrow> int \<times> 'n \<Rightarrow> bool" where
  "adds wire t k res = (case res of (r, k') \<Rightarrow>
     \<exists>n. wire k' = wire k @ take n t \<and> (r = 0 \<or> r = -1) \<and> (r = 0 \<longrightarrow> take n t = t))"

lemma send_all_adds:
  assumes "send_ok e wire"
  shows "\<exists>res. send_all e fd buf k = Some res \<and> adds wire buf k res"
  using assms
proof (induction e fd buf k rule: send_all.induct)
  case (1 e fd buf k)
  obtain n k1 where s: "socSend e k fd buf = (n, k1)" by force
  then have n: "nat n \<le> length buf" "wire k1 = wire k @ take (nat n) buf"
    using "1.prems" unfolding send_ok_def by blast+
  consider "buf = []" | "buf \<noteq> []" "n \<le> 0" | "buf \<noteq> []" "0 < n" by linarith
  then show ?case
  proof cases
    case 1
    then show ?thesis by (subst send_all.simps) (simp add: adds_def)
  next
    case 2
    then show ?thesis using s n by (subst send_all.simps) (auto simp: adds_def intro!: exI [of _ 0])
  next
    case 3
    have "\<exists>res. send_all e fd (drop (nat n) buf) k1 = Some res \<and> adds wire (drop (nat n) buf) k1 res"
      by (rule "1.IH" [OF 3(1) s [symmetric] refl]) (use 3 n "1.prems" in auto)
    then obtain r k' m where IH: "send_all e fd (drop (nat n) buf) k1 = Some (r, k')"
      "wire k' = wire k1 @ take m (drop (nat n) buf)" "r = 0 \<or> r = -1"
      "r = 0 \<longrightarrow> take m (drop (nat n) buf) = drop (nat n) buf" by (auto simp: adds_def)
    have "take (nat n) buf @ take m (drop (nat n) buf) = take (nat n + m) buf" by (simp add: take_add)
    moreover have "take (nat n) buf @ drop (nat n) buf = buf" by simp
    ultimately have "adds wire buf k (r, k')"
      unfolding adds_def prod.case using IH(2-4) n(2) by (intro exI [of _ "nat n + m"]) auto
    moreover have "send_all e fd buf k = Some (r, k')"
      using 3 s n(1) IH(1) by (subst send_all.simps) simp
    ultimately show ?thesis by blast
  qed
qed

lemma adds_append:
  assumes "adds wire s k (0, k1)" and "adds wire t k1 (r, k')"
  shows "adds wire (s @ t) k (r, k')"
proof -
  obtain n where "wire k' = wire k1 @ take n t" "r = 0 \<or> r = -1" "r = 0 \<longrightarrow> take n t = t" using assms(2) by (auto simp: adds_def)
  moreover have "wire k1 = wire k @ s" using assms(1) by (auto simp: adds_def)
  ultimately show ?thesis unfolding adds_def prod.case by (intro exI [of _ "length s + n"]) auto
qed

lemma adds_fail: "adds wire s k (r, k') \<Longrightarrow> r \<noteq> 0 \<Longrightarrow> adds wire (s @ t) k (-1, k')"
  unfolding adds_def prod.case
proof (elim exE conjE)
  fix n assume "wire k' = wire k @ take n s" "r \<noteq> 0" "r = 0 \<or> r = -1"
  then show "\<exists>n. wire k' = wire k @ take n (s @ t) \<and> (- 1 = (0 :: int) \<or> - 1 = (- 1 :: int)) \<and> (- 1 = (0 :: int) \<longrightarrow> take n (s @ t) = s @ t)"
    by (intro exI [of _ "min n (length s)"]) (auto simp: min_def)
qed

lemma adds_nothing: "wire k' = wire k \<Longrightarrow> adds wire t k (-1, k')"
  by (auto simp: adds_def intro!: exI [of _ 0])

lemma adds_wire: "adds wire t k (r, k') \<Longrightarrow> wire k2 = wire k' \<Longrightarrow> adds wire t k (r, k2)"
  by (simp add: adds_def)

lemma recv_loop_spec:
  assumes "wire_kept e wire"
  shows "wire (snd (recv_loop e fd cap out idle k)) = wire k \<and>
    (case fst (recv_loop e fd cap out idle k) of None \<Rightarrow> True | Some t \<Rightarrow> length t \<le> max cap (length out))"
  using assms
proof (induction e fd cap out idle k rule: recv_loop.induct)
  case (1 e fd cap out idle k)
  obtain n pollin k1 where p: "socPoll e k fd RECV_POLL_SLICE_MS = (n, pollin, k1)" by (rule prod_cases3)
  obtain d k2 where r: "socRecv e k1 fd (cap - length out) = (d, k2)" by force
  have w: "wire k1 = wire k" "wire k2 = wire k1"
    using "1.prems" p r unfolding wire_kept_def by (metis snd_conv)+
  consider "\<not> length out < cap \<or> n < 0 \<or> (n = 0 \<and> idle + 1 \<ge> max_idle_slices) \<or> (n > 0 \<and> (\<not> pollin \<or> d = []))"
    | "length out < cap" "n = 0" "\<not> idle + 1 \<ge> max_idle_slices" | "length out < cap" "n > 0" "pollin" "d \<noteq> []" by linarith
  then show ?case
  proof cases
    case 1
    then show ?thesis using w by (subst (1 2) recv_loop.simps) (auto simp: p r)
  next
    case 2
    have "recv_loop e fd cap out idle k = recv_loop e fd cap out (idle + 1) k1"
      using 2 by (subst recv_loop.simps) (simp add: p)
    then show ?thesis using "1.IH"(1) [OF 2(1) refl p [symmetric] refl _ 2(2,3) "1.prems"] 2 w by simp
  next
    case 3
    have eq: "recv_loop e fd cap out idle k = recv_loop e fd cap (out @ take (cap - length out) d) 0 k2"
      using 3 by (subst recv_loop.simps) (simp add: p r)
    show ?thesis
      using "1.IH"(2) [OF 3(1) refl p [symmetric] refl _ _ _ refl r [symmetric] 3(4) "1.prems"] 3 w unfolding eq
      by (auto simp: max_def split: option.splits if_splits)
  qed
qed

lemma http_talk_spec:
  assumes "send_ok e wire" and "wire_kept e wire" and "0 < resp_size"
  shows "\<exists>r resp k'. http_talk e fd req body body_extra resp_size k = Some (r, resp, k') \<and>
    adds wire (req @ body @ body_extra) k (r, k') \<and>
    (r = 0 \<longrightarrow> (\<exists>t. resp = Some t \<and> t \<noteq> [] \<and> length t < resp_size))"
proof -
  obtain r1 k1 where s1: "send_all e fd req k = Some (r1, k1)" "adds wire req k (r1, k1)"
    using send_all_adds [OF assms(1), of fd req k] by auto
  obtain r2 k2 where s2: "send_all e fd body k1 = Some (r2, k2)" "adds wire body k1 (r2, k2)"
    using send_all_adds [OF assms(1), of fd body k1] by auto
  obtain r3 k3 where s3: "(if body_extra \<noteq> [] then send_all e fd body_extra k2 else Some (0, k2)) = Some (r3, k3)"
    "adds wire body_extra k2 (r3, k3)"
    using send_all_adds [OF assms(1), of fd body_extra k2] by (cases "body_extra = []") (auto simp: adds_def)
  obtain o4 k4 where rv: "recv_loop e fd (resp_size - 1) [] 0 k3 = (o4, k4)" by force
  have w4: "wire k4 = wire k3" "\<And>t. o4 = Some t \<Longrightarrow> length t < resp_size"
    using recv_loop_spec [OF assms(2), of fd "resp_size - 1" "[]" 0 k3] rv assms(3) by auto
  consider "r1 \<noteq> 0" | "r1 = 0" "r2 \<noteq> 0" | "r1 = 0" "r2 = 0" "r3 \<noteq> 0" | "r1 = 0" "r2 = 0" "r3 = 0" by blast
  then show ?thesis
  proof cases
    case 1
    then show ?thesis using s1 adds_fail [OF s1(2) 1, of "body @ body_extra"] by (simp add: http_talk_def)
  next
    case 2
    then have "adds wire (req @ body @ body_extra) k (-1, k2)"
      using adds_append [OF s1(2) [unfolded 2(1)] adds_fail [OF s2(2) 2(2)]] by simp
    then show ?thesis using s1 s2 2 by (simp add: http_talk_def)
  next
    case 3
    then have "adds wire (req @ body @ body_extra) k (-1, k3)"
      using adds_append [OF s1(2) [unfolded 3(1)] adds_append [OF s2(2) [unfolded 3(2)] adds_fail [OF s3(2) 3(3), of "[]"]]]
      by simp
    then show ?thesis using s1 s2 s3 3 by (simp add: http_talk_def)
  next
    case 4
    have a: "adds wire (req @ body @ body_extra) k (0, k3)"
      using adds_append [OF s1(2) [unfolded 4(1)] adds_append [OF s2(2) [unfolded 4(2)] s3(2) [unfolded 4(3)]]] .
    have f: "adds wire (req @ body @ body_extra) k (-1, k3)"
      using a unfolding adds_def prod.case by auto
    show ?thesis
      using s1 s2 s3 4 rv w4 adds_wire [OF a w4(1)] adds_wire [OF f w4(1)]
      by (cases o4; cases "o4 = Some []") (simp_all add: http_talk_def)
  qed
qed

lemma connect_loop_wire: "wire_kept e wire \<Longrightarrow> wire (snd (connect_loop e fd has_cancel n k)) = wire k"
proof (induction n arbitrary: k)
  case (Suc n)
  obtain stop k1 where c: "(if has_cancel then cancel_signalled e k else (False, k)) = (stop, k1)" by force
  obtain r ready k2 where p: "socPoll e k1 fd CONNECT_POLL_SLICE_MS = (r, ready, k2)" by (rule prod_cases3)
  have "wire k1 = wire k" using c Suc.prems unfolding wire_kept_def by (metis snd_conv)
  moreover have "wire k2 = wire k1" using p Suc.prems unfolding wire_kept_def by (metis snd_conv)
  ultimately show ?case using Suc by (simp add: c p)
qed simp

lemma soc_connect_wire:
  assumes "wire_kept e wire"
  shows "wire (snd (soc_connect_timeout e fd ip port has_cancel t k)) = wire k"
proof -
  have kept: "wire (snd (socu_open_handle e k)) = wire k" "wire (socu_close_handle e k) = wire k"
    "wire (snd (soc_set_nonblocking e k fd b)) = wire k" "wire (snd (socu_connect e k fd ip port)) = wire k" for k b
    using assms by (simp_all add: wire_kept_def)
  have w: "wire (snd (socu_connect_wait e fd ip port has_cancel t k)) = wire k" for k
    using kept(4) [of k] connect_loop_wire [OF assms] by (auto simp: socu_connect_wait_def split: prod.split)
  obtain ok k1 where o: "socu_open_handle e k = (ok, k1)" by force
  obtain nb k2 where s: "soc_set_nonblocking e k1 fd True = (nb, k2)" by force
  obtain ret k3 where c: "socu_connect_wait e fd ip port has_cancel t k2 = (ret, k3)" by force
  have "wire k1 = wire k" "wire k2 = wire k1" "wire k3 = wire k2"
    using kept(1) [of k] kept(3) [of k1 True] w [of k2] o s c by simp_all
  then show ?thesis by (simp add: soc_connect_timeout_def o s c kept)
qed

text \<open>C27: a request never traps. It sends a prefix of the headers, the body and its second part, in this
  order and each byte once; when it succeeds it has sent all of them, under a content length that is the
  length of both parts, and gives a response that is not empty and fits the buffer.\<close>

theorem http_post_framed:
  assumes "send_ok e wire" and "wire_kept e wire" and "0 < resp_size"
  shows "\<exists>r resp k'. http_post e host port path body body_extra resp_size has_event k = Some (r, resp, k') \<and>
    adds wire (http_headers path host port (length body + length body_extra) @ body @ body_extra) k (r, k') \<and>
    (r = 0 \<longrightarrow> (\<exists>t. resp = Some t \<and> t \<noteq> [] \<and> length t < resp_size))"
proof -
  let ?req = "http_headers path host port (length body + length body_extra)"
  let ?a = "\<lambda>res. adds wire (?req @ body @ body_extra) k res"
  obtain fd k1 where s: "soc_socket_ex e k = (fd, k1)" by force
  obtain ip k2 where h: "(if host = [] then (None, k1) else resolve_host e k1 host) = (ip, k2)" by force
  have w: "wire k1 = wire k" "wire k2 = wire k1" "\<And>k. wire (socClose e k fd) = wire k"
    using s h assms(2) unfolding wire_kept_def by (metis snd_conv)+
  show ?thesis
  proof (cases "length ?req \<ge> 512 \<or> fd < 0 \<or> ip = None")
    case True
    then show ?thesis
      using w adds_nothing [of wire k k] adds_nothing [of wire k1 k] adds_nothing [of wire "socClose e k2 fd" k]
      by (cases "length ?req \<ge> 512"; cases "fd < 0") (simp_all add: http_post_def s h)
  next
    case False
    then obtain a where a: "ip = Some a" by blast
    obtain r3 k3 where c: "soc_connect_timeout e fd a port has_event CONNECT_TIMEOUT_NS k2 = (r3, k3)" by force
    have w3: "wire k3 = wire k2" using soc_connect_wire [OF assms(2)] c by (metis snd_conv)
    show ?thesis
    proof (cases "r3 = 0")
      case True
      obtain r resp k4 where t: "http_talk e fd ?req body body_extra resp_size k3 = Some (r, resp, k4)"
        "adds wire (?req @ body @ body_extra) k3 (r, k4)" "r = 0 \<longrightarrow> (\<exists>t. resp = Some t \<and> t \<noteq> [] \<and> length t < resp_size)"
        using http_talk_spec [OF assms, of fd ?req body body_extra k3] by blast
      have "?a (r, socClose e k4 fd)" using t(2) w w3 by (simp add: adds_def)
      then show ?thesis using False a c True t(1,3) by (simp add: http_post_def s h)
    next
      case r3: False
      have "?a (-1, socClose e k3 fd)" by (rule adds_nothing) (simp add: w w3)
      then show ?thesis using False a c r3 by (simp add: http_post_def s h)
    qed
  qed
qed

text \<open>A network that takes everything and answers once.\<close>

definition demo_sock :: "(bytes \<times> bool) sock_env" where
  "demo_sock =
     \<lparr>soc_socket_ex = (\<lambda>k. (3, k)), resolve_host = (\<lambda>k h. (Some 0x0100007F, k)), socu_open_handle = (\<lambda>k. (True, k)),
      socu_close_handle = (\<lambda>k. k), soc_set_nonblocking = (\<lambda>k fd b. (True, k)), socu_connect = (\<lambda>k fd ip p. (0, k)),
      cancel_signalled = (\<lambda>k. (False, k)), socPoll = (\<lambda>k fd n. (1, True, k)),
      socSend = (\<lambda>(w, b) fd buf. (int (length buf), (w @ buf, b))),
      socRecv = (\<lambda>(w, b) fd n. (if b then [] else [0x6F, 0x6B], (w, True))),
      socClose = (\<lambda>k fd. k)\<rparr>"

lemma demo_sock_ok: "send_ok demo_sock fst" "wire_kept demo_sock fst"
  by (auto simp: send_ok_def wire_kept_def demo_sock_def)

lemma demo_send: "send_all demo_sock 3 buf (w, b) = Some (0, (w @ buf, b))"
  by (subst send_all.simps, cases "buf = []") (simp_all add: demo_sock_def send_all.simps)

lemma demo_recv: "recv_loop demo_sock 3 511 [] 0 (w, False) = (Some [0x6F, 0x6B], (w, True))"
  by (subst recv_loop.simps, simp add: demo_sock_def, subst recv_loop.simps, simp add: demo_sock_def)

lemma demo_headers: "length (http_headers (ascii ''/a'') (ascii ''h'') 80 7) < 512"
  by code_simp

lemma demo_post:
  "http_post demo_sock (ascii ''h'') 80 (ascii ''/a'') (ascii ''uuid=1&'') [] 512 False ([], False) =
     Some (0, Some [0x6F, 0x6B], (http_headers (ascii ''/a'') (ascii ''h'') 80 7 @ ascii ''uuid=1&'', True))"
proof -
  have c: "soc_connect_timeout demo_sock 3 ip port False t k = (0, k)" for ip port t k
    by (simp add: soc_connect_timeout_def socu_connect_wait_def demo_sock_def)
  have t: "http_talk demo_sock 3 req body [] 512 (w, False) = Some (0, Some [0x6F, 0x6B], (w @ req @ body, True))" for req body w
    by (simp add: http_talk_def demo_send demo_recv)
  have l: "length (ascii ''uuid=1&'') = 7" "ascii ''h'' \<noteq> []" by (simp_all add: ascii_def)
  have e: "soc_socket_ex demo_sock k = (3, k)" "resolve_host demo_sock k h = (Some 0x0100007F, k)" "socClose demo_sock k fd = k" for k h fd
    by (simp_all add: demo_sock_def)
  show ?thesis using demo_headers by (simp add: http_post_def l e c t not_le)
qed

theorem http_post_framed_witness:
  "\<exists>k'. http_post demo_sock (ascii ''h'') 80 (ascii ''/a'') (ascii ''uuid=1&'') [] 512 False ([], False) = Some (0, Some [0x6F, 0x6B], k') \<and>
    fst k' = http_headers (ascii ''/a'') (ascii ''h'') 80 7 @ ascii ''uuid=1&''"
proof -
  have l: "length (ascii ''uuid=1&'') = 7" by (simp add: ascii_def)
  show ?thesis
    using http_post_framed [OF demo_sock_ok, of 512 "ascii ''h''" 80 "ascii ''/a''" "ascii ''uuid=1&''" "[]" False "([], False)"]
    by (auto simp: demo_post l adds_def)
qed

text \<open>The pause is counted in slices of 500 ms but their number divides by 500 microseconds: a silent server
  is waited for 6000 slices, fifty minutes instead of the three seconds of \<open>RECV_TIMEOUT_NS\<close>.\<close>

lemma silent_server_waits:
  assumes "\<forall>k. socPoll e k fd RECV_POLL_SLICE_MS = (0, False, k + 1)" and "length out < cap"
  shows "idle < max_idle_slices \<Longrightarrow> recv_loop e fd cap out idle k = (None, k + (max_idle_slices - idle))"
proof (induction "max_idle_slices - idle" arbitrary: idle k)
  case (Suc n)
  show ?case
  proof (cases "idle + 1 \<ge> max_idle_slices")
    case True
    then have "max_idle_slices - idle = 1" using Suc.prems by simp
    then show ?thesis using True assms by (subst recv_loop.simps) simp
  next
    case False
    have "recv_loop e fd cap out idle k = recv_loop e fd cap out (idle + 1) (k + 1)"
      using False assms by (subst recv_loop.simps) simp
    also have "\<dots> = (None, k + 1 + (max_idle_slices - (idle + 1)))" by (rule Suc.hyps(1)) (use Suc.hyps(2) False in auto)
    finally show ?thesis using False by simp
  qed
qed simp

lemma recv_timeout_is_fifty_minutes: "max_idle_slices * RECV_POLL_SLICE_MS = 3000 * 1000" "RECV_TIMEOUT_NS = 3 * 10 ^ 9"
  by (simp_all add: max_idle_slices_def RECV_POLL_SLICE_MS_def RECV_TIMEOUT_NS_def)

lemma connect_timeout_is_five_seconds: "unat (max_slices CONNECT_TIMEOUT_NS) * CONNECT_POLL_SLICE_MS = 5000"
  by (simp add: max_slices_def CONNECT_TIMEOUT_NS_def CONNECT_POLL_SLICE_MS_def)

end
