(* ===== verification/Ndm_Yield.thy ===== *)
theory Ndm_Yield
  imports Prelude
begin

text \<open>
  Lending the radio to a game. A game asks the service \<open>ndm:u\<close> for an exclusive state; while the
  network of rosalina is up, the kernel extension holds the request (\<open>k11_extension/source/ndmu_yield.c\<close>,
  the \<open>ndm:u\<close> cases of \<open>svc/SendSyncRequest.c\<close> and \<open>svc/KernelSetState.c\<close>) and asks rosalina, whose
  main loop releases the radio, acknowledges, and takes it back later
  (\<open>sysmodules/rosalina/source/discord/ndm_yield.c\<close>). The block in the kernel is a bit that is toggled,
  by the network (\<open>sysmodules/rosalina/source/minisoc.c\<close>) and by the lending.

  One record holds the state of the three parts. An operation is atomic, under the lock that the
  code takes; what the services answer in it is an argument. Waiting, log lines and the handles of
  the network service are left out.
\<close>

section \<open>The state\<close>

datatype yield_mode = YM_NONE | YM_RUNNING | YM_LEAVE_GRACE

record radio =
  ndmuYieldState :: u32
  rosalinaState :: u32
  autobootTwlTitleId :: u64
  miniSocRefCount :: int
  miniSocEnabled :: bool
  exclusiveStateEntered :: bool
  s_yieldActive :: bool
  s_yieldGeneration :: u32
  s_yieldMode :: yield_mode
  s_yieldLastEventTick :: u64
  s_bitCleared :: bool
  s_wasActive :: bool

definition res_failed :: "result \<Rightarrow> bool" where
  "res_failed r \<longleftrightarrow> sint r < 0"

section \<open>The kernel extension\<close>

definition NDMU_BIT_ASK :: u32 where "NDMU_BIT_ASK = 1"
definition NDMU_BIT_ACK :: u32 where "NDMU_BIT_ACK = 2"
definition NDMU_BIT_LEAVE :: u32 where "NDMU_BIT_LEAVE = 4"

definition ndmuYieldStateSetBits :: "u32 \<Rightarrow> radio \<Rightarrow> radio" where
  "ndmuYieldStateSetBits bits w = w\<lparr>ndmuYieldState := ndmuYieldState w OR bits\<rparr>"

definition ndmuYieldStateClearBits :: "u32 \<Rightarrow> radio \<Rightarrow> radio" where
  "ndmuYieldStateClearBits bits w = w\<lparr>ndmuYieldState := ndmuYieldState w AND NOT bits\<rparr>"

definition ndmuYieldStateReset :: "radio \<Rightarrow> radio" where
  "ndmuYieldStateReset w = w\<lparr>ndmuYieldState := 0\<rparr>"

text \<open>\<open>seen\<close> is the state at each look, from look \<open>iters\<close> on.\<close>

function wait_for_ack :: "(nat \<Rightarrow> u32) \<Rightarrow> nat \<Rightarrow> bool" where
  "wait_for_ack seen iters =
     (if seen iters AND NDMU_BIT_ACK \<noteq> 0 then True
      else if seen iters AND NDMU_BIT_ASK = 0 \<or> iters \<ge> 100 then False
      else wait_for_ack seen (iters + 1))"
  by pat_completeness auto
termination by (relation "measure (\<lambda>(seen, iters). 100 - iters)") auto

declare wait_for_ack.simps [simp del]

definition ndmuWaitForAck :: "(nat \<Rightarrow> u32) \<Rightarrow> bool" where
  "ndmuWaitForAck seen = wait_for_ack seen 0"

text \<open>\<open>hasStartedRosalinaNetworkFuncs\<close>, kept equal to the bit.\<close>

definition network_bit :: "radio \<Rightarrow> bool" where
  "network_bit w \<longleftrightarrow> rosalinaState w AND 0x10 \<noteq> 0"

text \<open>The request \<open>EnterExclusiveState\<close> of a game, before and after the wait: whether it goes on to the
  service.\<close>

datatype enter_answer = Passes | Faked | Asks

definition enter_exclusive :: "u32 \<Rightarrow> radio \<Rightarrow> enter_answer \<times> radio" where
  "enter_exclusive mode w =
     (if \<not> network_bit w then (Passes, w)
      else if mode \<ge> 2 then (Asks, ndmuYieldStateSetBits NDMU_BIT_ASK (ndmuYieldStateClearBits NDMU_BIT_ACK w))
      else if mode = 1 then (Faked, w)
      else (Passes, w))"

definition enter_after_wait :: "bool \<Rightarrow> radio \<Rightarrow> enter_answer \<times> radio" where
  "enter_after_wait acked w = (if acked then (Passes, w) else (Faked, ndmuYieldStateClearBits NDMU_BIT_ASK w))"

text \<open>\<open>LeaveExclusiveState\<close>.\<close>

definition leave_exclusive :: "radio \<Rightarrow> enter_answer \<times> radio" where
  "leave_exclusive w =
     (if ndmuYieldState w AND NDMU_BIT_ACK \<noteq> 0 then (Passes, ndmuYieldStateSetBits NDMU_BIT_LEAVE w)
      else if network_bit w then (Faked, w) else (Passes, w))"

definition kernel_toggle :: "u32 \<Rightarrow> radio \<Rightarrow> radio" where
  "kernel_toggle v w = w\<lparr>rosalinaState := rosalinaState w XOR v\<rparr>"

definition kernel_handshake :: "u32 \<Rightarrow> radio \<Rightarrow> radio" where
  "kernel_handshake v w =
     (if v = 0 then ndmuYieldStateSetBits NDMU_BIT_ACK w
      else if v = 1 then ndmuYieldStateReset w
      else if v = 2 then ndmuYieldStateClearBits NDMU_BIT_ASK w else w)"

section \<open>The network\<close>

record ndm_answers =
  isServiceUsable :: bool
  NDMU_EnterExclusiveState :: result
  NDMU_LockState :: result
  NDMU_UnlockState :: result
  NDMU_LeaveExclusiveState :: result

definition miniSocLockState :: "ndm_answers \<Rightarrow> radio \<Rightarrow> radio" where
  "miniSocLockState a w =
     (if \<not> exclusiveStateEntered w \<and> isServiceUsable a then
        let res = NDMU_EnterExclusiveState a; res = (if \<not> res_failed res then NDMU_LockState a else res)
        in w\<lparr>exclusiveStateEntered := \<not> res_failed res\<rparr>
      else w)"

definition miniSocUnlockState :: "bool \<Rightarrow> ndm_answers \<Rightarrow> radio \<Rightarrow> radio" where
  "miniSocUnlockState force a w =
     (if exclusiveStateEntered w then
        let res = (if \<not> force then let res = NDMU_UnlockState a
                                  in if \<not> res_failed res then NDMU_LeaveExclusiveState a else res
                   else 0)
        in w\<lparr>exclusiveStateEntered := res_failed res\<rparr>
      else w)"

text \<open>\<open>steps\<close>: the results of the calls that acquire the service and its memory, in order.\<close>

fun first_error :: "result list \<Rightarrow> result" where
  "first_error [] = 0"
| "first_error (r # rs) = (if r \<noteq> 0 then r else first_error rs)"

definition miniSocInit :: "result list \<Rightarrow> ndm_answers \<Rightarrow> radio \<Rightarrow> result \<times> radio" where
  "miniSocInit steps a w =
     (let old = miniSocRefCount w; w = w\<lparr>miniSocRefCount := old + 1\<rparr>
      in if old \<noteq> 0 then (0, w)
         else let ret = first_error steps
              in if ret \<noteq> 0 then (ret, w\<lparr>miniSocRefCount := miniSocRefCount w - 1\<rparr>)
                 else (0, (kernel_toggle 0x10 (miniSocLockState a w))\<lparr>miniSocEnabled := True\<rparr>))"

text \<open>\<open>ret\<close>: the answer of the service to the shutdown.\<close>

definition miniSocExitDirect :: "result \<Rightarrow> ndm_answers \<Rightarrow> radio \<Rightarrow> radio" where
  "miniSocExitDirect ret a w =
     (if ret = 0 then kernel_toggle 0x10 ((miniSocUnlockState False a w)\<lparr>miniSocEnabled := False\<rparr>) else w)"

definition miniSocExit :: "result \<Rightarrow> ndm_answers \<Rightarrow> radio \<Rightarrow> radio" where
  "miniSocExit ret a w =
     (if \<not> miniSocEnabled w then w
      else let w = w\<lparr>miniSocRefCount := miniSocRefCount w - 1\<rparr>
           in if miniSocRefCount w \<noteq> 0 then w else miniSocExitDirect ret a w)"

section \<open>Lending\<close>

definition YIELD_WATCHDOG_MS :: u64 where "YIELD_WATCHDOG_MS = 10 * 1000"
definition YIELD_START_GRACE_MS :: u64 where "YIELD_START_GRACE_MS = 5 * 1000"
definition LEAVE_GRACE_MS :: u64 where "LEAVE_GRACE_MS = 3 * 1000"

definition ticksMs :: "u64 \<Rightarrow> u64" where
  "ticksMs ms = ms * (268111856 div 1000)"

text \<open>The query \<open>0x10\<close> of information type \<open>0x10000\<close> is answered by the kernel extension
  (\<open>svc/GetSystemInfo.c\<close>) with the title to start on boot.\<close>

definition system_info_10 :: "radio \<Rightarrow> u64" where
  "system_info_10 w = autobootTwlTitleId w"

definition kernelBitIsSet :: "radio \<Rightarrow> bool" where
  "kernelBitIsSet w \<longleftrightarrow> system_info_10 w AND 0x10 \<noteq> 0"

definition doRelease :: "ndm_answers \<Rightarrow> radio \<Rightarrow> radio" where
  "doRelease a w =
     (let w = miniSocUnlockState False a w;
          w = (if \<not> s_bitCleared w \<and> kernelBitIsSet w then (kernel_toggle 0x10 w)\<lparr>s_bitCleared := True\<rparr> else w);
          w = w\<lparr>s_yieldGeneration := s_yieldGeneration w + 1\<rparr>
      in kernel_handshake 0 w)"

definition doRestore :: "bool \<Rightarrow> ndm_answers \<Rightarrow> radio \<Rightarrow> radio" where
  "doRestore full a w =
     (let w = w\<lparr>s_yieldActive := False, s_yieldMode := YM_NONE\<rparr>;
          w = (if full then miniSocLockState a w else w);
          w = (if s_bitCleared w
               then (if full \<and> miniSocEnabled w \<and> \<not> kernelBitIsSet w then kernel_toggle 0x10 w else w)\<lparr>s_bitCleared := False\<rparr>
               else w)
      in kernel_handshake 1 w)"

text \<open>What the main loop finds: who else uses the network, the state of the client, the clock at each
  reading, and whether \<open>ndm\<close> answers that it is free.\<close>

record yield_inputs =
  inputRedirectionEnabled :: bool
  gdb_running :: bool
  rpc_stopped :: bool
  tick_event :: u64
  tick_compare :: u64
  tick_rearm :: u64
  ndmProbeFree :: bool
  ndm_calls :: ndm_answers

definition networkOwnedByOthers :: "yield_inputs \<Rightarrow> bool" where
  "networkOwnedByOthers i \<longleftrightarrow> inputRedirectionEnabled i \<or> gdb_running i"

text \<open>The flag: the event that restarts the client is signalled.\<close>

definition ndmYieldProcess :: "yield_inputs \<Rightarrow> radio \<Rightarrow> bool \<times> radio" where
  "ndmYieldProcess i w =
     (let state = ndmuYieldState w;
          (ended, w) =
            (if state AND NDMU_BIT_ASK \<noteq> 0 \<and> state AND NDMU_BIT_ACK = 0 \<and> \<not> s_yieldActive w then
               (if networkOwnedByOthers i then (False, kernel_handshake 2 w)
                else (False, doRelease (ndm_calls i) (w\<lparr>s_wasActive := \<not> rpc_stopped i, s_yieldActive := True,
                        s_yieldMode := YM_RUNNING, s_yieldLastEventTick := tick_event i\<rparr>)))
             else if s_yieldActive w then
               let w = (if state AND NDMU_BIT_LEAVE \<noteq> 0 \<and> s_yieldMode w \<noteq> YM_LEAVE_GRACE
                        then w\<lparr>s_yieldMode := YM_LEAVE_GRACE, s_yieldLastEventTick := tick_event i\<rparr> else w);
                   intervalMs = (if s_yieldMode w = YM_LEAVE_GRACE then LEAVE_GRACE_MS
                                 else YIELD_START_GRACE_MS + YIELD_WATCHDOG_MS)
               in if tick_compare i - s_yieldLastEventTick w \<ge> ticksMs intervalMs then
                    (if ndmProbeFree i then (True, doRestore True (ndm_calls i) w)
                     else (False, w\<lparr>s_yieldLastEventTick := tick_rearm i\<rparr>))
                  else (False, w)
             else (False, w))
      in if ended \<and> s_wasActive w then (True, w\<lparr>s_wasActive := False\<rparr>) else (False, w))"

definition ndmYieldOnAppExit :: "ndm_answers \<Rightarrow> radio \<Rightarrow> radio" where
  "ndmYieldOnAppExit a w = (if s_yieldActive w then doRestore False a w else w)"

definition ndmYieldIsActive :: "radio \<Rightarrow> bool" where
  "ndmYieldIsActive w = s_yieldActive w"

definition ndmYieldGetGeneration :: "radio \<Rightarrow> u32" where
  "ndmYieldGetGeneration w = s_yieldGeneration w"

text \<open>The answer and the generation that the caller keeps.\<close>

definition ndmYieldRpcShouldExit :: "u32 \<Rightarrow> radio \<Rightarrow> bool \<times> u32" where
  "ndmYieldRpcShouldExit gen w = (s_yieldActive w \<or> s_yieldGeneration w \<noteq> gen, s_yieldGeneration w)"

definition ndmYieldSafeSocExit :: "result \<Rightarrow> ndm_answers \<Rightarrow> radio \<Rightarrow> radio" where
  "ndmYieldSafeSocExit ret a w =
     (let yielding = s_yieldActive w;
          bitWasOff = (yielding \<and> \<not> kernelBitIsSet w);
          w = miniSocExit ret a w
      in if bitWasOff \<and> kernelBitIsSet w then kernel_toggle 0x10 w else w)"

end
