(* ===== verification/Ndm_Yield_Claims.thy ===== *)
theory Ndm_Yield_Claims
  imports Ndm_Yield
begin

text \<open>
  Properties of the lending of the radio, over every interleaving of the operations of the game, of
  the network and of the main loop.
\<close>

section \<open>Runs\<close>

datatype radio_op =
    Process yield_inputs
  | App_exit ndm_answers
  | Soc_init "result list" ndm_answers
  | Soc_exit result ndm_answers
  | Safe_exit result ndm_answers
  | Force_unlock ndm_answers
  | Enter u32
  | Enter_done bool
  | Leave

fun radio_step :: "radio_op \<Rightarrow> radio \<Rightarrow> radio" where
  "radio_step (Process i) w = snd (ndmYieldProcess i w)"
| "radio_step (App_exit a) w = ndmYieldOnAppExit a w"
| "radio_step (Soc_init steps a) w = snd (miniSocInit steps a w)"
| "radio_step (Soc_exit ret a) w = miniSocExit ret a w"
| "radio_step (Safe_exit ret a) w = ndmYieldSafeSocExit ret a w"
| "radio_step (Force_unlock a) w = miniSocUnlockState True a w"
| "radio_step (Enter mode) w = snd (enter_exclusive mode w)"
| "radio_step (Enter_done acked) w = snd (enter_after_wait acked w)"
| "radio_step Leave w = snd (leave_exclusive w)"

definition radio_start :: "u64 \<Rightarrow> radio" where
  "radio_start title = \<lparr>ndmuYieldState = 0, rosalinaState = 0, autobootTwlTitleId = title, miniSocRefCount = 0, miniSocEnabled = False,
     exclusiveStateEntered = False, s_yieldActive = False, s_yieldGeneration = 0, s_yieldMode = YM_NONE,
     s_yieldLastEventTick = 0, s_bitCleared = False, s_wasActive = False\<rparr>"

text \<open>The services answer a shutdown without an error.\<close>

definition shutdown_works :: "radio_op \<Rightarrow> bool" where
  "shutdown_works oper = (case oper of Soc_exit ret a \<Rightarrow> ret = 0 | Safe_exit ret a \<Rightarrow> ret = 0 | _ \<Rightarrow> True)"

section \<open>Fields\<close>

lemma toggle_network_bit [simp]: "network_bit (kernel_toggle 0x10 w) = (\<not> network_bit w)"
proof -
  have "(x XOR 0x10) AND 0x10 = 0 \<longleftrightarrow> x AND 0x10 \<noteq> 0" for x :: u32
  proof -
    have b: "y AND 0x10 = 0 \<longleftrightarrow> \<not> bit y 4" for y :: u32
      using and_exp_eq_0_iff_not_bit [of y 4] by simp
    have "bit (0x10 :: u32) 4" by simp
    then show ?thesis unfolding b by (simp add: bit_xor_iff)
  qed
  then show ?thesis by (simp add: network_bit_def kernel_toggle_def)
qed

lemma toggle_fields [simp]:
  "miniSocEnabled (kernel_toggle v w) = miniSocEnabled w" "miniSocRefCount (kernel_toggle v w) = miniSocRefCount w"
  "autobootTwlTitleId (kernel_toggle v w) = autobootTwlTitleId w" "s_yieldActive (kernel_toggle v w) = s_yieldActive w"
  "s_yieldGeneration (kernel_toggle v w) = s_yieldGeneration w" "s_bitCleared (kernel_toggle v w) = s_bitCleared w"
  "ndmuYieldState (kernel_toggle v w) = ndmuYieldState w"
  by (simp_all add: kernel_toggle_def)

lemma handshake_fields [simp]:
  "network_bit (kernel_handshake v w) = network_bit w" "miniSocEnabled (kernel_handshake v w) = miniSocEnabled w"
  "miniSocRefCount (kernel_handshake v w) = miniSocRefCount w" "autobootTwlTitleId (kernel_handshake v w) = autobootTwlTitleId w"
  "s_yieldActive (kernel_handshake v w) = s_yieldActive w" "s_yieldGeneration (kernel_handshake v w) = s_yieldGeneration w"
  "s_bitCleared (kernel_handshake v w) = s_bitCleared w"
  by (simp_all add: kernel_handshake_def ndmuYieldStateSetBits_def ndmuYieldStateClearBits_def ndmuYieldStateReset_def network_bit_def)

lemma soc_lock_fields [simp]:
  "network_bit (miniSocLockState a w) = network_bit w" "miniSocEnabled (miniSocLockState a w) = miniSocEnabled w"
  "miniSocRefCount (miniSocLockState a w) = miniSocRefCount w" "autobootTwlTitleId (miniSocLockState a w) = autobootTwlTitleId w"
  "s_yieldActive (miniSocLockState a w) = s_yieldActive w" "s_yieldGeneration (miniSocLockState a w) = s_yieldGeneration w"
  "s_bitCleared (miniSocLockState a w) = s_bitCleared w" "ndmuYieldState (miniSocLockState a w) = ndmuYieldState w"
  "network_bit (miniSocUnlockState f a w) = network_bit w" "miniSocEnabled (miniSocUnlockState f a w) = miniSocEnabled w"
  "miniSocRefCount (miniSocUnlockState f a w) = miniSocRefCount w" "autobootTwlTitleId (miniSocUnlockState f a w) = autobootTwlTitleId w"
  "s_yieldActive (miniSocUnlockState f a w) = s_yieldActive w" "s_yieldGeneration (miniSocUnlockState f a w) = s_yieldGeneration w"
  "s_bitCleared (miniSocUnlockState f a w) = s_bitCleared w" "ndmuYieldState (miniSocUnlockState f a w) = ndmuYieldState w"
  by (simp_all add: miniSocLockState_def miniSocUnlockState_def network_bit_def Let_def)

lemma network_bit_update [simp]:
  "network_bit (w\<lparr>miniSocRefCount := x\<rparr>) = network_bit w" "network_bit (w\<lparr>miniSocEnabled := b\<rparr>) = network_bit w"
  "network_bit (w\<lparr>s_yieldActive := b\<rparr>) = network_bit w" "network_bit (w\<lparr>s_yieldMode := m\<rparr>) = network_bit w"
  "network_bit (w\<lparr>s_bitCleared := b\<rparr>) = network_bit w" "network_bit (w\<lparr>s_wasActive := b\<rparr>) = network_bit w"
  "network_bit (w\<lparr>s_yieldGeneration := g\<rparr>) = network_bit w" "network_bit (w\<lparr>s_yieldLastEventTick := t\<rparr>) = network_bit w"
  "network_bit (w\<lparr>ndmuYieldState := v\<rparr>) = network_bit w"
  by (simp_all add: network_bit_def)

lemma kernel_bit_const [simp]: "kernelBitIsSet w = (autobootTwlTitleId w AND 0x10 \<noteq> 0)"
  by (simp add: kernelBitIsSet_def system_info_10_def)

section \<open>The block and the network\<close>

text \<open>The network is up exactly while somebody holds a reference, and the block is on exactly while it is up.\<close>

definition block_ok :: "radio \<Rightarrow> bool" where
  "block_ok w \<longleftrightarrow> network_bit w = miniSocEnabled w \<and> miniSocEnabled w = (miniSocRefCount w > 0) \<and> miniSocRefCount w \<ge> 0 \<and>
     autobootTwlTitleId w AND 0x10 = 0 \<and> \<not> s_bitCleared w"

lemma block_ok_init: "block_ok w \<Longrightarrow> block_ok (snd (miniSocInit steps a w))"
  by (auto simp: block_ok_def miniSocInit_def Let_def)

lemma block_ok_exit: "block_ok w \<Longrightarrow> block_ok (miniSocExit 0 a w)"
  by (auto simp: block_ok_def miniSocExit_def miniSocExitDirect_def Let_def)

lemma block_ok_safe_exit: "block_ok w \<Longrightarrow> block_ok (ndmYieldSafeSocExit 0 a w)"
proof -
  assume b: "block_ok w"
  then have "block_ok (miniSocExit 0 a w)" by (rule block_ok_exit)
  then show ?thesis by (simp add: ndmYieldSafeSocExit_def Let_def block_ok_def)
qed

lemma block_ok_process: "block_ok w \<Longrightarrow> block_ok (snd (ndmYieldProcess i w))"
  by (auto simp: block_ok_def ndmYieldProcess_def doRelease_def doRestore_def Let_def)

lemma enter_fields [simp]:
  "network_bit (snd (enter_exclusive mode w)) = network_bit w" "miniSocEnabled (snd (enter_exclusive mode w)) = miniSocEnabled w"
  "miniSocRefCount (snd (enter_exclusive mode w)) = miniSocRefCount w"
  "autobootTwlTitleId (snd (enter_exclusive mode w)) = autobootTwlTitleId w"
  "s_bitCleared (snd (enter_exclusive mode w)) = s_bitCleared w" "s_yieldActive (snd (enter_exclusive mode w)) = s_yieldActive w"
  "s_yieldGeneration (snd (enter_exclusive mode w)) = s_yieldGeneration w"
  "network_bit (snd (enter_after_wait b w)) = network_bit w" "miniSocEnabled (snd (enter_after_wait b w)) = miniSocEnabled w"
  "miniSocRefCount (snd (enter_after_wait b w)) = miniSocRefCount w"
  "autobootTwlTitleId (snd (enter_after_wait b w)) = autobootTwlTitleId w"
  "s_bitCleared (snd (enter_after_wait b w)) = s_bitCleared w" "s_yieldActive (snd (enter_after_wait b w)) = s_yieldActive w"
  "s_yieldGeneration (snd (enter_after_wait b w)) = s_yieldGeneration w"
  "network_bit (snd (leave_exclusive w)) = network_bit w" "miniSocEnabled (snd (leave_exclusive w)) = miniSocEnabled w"
  "miniSocRefCount (snd (leave_exclusive w)) = miniSocRefCount w"
  "autobootTwlTitleId (snd (leave_exclusive w)) = autobootTwlTitleId w"
  "s_bitCleared (snd (leave_exclusive w)) = s_bitCleared w" "s_yieldActive (snd (leave_exclusive w)) = s_yieldActive w"
  "s_yieldGeneration (snd (leave_exclusive w)) = s_yieldGeneration w"
  by (simp_all add: enter_exclusive_def enter_after_wait_def leave_exclusive_def ndmuYieldStateSetBits_def
      ndmuYieldStateClearBits_def network_bit_def)

lemma block_ok_step:
  assumes "block_ok w" and "shutdown_works oper"
  shows "block_ok (radio_step oper w)"
proof (cases oper)
  case (Process i)
  then show ?thesis using block_ok_process [OF assms(1)] by simp
next
  case (App_exit a)
  then show ?thesis using assms(1) by (simp add: block_ok_def ndmYieldOnAppExit_def doRestore_def Let_def)
next
  case (Soc_init steps a)
  then show ?thesis using block_ok_init [OF assms(1)] by simp
next
  case (Soc_exit ret a)
  then show ?thesis using block_ok_exit [OF assms(1)] assms(2) by (simp add: shutdown_works_def)
next
  case (Safe_exit ret a)
  then show ?thesis using block_ok_safe_exit [OF assms(1)] assms(2) by (simp add: shutdown_works_def)
qed (use assms(1) in \<open>simp_all add: block_ok_def\<close>)

lemma block_ok_run: "block_ok w \<Longrightarrow> list_all shutdown_works ops \<Longrightarrow> block_ok (fold radio_step ops w)"
  by (induction ops arbitrary: w) (simp_all add: block_ok_step)

text \<open>As long as bit 4 of the title to start on boot is clear and the service answers every shutdown without an
  error, the kernel blocks the games' requests exactly while somebody holds the network, in every
  interleaving. That includes the loans, in which the code means to lift the block: see the last section.\<close>

lemma block_follows_network:
  assumes "title AND 0x10 = 0" and "list_all shutdown_works ops"
  shows "let w = fold radio_step ops (radio_start title) in
    network_bit w = miniSocEnabled w \<and> miniSocEnabled w = (miniSocRefCount w > 0)"
proof -
  have "block_ok (radio_start title)" using assms(1) by (simp add: block_ok_def radio_start_def network_bit_def)
  from block_ok_run [OF this assms(2)] show ?thesis by (simp add: block_ok_def Let_def)
qed

definition demo_answers :: ndm_answers where
  "demo_answers = \<lparr>isServiceUsable = True, NDMU_EnterExclusiveState = 0, NDMU_LockState = 0, NDMU_UnlockState = 0,
     NDMU_LeaveExclusiveState = 0\<rparr>"

definition demo_inputs :: "u64 \<Rightarrow> yield_inputs" where
  "demo_inputs t = \<lparr>inputRedirectionEnabled = False, gdb_running = False, rpc_stopped = False, tick_event = t, tick_compare = t,
     tick_rearm = t, ndmProbeFree = True, ndm_calls = demo_answers\<rparr>"

section \<open>Stopping the client\<close>

text \<open>An operation that starts a loan.\<close>

definition starts_loan :: "radio_op \<Rightarrow> radio \<Rightarrow> bool" where
  "starts_loan oper w \<longleftrightarrow> \<not> s_yieldActive w \<and> s_yieldActive (radio_step oper w)"

fun loans :: "radio_op list \<Rightarrow> radio \<Rightarrow> nat" where
  "loans [] w = 0"
| "loans (oper # ops) w = (if starts_loan oper w then 1 else 0) + loans ops (radio_step oper w)"

lemma exit_fields [simp]:
  "s_yieldGeneration (miniSocExit ret a w) = s_yieldGeneration w" "s_yieldActive (miniSocExit ret a w) = s_yieldActive w"
  "s_yieldGeneration (snd (miniSocInit steps a w)) = s_yieldGeneration w" "s_yieldActive (snd (miniSocInit steps a w)) = s_yieldActive w"
  "s_yieldGeneration (ndmYieldSafeSocExit ret a w) = s_yieldGeneration w" "s_yieldActive (ndmYieldSafeSocExit ret a w) = s_yieldActive w"
  by (simp_all add: miniSocExit_def miniSocExitDirect_def miniSocInit_def ndmYieldSafeSocExit_def Let_def)

lemma restore_fields [simp]:
  "s_yieldGeneration (doRestore full a w) = s_yieldGeneration w" "\<not> s_yieldActive (doRestore full a w)"
  "s_yieldGeneration (doRelease a w) = s_yieldGeneration w + 1" "s_yieldActive (doRelease a w) = s_yieldActive w"
  by (simp_all add: doRestore_def doRelease_def Let_def)

lemma process_generation:
  "s_yieldGeneration (snd (ndmYieldProcess i w)) = s_yieldGeneration w + (if starts_loan (Process i) w then 1 else 0)"
  by (simp add: ndmYieldProcess_def starts_loan_def Let_def)

lemma step_generation: "s_yieldGeneration (radio_step oper w) = s_yieldGeneration w + (if starts_loan oper w then 1 else 0)"
proof (cases oper)
  case (Process i)
  then show ?thesis using process_generation by simp
qed (auto simp: starts_loan_def ndmYieldOnAppExit_def miniSocUnlockState_def Let_def)

lemma run_generation: "s_yieldGeneration (fold radio_step ops w) = s_yieldGeneration w + of_nat (loans ops w)"
  by (induction ops arbitrary: w) (simp_all add: step_generation)

lemma active_after_loan: "s_yieldActive (fold radio_step ops w) \<Longrightarrow> \<not> s_yieldActive w \<Longrightarrow> 0 < loans ops w"
  by (induction ops arbitrary: w) (auto simp: starts_loan_def)

text \<open>A client that asks again and again, each time with the generation of its last query; between two queries
  a list of operations runs.\<close>

fun polls :: "u32 \<Rightarrow> radio_op list list \<Rightarrow> radio \<Rightarrow> bool list" where
  "polls gen [] w = []"
| "polls gen (ops # rest) w =
     (let now = fold radio_step ops w; (exit, gen') = ndmYieldRpcShouldExit gen now
      in exit # polls gen' rest now)"

text \<open>The state when query \<open>n\<close> comes.\<close>

definition at_query :: "radio_op list list \<Rightarrow> nat \<Rightarrow> radio \<Rightarrow> radio" where
  "at_query opss n w = fold radio_step (concat (take n opss)) w"

lemma at_query_simps: "at_query opss 0 w = w" "at_query (ops # opss) (Suc n) w = at_query opss n (fold radio_step ops w)"
  by (simp_all add: at_query_def)

lemma query_answer:
  assumes "loans ops w < 2 ^ 32"
  shows "ndmYieldRpcShouldExit (s_yieldGeneration w) (fold radio_step ops w) =
    (s_yieldActive (fold radio_step ops w) \<or> loans ops w > 0, s_yieldGeneration (fold radio_step ops w))"
proof -
  have "(of_nat (loans ops w) :: u32) = 0 \<longleftrightarrow> loans ops w = 0"
    using assms by (simp add: word_unat_eq_iff unsigned_of_nat take_bit_eq_mod)
  then show ?thesis by (simp add: ndmYieldRpcShouldExit_def run_generation)
qed

text \<open>C29: a client that takes the generation when it starts and asks again and again is told to stop by a query
  exactly if the radio is lent at that moment or a loan has begun since its last query (since the start for
  the first), even when that loan is over again, from every state, active loan or not, and however the
  operations interleave; between two queries there are fewer than 2 to the 32 loans.\<close>

theorem every_loan_stops_client:
  assumes "\<forall>n < length opss. loans (opss ! n) (at_query opss n w) < 2 ^ 32"
  shows "polls (ndmYieldGetGeneration w) opss w =
    map (\<lambda>n. s_yieldActive (at_query opss (n + 1) w) \<or> loans (opss ! n) (at_query opss n w) > 0) [0..<length opss]"
  using assms
proof (induction opss arbitrary: w)
  case (Cons ops opss)
  let ?now = "fold radio_step ops w"
  have "loans ops w < 2 ^ 32" using Cons.prems by (force simp: at_query_simps)
  note q = query_answer [OF this]
  have "\<forall>n < length opss. loans (opss ! n) (at_query opss n ?now) < 2 ^ 32"
    using Cons.prems by (force simp: at_query_simps)
  note IH = Cons.IH [OF this]
  show ?case
    by (simp add: q IH [unfolded ndmYieldGetGeneration_def] ndmYieldGetGeneration_def at_query_simps map_upt_Suc Let_def
        del: upt_Suc)
qed simp

text \<open>Before, in and after a loan: the client is told to stop by the first two queries.\<close>

lemmas loan_run_defs = radio_start_def miniSocInit_def enter_exclusive_def network_bit_def kernel_toggle_def
  ndmYieldProcess_def ndmYieldOnAppExit_def doRelease_def doRestore_def demo_inputs_def networkOwnedByOthers_def
  ndmuYieldStateSetBits_def ndmuYieldStateClearBits_def ndmuYieldStateReset_def miniSocLockState_def
  miniSocUnlockState_def demo_answers_def res_failed_def kernel_handshake_def NDMU_BIT_ASK_def NDMU_BIT_ACK_def
  NDMU_BIT_LEAVE_def ticksMs_def YIELD_WATCHDOG_MS_def YIELD_START_GRACE_MS_def LEAVE_GRACE_MS_def Let_def

definition demo_polls :: "radio_op list list" where
  "demo_polls = [[Soc_init [] demo_answers, Enter 2, Process (demo_inputs 7)], [Process (demo_inputs 7)], [App_exit demo_answers]]"

theorem every_loan_stops_client_witness:
  "polls 0 demo_polls (radio_start 0) = [True, True, False]"
proof -
  have g: "ndmYieldGetGeneration (radio_start 0) = 0" by (simp add: radio_start_def ndmYieldGetGeneration_def)
  have l: "length demo_polls = 3" by (simp add: demo_polls_def)
  let ?w1 = "fold radio_step (demo_polls ! 0) (radio_start 0)" and ?w2 = "fold radio_step (demo_polls ! 0 @ demo_polls ! 1) (radio_start 0)"
  have n: "loans (demo_polls ! 0) (radio_start 0) = 1" "loans (demo_polls ! 1) ?w1 = 0" "loans (demo_polls ! 2) ?w2 = 0"
    by (simp_all add: demo_polls_def starts_loan_def loan_run_defs)
  have a: "s_yieldActive ?w1" "s_yieldActive ?w2" "\<not> s_yieldActive (fold radio_step (demo_polls ! 2) ?w2)"
    by (simp_all add: demo_polls_def loan_run_defs)
  have q: "at_query demo_polls 0 (radio_start 0) = radio_start 0" "at_query demo_polls 1 (radio_start 0) = ?w1"
    "at_query demo_polls 2 (radio_start 0) = ?w2" "at_query demo_polls 3 (radio_start 0) = fold radio_step (demo_polls ! 2) ?w2"
    by (simp_all add: at_query_def demo_polls_def numeral_eq_Suc del: radio_step.simps)
  have "\<forall>n < length demo_polls. loans (demo_polls ! n) (at_query demo_polls n (radio_start 0)) < 2 ^ 32"
  proof (intro allI impI)
    fix n
    assume "n < length demo_polls"
    then consider "n = 0" | "n = 1" | "n = 2" unfolding l by linarith
    then show "loans (demo_polls ! n) (at_query demo_polls n (radio_start 0)) < 2 ^ 32"
      using n q by cases simp_all
  qed
  note P = every_loan_stops_client [OF this]
  have "[0..<3] = [0, 1, 2 :: nat]" by (simp add: upt_conv_Cons)
  with P show ?thesis using n q a by (simp add: g l numeral_2_eq_2 numeral_3_eq_3)
qed

section \<open>The handshake\<close>

text \<open>What the waiting game sees: the state before the turn of the main loop for \<open>j\<close> looks, then the one after.\<close>

lemma wait_before:
  assumes "\<forall>n < j. seen n AND NDMU_BIT_ACK = 0 \<and> seen n AND NDMU_BIT_ASK \<noteq> 0" and "j \<le> 100"
  shows "n \<le> j \<Longrightarrow> wait_for_ack seen n = wait_for_ack seen j"
proof (induction "j - n" arbitrary: n)
  case (Suc m)
  then have "n < j" by simp
  then have "wait_for_ack seen n = wait_for_ack seen (n + 1)"
    using assms by (subst wait_for_ack.simps) auto
  then show ?case using Suc.hyps(1) [of "n + 1"] Suc.hyps(2) \<open>n < j\<close> by simp
qed simp

lemma ask_bits:
  "(x AND NOT NDMU_BIT_ACK OR NDMU_BIT_ASK) AND NDMU_BIT_ASK \<noteq> 0" "(x AND NOT NDMU_BIT_ACK OR NDMU_BIT_ASK) AND NDMU_BIT_ACK = 0"
  "(x OR NDMU_BIT_ACK) AND NDMU_BIT_ACK \<noteq> 0" "(x AND NOT NDMU_BIT_ASK) AND NDMU_BIT_ASK = 0"
  "((x AND NOT NDMU_BIT_ACK OR NDMU_BIT_ASK) AND NOT NDMU_BIT_ASK) AND NDMU_BIT_ACK = 0"
proof -
  have a: "y AND NDMU_BIT_ASK = 0 \<longleftrightarrow> \<not> bit y 0" for y using and_exp_eq_0_iff_not_bit [of y 0] by (simp add: NDMU_BIT_ASK_def)
  have k: "y AND NDMU_BIT_ACK = 0 \<longleftrightarrow> \<not> bit y 1" for y using and_exp_eq_0_iff_not_bit [of y 1] by (simp add: NDMU_BIT_ACK_def)
  have b: "bit NDMU_BIT_ASK 0" "\<not> bit NDMU_BIT_ASK 1" "bit NDMU_BIT_ACK 1" "\<not> bit NDMU_BIT_ACK 0"
    by (simp_all add: NDMU_BIT_ASK_def NDMU_BIT_ACK_def)
  show "(x AND NOT NDMU_BIT_ACK OR NDMU_BIT_ASK) AND NDMU_BIT_ASK \<noteq> 0" "(x AND NOT NDMU_BIT_ACK OR NDMU_BIT_ASK) AND NDMU_BIT_ACK = 0"
    "(x OR NDMU_BIT_ACK) AND NDMU_BIT_ACK \<noteq> 0" "(x AND NOT NDMU_BIT_ASK) AND NDMU_BIT_ASK = 0"
    "((x AND NOT NDMU_BIT_ACK OR NDMU_BIT_ASK) AND NOT NDMU_BIT_ASK) AND NDMU_BIT_ACK = 0"
    unfolding a k using b by (simp_all add: bit_or_iff bit_and_iff bit_not_iff)
qed

lemma leave_bits:
  "x AND NDMU_BIT_ACK \<noteq> 0 \<Longrightarrow> (x OR NDMU_BIT_LEAVE) AND NDMU_BIT_ACK \<noteq> 0" "(x OR NDMU_BIT_LEAVE) AND NDMU_BIT_LEAVE \<noteq> 0"
proof -
  have k: "y AND NDMU_BIT_ACK = 0 \<longleftrightarrow> \<not> bit y 1" for y using and_exp_eq_0_iff_not_bit [of y 1] by (simp add: NDMU_BIT_ACK_def)
  have v: "y AND NDMU_BIT_LEAVE = 0 \<longleftrightarrow> \<not> bit y 2" for y using and_exp_eq_0_iff_not_bit [of y 2] by (simp add: NDMU_BIT_LEAVE_def)
  have "bit NDMU_BIT_LEAVE 2" by (simp add: NDMU_BIT_LEAVE_def)
  then show "x AND NDMU_BIT_ACK \<noteq> 0 \<Longrightarrow> (x OR NDMU_BIT_LEAVE) AND NDMU_BIT_ACK \<noteq> 0" "(x OR NDMU_BIT_LEAVE) AND NDMU_BIT_LEAVE \<noteq> 0"
    unfolding k v by (simp_all add: bit_or_iff)
qed

text \<open>C30: a game that asks for the radio while nothing is lent gets its answer from the first turn of the main
  loop that comes within a hundred looks: its request goes on to the service if nobody else of rosalina
  needs the network, and is answered with a made-up success if somebody does.\<close>

theorem request_is_answered:
  assumes "network_bit w" and "2 \<le> mode" and "\<not> s_yieldActive w" and "j \<le> 100"
    and "enter_exclusive mode w = (ans, w1)" and "ndmYieldProcess i w1 = (woken, w2)"
  shows "ans = Asks \<and> fst (enter_after_wait (ndmuWaitForAck (\<lambda>n. ndmuYieldState (if n < j then w1 else w2))) w2) =
    (if networkOwnedByOthers i then Faked else Passes)"
proof -
  have w1: "ans = Asks" "w1 = ndmuYieldStateSetBits NDMU_BIT_ASK (ndmuYieldStateClearBits NDMU_BIT_ACK w)"
    using assms(1,2,5) by (auto simp: enter_exclusive_def)
  have st: "ndmuYieldState w1 AND NDMU_BIT_ACK = 0" "ndmuYieldState w1 AND NDMU_BIT_ASK \<noteq> 0" "\<not> s_yieldActive w1"
    using ask_bits(1,2) assms(3) by (simp_all add: w1(2) ndmuYieldStateSetBits_def ndmuYieldStateClearBits_def)
  have w2: "ndmuYieldState w2 = (if networkOwnedByOthers i then ndmuYieldState w1 AND NOT NDMU_BIT_ASK
      else ndmuYieldState w1 OR NDMU_BIT_ACK)"
    using assms(6) st
    by (auto simp: ndmYieldProcess_def doRelease_def Let_def kernel_handshake_def ndmuYieldStateSetBits_def ndmuYieldStateClearBits_def
        split: if_splits)
  let ?seen = "\<lambda>n. ndmuYieldState (if n < j then w1 else w2)"
  have "ndmuWaitForAck ?seen = wait_for_ack ?seen j"
    unfolding ndmuWaitForAck_def by (rule wait_before) (use st assms(4) in auto)
  also have "\<dots> = (\<not> networkOwnedByOthers i)"
  proof (cases "networkOwnedByOthers i")
    case True
    have "ndmuYieldState w2 AND NDMU_BIT_ACK = 0"
      using True w2 ask_bits(5) [of "ndmuYieldState w"]
      by (simp add: w1(2) ndmuYieldStateSetBits_def ndmuYieldStateClearBits_def)
    moreover have "ndmuYieldState w2 AND NDMU_BIT_ASK = 0" using True w2 ask_bits(4) by simp
    ultimately show ?thesis using True by (subst wait_for_ack.simps) simp
  next
    case False
    then show ?thesis using w2 ask_bits(3) by (subst wait_for_ack.simps) simp
  qed
  finally show ?thesis using w1(1) by (simp add: enter_after_wait_def)
qed

definition demo_up :: radio where
  "demo_up = (radio_start 0)\<lparr>rosalinaState := 0x10, miniSocRefCount := 1, miniSocEnabled := True\<rparr>"

theorem request_is_answered_witness:
  "fst (enter_after_wait (ndmuWaitForAck (\<lambda>n. ndmuYieldState (if n < 5 then snd (enter_exclusive 2 demo_up)
       else snd (ndmYieldProcess (demo_inputs 7) (snd (enter_exclusive 2 demo_up))))))
     (snd (ndmYieldProcess (demo_inputs 7) (snd (enter_exclusive 2 demo_up))))) = Passes"
proof -
  obtain ans w1 where e: "enter_exclusive 2 demo_up = (ans, w1)" by force
  obtain woken w2 where p: "ndmYieldProcess (demo_inputs 7) w1 = (woken, w2)" by force
  have "network_bit demo_up" "\<not> s_yieldActive demo_up" "\<not> networkOwnedByOthers (demo_inputs 7)"
    by (simp_all add: demo_up_def radio_start_def network_bit_def networkOwnedByOthers_def demo_inputs_def)
  from request_is_answered [OF this(1) _ this(2) _ e p, of 5] this(3) show ?thesis by (simp add: e p cong: if_cong)
qed

section \<open>The end of a loan\<close>

text \<open>A turn of the main loop that comes too early changes nothing.\<close>

abbreviation turn :: "yield_inputs \<Rightarrow> radio \<Rightarrow> radio" where
  "turn i w \<equiv> snd (ndmYieldProcess i w)"

definition interval_ms :: "yield_mode \<Rightarrow> u64" where
  "interval_ms m = (if m = YM_LEAVE_GRACE then LEAVE_GRACE_MS else YIELD_START_GRACE_MS + YIELD_WATCHDOG_MS)"

definition settled :: "radio \<Rightarrow> bool" where
  "settled w \<longleftrightarrow> s_yieldActive w \<and> (ndmuYieldState w AND NDMU_BIT_LEAVE = 0 \<or> s_yieldMode w = YM_LEAVE_GRACE)"

lemma early_turn:
  assumes "settled w" and "tick_compare i - s_yieldLastEventTick w < ticksMs (interval_ms (s_yieldMode w))"
  shows "ndmYieldProcess i w = (False, w)"
  using assms by (auto simp: ndmYieldProcess_def settled_def interval_ms_def Let_def)

lemma early_turns:
  "settled w \<Longrightarrow> \<forall>i \<in> set turns. tick_compare i - s_yieldLastEventTick w < ticksMs (interval_ms (s_yieldMode w)) \<Longrightarrow>
   fold turn turns w = w"
  by (induction turns) (simp_all add: early_turn)

lemma ending_turn:
  assumes "settled w" and "ticksMs (interval_ms (s_yieldMode w)) \<le> tick_compare i - s_yieldLastEventTick w"
  shows "ndmYieldProcess i w =
    (if ndmProbeFree i then
       let w1 = doRestore True (ndm_calls i) w in (s_wasActive w, if s_wasActive w then w1\<lparr>s_wasActive := False\<rparr> else w1)
     else (False, w\<lparr>s_yieldLastEventTick := tick_rearm i\<rparr>))"
proof -
  have f: "s_wasActive (doRestore True (ndm_calls i) w) = s_wasActive w"
    by (simp add: doRestore_def kernel_handshake_def ndmuYieldStateReset_def miniSocLockState_def kernel_toggle_def Let_def)
  have a: "s_yieldActive w" using assms(1) by (simp add: settled_def)
  consider "s_yieldMode w = YM_LEAVE_GRACE" | "s_yieldMode w \<noteq> YM_LEAVE_GRACE" "ndmuYieldState w AND NDMU_BIT_LEAVE = 0"
    using assms(1) by (auto simp: settled_def)
  then show ?thesis
    by cases (use assms(2) a f in \<open>simp_all add: ndmYieldProcess_def interval_ms_def Let_def\<close>)
qed

text \<open>The first turn after a leave notes it.\<close>

lemma noting_turn:
  assumes "s_yieldActive w" and "ndmuYieldState w AND NDMU_BIT_LEAVE \<noteq> 0" and "s_yieldMode w = YM_RUNNING"
  shows "ndmYieldProcess i w = ndmYieldProcess i (w\<lparr>s_yieldMode := YM_LEAVE_GRACE, s_yieldLastEventTick := tick_event i\<rparr>)"
  using assms by (simp add: ndmYieldProcess_def)

lemma restored_fields:
  "s_yieldActive (doRestore True a w) = False" "ndmuYieldState (doRestore True a w) = 0"
  "exclusiveStateEntered (doRestore True a w) = exclusiveStateEntered (miniSocLockState a w)"
  by (simp_all add: doRestore_def kernel_handshake_def ndmuYieldStateReset_def miniSocLockState_def kernel_toggle_def Let_def)

text \<open>C28: the end of a loan whose request was acknowledged, for which rosalina has given up its exclusive state and
  that the game has not left yet, over any sequence of turns of the main loop. After the game's leave the lending waits three seconds from the first turn that sees it; without a leave, fifteen
  seconds from the start. Until then every turn leaves the loan alone. The first turn behind the limit at
  which the service answers that it is free ends it: the handshake is reset, rosalina holds its exclusive
  state again if the service grants it, and the event that restarts the client is signalled exactly if
  the client was running when the loan began. If the service is not free the loan goes on and the wait
  starts again.\<close>

theorem loan_is_taken_back:
  assumes "s_yieldActive w" and "s_yieldMode w = YM_RUNNING" and "\<not> exclusiveStateEntered w"
    and "ndmuYieldState w AND NDMU_BIT_ACK \<noteq> 0" and "ndmuYieldState w AND NDMU_BIT_LEAVE = 0"
    and "w1 = (if left then snd (leave_exclusive w) else w)"
    and "start = (if left then tick_event (hd (turns @ [i])) else s_yieldLastEventTick w)"
    and "\<forall>j \<in> set turns. tick_compare j - start < ticksMs (if left then 3000 else 15000)"
    and "ticksMs (if left then 3000 else 15000) \<le> tick_compare i - start"
    and "ndmYieldProcess i (fold (\<lambda>j w. snd (ndmYieldProcess j w)) turns w1) = (woken, w2)"
  shows "(\<forall>n \<le> length turns.
      let lent = fold (\<lambda>j w. snd (ndmYieldProcess j w)) (take n turns) w1
      in s_yieldActive lent \<and> ndmuYieldState lent AND NDMU_BIT_ACK \<noteq> 0 \<and> \<not> exclusiveStateEntered lent) \<and>
    (if ndmProbeFree i then
       \<not> s_yieldActive w2 \<and> ndmuYieldState w2 = 0 \<and> woken = s_wasActive w \<and>
       exclusiveStateEntered w2 = (isServiceUsable (ndm_calls i) \<and> \<not> res_failed (NDMU_EnterExclusiveState (ndm_calls i)) \<and>
         \<not> res_failed (NDMU_LockState (ndm_calls i)))
     else s_yieldActive w2 \<and> \<not> woken \<and> s_yieldLastEventTick w2 = tick_rearm i \<and> ndmuYieldState w2 = ndmuYieldState w1)"
proof -
  have w1: "s_yieldActive w1" "s_yieldMode w1 = YM_RUNNING" "\<not> exclusiveStateEntered w1" "s_wasActive w1 = s_wasActive w"
    "ndmuYieldState w1 AND NDMU_BIT_ACK \<noteq> 0" "(ndmuYieldState w1 AND NDMU_BIT_LEAVE \<noteq> 0) = left"
    "s_yieldLastEventTick w1 = s_yieldLastEventTick w"
    using assms(1-5) leave_bits unfolding assms(6) by (auto simp: leave_exclusive_def ndmuYieldStateSetBits_def)
  define v where "v = (if left then w1\<lparr>s_yieldMode := YM_LEAVE_GRACE, s_yieldLastEventTick := start\<rparr> else w1)"
  have v: "s_yieldActive v" "\<not> exclusiveStateEntered v" "s_wasActive v = s_wasActive w" "ndmuYieldState v = ndmuYieldState w1"
    "s_yieldLastEventTick v = start" "settled v" "interval_ms (s_yieldMode v) = (if left then 3000 else 15000)"
    using w1 assms(7) by (auto simp: v_def settled_def interval_ms_def LEAVE_GRACE_MS_def YIELD_START_GRACE_MS_def YIELD_WATCHDOG_MS_def)
  have first: "ndmYieldProcess (hd (turns @ [i])) w1 = ndmYieldProcess (hd (turns @ [i])) v"
    using noting_turn [of w1 "hd (turns @ [i])"] w1 by (simp add: v_def assms(7))
  have early: "fold turn (take n turns) v = v" for n
    using assms(8) v by (intro early_turns) (auto dest: in_set_takeD)
  have run: "fold turn (take n turns) w1 = (if n = 0 \<or> turns = [] then w1 else v)" for n
  proof (cases "n = 0 \<or> turns = []")
    case False
    then obtain j js m where j: "turns = j # js" "n = Suc m" by (cases turns; cases n) auto
    have "fold turn (take n turns) w1 = fold turn (take m js) (turn j w1)" by (simp add: j)
    also have "turn j w1 = turn j v" using first by (simp add: j)
    also have "fold turn (take m js) (turn j v) = fold turn (take n turns) v" by (simp add: j)
    finally show ?thesis using early False by simp
  qed auto
  have "ndmYieldProcess i (fold turn turns w1) = ndmYieldProcess i v"
    using run [of "length turns"] first by (cases turns) auto
  then have last: "ndmYieldProcess i v = (woken, w2)" using assms(10) by simp
  have lock: "exclusiveStateEntered (miniSocLockState (ndm_calls i) v) = (isServiceUsable (ndm_calls i) \<and>
      \<not> res_failed (NDMU_EnterExclusiveState (ndm_calls i)) \<and> \<not> res_failed (NDMU_LockState (ndm_calls i)))"
    using v(2) by (auto simp: miniSocLockState_def Let_def)
  have "ticksMs (interval_ms (s_yieldMode v)) \<le> tick_compare i - s_yieldLastEventTick v" using assms(9) v by simp
  note E = ending_turn [OF v(6) this, unfolded last]
  have "s_yieldActive lent \<and> ndmuYieldState lent AND NDMU_BIT_ACK \<noteq> 0 \<and> \<not> exclusiveStateEntered lent"
    if "lent = fold turn (take n turns) w1" for n lent
    using that run [of n] w1 v by auto
  moreover have "if ndmProbeFree i then
       \<not> s_yieldActive w2 \<and> ndmuYieldState w2 = 0 \<and> woken = s_wasActive w \<and>
       exclusiveStateEntered w2 = exclusiveStateEntered (miniSocLockState (ndm_calls i) v)
     else s_yieldActive w2 \<and> \<not> woken \<and> s_yieldLastEventTick w2 = tick_rearm i \<and> ndmuYieldState w2 = ndmuYieldState w1"
    using E v restored_fields by (auto simp: Let_def split: if_splits)
  ultimately show ?thesis unfolding lock Let_def by blast
qed

text \<open>A game asks, is acknowledged, leaves, and one turn sees the leave before the last one ends the loan.\<close>

definition demo_lent :: radio where
  "demo_lent = fold radio_step [Soc_init [] demo_answers, Enter 2, Process (demo_inputs 7)] (radio_start 0)"

theorem loan_is_taken_back_witness:
  "let end = ndmYieldProcess (demo_inputs (2 ^ 40)) (snd (ndmYieldProcess (demo_inputs 7) (snd (leave_exclusive demo_lent))))
   in fst end \<and> \<not> s_yieldActive (snd end) \<and> exclusiveStateEntered (snd end) \<and> ndmuYieldState (snd end) = 0"
proof -
  obtain woken w2 where e: "ndmYieldProcess (demo_inputs (2 ^ 40))
      (fold (\<lambda>j w. snd (ndmYieldProcess j w)) [demo_inputs 7] (snd (leave_exclusive demo_lent))) = (woken, w2)"
    by (rule prod.exhaust)
  have l: "s_yieldActive demo_lent" "s_yieldMode demo_lent = YM_RUNNING" "\<not> exclusiveStateEntered demo_lent"
    "ndmuYieldState demo_lent AND NDMU_BIT_ACK \<noteq> 0" "ndmuYieldState demo_lent AND NDMU_BIT_LEAVE = 0" "s_wasActive demo_lent"
    by (simp_all add: demo_lent_def loan_run_defs)
  have t: "7 = (if True then tick_event (hd ([demo_inputs 7] @ [demo_inputs (2 ^ 40)])) else s_yieldLastEventTick demo_lent)"
    "\<forall>j \<in> set [demo_inputs 7]. tick_compare j - 7 < ticksMs (if True then 3000 else 15000)"
    "ticksMs (if True then 3000 else 15000) \<le> tick_compare (demo_inputs (2 ^ 40)) - 7"
    by (simp_all add: demo_inputs_def ticksMs_def)
  have "snd (leave_exclusive demo_lent) = (if True then snd (leave_exclusive demo_lent) else demo_lent)" by simp
  from loan_is_taken_back [OF l(1-5) this t e] have "woken" "\<not> s_yieldActive w2" "exclusiveStateEntered w2" "ndmuYieldState w2 = 0"
    using l(6) by (simp_all add: demo_inputs_def demo_answers_def res_failed_def)
  then show ?thesis using e by (simp add: Let_def)
qed

section \<open>Where the block fails\<close>

text \<open>The lending is to lift the block so that the requests of the game reach the service. The query for
  the bit is answered with the title to start on boot, so the block stays while bit 4 of that title is
  clear; a second request then withdraws the acknowledgement, nobody answers it, and the game's leave
  is swallowed, so that the service never becomes free.\<close>

lemma lending_keeps_block:
  "block_ok w \<Longrightarrow> network_bit (snd (ndmYieldProcess i w)) = network_bit w"
  by (auto simp: block_ok_def ndmYieldProcess_def doRelease_def doRestore_def Let_def)

lemma second_request_withdraws:
  assumes "network_bit w" and "2 \<le> mode" and "s_yieldActive w" and "enter_exclusive mode w = (ans, w1)"
    and "ndmYieldProcess i w1 = (woken, w2)" and "s_yieldActive w2"
  shows "ndmuYieldState w2 = ndmuYieldState w1 \<and> ndmuYieldState w2 AND NDMU_BIT_ACK = 0"
proof -
  have w1: "w1 = ndmuYieldStateSetBits NDMU_BIT_ASK (ndmuYieldStateClearBits NDMU_BIT_ACK w)"
    using assms(1,2,4) by (auto simp: enter_exclusive_def)
  then have a: "s_yieldActive w1" using assms(3) by (simp add: ndmuYieldStateSetBits_def ndmuYieldStateClearBits_def)
  have "ndmuYieldState w2 = ndmuYieldState w1"
    using assms(5,6) a by (auto simp: ndmYieldProcess_def Let_def split: if_splits)
  then show ?thesis using ask_bits(2) by (simp add: w1 ndmuYieldStateSetBits_def ndmuYieldStateClearBits_def)
qed

lemma leave_is_swallowed:
  "network_bit w \<Longrightarrow> ndmuYieldState w AND NDMU_BIT_ACK = 0 \<Longrightarrow> leave_exclusive w = (Faked, w)"
  by (simp add: leave_exclusive_def)

text \<open>With bit 4 set in that title the lending lifts the block and never restores it: the network is up
  and the games' requests are not held.\<close>

lemma restored_without_block:
  "let w = fold radio_step [Soc_init [] demo_answers, Enter 2, Process (demo_inputs 0), Process (demo_inputs (2 ^ 40))] (radio_start 0x10)
   in miniSocEnabled w \<and> \<not> s_yieldActive w \<and> \<not> network_bit w"
  by (simp add: loan_run_defs)

end
