(* ===== verification/Discord_Rpc.thy ===== *)
theory Discord_Rpc
  imports Prelude
begin

text \<open>
  The thread of the Presence client (\<open>discord/discord_rpc_main.c\<close>) with the watch of the network
  (\<open>discord/net_watch.c\<close>): waiting for a network, logging in, the loop of activity updates, the
  reconnection after an error and the way out.

  What the thread calls is an environment over the state of the rest of the system; reading a
  variable that other threads write is such a call. The requests are those of \<open>discord_session.c\<close>; here
  their results matter. The thread keeps what it calls in a list, the last call first. A loop that may run
  for ever takes fuel, and a run whose fuel is used up is \<open>Running\<close> with what the thread has done so far, so
  that the runs of all fuels are the beginnings of a run that never ends. Log lines and sleeping are left
  out.
\<close>

section \<open>State and environment\<close>

datatype DiscordState = DISCORD_STOPPED | DISCORD_LOGIN | DISCORD_VERIFY | DISCORD_ACTIVE | DISCORD_ERROR

datatype rpc_call =
    Called_soc_init bool
  | Called_soc_exit
  | Called_login int
  | Called_verify bool
  | Called_update int
  | Called_heartbeat int
  | Called_logout

record rpc =
  g_discord_state :: DiscordState
  g_discord_status :: string
  session_active :: bool
  calls :: "rpc_call list"

record 'n rpc_env =
  shouldStop :: "'n \<Rightarrow> bool \<times> 'n"
  yieldWantsExit :: "'n \<Rightarrow> bool \<times> 'n"
  yieldIsActive :: "'n \<Rightarrow> bool \<times> 'n"
  acInit :: "'n \<Rightarrow> bool \<times> 'n"
  wifiStatus :: "'n \<Rightarrow> u32 option \<times> 'n"
  acStatus :: "'n \<Rightarrow> u32 option \<times> 'n"
  acExit :: "'n \<Rightarrow> 'n"
  connectAsync :: "'n \<Rightarrow> bool \<times> 'n"
  waitConnect :: "'n \<Rightarrow> bool \<times> 'n"
  waitNetwork :: "'n \<Rightarrow> bool \<times> 'n"
  miniSocInit_ok :: "'n \<Rightarrow> bool \<times> 'n"
  probeSocket :: "'n \<Rightarrow> bool \<times> 'n"
  safeSocExit :: "'n \<Rightarrow> 'n"
  login :: "'n \<Rightarrow> int \<times> 'n"
  verify :: "'n \<Rightarrow> bool \<times> 'n"
  activity_tick :: "'n \<Rightarrow> int \<times> bytes \<times> 'n"
  hide_home :: "'n \<Rightarrow> bool"
  sha :: "bytes \<Rightarrow> bytes"
  is_home :: "bytes \<Rightarrow> bool"
  activity_update :: "'n \<Rightarrow> bytes \<Rightarrow> int \<times> 'n"
  activity_heartbeat :: "'n \<Rightarrow> int \<times> 'n"
  currentApp_ok :: "'n \<Rightarrow> bool \<times> 'n"
  drop_page :: "'n \<Rightarrow> 'n"
  logout :: "'n \<Rightarrow> 'n"

definition set_state :: "DiscordState \<Rightarrow> string \<Rightarrow> rpc \<Rightarrow> rpc" where
  "set_state st status s = s\<lparr>g_discord_state := st, g_discord_status := take 63 status\<rparr>"

definition called :: "rpc_call \<Rightarrow> rpc \<Rightarrow> rpc" where
  "called c s = s\<lparr>calls := c # calls s\<rparr>"

section \<open>The network\<close>

definition netWatchIsOnline :: "'n rpc_env \<Rightarrow> 'n \<Rightarrow> bool \<times> 'n" where
  "netWatchIsOnline e n =
     (let (ok, n) = acInit e n
      in if \<not> ok then (False, n)
         else let (wifi, n) = wifiStatus e n;
                  online = (case wifi of None \<Rightarrow> False | Some w \<Rightarrow> w \<noteq> 0);
                  (online, n) = (if online then (let (st, n) = acStatus e n in (case st of None \<Rightarrow> False | Some v \<Rightarrow> v \<noteq> 1, n))
                                 else (False, n))
              in (online, acExit e n))"

definition netWatchKick :: "'n rpc_env \<Rightarrow> 'n \<Rightarrow> bool \<times> 'n" where
  "netWatchKick e n =
     (let (online, n) = netWatchIsOnline e n
      in if online then (True, n)
         else let (ok, n) = acInit e n
              in if \<not> ok then (False, n)
                 else let (started, n) = connectAsync e n;
                          (connected, n) =
                            (if started then (let (event, n) = waitConnect e n
                                              in if event then netWatchIsOnline e n else (False, n))
                             else (False, n))
                      in (connected, acExit e n))"

definition stop_or_yield :: "'n rpc_env \<Rightarrow> 'n \<Rightarrow> bool \<times> 'n" where
  "stop_or_yield e n = (let (stop, n) = shouldStop e n in if stop then (True, n) else yieldWantsExit e n)"

text \<open>A run of a loop: it is over with a result, or the fuel is used up.\<close>

datatype 'a thread_run = Done 'a | Running rpc

fun and_then :: "'a thread_run \<Rightarrow> ('a \<Rightarrow> 'b thread_run) \<Rightarrow> 'b thread_run" where
  "and_then (Done x) g = g x"
| "and_then (Running s) g = Running s"

text \<open>\<open>waitNetwork\<close>: whether the wait ended with the stop event.\<close>

fun wait_loop :: "nat \<Rightarrow> 'n rpc_env \<Rightarrow> rpc \<Rightarrow> 'n \<Rightarrow> (bool \<times> rpc \<times> 'n) thread_run" where
  "wait_loop 0 e s n = Running s"
| "wait_loop (Suc f) e s n =
     (let (stopped, n) = waitNetwork e n
      in if stopped then Done (False, s, n)
         else let (leave, n) = stop_or_yield e n
              in if leave then Done (False, s, n)
                 else let (online, n) = netWatchIsOnline e n
                      in if online then Done (True, s, n) else wait_loop f e s n)"

definition wait_network_ready :: "nat \<Rightarrow> 'n rpc_env \<Rightarrow> rpc \<Rightarrow> 'n \<Rightarrow> (bool \<times> rpc \<times> 'n) thread_run" where
  "wait_network_ready f e s n =
     (let (leave, n) = stop_or_yield e n
      in if leave then Done (False, s, n)
         else let (online, n) = netWatchIsOnline e n
              in if online then Done (True, s, n)
                 else let (y, n) = yieldWantsExit e n;
                          (kicked, n) = (if \<not> y then netWatchKick e n else (False, n))
                      in if kicked then Done (True, s, n)
                         else wait_loop f e (set_state DISCORD_LOGIN ''Waiting WiFi...'' s) n)"

definition network_init :: "'n rpc_env \<Rightarrow> rpc \<Rightarrow> 'n \<Rightarrow> bool \<times> rpc \<times> 'n" where
  "network_init e s n =
     (let (ok, n) = miniSocInit_ok e n; s = called (Called_soc_init ok) s
      in if \<not> ok then (False, set_state DISCORD_ERROR ''Network init failed'' s, n)
         else let (ok, n) = probeSocket e n
              in if \<not> ok then (False, set_state DISCORD_ERROR ''Socket failed'' s, n) else (True, s, n))"

section \<open>Login\<close>

datatype SessionResult = SESSION_OK | SESSION_REFUSED | SESSION_FAILED | SESSION_STOPPED

text \<open>The attempts that are left.\<close>

fun login_loop :: "nat \<Rightarrow> 'n rpc_env \<Rightarrow> rpc \<Rightarrow> 'n \<Rightarrow> SessionResult \<times> rpc \<times> 'n" where
  "login_loop 0 e s n = (SESSION_STOPPED, s, n)"
| "login_loop (Suc left) e s n =
     (let (stop, n) = shouldStop e n
      in if stop then (SESSION_STOPPED, s, n)
         else let (res, n) = login e n; s = called (Called_login res) s
              in if res = 1 then (SESSION_REFUSED, set_state DISCORD_ERROR ''Login refused'' s, n)
                 else if res \<noteq> 0 then
                   (if left = 0 then (SESSION_FAILED, set_state DISCORD_ERROR ''Login failed'' s, n)
                    else login_loop left e (set_state DISCORD_LOGIN ''Reconnecting...'' s) n)
                 else let s = set_state DISCORD_VERIFY ''Verifying...'' s;
                          (ok, n) = verify e n; s = called (Called_verify ok) s
                      in if ok then (SESSION_OK, s\<lparr>session_active := True\<rparr>, n)
                         else if left = 0 then (SESSION_FAILED, set_state DISCORD_ERROR ''Verify failed'' s, n)
                         else login_loop left e (set_state DISCORD_LOGIN ''Reconnecting...'' s) n)"

definition login_session :: "bool \<Rightarrow> 'n rpc_env \<Rightarrow> rpc \<Rightarrow> 'n \<Rightarrow> SessionResult \<times> rpc \<times> 'n" where
  "login_session reconnecting e s n =
     login_loop (if reconnecting then 3 else 1) e
       (set_state DISCORD_LOGIN (if reconnecting then ''Reconnecting...'' else ''Logging in...'') s) n"

section \<open>Activity\<close>

datatype ActivityResult = ACTIVITY_OK | ACTIVITY_YIELD_EXIT | ACTIVITY_NETWORK_LOST

text \<open>The pause of ten seconds from turn \<open>i\<close> on; whether the radio was lent.\<close>

function pause_loop :: "nat \<Rightarrow> 'n rpc_env \<Rightarrow> 'n \<Rightarrow> bool \<times> 'n" where
  "pause_loop i e n =
     (if i < 100 then
        let (stop, n) = shouldStop e n
        in if stop then (False, n)
           else let (y, n) = yieldWantsExit e n
                in if y then (True, n)
                   else let n = (if i mod 10 = 0 then (let (ok, n) = currentApp_ok e n in if ok then n else drop_page e n) else n)
                        in pause_loop (i + 1) e n
      else (False, n))"
  by pat_completeness auto
termination by (relation "measure (\<lambda>(i, e, n). 100 - i)") auto

declare pause_loop.simps [simp del]

text \<open>One push: the result of the update or the heartbeat and the hash of what was sent last.\<close>

definition push_activity :: "'n rpc_env \<Rightarrow> bytes \<Rightarrow> rpc \<Rightarrow> 'n \<Rightarrow> int \<times> bytes \<times> rpc \<times> 'n" where
  "push_activity e prev_hash s n =
     (let (r, text, n) = activity_tick e n
      in if r \<noteq> 0 then (2, prev_hash, s, n)
         else let current_hash = sha e text
              in if current_hash \<noteq> prev_hash then
                   let text = (if hide_home e n \<and> is_home e text then [] else text);
                       (ret, n) = activity_update e n text
                   in (ret, current_hash, called (Called_update ret) s, n)
                 else let (ret, n) = activity_heartbeat e n
                      in (ret, prev_hash, called (Called_heartbeat ret) s, n))"

definition after_push :: "int \<Rightarrow> rpc \<Rightarrow> rpc" where
  "after_push ret s =
     (if ret = 0 then s
      else if ret = 1 then (set_state DISCORD_ERROR ''Session expired'' s)\<lparr>session_active := False\<rparr>
      else if ret = 2 then set_state DISCORD_ERROR ''Network error'' s
      else set_state DISCORD_ERROR ''Activity update failed'' s)"

fun activity_loop :: "nat \<Rightarrow> 'n rpc_env \<Rightarrow> bytes \<Rightarrow> rpc \<Rightarrow> 'n \<Rightarrow> (ActivityResult \<times> rpc \<times> 'n) thread_run" where
  "activity_loop 0 e prev_hash s n = Running s"
| "activity_loop (Suc f) e prev_hash s n =
     (let (stop, n) = shouldStop e n
      in if stop then Done (ACTIVITY_OK, s, n)
         else let (ret, prev_hash, s, n) = push_activity e prev_hash s n; s = after_push ret s
              in if ret \<noteq> 0 then Done (ACTIVITY_NETWORK_LOST, s, n)
                 else let (lent, n) = pause_loop 0 e n
                      in if lent then Done (ACTIVITY_YIELD_EXIT, s, n) else activity_loop f e prev_hash s n)"

definition run_activity_loop :: "nat \<Rightarrow> 'n rpc_env \<Rightarrow> rpc \<Rightarrow> 'n \<Rightarrow> (ActivityResult \<times> rpc \<times> 'n) thread_run" where
  "run_activity_loop f e s n =
     activity_loop f e (replicate 32 0) (set_state DISCORD_ACTIVE ''Connected to Discord'' s) n"

section \<open>The thread\<close>

text \<open>The loop over connections. Its end is where the clean-up starts.\<close>

fun connection_loop :: "nat \<Rightarrow> 'n rpc_env \<Rightarrow> bool \<Rightarrow> rpc \<Rightarrow> 'n \<Rightarrow> (rpc \<times> 'n) thread_run" where
  "connection_loop 0 e reconnecting s n = Running s"
| "connection_loop (Suc f) e reconnecting s n =
     and_then (wait_network_ready f e s n) (\<lambda>(ready, s, n).
       if \<not> ready then Done (s\<lparr>session_active := False\<rparr>, n)
       else
         (case login_session reconnecting e s n of
            (SESSION_FAILED, s, n) \<Rightarrow> connection_loop f e True s (drop_page e n)
          | (SESSION_REFUSED, s, n) \<Rightarrow> Done (s, n)
          | (SESSION_STOPPED, s, n) \<Rightarrow> Done (s, n)
          | (SESSION_OK, s, n) \<Rightarrow>
              and_then (run_activity_loop f e s n) (\<lambda>(ares, s, n).
                case ares of
                  ACTIVITY_YIELD_EXIT \<Rightarrow> Done (s\<lparr>session_active := False\<rparr>, n)
                | ACTIVITY_NETWORK_LOST \<Rightarrow>
                    (let (y, n) = yieldWantsExit e n
                     in if y then Done (s\<lparr>session_active := False\<rparr>, n) else connection_loop f e True s (drop_page e n))
                | ACTIVITY_OK \<Rightarrow> Done (s, n))))"

definition cleanup :: "'n rpc_env \<Rightarrow> rpc \<Rightarrow> 'n \<Rightarrow> rpc \<times> 'n" where
  "cleanup e s n =
     (let n = drop_page e n;
          (s, n) = (if session_active s then
                      (let (y, n) = yieldIsActive e n in if \<not> y then (called Called_logout s, logout e n) else (s, n))
                    else (s, n));
          s = set_state DISCORD_STOPPED ''Stopped'' s
      in (called Called_soc_exit s, safeSocExit e n))"

definition DiscordRPC_ThreadMain :: "nat \<Rightarrow> 'n rpc_env \<Rightarrow> rpc \<Rightarrow> 'n \<Rightarrow> (rpc \<times> 'n) thread_run" where
  "DiscordRPC_ThreadMain f e s n =
     and_then (wait_network_ready f e (s\<lparr>session_active := False\<rparr>) n) (\<lambda>(ready, s, n).
       if \<not> ready then Done (set_state DISCORD_STOPPED ''Stopped'' s, n)
       else
         (case network_init e s n of
            (False, s, n) \<Rightarrow> Done (called Called_soc_exit s, safeSocExit e n)
          | (True, s, n) \<Rightarrow> and_then (connection_loop f e False s n) (\<lambda>(s, n). Done (cleanup e s n))))"

section \<open>Starting and stopping\<close>

text \<open>The variables the threads share; \<open>threads\<close> counts the client threads that are running.\<close>

record control =
  ctl_state :: DiscordState
  g_shouldStop :: bool
  g_stopSleep :: bool
  g_rpcStopping :: bool
  is_initialized :: bool
  ctl_counter :: u64
  config_ready :: bool
  prefs_ready :: bool
  threads :: nat

text \<open>What the calls answer.\<close>

record start_answers =
  config_loads :: bool
  prefs_load :: bool
  event_created :: bool
  thread_created :: bool

definition DiscordRPC_Start :: "start_answers \<Rightarrow> control \<Rightarrow> control" where
  "DiscordRPC_Start a c =
     (let c = (if \<not> config_ready c then c\<lparr>config_ready := config_loads a\<rparr> else c);
          c = (if \<not> prefs_ready c then c\<lparr>prefs_ready := prefs_load a\<rparr> else c)
      in if ctl_state c \<noteq> DISCORD_STOPPED \<or> \<not> config_ready c then c
         else let c = c\<lparr>g_shouldStop := False, g_rpcStopping := False, ctl_state := DISCORD_LOGIN\<rparr>
              in if \<not> event_created a then c\<lparr>ctl_state := DISCORD_STOPPED\<rparr>
                 else if \<not> thread_created a then c\<lparr>ctl_state := DISCORD_STOPPED\<rparr>
                 else c\<lparr>threads := threads c + 1\<rparr>)"

text \<open>\<open>joined\<close>: the thread ended within the ten seconds that the stop waits.\<close>

definition DiscordRPC_Stop :: "bool \<Rightarrow> bool \<Rightarrow> control \<Rightarrow> control" where
  "DiscordRPC_Stop sleep joined c =
     (if g_rpcStopping c then c
      else let c = c\<lparr>g_rpcStopping := True, g_shouldStop := True, g_stopSleep := sleep\<rparr>;
               c = (if joined then c\<lparr>threads := 0\<rparr> else c)
           in c\<lparr>ctl_state := DISCORD_STOPPED\<rparr>)"

definition DiscordRPC_Init :: "control \<Rightarrow> control" where
  "DiscordRPC_Init c =
     (if is_initialized c then c
      else c\<lparr>is_initialized := True, g_shouldStop := False, g_rpcStopping := False, ctl_counter := 0\<rparr>)"

text \<open>A stop that gives up on its thread shows the client as stopped, and the next start runs a second
  thread on the same stack.\<close>

lemma start_after_lost_stop:
  assumes "threads c = 1" and "\<not> g_rpcStopping c" and "config_ready c" and "event_created a" "thread_created a"
  shows "threads (DiscordRPC_Start a (DiscordRPC_Stop sleep False c)) = 2"
  using assms by (simp add: DiscordRPC_Start_def DiscordRPC_Stop_def Let_def)

text \<open>A thread that ends with a failure to take the network leaves its state, and no start is accepted.\<close>

lemma start_refused_after_error: "ctl_state c = DISCORD_ERROR \<Longrightarrow> threads (DiscordRPC_Start a c) = threads c"
  by (simp add: DiscordRPC_Start_def Let_def)

end
