(* ===== verification/Discord_Rpc_Claims.thy ===== *)
theory Discord_Rpc_Claims
  imports Discord_Rpc
begin

text \<open>
  What the thread of the client does to the server and to the network, as a language of calls: the
  calls of every run are accepted by the automaton \<open>next_phase\<close>, of a run that ends and of every
  beginning of one that does not; and a run ends once the stop flag is raised.
\<close>

datatype phase = Off | Up bool | Logged bool | Verified | Left | Closed | Bad

text \<open>\<open>Up a\<close>: on the network, \<open>a\<close> when a verified session may still be open on the server.\<close>

fun next_phase :: "phase \<Rightarrow> rpc_call \<Rightarrow> phase" where
  "next_phase Off (Called_soc_init ok) = (if ok then Up False else Left)"
| "next_phase (Up a) (Called_login r) = (if r = 0 then Logged a else Up a)"
| "next_phase Verified (Called_login r) = (if r = 0 then Logged True else Up True)"
| "next_phase (Logged a) (Called_verify ok) = (if ok then Verified else Up a)"
| "next_phase Verified (Called_update r) = (if r = 0 then Verified else Up (r \<noteq> 1))"
| "next_phase Verified (Called_heartbeat r) = (if r = 0 then Verified else Up (r \<noteq> 1))"
| "next_phase (Up True) Called_logout = Left"
| "next_phase Verified Called_logout = Left"
| "next_phase (Up a) Called_soc_exit = Closed"
| "next_phase Verified Called_soc_exit = Closed"
| "next_phase Left Called_soc_exit = Closed"
| "next_phase p c = Bad"

definition phase_of :: "rpc \<Rightarrow> phase" where
  "phase_of s = foldl next_phase Off (rev (calls s))"

lemma phase_called [simp]: "phase_of (called c s) = next_phase (phase_of s) c"
  by (simp add: phase_of_def called_def)

lemma phase_other [simp]: "phase_of (set_state st t s) = phase_of s" "phase_of (s\<lparr>session_active := b\<rparr>) = phase_of s"
  "session_active (set_state st t s) = session_active s" "session_active (called c s) = session_active s"
  "g_discord_state (set_state st t s) = st" "g_discord_state (called c s) = g_discord_state s"
  by (simp_all add: phase_of_def set_state_def called_def)

text \<open>On the network, and a session that is believed open may be open.\<close>

definition connected :: "rpc \<Rightarrow> bool" where
  "connected s \<longleftrightarrow> phase_of s = Verified \<or> (\<exists>a. phase_of s = Up a \<and> (session_active s \<longrightarrow> a))"

lemma connected_set_state [simp]: "connected (set_state st t s) = connected s"
  by (simp add: connected_def)

text \<open>What holds of the result of a run that is over and of the state of one that goes on.\<close>

definition run_sat :: "('a \<Rightarrow> bool) \<Rightarrow> (rpc \<Rightarrow> bool) \<Rightarrow> 'a thread_run \<Rightarrow> bool" where
  "run_sat P Q r \<longleftrightarrow> (case r of Done x \<Rightarrow> P x | Running s \<Rightarrow> Q s)"

lemma run_sat_simps [simp]: "run_sat P Q (Done x) = P x" "run_sat P Q (Running s) = Q s"
  by (simp_all add: run_sat_def)

lemma run_sat_and_then:
  assumes "run_sat P Q r" and "\<And>x. P x \<Longrightarrow> run_sat P' Q (g x)"
  shows "run_sat P' Q (and_then r g)"
  using assms by (cases r) simp_all

lemma run_sat_mono: "run_sat P Q r \<Longrightarrow> (\<And>x. P x \<Longrightarrow> P' x) \<Longrightarrow> (\<And>s. Q s \<Longrightarrow> Q' s) \<Longrightarrow> run_sat P' Q' r"
  by (cases r) simp_all

text \<open>The wait makes no call.\<close>

definition same_calls :: "rpc \<Rightarrow> rpc \<Rightarrow> bool" where
  "same_calls s t \<longleftrightarrow> calls t = calls s \<and> session_active t = session_active s"

lemma same_calls_phase: "same_calls s t \<Longrightarrow> phase_of t = phase_of s" "same_calls s t \<Longrightarrow> connected t = connected s"
  by (simp_all add: same_calls_def connected_def phase_of_def)

lemma wait_loop_calls: "run_sat (\<lambda>(r, t, n'). t = s) (\<lambda>t. t = s) (wait_loop f e s n)"
  by (induction f arbitrary: n) (auto simp: Let_def split: prod.split)

lemma wait_network_calls: "run_sat (\<lambda>(r, t, n'). same_calls s t) (same_calls s) (wait_network_ready f e s n)"
proof -
  have "run_sat (\<lambda>(r, t, n'). same_calls s t) (same_calls s) (wait_loop f e (set_state DISCORD_LOGIN t s) m)" for t m
    by (rule run_sat_mono [OF wait_loop_calls]) (auto simp: same_calls_def set_state_def)
  then show ?thesis by (auto simp: wait_network_ready_def same_calls_def Let_def split: prod.split)
qed

lemma login_loop_phase:
  assumes "connected s" and "login_loop left e s n = (res, s', n')"
  shows "(res = SESSION_OK \<longrightarrow> phase_of s' = Verified \<and> session_active s') \<and> (res \<noteq> SESSION_OK \<longrightarrow> connected s')"
  using assms
proof (induction left arbitrary: s n)
  case (Suc left)
  obtain stop n1 where st: "shouldStop e n = (stop, n1)" by force
  obtain r n2 where lg: "login e n1 = (r, n2)" by force
  obtain ok n3 where vf: "verify e n2 = (ok, n3)" by force
  note step = Suc.prems(2) [unfolded login_loop.simps Let_def st prod.case lg vf]
  have up: "connected (called (Called_login r) s)" if "r \<noteq> 0"
    using Suc.prems(1) that by (auto simp: connected_def)
  have vd: "connected (called (Called_verify False) (set_state DISCORD_VERIFY ''Verifying...'' (called (Called_login 0) s)))"
    "phase_of (called (Called_verify True) (set_state DISCORD_VERIFY ''Verifying...'' (called (Called_login 0) s))) = Verified"
    using Suc.prems(1) by (auto simp: connected_def)
  consider "stop" | "\<not> stop" "r = 1" | "\<not> stop" "r \<noteq> 1" "r \<noteq> 0" | "\<not> stop" "r = 0" by blast
  then show ?case
  proof cases
    case 1
    then show ?thesis using step Suc.prems(1) by auto
  next
    case 2
    then show ?thesis using step up by auto
  next
    case 3
    show ?thesis
    proof (cases "left = 0")
      case False
      have "login_loop left e (set_state DISCORD_LOGIN ''Reconnecting...'' (called (Called_login r) s)) n2 = (res, s', n')"
        using step 3 False by (simp add: Let_def)
      from Suc.IH [OF _ this] show ?thesis using up [OF 3(3)] by simp
    qed (use step 3 up in \<open>auto simp: Let_def\<close>)
  next
    case 4
    show ?thesis
    proof (cases "ok \<or> left = 0")
      case False
      have "login_loop left e (set_state DISCORD_LOGIN ''Reconnecting...''
          (called (Called_verify False) (set_state DISCORD_VERIFY ''Verifying...'' (called (Called_login 0) s)))) n3 = (res, s', n')"
        using step 4 False by (simp add: Let_def)
      from Suc.IH [OF _ this] show ?thesis using vd(1) by simp
    qed (use step 4 vd in \<open>cases ok; auto simp: Let_def\<close>)
  qed
qed simp

lemma push_phase:
  assumes "phase_of s = Verified" and "push_activity e h s n = (ret, h', s', n')"
  shows "phase_of s' = Verified \<or> (ret \<noteq> 0 \<and> phase_of s' = Up (ret \<noteq> 1))" "session_active s' = session_active s"
  using assms by (auto simp: push_activity_def Let_def split: prod.splits if_splits)

lemma after_push_phase [simp]: "phase_of (after_push ret s) = phase_of s"
  "session_active (after_push ret s) = (session_active s \<and> ret \<noteq> 1)"
  by (simp_all add: after_push_def)

lemma activity_loop_phase:
  "phase_of s = Verified \<Longrightarrow>
   run_sat (\<lambda>(res, s', n'). connected s') (\<lambda>s'. phase_of s' = Verified) (activity_loop f e h s n)"
proof (induction f arbitrary: h s n)
  case (Suc f)
  obtain stop n1 where st: "shouldStop e n = (stop, n1)" by force
  obtain ret h1 s1 n2 where p: "push_activity e h s n1 = (ret, h1, s1, n2)" by (rule prod_cases4)
  obtain lent n3 where l: "pause_loop 0 e n2 = (lent, n3)" by force
  note ph = push_phase [OF Suc.prems p]
  have c: "connected (after_push ret s1)" "connected s" using ph(1) Suc.prems by (auto simp: connected_def)
  have "ret = 0 \<Longrightarrow> phase_of (after_push ret s1) = Verified" using ph(1) by simp
  from Suc.IH [OF this] show ?case using c by (cases "ret = 0") (simp_all add: st p l Let_def)
qed simp

lemma connection_loop_phase:
  fixes e :: "'n rpc_env"
  shows "connected s \<Longrightarrow> run_sat (\<lambda>(s', n'). connected s') connected (connection_loop f e reconnecting s n)"
proof (induction f arbitrary: reconnecting s n)
  case (Suc f)
  have inactive: "connected t \<Longrightarrow> connected (t\<lparr>session_active := False\<rparr>)" for t by (auto simp: connected_def)
  have session: "run_sat (\<lambda>(s', n'). connected s') connected
     (and_then (run_activity_loop f e t m) (\<lambda>(ares, s, n).
                case ares of
                  ACTIVITY_YIELD_EXIT \<Rightarrow> Done (s\<lparr>session_active := False\<rparr>, n)
                | ACTIVITY_NETWORK_LOST \<Rightarrow>
                    (let (y, n) = yieldWantsExit e n
                     in if y then Done (s\<lparr>session_active := False\<rparr>, n) else connection_loop f e True s (drop_page e n))
                | ACTIVITY_OK \<Rightarrow> Done (s, n)))"
    if t: "phase_of t = Verified" for t m
  proof (rule run_sat_and_then)
    show "run_sat (\<lambda>(res, s', n'). connected s') connected (run_activity_loop f e t m)"
      unfolding run_activity_loop_def
      by (rule run_sat_mono [OF activity_loop_phase]) (use t in \<open>auto simp: connected_def\<close>)
  qed (auto simp: Let_def inactive intro: Suc.IH split: ActivityResult.split prod.split)
  show ?case unfolding connection_loop.simps
  proof (rule run_sat_and_then)
    show "run_sat (\<lambda>(r, t, n'). connected t) connected (wait_network_ready f e s n)"
      by (rule run_sat_mono [OF wait_network_calls]) (use Suc.prems same_calls_phase(2) in auto)
  next
    fix x :: "bool \<times> rpc \<times> 'n"
    assume "case x of (r, t, n') \<Rightarrow> connected t"
    then obtain ready s1 n1 where x: "x = (ready, s1, n1)" and c1: "connected s1" by (cases x) auto
    obtain res s2 n2 where lg: "login_session reconnecting e s1 n1 = (res, s2, n2)" by (rule prod_cases3)
    have ph: "(res = SESSION_OK \<longrightarrow> phase_of s2 = Verified \<and> session_active s2) \<and> (res \<noteq> SESSION_OK \<longrightarrow> connected s2)"
      by (rule login_loop_phase [OF _ lg [unfolded login_session_def]]) (use c1 in simp)
    then show "run_sat (\<lambda>(s', n'). connected s') connected
      ((\<lambda>(ready, s, n). if \<not> ready then Done (s\<lparr>session_active := False\<rparr>, n)
        else (case login_session reconnecting e s n of
            (SESSION_FAILED, s, n) \<Rightarrow> connection_loop f e True s (drop_page e n)
          | (SESSION_REFUSED, s, n) \<Rightarrow> Done (s, n)
          | (SESSION_STOPPED, s, n) \<Rightarrow> Done (s, n)
          | (SESSION_OK, s, n) \<Rightarrow>
              and_then (run_activity_loop f e s n) (\<lambda>(ares, s, n).
                case ares of
                  ACTIVITY_YIELD_EXIT \<Rightarrow> Done (s\<lparr>session_active := False\<rparr>, n)
                | ACTIVITY_NETWORK_LOST \<Rightarrow>
                    (let (y, n) = yieldWantsExit e n
                     in if y then Done (s\<lparr>session_active := False\<rparr>, n) else connection_loop f e True s (drop_page e n))
                | ACTIVITY_OK \<Rightarrow> Done (s, n)))) x)"
      using c1 inactive [OF c1] Suc.IH [of s2] session [of s2 n2] by (cases res) (simp_all add: x lg)
  qed
qed simp

lemma cleanup_phase:
  assumes "connected s"
  shows "phase_of (fst (cleanup e s n)) = Closed" "g_discord_state (fst (cleanup e s n)) = DISCORD_STOPPED"
proof -
  obtain y n1 where y: "yieldIsActive e (drop_page e n) = (y, n1)" by force
  show "phase_of (fst (cleanup e s n)) = Closed" "g_discord_state (fst (cleanup e s n)) = DISCORD_STOPPED"
    using assms y by (auto simp: cleanup_def connected_def Let_def)
qed

lemma network_init_cases:
  assumes "network_init e s n = (ok, s', n')" and "calls s = []"
  shows "length (calls s') = 1" "ok \<Longrightarrow> phase_of s' = Up False \<and> session_active s' = session_active s"
    and "\<not> ok \<Longrightarrow> phase_of s' \<in> {Up False, Left} \<and> g_discord_state s' = DISCORD_ERROR"
  using assms
  by (auto simp: network_init_def Let_def phase_of_def called_def set_state_def split: prod.splits if_splits)

text \<open>The run of the whole thread.\<close>

definition ordered_end :: "rpc \<Rightarrow> bool" where
  "ordered_end s \<longleftrightarrow> phase_of s = (if calls s = [] then Off else Closed) \<and>
     (g_discord_state s = DISCORD_STOPPED \<or> g_discord_state s = DISCORD_ERROR \<and> length (calls s) = 2)"

lemma thread_phase:
  fixes e :: "'n rpc_env"
  assumes "calls s = []"
  shows "run_sat (\<lambda>(s', n'). ordered_end s') (\<lambda>s'. calls s' = [] \<or> connected s') (DiscordRPC_ThreadMain f e s n)"
  unfolding DiscordRPC_ThreadMain_def
proof (rule run_sat_and_then)
  show "run_sat (\<lambda>(r, t, n'). calls t = [] \<and> \<not> session_active t) (\<lambda>s'. calls s' = [] \<or> connected s')
      (wait_network_ready f e (s\<lparr>session_active := False\<rparr>) n)"
    by (rule run_sat_mono [OF wait_network_calls]) (use assms in \<open>auto simp: same_calls_def\<close>)
next
  fix x :: "bool \<times> rpc \<times> 'n"
  assume "case x of (r, t, n') \<Rightarrow> calls t = [] \<and> \<not> session_active t"
  then obtain ready s1 n1 where x: "x = (ready, s1, n1)" and c1: "calls s1 = []" "\<not> session_active s1" by (cases x) auto
  obtain ok s2 n2 where ni: "network_init e s1 n1 = (ok, s2, n2)" by (rule prod_cases3)
  note i = network_init_cases [OF ni c1(1)]
  have unready: "ordered_end (set_state DISCORD_STOPPED ''Stopped'' s1)"
    using c1(1) by (simp add: ordered_end_def) (simp add: phase_of_def set_state_def)
  have down: "\<not> ok \<Longrightarrow> ordered_end (called Called_soc_exit s2)"
    using i(1,3) by (auto simp: ordered_end_def) (simp_all add: called_def)
  have up: "run_sat (\<lambda>(s', n'). ordered_end s') (\<lambda>s'. calls s' = [] \<or> connected s')
      (and_then (connection_loop f e False s2 n2) (\<lambda>(s, n). Done (cleanup e s n)))" if "ok"
  proof (rule run_sat_and_then)
    have "connected s2" using i(2) [OF that] c1(2) unfolding connected_def by blast
    then show "run_sat (\<lambda>(s', n'). connected s') (\<lambda>s'. calls s' = [] \<or> connected s') (connection_loop f e False s2 n2)"
      by (rule run_sat_mono [OF connection_loop_phase]) auto
  next
    fix y :: "rpc \<times> 'n"
    assume "case y of (s', n') \<Rightarrow> connected s'"
    then obtain s3 n3 where y: "y = (s3, n3)" "connected s3" by (cases y) auto
    have "calls (fst (cleanup e s3 n3)) \<noteq> []" by (simp add: cleanup_def called_def Let_def split: prod.split)
    then show "run_sat (\<lambda>(s', n'). ordered_end s') (\<lambda>s'. calls s' = [] \<or> connected s') ((\<lambda>(s, n). Done (cleanup e s n)) y)"
      using cleanup_phase [OF y(2), of e n3] by (cases "cleanup e s3 n3") (simp add: y(1) ordered_end_def)
  qed
  show "run_sat (\<lambda>(s', n'). ordered_end s') (\<lambda>s'. calls s' = [] \<or> connected s')
    ((\<lambda>(ready, s, n).
       if \<not> ready then Done (set_state DISCORD_STOPPED ''Stopped'' s, n)
       else
         (case network_init e s n of
            (False, s, n) \<Rightarrow> Done (called Called_soc_exit s, safeSocExit e n)
          | (True, s, n) \<Rightarrow> and_then (connection_loop f e False s n) (\<lambda>(s, n). Done (cleanup e s n)))) x)"
    using unready down up by (cases ok) (simp_all add: x ni)
qed

section \<open>The end of a run\<close>

text \<open>The stop flag is raised and stays: there is a clock that no call sets back, that advances between two
  looks at the flag, and from time \<open>T\<close> on the flag is seen.\<close>

definition stop_comes :: "'n rpc_env \<Rightarrow> ('n \<Rightarrow> nat) \<Rightarrow> nat \<Rightarrow> bool" where
  "stop_comes e clock T \<longleftrightarrow>
     (\<forall>n. T \<le> clock n \<longrightarrow> fst (shouldStop e n)) \<and>
     (\<forall>n. \<not> fst (shouldStop e n) \<longrightarrow> clock n < clock (snd (shouldStop e n))) \<and>
     (\<forall>n. clock n \<le> clock (snd (shouldStop e n)) \<and> clock n \<le> clock (snd (yieldWantsExit e n)) \<and>
       clock n \<le> clock (snd (acInit e n)) \<and> clock n \<le> clock (snd (wifiStatus e n)) \<and>
       clock n \<le> clock (snd (acStatus e n)) \<and> clock n \<le> clock (acExit e n) \<and>
       clock n \<le> clock (snd (connectAsync e n)) \<and> clock n \<le> clock (snd (waitConnect e n)) \<and>
       clock n \<le> clock (snd (waitNetwork e n)) \<and> clock n \<le> clock (snd (miniSocInit_ok e n)) \<and>
       clock n \<le> clock (snd (probeSocket e n)) \<and> clock n \<le> clock (snd (login e n)) \<and>
       clock n \<le> clock (snd (verify e n)) \<and> clock n \<le> clock (snd (snd (activity_tick e n))) \<and>
       (\<forall>t. clock n \<le> clock (snd (activity_update e n t))) \<and> clock n \<le> clock (snd (activity_heartbeat e n)) \<and>
       clock n \<le> clock (snd (currentApp_ok e n)) \<and> clock n \<le> clock (drop_page e n))"

text \<open>No part of the thread sets the clock back.\<close>

lemma clock_calls:
  assumes "stop_comes e clock T" and "a \<le> clock n"
  shows "a \<le> clock (snd (shouldStop e n))" "a \<le> clock (snd (yieldWantsExit e n))" "a \<le> clock (snd (acInit e n))"
    "a \<le> clock (snd (wifiStatus e n))" "a \<le> clock (snd (acStatus e n))" "a \<le> clock (acExit e n)"
    "a \<le> clock (snd (connectAsync e n))" "a \<le> clock (snd (waitConnect e n))" "a \<le> clock (snd (waitNetwork e n))"
    "a \<le> clock (snd (miniSocInit_ok e n))" "a \<le> clock (snd (probeSocket e n))" "a \<le> clock (snd (login e n))"
    "a \<le> clock (snd (verify e n))" "a \<le> clock (snd (snd (activity_tick e n)))" "a \<le> clock (snd (activity_update e n t))"
    "a \<le> clock (snd (activity_heartbeat e n))" "a \<le> clock (snd (currentApp_ok e n))" "a \<le> clock (drop_page e n)"
  using assms unfolding stop_comes_def by (meson order_trans)+

lemma clock_online:
  assumes sc: "stop_comes e clock T" and a: "a \<le> clock n"
  shows "a \<le> clock (snd (netWatchIsOnline e n))"
  using a by (auto simp: netWatchIsOnline_def Let_def split_beta intro!: clock_calls [OF sc])

lemma clock_kick:
  assumes sc: "stop_comes e clock T" and a: "a \<le> clock n"
  shows "a \<le> clock (snd (netWatchKick e n))"
  using a by (auto simp: netWatchKick_def Let_def split_beta intro!: clock_calls [OF sc] clock_online [OF sc])

lemma clock_stop_or_yield:
  assumes sc: "stop_comes e clock T" and a: "a \<le> clock n"
  shows "a \<le> clock (snd (stop_or_yield e n))"
  using a by (auto simp: stop_or_yield_def Let_def split_beta intro!: clock_calls [OF sc])

lemma clock_pause:
  assumes sc: "stop_comes e clock T"
  shows "a \<le> clock n \<Longrightarrow> a \<le> clock (snd (pause_loop i e n))"
proof (induction "100 - i" arbitrary: i n rule: less_induct)
  case less
  then show ?case
    by (subst pause_loop.simps) (auto simp: Let_def split_beta intro!: clock_calls [OF sc] less.hyps)
qed

lemma clock_push:
  assumes sc: "stop_comes e clock T" and a: "a \<le> clock n"
  shows "a \<le> clock (snd (snd (snd (push_activity e h s n))))"
  using a by (auto simp: push_activity_def Let_def split_beta intro!: clock_calls [OF sc])

lemma clock_login:
  assumes sc: "stop_comes e clock T"
  shows "a \<le> clock n \<Longrightarrow> a \<le> clock (snd (snd (login_loop left e s n)))"
proof (induction left arbitrary: s n)
  case (Suc left)
  then show ?case by (auto simp: Let_def split_beta intro!: clock_calls [OF sc] Suc.IH)
qed simp

lemma clock_network_init:
  assumes sc: "stop_comes e clock T" and a: "a \<le> clock n"
  shows "a \<le> clock (snd (snd (network_init e s n)))"
  using a by (auto simp: network_init_def Let_def split_beta intro!: clock_calls [OF sc])

text \<open>A look at the flag that lets the thread go on takes time, and time is left.\<close>

lemma stop_seen:
  assumes "stop_comes e clock T" and "shouldStop e n = (False, n')"
  shows "clock n < clock n'" "clock n < T"
  using assms unfolding stop_comes_def by (metis fst_conv snd_conv not_le)+

lemma leave_seen:
  assumes "stop_comes e clock T" and "stop_or_yield e n = (False, n')"
  shows "clock n < clock n'" "clock n < T"
proof -
  obtain b n1 where b: "shouldStop e n = (b, n1)" by force
  with assms(2) have "\<not> b" and y: "yieldWantsExit e n1 = (False, n')" by (auto simp: stop_or_yield_def split: if_splits)
  then have "clock n < clock n1" "clock n < T" using stop_seen [OF assms(1), of n n1] b by auto
  moreover have "clock n1 \<le> clock n'" using clock_calls(2) [OF assms(1) order_refl, of n1] y by simp
  ultimately show "clock n < clock n'" "clock n < T" by simp_all
qed

text \<open>Each loop returns: what is left of the time is enough fuel.\<close>

definition is_done :: "('a \<Rightarrow> bool) \<Rightarrow> 'a thread_run \<Rightarrow> bool" where
  "is_done P r \<longleftrightarrow> run_sat P (\<lambda>s. False) r"

lemma is_done_simps [simp]: "is_done P (Done x) = P x" "is_done P (Running s) = False"
  by (simp_all add: is_done_def)

lemma is_done_and_then: "is_done P r \<Longrightarrow> (\<And>x. P x \<Longrightarrow> is_done P' (g x)) \<Longrightarrow> is_done P' (and_then r g)"
  unfolding is_done_def by (rule run_sat_and_then)

lemma wait_loop_done:
  assumes sc: "stop_comes e clock T"
  shows "T - clock n < f \<Longrightarrow> is_done (\<lambda>(r, t, n'). clock n \<le> clock n') (wait_loop f e s n)"
proof (induction f arbitrary: n)
  case (Suc f)
  obtain stopped n1 where w: "waitNetwork e n = (stopped, n1)" by force
  obtain leave n2 where l: "stop_or_yield e n1 = (leave, n2)" by force
  obtain online n3 where o: "netWatchIsOnline e n2 = (online, n3)" by force
  have c: "clock n \<le> clock n1" "clock n1 \<le> clock n2" "clock n2 \<le> clock n3"
    using clock_calls(9) [OF sc order_refl, of n] clock_stop_or_yield [OF sc order_refl, of n1]
      clock_online [OF sc order_refl, of n2] by (simp_all add: w l o)
  show ?case
  proof (cases "stopped \<or> leave \<or> online")
    case False
    then have "clock n1 < clock n2" "clock n1 < T" using leave_seen [OF sc] l by auto
    then have "T - clock n3 < f" using c Suc.prems by linarith
    from Suc.IH [OF this] show ?thesis using False c
      by (cases "wait_loop f e s n3") (auto simp: w l o)
  qed (use c in \<open>auto simp: w l o\<close>)
qed simp

lemma wait_network_done:
  assumes sc: "stop_comes e clock T" and f: "T - clock n \<le> f"
  shows "is_done (\<lambda>(ready, t, n'). ready \<longrightarrow> clock n < clock n' \<and> clock n < T) (wait_network_ready f e s n)"
proof -
  obtain leave n1 where l: "stop_or_yield e n = (leave, n1)" by force
  obtain online n2 where o: "netWatchIsOnline e n1 = (online, n2)" by force
  obtain y n3 where y: "yieldWantsExit e n2 = (y, n3)" by force
  obtain kicked n4 where k: "(if \<not> y then netWatchKick e n3 else (False, n3)) = (kicked, n4)" by force
  show ?thesis
  proof (cases leave)
    case True
    then show ?thesis by (simp add: wait_network_ready_def l)
  next
    case False
    then have c: "clock n < clock n1" "clock n < T" using leave_seen [OF sc] l by auto
    moreover have "clock n1 \<le> clock n2" "clock n2 \<le> clock n3" "clock n3 \<le> clock n4"
      using clock_online [OF sc order_refl, of n1] clock_calls(2) [OF sc order_refl, of n2]
        clock_kick [OF sc order_refl, of n3] k by (auto simp: o y split: if_splits)
    ultimately have lt: "clock n < clock n2" "clock n < clock n4" and "T - clock n4 < f" using f by linarith+
    note W = wait_loop_done [OF sc this(3), of "set_state DISCORD_LOGIN ''Waiting WiFi...'' s"]
    have "is_done (\<lambda>(r, t, n'). r \<longrightarrow> clock n < clock n' \<and> clock n < T)
        (wait_loop f e (set_state DISCORD_LOGIN ''Waiting WiFi...'' s) n4)"
      using W lt c(2) by (cases "wait_loop f e (set_state DISCORD_LOGIN ''Waiting WiFi...'' s) n4") auto
    then show ?thesis using False lt c by (simp add: wait_network_ready_def l o y k)
  qed
qed

lemma activity_loop_done:
  assumes sc: "stop_comes e clock T"
  shows "T - clock n < f \<Longrightarrow> is_done (\<lambda>(r, t, n'). clock n \<le> clock n') (activity_loop f e h s n)"
proof (induction f arbitrary: h s n)
  case (Suc f)
  obtain stop n1 where st: "shouldStop e n = (stop, n1)" by force
  obtain ret h1 s1 n2 where p: "push_activity e h s n1 = (ret, h1, s1, n2)" by (rule prod_cases4)
  obtain lent n3 where l: "pause_loop 0 e n2 = (lent, n3)" by force
  have c: "clock n \<le> clock n1" "clock n1 \<le> clock n2" "clock n2 \<le> clock n3"
    using clock_calls(1) [OF sc order_refl, of n] clock_push [OF sc order_refl, of n1 h s]
      clock_pause [OF sc order_refl, of n2 0] by (simp_all add: st p l)
  show ?case
  proof (cases "\<not> stop \<and> ret = 0 \<and> \<not> lent")
    case True
    then have "clock n < clock n1" "clock n < T" using stop_seen [OF sc] st by auto
    then have "T - clock n3 < f" using c Suc.prems by linarith
    from Suc.IH [OF this, of h1 "after_push ret s1"] show ?thesis using True c
      by (cases "activity_loop f e h1 (after_push ret s1) n3") (auto simp: st p l Let_def)
  next
    case False
    then show ?thesis using c by (auto simp: st p l Let_def)
  qed
qed simp

lemma connection_loop_done:
  fixes e :: "'n rpc_env"
  assumes sc: "stop_comes e clock T"
  shows "T - clock n < f \<Longrightarrow> is_done (\<lambda>x. True) (connection_loop f e reconnecting s n)"
proof (induction f arbitrary: reconnecting s n)
  case (Suc f)
  have again: "is_done (\<lambda>x. True) (connection_loop f e True t (drop_page e m))" if "T - clock m < f" for t m
    using that clock_calls(18) [OF sc order_refl, of m] by (intro Suc.IH) linarith
  show ?case unfolding connection_loop.simps
  proof (rule is_done_and_then)
    show "is_done (\<lambda>(ready, t, n'). ready \<longrightarrow> clock n < clock n' \<and> clock n < T) (wait_network_ready f e s n)"
      by (rule wait_network_done [OF sc]) (use Suc.prems in simp)
  next
    fix x :: "bool \<times> rpc \<times> 'n"
    assume x: "case x of (ready, t, n') \<Rightarrow> ready \<longrightarrow> clock n < clock n' \<and> clock n < T"
    obtain ready s1 n1 where e1: "x = (ready, s1, n1)" by (rule prod_cases3)
    obtain res s2 n2 where lg: "login_session reconnecting e s1 n1 = (res, s2, n2)" by (rule prod_cases3)
    have c2: "clock n1 \<le> clock n2"
      using clock_login [OF sc order_refl, of n1] lg by (simp add: login_session_def) (metis snd_conv)
    have f2: "T - clock n2 < f" if ready using x c2 that Suc.prems unfolding e1 by auto
    have session: "is_done (\<lambda>x. True)
      (and_then (run_activity_loop f e s2 n2) (\<lambda>(ares, s, n).
                case ares of
                  ACTIVITY_YIELD_EXIT \<Rightarrow> Done (s\<lparr>session_active := False\<rparr>, n)
                | ACTIVITY_NETWORK_LOST \<Rightarrow>
                    (let (y, n) = yieldWantsExit e n
                     in if y then Done (s\<lparr>session_active := False\<rparr>, n) else connection_loop f e True s (drop_page e n))
                | ACTIVITY_OK \<Rightarrow> Done (s, n)))" if ready
    proof (rule is_done_and_then)
      show "is_done (\<lambda>(r, t, n'). clock n2 \<le> clock n') (run_activity_loop f e s2 n2)"
        unfolding run_activity_loop_def by (rule activity_loop_done [OF sc f2 [OF that]])
    next
      fix z :: "ActivityResult \<times> rpc \<times> 'n"
      assume z: "case z of (r, t, n') \<Rightarrow> clock n2 \<le> clock n'"
      obtain ares s3 n3 where e3: "z = (ares, s3, n3)" by (rule prod_cases3)
      obtain y n4 where y: "yieldWantsExit e n3 = (y, n4)" by force
      have "T - clock n4 < f"
        using f2 [OF that] z clock_calls(2) [OF sc order_refl, of n3] unfolding e3 by (simp add: y)
      then show "is_done (\<lambda>x. True) ((\<lambda>(ares, s, n).
                case ares of
                  ACTIVITY_YIELD_EXIT \<Rightarrow> Done (s\<lparr>session_active := False\<rparr>, n)
                | ACTIVITY_NETWORK_LOST \<Rightarrow>
                    (let (y, n) = yieldWantsExit e n
                     in if y then Done (s\<lparr>session_active := False\<rparr>, n) else connection_loop f e True s (drop_page e n))
                | ACTIVITY_OK \<Rightarrow> Done (s, n)) z)"
        using again by (cases ares) (simp_all add: e3 y)
    qed
    show "is_done (\<lambda>x. True)
      ((\<lambda>(ready, s, n). if \<not> ready then Done (s\<lparr>session_active := False\<rparr>, n)
        else (case login_session reconnecting e s n of
            (SESSION_FAILED, s, n) \<Rightarrow> connection_loop f e True s (drop_page e n)
          | (SESSION_REFUSED, s, n) \<Rightarrow> Done (s, n)
          | (SESSION_STOPPED, s, n) \<Rightarrow> Done (s, n)
          | (SESSION_OK, s, n) \<Rightarrow>
              and_then (run_activity_loop f e s n) (\<lambda>(ares, s, n).
                case ares of
                  ACTIVITY_YIELD_EXIT \<Rightarrow> Done (s\<lparr>session_active := False\<rparr>, n)
                | ACTIVITY_NETWORK_LOST \<Rightarrow>
                    (let (y, n) = yieldWantsExit e n
                     in if y then Done (s\<lparr>session_active := False\<rparr>, n) else connection_loop f e True s (drop_page e n))
                | ACTIVITY_OK \<Rightarrow> Done (s, n)))) x)"
      using f2 again session by (cases ready; cases res) (simp_all add: e1 lg)
  qed
qed simp

lemma thread_done:
  fixes e :: "'n rpc_env"
  assumes sc: "stop_comes e clock T" and f: "T - clock n < f"
  shows "is_done (\<lambda>x. True) (DiscordRPC_ThreadMain f e s n)"
  unfolding DiscordRPC_ThreadMain_def
proof (rule is_done_and_then)
  show "is_done (\<lambda>(ready, t, n'). ready \<longrightarrow> clock n < clock n' \<and> clock n < T)
      (wait_network_ready f e (s\<lparr>session_active := False\<rparr>) n)"
    by (rule wait_network_done [OF sc]) (use f in simp)
next
  fix x :: "bool \<times> rpc \<times> 'n"
  assume x: "case x of (ready, t, n') \<Rightarrow> ready \<longrightarrow> clock n < clock n' \<and> clock n < T"
  obtain ready s1 n1 where e1: "x = (ready, s1, n1)" by (rule prod_cases3)
  obtain ok s2 n2 where ni: "network_init e s1 n1 = (ok, s2, n2)" by (rule prod_cases3)
  have "clock n1 \<le> clock n2" using clock_network_init [OF sc order_refl, of n1 s1] by (simp add: ni)
  then have "ready \<Longrightarrow> T - clock n2 < f" using x f unfolding e1 by auto
  then have "ready \<Longrightarrow> is_done (\<lambda>x. True) (and_then (connection_loop f e False s2 n2) (\<lambda>(s, n). Done (cleanup e s n)))"
    by (intro is_done_and_then [OF connection_loop_done [OF sc]]) auto
  then show "is_done (\<lambda>x. True)
    ((\<lambda>(ready, s, n).
       if \<not> ready then Done (set_state DISCORD_STOPPED ''Stopped'' s, n)
       else
         (case network_init e s n of
            (False, s, n) \<Rightarrow> Done (called Called_soc_exit s, safeSocExit e n)
          | (True, s, n) \<Rightarrow> and_then (connection_loop f e False s n) (\<lambda>(s, n). Done (cleanup e s n)))) x)"
    by (cases ready; cases ok) (simp_all add: e1 ni)
qed

section \<open>The thread\<close>

text \<open>C31: every run of the thread, at every moment, has made its calls in order: the network is taken at most
  once and given back at the end; a session is verified right after each accepted login; updates and
  heartbeats are sent in a verified session only, none after the first that fails; the logout comes at
  most once, last, and only if a verified session may be open. This holds of a run that goes on (out of
  fuel, with the calls so far, in no phase behind the logout or the release of the network) as of one that
  is over; one that is over has released what it took and shows the thread as stopped, but after a failure
  to take the network. And a run is over if the stop flag is raised at some time and stays: what is left
  of the time until then is enough fuel.\<close>

theorem thread_calls_in_order:
  assumes "calls s = []"
  shows "(case DiscordRPC_ThreadMain f e s n of
      Running s' \<Rightarrow> phase_of s' \<notin> {Bad, Left, Closed}
    | Done (s', n') \<Rightarrow> phase_of s' = (if calls s' = [] then Off else Closed) \<and>
        (g_discord_state s' = DISCORD_STOPPED \<or> g_discord_state s' = DISCORD_ERROR \<and> length (calls s') = 2)) \<and>
    (\<forall>clock T. stop_comes e clock T \<and> T - clock n < f \<longrightarrow>
      (\<exists>s' n'. DiscordRPC_ThreadMain f e s n = Done (s', n')))"
proof (intro conjI allI impI)
  have "calls s' = [] \<Longrightarrow> phase_of s' = Off" for s' by (simp add: phase_of_def)
  moreover have "connected s' \<Longrightarrow> phase_of s' \<notin> {Bad, Left, Closed}" for s' by (auto simp: connected_def)
  ultimately show "case DiscordRPC_ThreadMain f e s n of
      Running s' \<Rightarrow> phase_of s' \<notin> {Bad, Left, Closed}
    | Done (s', n') \<Rightarrow> phase_of s' = (if calls s' = [] then Off else Closed) \<and>
        (g_discord_state s' = DISCORD_STOPPED \<or> g_discord_state s' = DISCORD_ERROR \<and> length (calls s') = 2)"
    using thread_phase [OF assms, of f e n]
    by (cases "DiscordRPC_ThreadMain f e s n") (fastforce simp: ordered_end_def)+
next
  fix clock T
  assume "stop_comes e clock T \<and> T - clock n < f"
  then show "\<exists>s' n'. DiscordRPC_ThreadMain f e s n = Done (s', n')"
    using thread_done [of e clock T n f s] by (cases "DiscordRPC_ThreadMain f e s n") auto
qed

text \<open>A server that accepts everything, and a stop that is seen by the fifth look at the flag.\<close>

definition demo_rpc :: "nat rpc_env" where
  "demo_rpc =
     \<lparr>shouldStop = (\<lambda>n. (4 \<le> n, n + 1)), yieldWantsExit = (\<lambda>n. (False, n)), yieldIsActive = (\<lambda>n. (False, n)),
      acInit = (\<lambda>n. (True, n)), wifiStatus = (\<lambda>n. (Some 1, n)), acStatus = (\<lambda>n. (Some 3, n)), acExit = (\<lambda>n. n),
      connectAsync = (\<lambda>n. (True, n)), waitConnect = (\<lambda>n. (True, n)), waitNetwork = (\<lambda>n. (False, n)),
      miniSocInit_ok = (\<lambda>n. (True, n)), probeSocket = (\<lambda>n. (True, n)), safeSocExit = (\<lambda>n. n),
      login = (\<lambda>n. (0, n)), verify = (\<lambda>n. (True, n)), activity_tick = (\<lambda>n. (0, [1], n)), hide_home = (\<lambda>n. False),
      sha = (\<lambda>t. t), is_home = (\<lambda>t. False), activity_update = (\<lambda>n t. (0, n)), activity_heartbeat = (\<lambda>n. (0, n)),
      currentApp_ok = (\<lambda>n. (True, n)), drop_page = (\<lambda>n. n), logout = (\<lambda>n. n)\<rparr>"

definition demo_start :: rpc where
  "demo_start = \<lparr>g_discord_state = DISCORD_LOGIN, g_discord_status = ''Starting...'', session_active = False, calls = []\<rparr>"

lemma demo_run:
  "run_sat (\<lambda>(s', n'). calls s' =
     [Called_soc_exit, Called_logout, Called_update 0, Called_verify True, Called_login 0, Called_soc_init True]) (\<lambda>s'. False)
   (DiscordRPC_ThreadMain 5 demo_rpc demo_start 0)"
  by (simp add: DiscordRPC_ThreadMain_def demo_rpc_def demo_start_def wait_network_ready_def stop_or_yield_def netWatchIsOnline_def
      network_init_def called_def set_state_def login_session_def run_activity_loop_def push_activity_def after_push_def
      pause_loop.simps cleanup_def eval_nat_numeral Let_def)

theorem thread_calls_in_order_witness:
  "\<exists>s' n'. DiscordRPC_ThreadMain 5 demo_rpc demo_start 0 = Done (s', n') \<and> phase_of s' = Closed \<and>
     g_discord_state s' = DISCORD_STOPPED \<and>
     calls s' = [Called_soc_exit, Called_logout, Called_update 0, Called_verify True, Called_login 0, Called_soc_init True]"
proof -
  have "calls demo_start = []" by (simp add: demo_start_def)
  note T = thread_calls_in_order [OF this, of 5 demo_rpc 0]
  have "stop_comes demo_rpc (\<lambda>n. n) 4" by (simp add: stop_comes_def demo_rpc_def)
  then obtain s' n' where r: "DiscordRPC_ThreadMain 5 demo_rpc demo_start 0 = Done (s', n')"
    using T [THEN conjunct2, rule_format, of "\<lambda>n. n" 4] by auto
  show ?thesis using T [THEN conjunct1] demo_run by (auto simp: r)
qed

end
