(* ===== verification/Discord_Activity.thy ===== *)
theory Discord_Activity
  imports Custom_Rpc_Claims Discord_Session_Claims
begin

text \<open>
  What the client says about the running title (\<open>discord/discord_activity.c\<close>): the title and its
  process from the process manager, name and publisher from the icon file of the title in the language
  asked for, the memory values, and the text that joins them.

  The environment holds the process manager, the icon file and the system settings; the mapping of
  memory and the requests have the environments of \<open>Custom_Rpc\<close> and \<open>Discord_Session\<close>, over the same state
  of the system. \<open>utf16_to_utf8\<close> is a library routine: the bytes it stores, at most as many as it is told.
\<close>

section \<open>The environment and the state\<close>

definition SMDH_READ_SIZE :: nat where "SMDH_READ_SIZE = 0x36C0"
definition SMDH_NUM_LANGS :: u8 where "SMDH_NUM_LANGS = 12"
definition SMDH_TITLES_OFFSET :: nat where "SMDH_TITLES_OFFSET = 0x0008"
definition SMDH_TITLE_ENTRY_SIZE :: nat where "SMDH_TITLE_ENTRY_SIZE = 0x200"
definition SMDH_SHORT_DESC_OFFSET :: nat where "SMDH_SHORT_DESC_OFFSET = 0x00"
definition SMDH_LONG_DESC_OFFSET :: nat where "SMDH_LONG_DESC_OFFSET = 0x80"
definition SMDH_PUBLISHER_OFFSET :: nat where "SMDH_PUBLISHER_OFFSET = 0x180"
definition SMDH_REGION_LOCKOUT_OFFSET :: nat where "SMDH_REGION_LOCKOUT_OFFSET = 0x2018"

definition smdh_lang_fallback :: "u8 list" where
  "smdh_lang_fallback = [1, 2, 3, 4, 5, 0, 6, 7, 8, 9, 10, 11]"

record 'n act_env =
  PMDBG_GetCurrentAppInfo :: "'n \<Rightarrow> (u64 \<times> u8 \<times> u32) option \<times> 'n"
  OpenFileDirectly :: "'n \<Rightarrow> u32 list \<Rightarrow> u32 list \<Rightarrow> result \<times> handle \<times> 'n"
  ReadFile :: "'n \<Rightarrow> handle \<Rightarrow> nat \<Rightarrow> result \<times> bytes \<times> 'n"
  CloseFile :: "'n \<Rightarrow> handle \<Rightarrow> 'n"
  cfguInit :: "'n \<Rightarrow> bool \<times> 'n"
  CFGU_GetSystemLanguage :: "'n \<Rightarrow> u8 \<times> 'n"
  cfguExit :: "'n \<Rightarrow> 'n"
  utf16_to_utf8 :: "u16 list \<Rightarrow> nat \<Rightarrow> bytes"

text \<open>The static buffer of the icon file, the memory values and the session.\<close>

record activity =
  smdh_buffer :: bytes
  a_page :: mapped_page
  a_config :: custom_rpc
  a_session :: presence

section \<open>The icon file\<close>

definition read_smdh :: "'n act_env \<Rightarrow> u64 \<Rightarrow> u8 \<Rightarrow> bytes \<Rightarrow> 'n \<Rightarrow> result \<times> bytes \<times> 'n" where
  "read_smdh e titleId mediaType smdh n =
     (let (res, h, n) = OpenFileDirectly e n [ucast titleId, ucast (drop_bit 32 titleId), ucast mediaType, 0] [0, 0, 2, 0x6E6F6369, 0]
      in if rfailed res then (res, smdh, n)
         else let (res, bs, n) = ReadFile e n h SMDH_READ_SIZE;
                  n = CloseFile e n h
              in (res, bs @ drop (length bs) smdh, n))"

definition half_at :: "bytes \<Rightarrow> nat \<Rightarrow> u16" where
  "half_at s p = ucast (s ! p) OR push_bit 8 (ucast (s ! (p + 1)))"

definition halves_from :: "bytes \<Rightarrow> nat \<Rightarrow> u16 list" where
  "halves_from s p = map (\<lambda>i. half_at s (p + 2 * i)) [0..<(length s - p) div 2]"

definition smdh_is_region_free :: "bytes \<Rightarrow> bool" where
  "smdh_is_region_free s \<longleftrightarrow> s ! SMDH_REGION_LOCKOUT_OFFSET AND 0x7F = 0x7F"

definition smdh_name_offset :: "bytes \<Rightarrow> nat" where
  "smdh_name_offset s = (if smdh_is_region_free s then SMDH_SHORT_DESC_OFFSET else SMDH_LONG_DESC_OFFSET)"

definition smdh_lang_has_name :: "bytes \<Rightarrow> u8 \<Rightarrow> bool" where
  "smdh_lang_has_name s langIndex \<longleftrightarrow>
     half_at s (SMDH_TITLES_OFFSET + unat langIndex * SMDH_TITLE_ENTRY_SIZE + smdh_name_offset s) \<noteq> 0"

text \<open>The C strings in the buffers of the name and the publisher, which were filled with zeros.\<close>

definition utf8_text :: "'n act_env \<Rightarrow> u16 list \<Rightarrow> nat \<Rightarrow> bytes" where
  "utf8_text e text out_size = takeWhile (\<lambda>c. c \<noteq> 0) (take (out_size - 1) (utf16_to_utf8 e text (out_size - 1)))"

definition smdh_copy_lang :: "'n act_env \<Rightarrow> bytes \<Rightarrow> u8 \<Rightarrow> nat \<Rightarrow> nat \<Rightarrow> bytes \<times> bytes" where
  "smdh_copy_lang e s langIndex name_size publisher_size =
     (let entryOffset = SMDH_TITLES_OFFSET + unat langIndex * SMDH_TITLE_ENTRY_SIZE
      in (utf8_text e (halves_from s (entryOffset + smdh_name_offset s)) name_size,
          utf8_text e (halves_from s (entryOffset + SMDH_PUBLISHER_OFFSET)) publisher_size))"

fun fallback_loop :: "'n act_env \<Rightarrow> bytes \<Rightarrow> u8 \<Rightarrow> nat \<Rightarrow> nat \<Rightarrow> u8 list \<Rightarrow> bytes \<times> bytes" where
  "fallback_loop e s smdhLang name_size publisher_size [] = ([], [])"
| "fallback_loop e s smdhLang name_size publisher_size (lang # langs) =
     (if lang = smdhLang then fallback_loop e s smdhLang name_size publisher_size langs
      else if smdh_lang_has_name s lang then smdh_copy_lang e s lang name_size publisher_size
      else fallback_loop e s smdhLang name_size publisher_size langs)"

text \<open>The language to start with: the preference, then the setting of the system, then English.\<close>

definition first_language :: "'n act_env \<Rightarrow> u8 \<Rightarrow> 'n \<Rightarrow> u8 \<times> 'n" where
  "first_language e prefLang n =
     (if prefLang > RPC_LANGUAGE_AUTO \<and> prefLang \<le> RPC_LANGUAGE_MAX then (prefLang - 1, n)
      else let (ok, n) = cfguInit e n
           in if \<not> ok then (1, n)
              else let (cfgLang, n) = CFGU_GetSystemLanguage e n; n = cfguExit e n
                   in (if cfgLang < SMDH_NUM_LANGS then cfgLang else 1, n))"

definition extract_smdh_strings :: "'n act_env \<Rightarrow> u8 list \<Rightarrow> bytes \<Rightarrow> nat \<Rightarrow> nat \<Rightarrow> 'n \<Rightarrow> (bytes \<times> bytes) \<times> 'n" where
  "extract_smdh_strings e prefs s name_size publisher_size n =
     (let (smdhLang, n) = first_language e (prefs ! PREFS_RPC_LANGUAGE) n
      in (if smdh_lang_has_name s smdhLang then smdh_copy_lang e s smdhLang name_size publisher_size
          else fallback_loop e s smdhLang name_size publisher_size smdh_lang_fallback, n))"

definition get_current_app_info :: "'n act_env \<Rightarrow> 'n \<Rightarrow> u64 \<times> u8 \<times> u32 \<times> 'n" where
  "get_current_app_info e n =
     (case PMDBG_GetCurrentAppInfo e n of
        (None, n) \<Rightarrow> (0, 1, 0, n)
      | (Some (titleId, mediaType, pid), n) \<Rightarrow> (titleId, mediaType, pid, n))"

section \<open>The script of the title\<close>

definition drop_values :: "'n map_env \<Rightarrow> activity \<Rightarrow> 'n \<Rightarrow> activity \<times> 'n" where
  "drop_values me s n =
     (let (p, n) = CustomRPC_UnmapPage me (a_page s) n
      in (s\<lparr>a_page := p, a_config := CustomRPC_ClearConfig (a_config s)\<rparr>, n))"

definition fetch_script_for_title :: "'n map_env \<Rightarrow> 'n discord_env \<Rightarrow> u64 \<Rightarrow> activity \<Rightarrow> 'n \<Rightarrow> (int \<times> activity \<times> 'n) option" where
  "fetch_script_for_title me de tid s n =
     (if tid = 0 then (let (s, n) = drop_values me s n in Some (0, s, n))
      else if CustomRPC_TriedForTitle tid (a_config s) then Some (0, s, n)
      else do {
        let s = s\<lparr>a_config := CustomRPC_ClearConfig (a_config s)\<rparr>;
        (script_res, code, sess, n) \<leftarrow> discord_get_script de tid (word_of_nat CUSTOMRPC_EXTRA_SIZE) (a_session s) n;
        let s = s\<lparr>a_session := sess\<rparr>;
        if script_res \<noteq> 0 then Some (-1, s\<lparr>a_config := CustomRPC_ClearConfig (a_config s)\<rparr>, n)
        else
          let code = the code
          in if code = [] \<or> hd code = 0x2D then Some (0, s\<lparr>a_config := CustomRPC_MarkTried tid (a_config s)\<rparr>, n)
             else Some (0, s\<lparr>a_config := snd (CustomRPC_LoadConfigFromString tid (Some code) (a_config s))\<rparr>, n)
      })"

section \<open>The text\<close>

definition encoded :: "bytes \<Rightarrow> u32 \<Rightarrow> bytes" where
  "encoded src dst_size = butlast (discord_url_encode src dst_size)"

definition remap_page :: "'n map_env \<Rightarrow> u32 \<Rightarrow> activity \<Rightarrow> 'n \<Rightarrow> activity \<times> 'n" where
  "remap_page me currentPid s n =
     (if CustomRPC_GetMappedPid (a_page s) \<noteq> currentPid then
        let (p, n) = CustomRPC_UnmapPage me (a_page s) n;
            (p, n) = (if CustomRPC_HasConfig (a_config s) then snd (CustomRPC_MapPage me currentPid p n) else (p, n))
        in (s\<lparr>a_page := p\<rparr>, n)
      else (s, n))"

text \<open>The title, its name and publisher and the memory values.\<close>

definition activity_parts ::
    "'n act_env \<Rightarrow> 'n map_env \<Rightarrow> u8 list \<Rightarrow> u64 \<Rightarrow> u8 \<Rightarrow> u32 \<Rightarrow> activity \<Rightarrow> 'n \<Rightarrow> bytes \<times> bytes \<times> bytes \<times> bytes \<times> activity \<times> 'n" where
  "activity_parts e me prefs tid mediaType currentPid s n =
     (if tid \<noteq> 0 then
        let (res, smdh, n) = read_smdh e tid mediaType (smdh_buffer s) n;
            s = s\<lparr>smdh_buffer := smdh\<rparr>;
            ((name, publisher), n) = (if \<not> rfailed res then extract_smdh_strings e prefs smdh 512 256 n else (([], []), n));
            (s, n) = remap_page me currentPid s n;
            extra = (if CustomRPC_HasConfig (a_config s)
                     then CustomRPC_BuildExtraString (own_byte me n) (a_page s) (CUSTOMRPC_EXTRA_SIZE + 1) (a_config s) else [])
        in (hex16 tid, name, publisher, extra, s, n)
      else
        let (s, n) = drop_values me s n
        in (ascii ''0000000000000000'', ascii ''Home Menu'', ascii ''Nintendo'', [], s, n))"

definition activity_text :: "nat \<Rightarrow> bytes \<Rightarrow> bytes \<Rightarrow> bytes \<Rightarrow> bytes \<Rightarrow> bytes" where
  "activity_text buffer_size titleid name publisher extra =
     (let buffer = snprintf buffer_size (ascii ''titleid='' @ titleid @ ascii ''&name='' @ encoded name 1536 @
                     ascii ''&publisher='' @ encoded publisher 768)
      in if extra \<noteq> [] then
           buffer @ snprintf (buffer_size - length buffer)
             (ascii ''&extra='' @ encoded extra (word_of_nat (CUSTOMRPC_EXTRA_SIZE * 3)))
         else buffer)"

definition create_activity_string ::
    "'n act_env \<Rightarrow> 'n map_env \<Rightarrow> u8 list \<Rightarrow> nat \<Rightarrow> u64 \<Rightarrow> u8 \<Rightarrow> u32 \<Rightarrow> activity \<Rightarrow> 'n \<Rightarrow> bytes \<times> activity \<times> 'n" where
  "create_activity_string e me prefs buffer_size tid mediaType currentPid s n =
     (let (titleid, name, publisher, extra, s, n) = activity_parts e me prefs tid mediaType currentPid s n
      in (activity_text buffer_size titleid name publisher extra, s, n))"

definition discord_activity_tick ::
    "'n act_env \<Rightarrow> 'n map_env \<Rightarrow> 'n discord_env \<Rightarrow> u8 list \<Rightarrow> nat \<Rightarrow> activity \<Rightarrow> 'n \<Rightarrow> (int \<times> bytes \<times> activity \<times> 'n) option" where
  "discord_activity_tick e me de prefs buffer_size s n =
     (let (tid, mediaType, pid, n) = get_current_app_info e n
      in do {
        (res, s, n) \<leftarrow> (if prefs ! PREFS_DISABLE_CUSTOMRPC = 0 then fetch_script_for_title me de tid s n
                       else (let (s, n) = drop_values me s n in Some (0, s, n)));
        if res \<noteq> 0 then Some (res, [], s, n)
        else let (text, s, n) = create_activity_string e me prefs buffer_size tid mediaType pid s n in Some (0, text, s, n)
      })"

end
