(* ===== verification/Discord_Activity_Claims.thy ===== *)
theory Discord_Activity_Claims
  imports Discord_Activity
begin

text \<open>
  The properties of the activity text: the language of the name, the fields of the text read back,
  and memory values that belong to the running title and to a script the server has signed.
\<close>

section \<open>The language\<close>

lemma fallback_loop_find:
  "fallback_loop e s l ns ps langs =
   (case find (smdh_lang_has_name s) (filter (\<lambda>k. k \<noteq> l) langs) of None \<Rightarrow> ([], []) | Some k \<Rightarrow> smdh_copy_lang e s k ns ps)"
  by (induction langs) auto

lemma all_languages: "(k :: u8) < 12 \<Longrightarrow> k \<in> set smdh_lang_fallback"
proof -
  assume "k < 12"
  then have "unat k < 12" by (simp add: word_less_nat_alt)
  then have "unat k \<in> {0, 1, 2, 3, 4, 5, 6, 7, 8, 9, 10, 11}" by (simp, presburger)
  then have "(word_of_nat (unat k) :: u8) \<in> word_of_nat ` {0, 1, 2, 3, 4, 5, 6, 7, 8, 9, 10, 11}" by (rule imageI)
  then show ?thesis by (simp add: smdh_lang_fallback_def) blast
qed

lemma languages_bound: "k \<in> set smdh_lang_fallback \<Longrightarrow> k < 12"
  by (auto simp: smdh_lang_fallback_def)

text \<open>Name and publisher are taken in the first language that has a name, starting with the one asked for and going on
  in the fixed order; they are empty only when no language of the title has a name.\<close>

theorem first_language_with_name:
  assumes "first_language e (prefs ! PREFS_RPC_LANGUAGE) n = (lang, n')"
  shows "extract_smdh_strings e prefs s ns ps n =
      (case find (smdh_lang_has_name s) (lang # filter (\<lambda>k. k \<noteq> lang) smdh_lang_fallback) of
         None \<Rightarrow> ([], []) | Some k \<Rightarrow> smdh_copy_lang e s k ns ps, n') \<and>
    lang < 12 \<and>
    (find (smdh_lang_has_name s) (lang # filter (\<lambda>k. k \<noteq> lang) smdh_lang_fallback) = None \<longleftrightarrow>
      (\<forall>k < 12. \<not> smdh_lang_has_name s k))"
proof -
  have l: "lang < 12"
    using assms by (auto simp: first_language_def Let_def SMDH_NUM_LANGS_def RPC_LANGUAGE_AUTO_def RPC_LANGUAGE_MAX_def
        unat_minus_one word_less_nat_alt word_le_nat_alt unat_sub split: prod.splits if_splits)
  have mem: "k \<in> set (lang # filter (\<lambda>k. k \<noteq> lang) smdh_lang_fallback)" if "k < 12" for k
    using all_languages [OF that] by auto
  have sub: "k < 12" if "k \<in> set (lang # filter (\<lambda>k. k \<noteq> lang) smdh_lang_fallback)" for k
    using that l languages_bound by auto
  have "find (smdh_lang_has_name s) (lang # filter (\<lambda>k. k \<noteq> lang) smdh_lang_fallback) = None \<longleftrightarrow>
      (\<forall>k \<in> set (lang # filter (\<lambda>k. k \<noteq> lang) smdh_lang_fallback). \<not> smdh_lang_has_name s k)"
    by (auto simp: find_None_iff)
  also have "\<dots> \<longleftrightarrow> (\<forall>k < 12. \<not> smdh_lang_has_name s k)"
    using mem sub by blast
  finally show ?thesis using assms l
    by (simp add: extract_smdh_strings_def fallback_loop_find)
qed

section \<open>The text and its fields\<close>

lemma encoded_whole:
  assumes "3 \<le> dst_size" and "3 * length src < unat dst_size"
  shows "encoded src dst_size = concat (map encode_char src)"
proof -
  have d: "3 \<le> unat dst_size" using assms(1) by (simp add: word_le_nat_alt)
  then have "length ([] :: bytes) + 3 \<le> unat dst_size + 2" by simp
  from encode_loop_spec [OF assms(1) this, of src] assms(2) show ?thesis
    by (auto simp: encoded_def discord_url_encode_def)
qed

lemma length_encoding: "length (concat (map encode_char src)) \<le> 3 * length src"
  using length_encode_char(1) by (induction src) (auto intro: add_mono)

lemma encoding_has_no_end: "c \<in> set (concat (map encode_char src)) \<Longrightarrow> \<not> ends_value c"
proof -
  assume "c \<in> set (concat (map encode_char src))"
  then obtain x where "c \<in> set (encode_char x)" by auto
  moreover have "upper_hex ! i \<noteq> 0x26 \<and> upper_hex ! i \<noteq> 0x0D \<and> upper_hex ! i \<noteq> 0x0A" if "i < 16" for i
  proof -
    have "upper_hex ! i \<in> set upper_hex" using that by (intro nth_mem) (simp add: upper_hex_def)
    then show ?thesis by (auto simp: upper_hex_def)
  qed
  moreover note unat_nibbles [of x]
  ultimately show ?thesis by (auto simp: encode_char_def ends_value_def is_plain_def split: if_splits)
qed

lemma segments_piece: "\<forall>c \<in> set a. \<not> ends_value c \<Longrightarrow> ends_value x \<Longrightarrow> segments (a @ x # b) = a # segments b"
  by (subst segments.simps) (simp add: takeWhile_append dropWhile_append)

lemma segments_last: "\<forall>c \<in> set a. \<not> ends_value c \<Longrightarrow> segments a = [a]"
proof -
  assume a: "\<forall>c \<in> set a. \<not> ends_value c"
  then have d: "dropWhile (\<lambda>c. \<not> ends_value c) a = []" "takeWhile (\<lambda>c. \<not> ends_value c) a = a"
    by (simp_all add: takeWhile_eq_all_conv)
  show ?thesis unfolding segments.simps [of a] d by simp
qed

text \<open>The keys of the text, and the pieces of a text with the first fields.\<close>

lemma key_ok: "\<forall>k \<in> {''titleid='', ''name='', ''publisher='', ''extra=''}. \<forall>c \<in> set (ascii k). \<not> ends_value c"
  by code_simp

lemma hex16_ok: "length (hex16 w) = 16" "c \<in> set (hex16 w) \<Longrightarrow> \<not> ends_value c"
proof -
  show "length (hex16 w) = 16" by (simp add: hex16_def)
  assume "c \<in> set (hex16 w)"
  then obtain i where i: "c = upper_hex ! unat (drop_bit (60 - 4 * i) w AND 0xf)" by (auto simp: hex16_def)
  have "drop_bit (60 - 4 * i) w AND 0xf = take_bit 4 (drop_bit (60 - 4 * i) w)" by (simp add: take_bit_eq_mask mask_eq_decr_exp)
  then have "unat (drop_bit (60 - 4 * i) w AND 0xf) = take_bit 4 (unat (drop_bit (60 - 4 * i) w))" by (simp only: unsigned_take_bit_eq)
  then have "unat (drop_bit (60 - 4 * i) w AND 0xf) < 16" using take_bit_nat_less_exp [of 4] by simp
  then have "c \<in> set upper_hex" unfolding i by (intro nth_mem) (simp add: upper_hex_def)
  then show "\<not> ends_value c" by (auto simp: upper_hex_def ends_value_def)
qed

lemma activity_text_whole:
  assumes t: "length titleid = 16" and l: "length name \<le> 511" "length publisher \<le> 255" "length extra \<le> 575"
  shows "activity_text 5500 titleid name publisher extra =
    ascii ''titleid='' @ titleid @ 0x26 # ascii ''name='' @ concat (map encode_char name) @
    0x26 # ascii ''publisher='' @ concat (map encode_char publisher) @
    (if extra = [] then [] else 0x26 # ascii ''extra='' @ concat (map encode_char extra))"
proof -
  have "encoded name 1536 = concat (map encode_char name)" by (rule encoded_whole) (use l(1) in auto)
  moreover have "encoded publisher 768 = concat (map encode_char publisher)" by (rule encoded_whole) (use l(2) in auto)
  moreover have "encoded extra 3072 = concat (map encode_char extra)" by (rule encoded_whole) (use l(3) in auto)
  moreover have "length (concat (map encode_char name)) \<le> 1533" using length_encoding [of name] l(1) by simp
  moreover have "length (concat (map encode_char publisher)) \<le> 765" using length_encoding [of publisher] l(2) by simp
  moreover have "length (concat (map encode_char extra)) \<le> 1725" using length_encoding [of extra] l(3) by simp
  ultimately show ?thesis using t
    by (simp add: activity_text_def snprintf_def ascii_def CUSTOMRPC_EXTRA_SIZE_def del: length_concat)
qed

lemma activity_text_segments:
  assumes t: "length titleid = 16" "\<forall>c \<in> set titleid. \<not> ends_value c"
    and l: "length name \<le> 511" "length publisher \<le> 255" "length extra \<le> 575"
  shows "segments (activity_text 5500 titleid name publisher extra) =
    [ascii ''titleid='' @ titleid, ascii ''name='' @ concat (map encode_char name),
     ascii ''publisher='' @ concat (map encode_char publisher)] @
    (if extra = [] then [] else [ascii ''extra='' @ concat (map encode_char extra)])"
proof -
  have amp: "ends_value 0x26" by (simp add: ends_value_def)
  let ?T = "ascii ''titleid='' @ titleid" and ?N = "ascii ''name='' @ concat (map encode_char name)"
  let ?P = "ascii ''publisher='' @ concat (map encode_char publisher)" and ?X = "ascii ''extra='' @ concat (map encode_char extra)"
  have n: "\<forall>c \<in> set ?T. \<not> ends_value c" "\<forall>c \<in> set ?N. \<not> ends_value c" "\<forall>c \<in> set ?P. \<not> ends_value c" "\<forall>c \<in> set ?X. \<not> ends_value c"
    using t(2) key_ok encoding_has_no_end by auto
  have "activity_text 5500 titleid name publisher extra = ?T @ 0x26 # ?N @ 0x26 # ?P @ (if extra = [] then [] else 0x26 # ?X)"
    unfolding activity_text_whole [OF t(1) l] by simp
  then show ?thesis
    using segments_piece [OF n(1) amp] segments_piece [OF n(2) amp] segments_piece [OF n(3) amp]
      segments_last [OF n(3)] segments_last [OF n(4)]
    by simp
qed

lemma activity_text_fields:
  assumes "length titleid = 16" "\<forall>c \<in> set titleid. \<not> ends_value c"
    and "length name \<le> 511" "length publisher \<le> 255" "length extra \<le> 575"
  shows "field_value (ascii ''titleid'') (activity_text 5500 titleid name publisher extra) = Some titleid"
    and "map_option url_decode (field_value (ascii ''name'') (activity_text 5500 titleid name publisher extra)) = Some name"
    and "map_option url_decode (field_value (ascii ''publisher'') (activity_text 5500 titleid name publisher extra)) = Some publisher"
    and "map_option url_decode (field_value (ascii ''extra'') (activity_text 5500 titleid name publisher extra)) =
      (if extra = [] then None else Some extra)"
  unfolding field_value_def activity_text_segments [OF assms]
  by (simp_all add: starts_with_def ascii_def url_decode_chars)

section \<open>The parts\<close>

lemma length_utf8_text: "length (utf8_text e t n) \<le> n - 1"
  unfolding utf8_text_def by (rule order_trans [OF length_takeWhile_le]) simp

lemma extracted_lengths:
  assumes "extract_smdh_strings e prefs s ns ps n = ((name, publisher), n')"
  shows "length name \<le> ns - 1 \<and> length publisher \<le> ps - 1"
proof -
  have c: "length (fst (smdh_copy_lang e s k ns ps)) \<le> ns - 1 \<and> length (snd (smdh_copy_lang e s k ns ps)) \<le> ps - 1" for k
    unfolding smdh_copy_lang_def Let_def fst_conv snd_conv by (intro conjI length_utf8_text)
  then have "length (fst (fallback_loop e s l ns ps langs)) \<le> ns - 1 \<and> length (snd (fallback_loop e s l ns ps langs)) \<le> ps - 1" for l langs
    by (induction langs) auto
  then show ?thesis using assms c
    by (auto simp: extract_smdh_strings_def Let_def prod_eq_iff split: prod.splits if_splits)
qed

lemma extra_string_length:
  assumes "custom_ok c"
  shows "length (CustomRPC_BuildExtraString b p (CUSTOMRPC_EXTRA_SIZE + 1) c) \<le> 575"
proof (cases "CustomRPC_HasConfig c")
  case True
  obtain x xs where e: "g_entries c = x # xs" using True by (cases "g_entries c") (auto simp: CustomRPC_HasConfig_def)
  have o: "entry_ok x" "\<forall>x \<in> set xs. entry_ok x" "length xs \<le> 31"
    using assms e by (simp_all add: custom_ok_def CUSTOMRPC_MAX_ENTRIES_def)
  obtain t where t: "entry_text b p x = Some t" "length t \<le> 17" "t \<noteq> []" using entry_text_length [OF o(1)] .
  have l: "length t + 18 * length xs < 1025" using t(2) o(3) by simp
  have "extra_loop b p 1025 (x # xs) [] = t @ concat (map (\<lambda>x. 0x26 # the (entry_text b p x)) xs)"
    using t extra_loop_join [OF o(2) l t(3)] by simp
  moreover have "length (concat (map (\<lambda>x. 0x26 # the (entry_text b p x)) xs)) \<le> 18 * length xs"
    using o(2)
  proof (induction xs)
    case (Cons y ys)
    obtain u where "entry_text b p y = Some u" "length u \<le> 17" using entry_text_length Cons.prems by (metis list.set_intros(1))
    then show ?case using Cons by simp
  qed simp
  ultimately show ?thesis using True e t(2) o(3) by (simp add: CustomRPC_BuildExtraString_def CUSTOMRPC_EXTRA_SIZE_def)
qed (simp add: CustomRPC_BuildExtraString_def)

lemma remap_page_keeps: "remap_page me pid s n = (s', n') \<Longrightarrow> a_config s' = a_config s \<and> a_session s' = a_session s \<and>
    (g_isMapped (a_page s') \<longrightarrow> g_mappedPid (a_page s') = pid)"
  by (auto simp: remap_page_def CustomRPC_GetMappedPid_def CustomRPC_MapPage_def CustomRPC_UnmapPage_def Let_def
      split: prod.splits if_splits)

lemma drop_values_clear: "drop_values me s n = (s', n') \<Longrightarrow> \<not> g_isMapped (a_page s') \<and> \<not> CustomRPC_HasConfig (a_config s') \<and>
    g_entries (a_config s') = [] \<and> custom_ok (a_config s')"
  using custom_ok_ops(1)
  by (auto simp: drop_values_def CustomRPC_UnmapPage_def CustomRPC_HasConfig_def CustomRPC_ClearConfig_def Let_def
      split: prod.splits if_splits)

lemma activity_parts_ok:
  assumes "activity_parts e me prefs tid mediaType pid s n = (titleid, name, publisher, extra, s', n')" and "custom_ok (a_config s)"
  shows "length titleid = 16" and "\<forall>c \<in> set titleid. \<not> ends_value c" and "length name \<le> 511" and "length publisher \<le> 255"
    and "length extra \<le> 575" and "custom_ok (a_config s')"
    and "titleid = hex16 tid"
    and "g_isMapped (a_page s') \<Longrightarrow> g_mappedPid (a_page s') = pid"
    and "g_entries (a_config s') \<noteq> [] \<Longrightarrow> a_config s' = a_config s \<and> tid \<noteq> 0"
    and "a_session s' = a_session s"
proof -
  have h0: "hex16 0 = ascii ''0000000000000000''" by (simp add: hex16_def upper_hex_def ascii_def upt_rec)
  have "length titleid = 16 \<and> titleid = hex16 tid \<and> length name \<le> 511 \<and> length publisher \<le> 255 \<and> length extra \<le> 575 \<and>
    custom_ok (a_config s') \<and> (g_isMapped (a_page s') \<longrightarrow> g_mappedPid (a_page s') = pid) \<and>
    (g_entries (a_config s') \<noteq> [] \<longrightarrow> a_config s' = a_config s \<and> tid \<noteq> 0) \<and> a_session s' = a_session s"
  proof (cases "tid = 0")
    case True
    obtain s1 n1 where d: "drop_values me s n = (s1, n1)" by (cases "drop_values me s n")
    have "a_session s1 = a_session s" using d by (auto simp: drop_values_def Let_def split: prod.splits)
    then show ?thesis using assms(1) True d drop_values_clear [OF d] h0
      by (auto simp: activity_parts_def ascii_def hex16_ok(1))
  next
    case False
    obtain res smdh n1 where rd: "read_smdh e tid mediaType (smdh_buffer s) n = (res, smdh, n1)" by (rule prod_cases3)
    obtain nm pb n2 where ex: "(if \<not> rfailed res then extract_smdh_strings e prefs smdh 512 256 n1 else (([], []), n1)) = ((nm, pb), n2)"
      by (metis prod.exhaust)
    obtain s2 n3 where rm: "remap_page me pid (s\<lparr>smdh_buffer := smdh\<rparr>) n2 = (s2, n3)" by (cases "remap_page me pid (s\<lparr>smdh_buffer := smdh\<rparr>) n2")
    note k = remap_page_keeps [OF rm]
    have parts: "titleid = hex16 tid" "name = nm" "publisher = pb" "s' = s2"
      "extra = (if CustomRPC_HasConfig (a_config s2)
        then CustomRPC_BuildExtraString (own_byte me n3) (a_page s2) (CUSTOMRPC_EXTRA_SIZE + 1) (a_config s2) else [])"
      using assms(1) False rd ex rm unfolding activity_parts_def Let_def by auto
    have "length nm \<le> 511 \<and> length pb \<le> 255" using ex extracted_lengths [of e prefs smdh 512 256 n1 nm pb n2] by (auto split: if_splits)
    then show ?thesis using parts k assms(2) extra_string_length [of "a_config s2"] False by (simp add: hex16_ok(1))
  qed
  then show "length titleid = 16" "titleid = hex16 tid" "length name \<le> 511" "length publisher \<le> 255" "length extra \<le> 575" "custom_ok (a_config s')"
    "g_isMapped (a_page s') \<Longrightarrow> g_mappedPid (a_page s') = pid"
    "g_entries (a_config s') \<noteq> [] \<Longrightarrow> a_config s' = a_config s \<and> tid \<noteq> 0" "a_session s' = a_session s" by blast+
  then show "\<forall>c \<in> set titleid. \<not> ends_value c" using hex16_ok(2) by blast
qed

text \<open>C39: the text of an activity is never cut and never ambiguous: the server that splits it at the separators and decodes
  the fields gets the number of the title, the name, the publisher and the memory values as they were.\<close>

theorem activity_string_decodes:
  assumes "custom_ok (a_config s)" and "activity_parts e me prefs tid mediaType pid s n = (titleid, name, publisher, extra, s', n')"
    and "create_activity_string e me prefs 5500 tid mediaType pid s n = (text, s', n')"
  shows "length text < 5500 \<and> field_value (ascii ''titleid'') text = Some (hex16 tid) \<and>
    map_option url_decode (field_value (ascii ''name'') text) = Some name \<and>
    map_option url_decode (field_value (ascii ''publisher'') text) = Some publisher \<and>
    map_option url_decode (field_value (ascii ''extra'') text) = (if extra = [] then None else Some extra)"
proof -
  note ok = activity_parts_ok [OF assms(2,1)]
  have t: "text = activity_text 5500 titleid name publisher extra"
    using assms(2,3) by (simp add: create_activity_string_def)
  have "length text < 5500"
    unfolding t activity_text_whole [OF ok(1,3,4,5)]
    using ok(1,3-5) length_encoding [of name] length_encoding [of publisher] length_encoding [of extra]
    by (simp add: ascii_def del: length_concat)
  then show ?thesis unfolding t using activity_text_fields [OF ok(1-5)] ok(7) by simp
qed

section \<open>Whose values are sent\<close>

text \<open>A table comes from a reply that \<open>discord_get_script\<close> accepted for the title it is loaded for.\<close>

definition table_signed :: "'n discord_env \<Rightarrow> custom_rpc \<Rightarrow> bool" where
  "table_signed de c \<longleftrightarrow> g_loaded_titleid c \<noteq> 0 \<and>
     (\<exists>code sess n sess' n'. discord_get_script de (g_loaded_titleid c) (word_of_nat CUSTOMRPC_EXTRA_SIZE) sess n = Some (0, Some code, sess', n') \<and>
       g_entries c = g_entries (snd (CustomRPC_LoadConfigFromString (g_loaded_titleid c) (Some code) c)))"

text \<open>The activity over time: ticks, the places where the main loop drops the values, and everything that
  only changes the session and the system.\<close>

inductive activity_run :: "'n act_env \<Rightarrow> 'n map_env \<Rightarrow> 'n discord_env \<Rightarrow> activity \<Rightarrow> 'n \<Rightarrow> bool" for e me de where
  run_start: "g_entries (a_config s) = [] \<Longrightarrow> activity_run e me de s n"
| run_tick: "activity_run e me de s n \<Longrightarrow> discord_activity_tick e me de prefs 5500 s n = Some (r, text, s', n') \<Longrightarrow> activity_run e me de s' n'"
| run_drop: "activity_run e me de s n \<Longrightarrow> drop_values me s n = (s', n') \<Longrightarrow> activity_run e me de s' n'"
| run_other: "activity_run e me de s n \<Longrightarrow> activity_run e me de (s\<lparr>a_session := sess\<rparr>) n'"

lemma load_entries: "g_entries (snd (CustomRPC_LoadConfigFromString t (Some code) c)) = g_entries (snd (CustomRPC_LoadConfigFromString t (Some code) c'))"
  by (simp add: CustomRPC_LoadConfigFromString_def CustomRPC_ClearConfig_def parse_entries_def Let_def)

lemma load_titleid: "g_loaded_titleid (snd (CustomRPC_LoadConfigFromString t (Some code) c)) = t"
  by (simp add: CustomRPC_LoadConfigFromString_def Let_def)

lemma script_is_some:
  assumes "discord_get_script de tid m sess n = Some (0, code, sess', n')"
  shows "\<exists>c. code = Some c"
proof -
  let ?key = "decode_aes_key (g_aes_key_hex de)"
  obtain r resp n1 where p: "discord_http_post de n (API_ROUTE ''script'')
      (snprintf 256 (ascii ''uuid='' @ g_uuid de @ ascii ''&auth_hex='' @
        build_auth ?key (snprintf 64 (ascii ''titleid='' @ hex16 tid)) (g_counter sess) @ ascii ''&titleid='' @ hex16 tid)) []
      = (r, resp, n1)"
    by (rule prod_cases3)
  obtain f c where c: "discord_parse_field resp (ascii ''code'') m = Some (f, c)" "f \<longrightarrow> c \<noteq> None"
    using code_field_ends [of resp m] by blast
  obtain f' t' where "parse_field resp ''sig_hex'' 97 = Some (f', t')" using field_ends(5) [of resp 97] by auto
  then have "f \<and> code = c" using assms p c(1) by (auto simp: discord_get_script_def Let_def split: if_splits)
  then show ?thesis using c(2) by simp
qed

lemma fetch_result:
  assumes "fetch_script_for_title me de tid s n = Some (r, s', n')" and "custom_ok (a_config s)"
    and "g_entries (a_config s) \<noteq> [] \<Longrightarrow> table_signed de (a_config s)"
  shows "custom_ok (a_config s') \<and> (g_entries (a_config s') \<noteq> [] \<longrightarrow> table_signed de (a_config s') \<and> g_loaded_titleid (a_config s') = tid)"
proof -
  consider (zero) "tid = 0" | (tried) "tid \<noteq> 0" "CustomRPC_TriedForTitle tid (a_config s)"
    | (fetch) "tid \<noteq> 0" "\<not> CustomRPC_TriedForTitle tid (a_config s)" by blast
  then show ?thesis
  proof cases
    case zero
    then obtain s1 n1 where d: "drop_values me s n = (s1, n1)" and "s' = s1"
      using assms(1) by (auto simp: fetch_script_for_title_def split: prod.splits)
    then show ?thesis using drop_values_clear [OF d] by simp
  next
    case tried
    then have "s' = s" "g_loaded_titleid (a_config s) = tid" using assms(1) by (auto simp: fetch_script_for_title_def CustomRPC_TriedForTitle_def)
    then show ?thesis using assms(2,3) by simp
  next
    case fetch
    let ?cleared = "CustomRPC_ClearConfig (a_config s)"
    have e: "g_entries ?cleared = []" "g_entries (CustomRPC_ClearConfig c) = []" "g_entries (CustomRPC_MarkTried tid ?cleared) = []" for c
      by (simp_all add: CustomRPC_ClearConfig_def CustomRPC_MarkTried_def)
    obtain sr code sess n1 where g: "discord_get_script de tid (word_of_nat CUSTOMRPC_EXTRA_SIZE) (a_session s) n = Some (sr, code, sess, n1)"
      using assms(1) fetch by (auto simp: fetch_script_for_title_def Let_def bind_eq_Some_conv)
    have s': "s' = (if sr \<noteq> 0 then s\<lparr>a_config := CustomRPC_ClearConfig ?cleared, a_session := sess\<rparr>
        else if the code = [] \<or> hd (the code) = 0x2D then s\<lparr>a_config := CustomRPC_MarkTried tid ?cleared, a_session := sess\<rparr>
        else s\<lparr>a_config := snd (CustomRPC_LoadConfigFromString tid (Some (the code)) ?cleared), a_session := sess\<rparr>)"
      using assms(1) fetch g by (auto simp: fetch_script_for_title_def Let_def split: if_splits)
    show ?thesis
    proof (cases "sr = 0 \<and> \<not> (the code = [] \<or> hd (the code) = 0x2D)")
      case True
      have sr: "sr = 0" using True by simp
      obtain c where c: "code = Some c" using script_is_some [OF g [unfolded sr]] by blast
      have a: "a_config s' = snd (CustomRPC_LoadConfigFromString tid (Some c) ?cleared)" using s' True c by simp
      have l: "g_loaded_titleid (a_config s') = tid" unfolding a by (rule load_titleid)
      have "g_entries (a_config s') = g_entries (snd (CustomRPC_LoadConfigFromString tid (Some c) (a_config s')))"
        using load_entries [of tid c ?cleared "a_config s'"] a by simp
      then have "table_signed de (a_config s')"
        unfolding table_signed_def l using g [unfolded sr c] fetch(1) by blast
      then show ?thesis using l custom_ok_ops(2) a by metis
    next
      case False
      then have "a_config s' = CustomRPC_ClearConfig ?cleared \<or> a_config s' = CustomRPC_MarkTried tid ?cleared"
        using s' by auto
      then show ?thesis using e custom_ok_ops(1,3) by auto
    qed
  qed
qed

definition activity_inv :: "'n discord_env \<Rightarrow> activity \<Rightarrow> bool" where
  "activity_inv de s \<longleftrightarrow> custom_ok (a_config s) \<and> (g_entries (a_config s) \<noteq> [] \<longrightarrow> table_signed de (a_config s))"

text \<open>What one tick leaves behind.\<close>

lemma tick_result:
  assumes "discord_activity_tick e me de prefs 5500 s n = Some (r, text, s', n')" and "activity_inv de s"
    and "get_current_app_info e n = (tid, mediaType, pid, n0)"
  shows "activity_inv de s' \<and> (r = 0 \<longrightarrow>
    (field_value (ascii ''extra'') text \<noteq> None \<longrightarrow> tid \<noteq> 0 \<and> prefs ! PREFS_DISABLE_CUSTOMRPC = 0 \<and>
       g_loaded_titleid (a_config s') = tid \<and> table_signed de (a_config s') \<and>
       (g_isMapped (a_page s') \<longrightarrow> g_mappedPid (a_page s') = pid)))"
proof -
  obtain res s1 n1 where f: "(if prefs ! PREFS_DISABLE_CUSTOMRPC = 0 then fetch_script_for_title me de tid s n0
      else (let (s, n) = drop_values me s n0 in Some (0, s, n))) = Some (res, s1, n1)"
    using assms(1,3) by (auto simp: discord_activity_tick_def bind_eq_Some_conv)
  have inv1: "activity_inv de s1" and own: "g_entries (a_config s1) \<noteq> [] \<longrightarrow> g_loaded_titleid (a_config s1) = tid \<and> prefs ! PREFS_DISABLE_CUSTOMRPC = 0"
  proof -
    have "custom_ok (a_config s1) \<and> (g_entries (a_config s1) \<noteq> [] \<longrightarrow> table_signed de (a_config s1) \<and>
        g_loaded_titleid (a_config s1) = tid \<and> prefs ! PREFS_DISABLE_CUSTOMRPC = 0)"
    proof (cases "prefs ! PREFS_DISABLE_CUSTOMRPC = 0")
      case True
      then show ?thesis using f fetch_result [of me de tid s n0 res s1 n1] assms(2) by (simp add: activity_inv_def)
    next
      case False
      then have "drop_values me s n0 = (s1, n1)" using f by (auto split: prod.splits)
      from drop_values_clear [OF this] show ?thesis by simp
    qed
    then show "activity_inv de s1" "g_entries (a_config s1) \<noteq> [] \<longrightarrow> g_loaded_titleid (a_config s1) = tid \<and> prefs ! PREFS_DISABLE_CUSTOMRPC = 0"
      by (auto simp: activity_inv_def)
  qed
  show ?thesis
  proof (cases "res = 0")
    case False
    then show ?thesis using assms(1,3) f inv1 by (simp add: discord_activity_tick_def)
  next
    case True
    obtain titleid name publisher extra s2 n2 where p: "activity_parts e me prefs tid mediaType pid s1 n1 = (titleid, name, publisher, extra, s2, n2)"
      by (metis prod.exhaust)
    have eq: "s' = s2" "text = activity_text 5500 titleid name publisher extra"
      using assms(1,3) f True p by (auto simp: discord_activity_tick_def create_activity_string_def)
    note ok = activity_parts_ok [OF p inv1 [unfolded activity_inv_def, THEN conjunct1]]
    have inv2: "activity_inv de s2" using ok(6,9) inv1 by (auto simp: activity_inv_def)
    have "extra = [] \<or> g_entries (a_config s2) \<noteq> []"
      using p by (auto simp: activity_parts_def CustomRPC_HasConfig_def Let_def split: prod.splits if_splits)
    then have "field_value (ascii ''extra'') text \<noteq> None \<longrightarrow> g_entries (a_config s2) \<noteq> []"
      unfolding eq(2) using activity_text_fields(4) [OF ok(1-5)] by auto
    then show ?thesis unfolding eq(1) using ok(8,9) inv2 own by (auto simp: activity_inv_def)
  qed
qed

lemma activity_run_inv: "activity_run e me de s n \<Longrightarrow> activity_inv de s"
proof (induction rule: activity_run.induct)
  case (run_start s n)
  then show ?case by (simp add: activity_inv_def custom_ok_def)
next
  case (run_tick s n prefs r t s' n')
  obtain tid mediaType pid n0 where "get_current_app_info e n = (tid, mediaType, pid, n0)" by (metis prod.exhaust)
  from tick_result [OF run_tick.hyps(2) run_tick.IH this] show ?case by blast
next
  case (run_drop s n s' n')
  show ?case using drop_values_clear [OF run_drop.hyps(2)] by (simp add: activity_inv_def)
next
  case (run_other s n sess n')
  then show ?case by (simp add: activity_inv_def)
qed

text \<open>C38: whatever happened before, memory values are sent only for the title that is running, read
  with the table of a reply that the server signed for this very title, from the process of that title
  and only when the user has not turned the values off.\<close>

theorem values_of_running_title:
  assumes "activity_run e me de s n" and "get_current_app_info e n = (tid, mediaType, pid, n0)"
    and "discord_activity_tick e me de prefs 5500 s n = Some (0, text, s', n')"
    and "field_value (ascii ''extra'') text \<noteq> None"
  shows "tid \<noteq> 0 \<and> prefs ! PREFS_DISABLE_CUSTOMRPC = 0 \<and> g_loaded_titleid (a_config s') = tid \<and> table_signed de (a_config s') \<and>
    (g_isMapped (a_page s') \<longrightarrow> g_mappedPid (a_page s') = pid)"
  using tick_result [OF assms(3) activity_run_inv [OF assms(1)] assms(2)] assms(4) by blast

section \<open>Examples\<close>

text \<open>A system with a title 7 in process 40 whose icon cannot be read, and one without a title.\<close>

definition demo_act :: "u64 \<Rightarrow> unit act_env" where
  "demo_act tid = \<lparr>PMDBG_GetCurrentAppInfo = (\<lambda>n. (Some (tid, 1, 40), n)), OpenFileDirectly = (\<lambda>n a p. (-1, 0, n)),
     ReadFile = (\<lambda>n h k. (0, [], n)), CloseFile = (\<lambda>n h. n), cfguInit = (\<lambda>n. (False, n)),
     CFGU_GetSystemLanguage = (\<lambda>n. (1, n)), cfguExit = (\<lambda>n. n), utf16_to_utf8 = (\<lambda>t k. [ucast (hd t)])\<rparr>"

definition demo_no_map :: "unit map_env" where
  "demo_no_map = \<lparr>svc_OpenProcess = (\<lambda>n pid. (-1, 0, n)), svc_GetProcessInfo = (\<lambda>n h t. 0), svc_MapProcessMemoryEx = (\<lambda>n d h a k. (-1, n)),
     svc_UnmapProcessMemoryEx = (\<lambda>n d k. n), svc_CloseHandle = (\<lambda>n h. n), own_byte = (\<lambda>n a. 0)\<rparr>"

definition demo_activity :: activity where
  "demo_activity = \<lparr>smdh_buffer = replicate 0x36C0 0x41,
     a_page = \<lparr>g_mappedProcessHandle = 0, g_mappedPid = 0, g_mappedPageStart = 0, g_mappedSize = 0, g_isMapped = False\<rparr>,
     a_config = \<lparr>g_entries = [], g_loaded_titleid = 0, g_tried = False\<rparr>, a_session = demo_session\<rparr>"

theorem first_language_with_name_witness:
  "extract_smdh_strings (demo_act 7) [0, 0, 0, 0, 0, 0, 4] (replicate 0x36C0 0x41) 512 256 () = (([0x41], [0x41]), ())"
proof -
  let ?s = "replicate 0x36C0 0x41 :: bytes"
  have f: "first_language (demo_act 7) ([0, 0, 0, 0, 0, 0, 4] ! PREFS_RPC_LANGUAGE) () = (3, ())"
    by (simp add: first_language_def PREFS_RPC_LANGUAGE_def RPC_LANGUAGE_AUTO_def RPC_LANGUAGE_MAX_def)
  have h: "half_at ?s p = 0x4141" if "p + 1 < 0x36C0" for p
  proof -
    have "?s ! p = 0x41" "?s ! (p + 1) = 0x41" using that by (simp_all only: nth_replicate add_lessD1 [OF that])
    then show ?thesis by (simp add: half_at_def)
  qed
  have o: "smdh_name_offset ?s = 0x80"
    by (simp add: smdh_name_offset_def smdh_is_region_free_def SMDH_REGION_LOCKOUT_OFFSET_def SMDH_LONG_DESC_OFFSET_def)
  have name: "smdh_lang_has_name ?s 3"
    unfolding smdh_lang_has_name_def o by (subst h) (simp_all add: SMDH_TITLES_OFFSET_def SMDH_TITLE_ENTRY_SIZE_def)
  have hf: "hd (halves_from ?s p) = 0x4141" if "p + 2 < 0x36C0" for p
  proof -
    have "0 < (length ?s - p) div 2" using that by simp
    then have "[0..<(length ?s - p) div 2] = 0 # [1..<(length ?s - p) div 2]" by (simp add: upt_conv_Cons)
    then show ?thesis using h [of p] that by (simp add: halves_from_def)
  qed
  have u: "utf8_text (demo_act 7) (halves_from ?s p) k = [0x41]" if "p + 2 < 0x36C0" "2 \<le> k" for p k
    using hf [OF that(1)] that(2) by (simp add: utf8_text_def demo_act_def)
  have "smdh_copy_lang (demo_act 7) ?s 3 512 256 = ([0x41], [0x41])"
    unfolding smdh_copy_lang_def Let_def o
    by (simp add: u SMDH_TITLES_OFFSET_def SMDH_TITLE_ENTRY_SIZE_def SMDH_PUBLISHER_OFFSET_def)
  then show ?thesis using first_language_with_name [OF f, of ?s 512 256] name by simp
qed

theorem activity_string_decodes_witness:
  "map_option url_decode (field_value (ascii ''name'')
     (fst (create_activity_string (demo_act 0) demo_no_map [0, 0, 0, 0, 0, 0, 4] 5500 0 1 40 demo_activity ()))) = Some (ascii ''Home Menu'')"
proof -
  have ok: "custom_ok (a_config demo_activity)" by (simp add: demo_activity_def custom_ok_def)
  obtain s1 n1 where d: "drop_values demo_no_map demo_activity () = (s1, n1)" by (cases "drop_values demo_no_map demo_activity ()")
  have p: "activity_parts (demo_act 0) demo_no_map [0, 0, 0, 0, 0, 0, 4] 0 1 40 demo_activity () =
      (ascii ''0000000000000000'', ascii ''Home Menu'', ascii ''Nintendo'', [], s1, n1)"
    by (simp add: activity_parts_def d)
  obtain t s2 n2 where c: "create_activity_string (demo_act 0) demo_no_map [0, 0, 0, 0, 0, 0, 4] 5500 0 1 40 demo_activity () = (t, s2, n2)"
    by (rule prod_cases3)
  then have "s2 = s1" "n2 = n1" using p by (simp_all add: create_activity_string_def)
  from activity_string_decodes [OF ok p c [unfolded this]] show ?thesis by (simp add: c)
qed

theorem values_of_running_title_witness:
  "\<exists>text s'. discord_activity_tick (demo_act 7) demo_no_map (demo_net 5) [0, 0, 0, 0, 0, 0, 4] 5500 demo_activity () = Some (0, text, s', ()) \<and>
     field_value (ascii ''extra'') text \<noteq> None \<and> table_signed (demo_net 5) (a_config s')"
proof -
  let ?cleared = "CustomRPC_ClearConfig (a_config demo_activity)"
  let ?x = "\<lparr>address = 0x00100000, entry_type = 0x77\<rparr>"
  let ?c = "\<lparr>g_entries = [?x], g_loaded_titleid = 7, g_tried = True\<rparr>"
  have code: "ascii ''00100000w'' = join 0x2C (map entry_code (g_entries ?c))"
    by (simp add: ascii_def entry_code_def hex_digits_def upper_hex_def upt_rec)
  have l: "CustomRPC_LoadConfigFromString 7 (Some (ascii ''00100000w'')) ?cleared = (True, ?c)"
    using script_text_roundtrip_fact [of "g_entries ?c" 7 ?cleared]
    unfolding code by (simp add: entry_ok_def CUSTOMRPC_MAX_ENTRIES_def CustomRPC_ClearConfig_def demo_activity_def del: join.simps)
  have run: "activity_run (demo_act 7) demo_no_map (demo_net 5) demo_activity ()"
    by (rule run_start) (simp add: demo_activity_def)
  have app: "get_current_app_info (demo_act 7) () = (7, 1, 40, ())" by (simp add: get_current_app_info_def demo_act_def)
  let ?s1 = "demo_activity\<lparr>a_config := ?c, a_session := tick demo_session\<rparr>"
  have "discord_get_script (demo_net 5) 7 (word_of_nat CUSTOMRPC_EXTRA_SIZE) demo_session () = Some (0, Some (ascii ''00100000w''), tick demo_session, ())"
    by (simp add: CUSTOMRPC_EXTRA_SIZE_def demo_accepts)
  moreover have "ascii ''00100000w'' \<noteq> []" "hd (ascii ''00100000w'') \<noteq> 0x2D" by (simp_all add: ascii_def)
  moreover have "a_session demo_activity = demo_session" "\<not> CustomRPC_TriedForTitle 7 (a_config demo_activity)"
    by (simp_all add: demo_activity_def CustomRPC_TriedForTitle_def)
  ultimately have f: "fetch_script_for_title demo_no_map (demo_net 5) 7 demo_activity () = Some (0, ?s1, ())"
    by (simp add: fetch_script_for_title_def l)
  obtain titleid name publisher extra s2 n2 where
    p: "activity_parts (demo_act 7) demo_no_map [0, 0, 0, 0, 0, 0, 4] 7 1 40 ?s1 () = (titleid, name, publisher, extra, s2, n2)"
    by (metis prod.exhaust)
  have ok: "custom_ok (a_config ?s1)" by (simp add: custom_ok_def entry_ok_def CUSTOMRPC_MAX_ENTRIES_def)
  have "CustomRPC_BuildExtraString b pg 1025 ?c \<noteq> []" for b pg
    by (simp add: CustomRPC_BuildExtraString_def CustomRPC_HasConfig_def entry_text_def Let_def)
  then have x: "extra \<noteq> []"
    using p by (auto simp: activity_parts_def read_smdh_def demo_act_def demo_no_map_def remap_page_def CustomRPC_GetMappedPid_def
        CustomRPC_MapPage_def CustomRPC_UnmapPage_def CustomRPC_HasConfig_def demo_activity_def CUSTOMRPC_EXTRA_SIZE_def rfailed_def Let_def)
  let ?t = "activity_text 5500 titleid name publisher extra"
  have t: "discord_activity_tick (demo_act 7) demo_no_map (demo_net 5) [0, 0, 0, 0, 0, 0, 4] 5500 demo_activity () = Some (0, ?t, s2, ())"
    using f p by (simp add: discord_activity_tick_def app PREFS_DISABLE_CUSTOMRPC_def create_activity_string_def)
  have e: "field_value (ascii ''extra'') ?t \<noteq> None"
    using activity_text_fields(4) [OF activity_parts_ok(1-5) [OF p ok]] x by auto
  show ?thesis using t e values_of_running_title [OF run app t e] by blast
qed

end
