(* ===== verification/Presence_Aux.thy ===== *)
theory Presence_Aux
  imports Discord_Session_Claims
begin

text \<open>
  Small parts of the client: the version it tells other processes (\<open>discord/presence_ipc.c\<close>) and the Mii of the
  console as text (\<open>discord/utils/mii_utils.c\<close>).

  The header of an IPC message is computed by a macro of the system library, \<open>mk\<close>; the friends service is an
  environment. A command buffer is the list of its words.
\<close>

section \<open>The version\<close>

definition PRESENCE3DS_VERSION :: bytes where "PRESENCE3DS_VERSION = ascii ''v1.3.2''"

definition is_ascii_digit :: "u8 \<Rightarrow> bool" where
  "is_ascii_digit c \<longleftrightarrow> 0x30 \<le> c \<and> c \<le> 0x39"

text \<open>One number of the version, and the text behind it.\<close>

definition next_number :: "bytes \<Rightarrow> u32 \<times> bytes" where
  "next_number p =
     (let p = dropWhile (\<lambda>c. \<not> is_ascii_digit c) p
      in (foldl (\<lambda>value c. value * 10 + (ucast c - 0x30)) 0 (takeWhile is_ascii_digit p), dropWhile is_ascii_digit p))"

definition parseVersion :: "bytes \<Rightarrow> u32 \<times> u32 \<times> u32" where
  "parseVersion p =
     (let (major, p) = next_number p; (minor, p) = next_number p; (patch, p) = next_number p in (major, minor, patch))"

definition replyError :: "(u32 \<Rightarrow> u32 \<Rightarrow> u32 \<Rightarrow> u32) \<Rightarrow> u32 \<Rightarrow> u32 list \<Rightarrow> u32 list" where
  "replyError mk res cmdbuf = cmdbuf[0 := mk 0 1 0, 1 := res]"

definition PresenceIPC__HandleCommands :: "(u32 \<Rightarrow> u32 \<Rightarrow> u32 \<Rightarrow> u32) \<Rightarrow> u32 list \<Rightarrow> u32 list" where
  "PresenceIPC__HandleCommands mk cmdbuf =
     (if drop_bit 16 (cmdbuf ! 0) = 1 then
        (if cmdbuf ! 0 \<noteq> mk 1 0 0 then replyError mk 0xD9001830 cmdbuf
         else let (major, minor, patch) = parseVersion PRESENCE3DS_VERSION
              in cmdbuf[0 := mk 1 2 0, 1 := 0, 2 := push_bit 24 major OR push_bit 16 minor OR push_bit 8 patch])
      else replyError mk 0xD900182F cmdbuf)"

text \<open>The version that is told is the one of the client, a byte for each number; any other command is answered with
  its error, and no word behind the answer changes.\<close>

lemma version_told:
  assumes "3 \<le> length cmdbuf" and "drop_bit 16 (mk 1 0 0) = 1"
  shows "PresenceIPC__HandleCommands mk cmdbuf =
    (if cmdbuf ! 0 = mk 1 0 0 then [mk 1 2 0, 0, 0x01030200]
     else if drop_bit 16 (cmdbuf ! 0) = 1 then [mk 0 1 0, 0xD9001830, cmdbuf ! 2]
     else [mk 0 1 0, 0xD900182F, cmdbuf ! 2]) @ drop 3 cmdbuf"
proof -
  have v: "parseVersion PRESENCE3DS_VERSION = (1, 3, 2)" by code_simp
  obtain a b c xs where "cmdbuf = a # b # c # xs" using assms(1) by (auto simp: Suc_le_length_iff numeral_3_eq_3)
  then show ?thesis using assms(2) v by (auto simp: PresenceIPC__HandleCommands_def replyError_def)
qed

section \<open>The Mii\<close>

definition CFLSTORE_SIZE :: nat where "CFLSTORE_SIZE = 0x62"
definition MII_OUT_SIZE :: nat where "MII_OUT_SIZE = (CFLSTORE_SIZE - 2) * 2 + 1"

record 'n frd_env =
  frdInit :: "'n \<Rightarrow> bool \<times> 'n"
  FRD_GetMyMii :: "'n \<Rightarrow> bool \<times> bytes \<times> 'n"
  frdExit :: "'n \<Rightarrow> 'n"

definition mii_get_raw_hex :: "'n frd_env \<Rightarrow> nat \<Rightarrow> 'n \<Rightarrow> bytes option \<times> 'n" where
  "mii_get_raw_hex e out_size n =
     (if out_size < MII_OUT_SIZE then (None, n)
      else let (ok, n) = frdInit e n
           in if \<not> ok then (None, n)
              else let (ok, mii, n) = FRD_GetMyMii e n; n = frdExit e n
                   in if \<not> ok then (None, n) else (Some (bytes_to_hex (take (CFLSTORE_SIZE - 2) mii)), n))"

text \<open>The text fits the buffer and gives back all bytes of the Mii but its checksum.\<close>

lemma mii_hex_complete:
  assumes "mii_get_raw_hex e out_size n = (Some t, n')" and "FRD_GetMyMii e (snd (frdInit e n)) = (True, mii, n1)" and "length mii = CFLSTORE_SIZE"
  shows "length t < out_size \<and> unhex t = take 96 mii"
  using assms by (auto simp: mii_get_raw_hex_def MII_OUT_SIZE_def CFLSTORE_SIZE_def length_bytes_to_hex unhex_bytes Let_def
      split: prod.splits if_splits)

end
