(* ===== verification/Loader_Search.thy ===== *)
theory Loader_Search
  imports Prelude
begin

text \<open>
  The search and the replacement of byte patterns in program code: \<open>memsearch\<close>
  (\<open>loader/source/memory.c\<close>) and \<open>patchMemory\<close> (\<open>loader/source/patcher.c\<close>).

  The code is a list of bytes, a pointer into it an offset. Sizes and positions are 32 bits wide
  as in the source. \<^term>\<open>None\<close>: the routine reads or writes outside the code, or does not return.

  Lemmas: the shift of the search skips no occurrence, so the first one is found.
\<close>

section \<open>The search\<close>

definition shift_table :: "bytes \<Rightarrow> u32 list" where
  "shift_table pat =
     (let patternSize = word_of_nat (length pat) :: u32
      in fold (\<lambda>i table. table[unat (pat ! i) := patternSize - word_of_nat i - 1]) [0..<unat (patternSize - 1)]
           (replicate 256 patternSize))"

text \<open>The bytes of the code from offset \<open>p\<close> on, \<open>n\<close> of them.\<close>

definition code_at :: "bytes \<Rightarrow> nat \<Rightarrow> nat \<Rightarrow> bytes" where
  "code_at code p n = take n (drop p code)"

partial_function (option) horspool_loop :: "bytes \<Rightarrow> nat \<Rightarrow> u32 \<Rightarrow> bytes \<Rightarrow> u32 list \<Rightarrow> u32 \<Rightarrow> u32 option option" where
  "horspool_loop code start sz pat table j =
     (let patternSize = word_of_nat (length pat); last_at = start + unat (j + patternSize - 1)
      in if \<not> j \<le> sz - patternSize then Some None
         else if \<not> last_at < length code then None
         else let c = code ! last_at
              in if last pat = c \<and> butlast pat = code_at code (start + unat j) (length pat - 1) then Some (Some j)
                 else horspool_loop code start sz pat table (j + table ! unat c))"

definition memsearch :: "bytes \<Rightarrow> nat \<Rightarrow> u32 \<Rightarrow> bytes \<Rightarrow> u32 option option" where
  "memsearch code start sz pat =
     (if pat = [] then None else horspool_loop code start sz pat (shift_table pat) 0)"

section \<open>Replacement\<close>

text \<open>\<open>memcpy\<close> of \<open>rep\<close> to the signed offset \<open>p\<close>.\<close>

definition splice :: "bytes \<Rightarrow> nat \<Rightarrow> bytes \<Rightarrow> bytes" where
  "splice code p rep = take p code @ rep @ drop (p + length rep) code"

definition write_code :: "bytes \<Rightarrow> int \<Rightarrow> bytes \<Rightarrow> bytes option" where
  "write_code code p rep =
     (if 0 \<le> p \<and> nat p + length rep \<le> length code then Some (splice code (nat p) rep) else None)"

text \<open>The first argument counts the turns left, the result is the number of replacements.\<close>

fun patch_loop :: "nat \<Rightarrow> bytes \<Rightarrow> nat \<Rightarrow> u32 \<Rightarrow> bytes \<Rightarrow> int \<Rightarrow> bytes \<Rightarrow> u32 \<Rightarrow> (u32 \<times> bytes) option" where
  "patch_loop 0 code start sz pat offset rep i = Some (i, code)"
| "patch_loop (Suc n) code start sz pat offset rep i =
     (case memsearch code start sz pat of
        None \<Rightarrow> None
      | Some None \<Rightarrow> Some (i, code)
      | Some (Some at) \<Rightarrow>
          (case write_code code (int (start + unat at) + offset) rep of
             None \<Rightarrow> None
           | Some code \<Rightarrow>
               let patSize = word_of_nat (length pat) :: u32
               in if at + patSize > sz then Some (i, code)
                  else patch_loop n code (start + unat at + length pat) (sz - (at + patSize)) pat offset rep (i + 1)))"

definition patchMemory :: "bytes \<Rightarrow> nat \<Rightarrow> u32 \<Rightarrow> bytes \<Rightarrow> int \<Rightarrow> bytes \<Rightarrow> u32 \<Rightarrow> (u32 \<times> bytes) option" where
  "patchMemory code start sz pat offset rep cnt = patch_loop (unat cnt) code start sz pat offset rep 0"

section \<open>The first occurrence\<close>

definition occurs_at :: "bytes \<Rightarrow> bytes \<Rightarrow> nat \<Rightarrow> bool" where
  "occurs_at pat code p \<longleftrightarrow> code_at code p (length pat) = pat"

definition first_match :: "bytes \<Rightarrow> nat \<Rightarrow> nat \<Rightarrow> bytes \<Rightarrow> nat option" where
  "first_match code start sz pat =
     (if length pat \<le> sz then find (\<lambda>j. occurs_at pat code (start + j)) [0..<sz - length pat + 1] else None)"

text \<open>The entry of a byte is its distance from the end of the pattern, at its last place before the end.\<close>

lemma shift_table_nth:
  assumes n: "length pat < 2 ^ 32" and p: "pat \<noteq> []" and c: "c < 256"
  shows "\<exists>d. unat (shift_table pat ! c) = d \<and> 0 < d \<and> d \<le> length pat \<and>
    (\<forall>i < length pat - 1. unat (pat ! i) = c \<longrightarrow> d \<le> length pat - 1 - i)"
proof -
  let ?ps = "word_of_nat (length pat) :: u32"
  let ?step = "\<lambda>i table. table[unat (pat ! i) := ?ps - word_of_nat i - 1]"
  have ups: "unat ?ps = length pat" using n by (simp add: unat_of_nat)
  have u1: "unat (?ps - 1) = length pat - 1" using p ups by (simp add: unat_sub word_le_nat_alt Suc_le_eq)
  have "m \<le> length pat - 1 \<Longrightarrow> length (fold ?step [0..<m] (replicate 256 ?ps)) = 256 \<and>
      (let d = unat (fold ?step [0..<m] (replicate 256 ?ps) ! c) in
       0 < d \<and> d \<le> length pat \<and> (\<forall>i < m. unat (pat ! i) = c \<longrightarrow> d \<le> length pat - 1 - i))" for m
  proof (induction m)
    case 0
    then show ?case using c ups p by simp
  next
    case (Suc m)
    let ?t = "fold ?step [0..<m] (replicate 256 ?ps)"
    have m: "m < length pat - 1" using Suc.prems by simp
    have um: "unat (word_of_nat m :: u32) = m" using m n by (simp add: unat_of_nat)
    have "unat (?ps - word_of_nat m) = length pat - m" using m um ups by (simp add: unat_sub word_le_nat_alt)
    then have d: "unat (?ps - word_of_nat m - 1) = length pat - 1 - m" using m by (simp add: unat_sub word_le_nat_alt)
    have ih: "length ?t = 256" "0 < unat (?t ! c)" "unat (?t ! c) \<le> length pat"
      "\<forall>i < m. unat (pat ! i) = c \<longrightarrow> unat (?t ! c) \<le> length pat - 1 - i" using Suc.IH m by (auto simp: Let_def)
    show ?case
    proof (cases "unat (pat ! m) = c")
      case True
      then show ?thesis using ih(1) d m c by (auto simp: Let_def less_Suc_eq)
    next
      case False
      then show ?thesis using ih c by (auto simp: Let_def less_Suc_eq)
    qed
  qed
  from this [of "length pat - 1"] show ?thesis by (auto simp: shift_table_def u1 Let_def)
qed

lemma occurs_nth: "occurs_at pat code p \<Longrightarrow> i < length pat \<Longrightarrow> code ! (p + i) = pat ! i \<and> p + i < length code"
proof -
  assume o: "occurs_at pat code p" and i: "i < length pat"
  have "length (code_at code p (length pat)) = length pat" using o by (simp add: occurs_at_def)
  then have l: "p + i < length code" using i by (simp add: code_at_def)
  have "code_at code p (length pat) ! i = code ! (p + i)" using l i by (simp add: code_at_def)
  then show ?thesis using o l by (simp add: occurs_at_def)
qed

lemma occurs_split:
  assumes "pat \<noteq> []" and "p + length pat \<le> length code"
  shows "occurs_at pat code p \<longleftrightarrow> last pat = code ! (p + length pat - 1) \<and> butlast pat = code_at code p (length pat - 1)"
proof -
  obtain n where n: "length pat = Suc n" using assms(1) by (cases pat) auto
  have "code_at code p (Suc n) = code_at code p n @ [code ! (p + n)]"
    using assms(2) n by (simp add: code_at_def take_Suc_conv_app_nth)
  moreover have "pat = butlast pat @ [last pat]" using assms(1) by simp
  moreover have "length (code_at code p n) = length (butlast pat)" using assms(2) n by (simp add: code_at_def)
  ultimately show ?thesis unfolding occurs_at_def n
    by (metis append_eq_append_conv diff_Suc_1 list.inject n add_Suc_right)
qed

text \<open>A shift by the entry of the byte under the end of the pattern skips no occurrence.\<close>

lemma shift_skips_none:
  assumes n: "length pat < 2 ^ 32" and p: "pat \<noteq> []" and l: "q + length pat \<le> length code"
    and c: "c = code ! (q + length pat - 1)" and no: "\<not> occurs_at pat code q"
    and k: "k < unat (shift_table pat ! unat c)"
  shows "\<not> occurs_at pat code (q + k)"
proof
  assume o: "occurs_at pat code (q + k)"
  have "unat c < 256" using unsigned_less [of c] by simp
  from shift_table_nth [OF n p this] have d: "unat (shift_table pat ! unat c) \<le> length pat"
    "\<And>i. i < length pat - 1 \<Longrightarrow> unat (pat ! i) = unat c \<Longrightarrow> unat (shift_table pat ! unat c) \<le> length pat - 1 - i" by auto
  show False
  proof (cases "k = 0")
    case True
    with o no show False by simp
  next
    case False
    let ?i = "length pat - 1 - k"
    have i: "?i < length pat - 1" "?i < length pat" "q + k + ?i = q + length pat - 1" using False k d(1) by auto
    have "code ! (q + k + ?i) = pat ! ?i" using occurs_nth [OF o i(2)] by simp
    then have "pat ! ?i = c" unfolding i(3) c ..
    then show False using d(2) [OF i(1)] k i by simp
  qed
qed

lemma find_first:
  assumes "j < n" and "P j" and "\<forall>k < j. \<not> P k"
  shows "find P [0..<n] = Some j"
proof -
  have "[0..<n] = [0..<j] @ j # [Suc j..<n]" using assms(1) by (metis le0 less_imp_le_nat upt_add_eq_append upt_conv_Cons le_add_diff_inverse)
  moreover have "find P [0..<j] = None" using assms(3) by (simp add: find_None_iff)
  moreover have "find P (xs @ ys) = (case find P xs of None \<Rightarrow> find P ys | Some x \<Rightarrow> Some x)" for xs ys
    by (induction xs) auto
  ultimately show ?thesis using assms(2) by simp
qed

lemma horspool_loop_first:
  assumes p: "pat \<noteq> []" "length pat \<le> unat sz" and c: "start + unat sz \<le> length code"
  shows "\<forall>k < unat j. \<not> occurs_at pat code (start + k) \<Longrightarrow> unat j \<le> unat sz \<Longrightarrow>
    horspool_loop code start sz pat (shift_table pat) j = Some (map_option word_of_nat (first_match code start (unat sz) pat))"
proof (induction "unat sz - unat j" arbitrary: j rule: less_induct)
  case less
  have lt: "unat sz < 2 ^ 32" using unsigned_less [of sz] by simp
  have n: "length pat < 2 ^ 32" and l0: "0 < length pat" using p lt by auto
  let ?ps = "word_of_nat (length pat) :: u32"
  have ups: "unat ?ps = length pat" using n by (simp add: unat_of_nat)
  have us: "unat (sz - ?ps) = unat sz - length pat" using p(2) ups by (simp add: unat_sub word_le_nat_alt)
  show ?case
  proof (cases "j \<le> sz - ?ps")
    case False
    then have "unat sz - length pat < unat j" using us by (simp add: word_le_nat_alt)
    then have "find (\<lambda>j. occurs_at pat code (start + j)) [0..<unat sz - length pat + 1] = None"
      using less.prems(1) by (auto simp: find_None_iff)
    then have "first_match code start (unat sz) pat = None" using p(2) by (simp add: first_match_def)
    then show ?thesis using False by (simp add: horspool_loop.simps Let_def)
  next
    case True
    then have j: "unat j + length pat \<le> unat sz" using us p(2) by (simp add: word_le_nat_alt)
    have "unat (j + ?ps) = unat j + length pat" using j lt ups by (simp add: unat_word_ariths)
    then have la: "unat (j + ?ps - 1) = unat j + length pat - 1" using l0 by (simp add: unat_sub word_le_nat_alt Suc_le_eq)
    let ?q = "start + unat j" and ?c = "code ! (start + unat j + length pat - 1)"
    have q: "?q + length pat \<le> length code" using j c by simp
    have e: "start + (unat j + length pat - 1) = ?q + length pat - 1" using l0 by linarith
    have in_code: "?q + length pat - 1 < length code" using q l0 by linarith
    have step: "horspool_loop code start sz pat (shift_table pat) j =
        (if occurs_at pat code ?q then Some (Some j) else horspool_loop code start sz pat (shift_table pat) (j + shift_table pat ! unat ?c))"
      using True in_code unfolding horspool_loop.simps [of code start sz pat "shift_table pat" j] Let_def la e occurs_split [OF p(1) q]
      by (simp del: One_nat_def)
    show ?thesis
    proof (cases "occurs_at pat code ?q")
      case occ: True
      have "unat j < unat sz - length pat + 1" using j by simp
      then have "find (\<lambda>j. occurs_at pat code (start + j)) [0..<unat sz - length pat + 1] = Some (unat j)"
        using occ less.prems(1) by (rule find_first)
      then show ?thesis using step occ p(2) by (simp add: first_match_def)
    next
      case no: False
      let ?d = "shift_table pat ! unat ?c"
      have "unat ?c < 256" using unsigned_less [of ?c] by simp
      from shift_table_nth [OF n p(1) this] have d: "0 < unat ?d" "unat ?d \<le> length pat" by auto
      have uj: "unat (j + ?d) = unat j + unat ?d" using d(2) j lt by (simp add: unat_word_ariths)
      have "\<not> occurs_at pat code (start + k)" if k: "k < unat (j + ?d)" for k
      proof (cases "k < unat j")
        case True
        then show ?thesis using less.prems(1) by blast
      next
        case False
        then have "k - unat j < unat ?d" using k uj by simp
        then have "\<not> occurs_at pat code (?q + (k - unat j))" by (rule shift_skips_none [OF n p(1) q refl no])
        then show ?thesis using False by simp
      qed
      moreover have "unat (j + ?d) \<le> unat sz" using uj d(2) j by simp
      moreover have "unat sz - unat (j + ?d) < unat sz - unat j" using uj d j l0 by simp
      ultimately show ?thesis using less.hyps [of "j + ?d"] step no by simp
    qed
  qed
qed

text \<open>C32: the search is the plain search for the first occurrence: for a pattern that is not empty and not longer
  than the region, and a region that lies in the code, the routine that shifts by a table returns, reads
  nothing else and finds the first place of the pattern, or that there is none. (For a region shorter
  than the pattern see \<open>memsearch_short_region\<close>.)\<close>

theorem memsearch_finds_first:
  assumes "pat \<noteq> []" and "length pat \<le> unat sz" and "start + unat sz \<le> length code"
  shows "memsearch code start sz pat = Some (map_option word_of_nat (first_match code start (unat sz) pat))"
  using horspool_loop_first [OF assms, of 0] assms(1) by (simp add: memsearch_def)

theorem memsearch_finds_first_witness:
  "memsearch [1, 2, 3, 2, 3, 4, 9] 1 5 [2, 3, 4] = Some (Some 2)"
  using memsearch_finds_first [of "[2, 3, 4]" 5 1 "[1, 2, 3, 2, 3, 4, 9]"]
  by (simp add: first_match_def occurs_at_def code_at_def upt_rec)

text \<open>In a region shorter than the pattern the bound wraps around and the search leaves the code.\<close>

lemma memsearch_short_region: "memsearch [1, 2, 3] 0 1 [3, 9] = None"
proof -
  have t: "shift_table [3, 9] = (replicate 256 2)[3 := 1]" by (simp add: shift_table_def Let_def)
  have a: "horspool_loop [1, 2, 3] 0 1 [3, 9] (shift_table [3, 9]) 2 = None"
    by (subst horspool_loop.simps) simp
  show ?thesis unfolding memsearch_def
    by (simp, subst horspool_loop.simps, simp add: t a [unfolded t] code_at_def)
qed

section \<open>Replacements\<close>

text \<open>One replacement: the first occurrence, or none and the code as it was.\<close>

lemma patchMemory_once:
  assumes "pat \<noteq> []" and "length pat \<le> unat sz" and "start + unat sz \<le> length code"
    and "\<And>j. first_match code start (unat sz) pat = Some j \<Longrightarrow>
      0 \<le> int (start + j) + offset \<and> nat (int (start + j) + offset) + length rep \<le> length code"
  shows "patchMemory code start sz pat offset rep 1 = Some
    (case first_match code start (unat sz) pat of
       None \<Rightarrow> (0, code)
     | Some j \<Rightarrow> (1, splice code (nat (int (start + j) + offset)) rep))"
proof (cases "first_match code start (unat sz) pat")
  case None
  then show ?thesis using horspool_loop_first [OF assms(1-3), of 0] assms(1) by (simp add: memsearch_def patchMemory_def)
next
  case (Some j)
  then have "j < unat sz - length pat + 1"
    using assms(2) by (auto simp: first_match_def find_Some_iff simp del: upt_Suc split: if_splits)
  then have j: "j + length pat \<le> unat sz" using assms(2) by linarith
  moreover have lt: "unat sz < 2 ^ 32" using unsigned_less [of sz] by simp
  ultimately have uj: "unat (word_of_nat j :: u32) = j" and up: "unat (word_of_nat (length pat) :: u32) = length pat"
    by (simp_all add: unat_of_nat)
  have "unat (word_of_nat j + word_of_nat (length pat) :: u32) = j + length pat" using j lt uj up by (simp add: unat_word_ariths)
  then have le: "\<not> word_of_nat j + word_of_nat (length pat) > sz" using j by (simp add: word_less_nat_alt)
  have "memsearch code start sz pat = Some (Some (word_of_nat j))"
    using horspool_loop_first [OF assms(1-3), of 0] assms(1) Some by (simp add: memsearch_def)
  then show ?thesis using assms(4) [OF Some] le uj
    by (simp add: patchMemory_def Some write_code_def Let_def)
qed

text \<open>A second replacement after an occurrence at the end of the region searches a region of size 0, and leaves the code.\<close>

lemma patchMemory_leaves_code: "patchMemory [1, 9, 9] 0 3 [9, 9] 0 [5] 2 = None"
proof -
  have m: "memsearch [1, 9, 9] 0 3 [9, 9] = Some (Some 1)"
    using horspool_loop_first [of "[9, 9]" 3 0 "[1, 9, 9]" 0]
    by (simp add: memsearch_def first_match_def occurs_at_def code_at_def upt_rec)
  have "shift_table [9, 9] = (replicate 256 2)[9 := 1]" by (simp add: shift_table_def Let_def)
  then have "memsearch [1, 5, 9] 3 0 [9, 9] = None"
    unfolding memsearch_def by (simp, subst horspool_loop.simps, simp)
  then have "patch_loop (Suc (Suc 0)) [1, 9, 9] 0 3 [9, 9] 0 [5] 0 = None"
     using m by (simp add: write_code_def splice_def Let_def numeral_3_eq_3)
  moreover have "unat (2 :: u32) = Suc (Suc 0)" by simp
  ultimately show ?thesis by (simp only: patchMemory_def)
qed

end
