(* ===== verification/Loader_Patches.thy ===== *)
theory Loader_Patches
  imports Ifile Loader_Search
begin

text \<open>
  The patches the loader applies to the code of a title (\<open>loader/source/patcher.c\<close>): the buffered
  reader of the patch file, patches in the IPS format and patches in the UPS format.

  The code is the list of the bytes of the region mapped for the title. A function that fails
  returns the code with what was written until then, as in the source. \<^term>\<open>None\<close>: a write outside
  the region, or fuel used up. Files are those of \<open>Ifile\<close>; the file \<open>ifile.c\<close> of the loader is the
  same text with \<open>IFile_ReadAt\<close> added.
\<close>

section \<open>Paths\<close>

function progIdToStr :: "bytes \<Rightarrow> nat \<Rightarrow> u64 \<Rightarrow> bytes" where
  "progIdToStr str strEnd progId =
     (if progId > 0
      then progIdToStr (str[strEnd := ascii ''0123456789ABCDEF'' ! unat (progId AND 0xF)]) (strEnd - 1) (drop_bit 4 progId)
      else str)"
  by pat_completeness auto

termination
proof (relation "measure (\<lambda>(str, strEnd, progId). unat progId)")
  fix str :: bytes and strEnd :: nat and progId :: u64
  assume "progId > 0"
  then have "0 < unat progId" by (simp add: unat_gt_0)
  then show "((str[strEnd := ascii ''0123456789ABCDEF'' ! unat (progId AND 0xF)], strEnd - 1, drop_bit 4 progId),
      (str, strEnd, progId)) \<in> measure (\<lambda>(str, strEnd, progId). unat progId)"
    by (simp add: drop_bit_eq_div unat_div)
qed simp

declare progIdToStr.simps [simp del]

definition IsSysmoduleId :: "u64 \<Rightarrow> bool" where
  "IsSysmoduleId tid \<longleftrightarrow> drop_bit 32 tid = 0x00040130"

text \<open>The file of a patch with the extension \<open>ext\<close>.\<close>

definition patch_path :: "string \<Rightarrow> u64 \<Rightarrow> bytes" where
  "patch_path ext progId =
     (if IsSysmoduleId progId
      then progIdToStr (ascii ''/luma/sysmodules/0000000000000000.'' @ ascii ext) 32 (progId AND NOT 0xF0000000)
      else progIdToStr (ascii ''/luma/titles/0000000000000000/code.'' @ ascii ext) 28 progId)"

definition ARCHIVE_SDMC :: u32 where "ARCHIVE_SDMC = 9"
definition ARCHIVE_NAND_RW :: u32 where "ARCHIVE_NAND_RW = 0x1234567D"

definition fileOpen :: "'f fs_env \<Rightarrow> u32 \<Rightarrow> bytes \<Rightarrow> u32 \<Rightarrow> 'f \<Rightarrow> result \<times> ifile \<times> 'f" where
  "fileOpen e archiveId path flags f = IFile_Open e archiveId [] path flags f"

definition openLumaFile :: "'f fs_env \<Rightarrow> bool \<Rightarrow> bytes \<Rightarrow> 'f \<Rightarrow> bool \<times> ifile \<times> 'f" where
  "openLumaFile e isSdMode path f =
     (let (res, i, f) = fileOpen e (if isSdMode then ARCHIVE_SDMC else ARCHIVE_NAND_RW) path 1 f
      in (\<not> FS_FAILED e res, i, f))"

definition IFile_ReadAt :: "nat \<Rightarrow> 'f fs_env \<Rightarrow> u32 \<Rightarrow> u32 \<Rightarrow> ifile \<Rightarrow> 'f \<Rightarrow> (result \<times> bytes \<times> ifile \<times> 'f) option" where
  "IFile_ReadAt fuel e offset len i f = IFile_Read fuel e len (i\<lparr>f_pos := ucast offset\<rparr>) f"

section \<open>The reader\<close>

definition PATCH_SECTOR_SIZE :: u32 where "PATCH_SECTOR_SIZE = 0x200"
definition PATCH_BUFFER_SIZE :: u32 where "PATCH_BUFFER_SIZE = 2 * PATCH_SECTOR_SIZE"

text \<open>The buffer is the list of its first \<open>len\<close> bytes.\<close>

record patch_reader =
  r_file :: ifile
  r_buf :: bytes
  r_pos :: nat
  r_eof :: bool

definition patchFileReaderFill :: "'f fs_env \<Rightarrow> patch_reader \<Rightarrow> 'f \<Rightarrow> (bool \<times> patch_reader \<times> 'f) option" where
  "patchFileReaderFill e r f =
     (let r = r\<lparr>r_pos := 0, r_buf := []\<rparr>
      in if r_eof r then Some (False, r, f)
         else do {
           (res, bs, i, f) \<leftarrow> IFile_Read (unat PATCH_BUFFER_SIZE) e PATCH_BUFFER_SIZE (r_file r) f;
           let r = r\<lparr>r_file := i\<rparr>;
           if FS_FAILED e res then Some (False, r, f)
           else Some (bs \<noteq> [], r\<lparr>r_buf := bs, r_eof := length bs \<noteq> unat PATCH_BUFFER_SIZE\<rparr>, f)
         })"

text \<open>\<open>align\<close> is the address of the destination modulo 4; \<open>out\<close> is what has been stored. A turn of the loop takes at
  least one byte, so the fuel is the number of bytes asked for.\<close>

fun patch_read_loop :: "nat \<Rightarrow> 'f fs_env \<Rightarrow> nat \<Rightarrow> u32 \<Rightarrow> bytes \<Rightarrow> patch_reader \<Rightarrow> 'f \<Rightarrow> (bool \<times> bytes \<times> patch_reader \<times> 'f) option" where
  "patch_read_loop 0 e align len out r f = (if len = 0 then Some (True, out, r, f) else None)"
| "patch_read_loop (Suc k) e align len out r f =
     (if len = 0 then Some (True, out, r, f)
      else if r_pos r = length (r_buf r) \<and> \<not> r_eof r \<and> len \<ge> PATCH_SECTOR_SIZE \<and> (align + length out) mod 4 = 0 then do {
        let directLen = len AND NOT (PATCH_SECTOR_SIZE - 1);
        (res, bs, i, f) \<leftarrow> IFile_Read (unat directLen) e directLen (r_file r) f;
        let r = r\<lparr>r_file := i\<rparr>;
        if FS_FAILED e res \<or> length bs \<noteq> unat directLen then Some (False, out @ bs, r, f)
        else patch_read_loop k e align (len - directLen) (out @ bs) r f
      }
      else do {
        (ok, r, f) \<leftarrow> (if r_pos r = length (r_buf r) then patchFileReaderFill e r f else Some (True, r, f));
        if \<not> ok then Some (False, out, r, f)
        else
          let chunk = min (length (r_buf r) - r_pos r) (unat len)
          in patch_read_loop k e align (len - word_of_nat chunk) (out @ take chunk (drop (r_pos r) (r_buf r)))
               (r\<lparr>r_pos := r_pos r + chunk\<rparr>) f
      })"

definition patchFileRead :: "'f fs_env \<Rightarrow> nat \<Rightarrow> u32 \<Rightarrow> patch_reader \<Rightarrow> 'f \<Rightarrow> (bool \<times> bytes \<times> patch_reader \<times> 'f) option" where
  "patchFileRead e align len r f = patch_read_loop (unat len) e align len [] r f"

definition new_reader :: "ifile \<Rightarrow> patch_reader" where
  "new_reader i = \<lparr>r_file = i, r_buf = [], r_pos = 0, r_eof = False\<rparr>"

section \<open>IPS\<close>

definition be16 :: "bytes \<Rightarrow> u32" where
  "be16 b = push_bit 8 (ucast (b ! 0)) OR ucast (b ! 1)"

definition be24 :: "bytes \<Rightarrow> u32" where
  "be24 b = push_bit 16 (ucast (b ! 0)) OR push_bit 8 (ucast (b ! 1)) OR ucast (b ! 2)"

definition fill_code :: "bytes \<Rightarrow> nat \<Rightarrow> u8 \<Rightarrow> nat \<Rightarrow> bytes option" where
  "fill_code code p v n = write_code code (int p) (replicate n v)"

text \<open>The flag, the code and the patched size.\<close>

definition ipsGrowToFit :: "bytes \<Rightarrow> u32 \<Rightarrow> u32 \<Rightarrow> u32 \<Rightarrow> u32 \<Rightarrow> (bool \<times> bytes \<times> u32) option" where
  "ipsGrowToFit code patchedSize maxSize offset sz =
     (if offset + sz > maxSize then Some (False, code, patchedSize)
      else if sz = 0 then Some (True, code, patchedSize)
      else do {
        code \<leftarrow> (if offset > patchedSize then fill_code code (unat patchedSize) 0 (unat (offset - patchedSize)) else Some code);
        Some (True, code, if offset + sz > patchedSize then offset + sz else patchedSize)
      })"

fun ips_trailer :: "nat \<Rightarrow> 'f fs_env \<Rightarrow> bytes \<Rightarrow> patch_reader \<Rightarrow> 'f \<Rightarrow> (bytes \<times> patch_reader \<times> 'f) option" where
  "ips_trailer 0 e b r f = Some (b, r, f)"
| "ips_trailer (Suc k) e b r f = do {
     (ok, c, r, f) \<leftarrow> patchFileRead e 0 1 r f;
     if ok then ips_trailer k e (b @ c) r f else Some (b, r, f)
   }"

text \<open>The results of the loop: \<open>ret\<close>, the code, \<open>*codeSize\<close> and what is left to do at \<open>exit\<close>.\<close>

definition ips_eof :: "'f fs_env \<Rightarrow> u32 \<Rightarrow> bytes \<Rightarrow> u32 \<Rightarrow> u32 \<Rightarrow> patch_reader \<Rightarrow> 'f \<Rightarrow> (bool \<times> bytes \<times> u32 \<times> patch_reader \<times> 'f) option" where
  "ips_eof e maxSize code codeSize patchedSize r f = do {
     (b, r, f) \<leftarrow> ips_trailer 4 e [] r f;
     if length b = 0 then Some (True, code, patchedSize, r, f)
     else if length b \<noteq> 3 then Some (False, code, codeSize, r, f)
     else
       let newSize = be24 b
       in if newSize > maxSize then Some (False, code, codeSize, r, f)
          else do {
            code \<leftarrow> (if newSize < patchedSize then fill_code code (unat newSize) 0 (unat (patchedSize - newSize))
                     else fill_code code (unat patchedSize) 0 (unat (newSize - patchedSize)));
            Some (True, code, newSize, r, f)
          }
   }"

definition ips_fill :: "'f fs_env \<Rightarrow> u32 \<Rightarrow> u32 \<Rightarrow> bytes \<Rightarrow> u32 \<Rightarrow> patch_reader \<Rightarrow> 'f \<Rightarrow> (bool \<times> bytes \<times> u32 \<times> patch_reader \<times> 'f) option" where
  "ips_fill e maxSize offset code patchedSize r f = do {
     (ok, b, r, f) \<leftarrow> patchFileRead e 0 3 r f;
     if \<not> ok then Some (False, code, patchedSize, r, f)
     else do {
       let rleSize = be16 b;
       (ok, code, patchedSize) \<leftarrow> ipsGrowToFit code patchedSize maxSize offset rleSize;
       if \<not> ok then Some (False, code, patchedSize, r, f)
       else do {
         code \<leftarrow> fill_code code (unat offset) (b ! 2) (unat rleSize);
         Some (True, code, patchedSize, r, f)
       }
     }
   }"

definition ips_copy :: "'f fs_env \<Rightarrow> u32 \<Rightarrow> u32 \<Rightarrow> u32 \<Rightarrow> bytes \<Rightarrow> u32 \<Rightarrow> patch_reader \<Rightarrow> 'f \<Rightarrow> (bool \<times> bytes \<times> u32 \<times> patch_reader \<times> 'f) option" where
  "ips_copy e maxSize offset patchSize code patchedSize r f = do {
     (ok, code, patchedSize) \<leftarrow> ipsGrowToFit code patchedSize maxSize offset patchSize;
     if \<not> ok then Some (False, code, patchedSize, r, f)
     else do {
       (ok, b, r, f) \<leftarrow> patchFileRead e (unat offset mod 4) patchSize r f;
       code \<leftarrow> write_code code (uint offset) b;
       Some (ok, code, patchedSize, r, f)
     }
   }"

fun ips_loop :: "nat \<Rightarrow> 'f fs_env \<Rightarrow> u32 \<Rightarrow> u32 \<Rightarrow> bytes \<Rightarrow> u32 \<Rightarrow> patch_reader \<Rightarrow> 'f \<Rightarrow> (bool \<times> bytes \<times> u32 \<times> patch_reader \<times> 'f) option" where
  "ips_loop 0 e maxSize codeSize code patchedSize r f = None"
| "ips_loop (Suc k) e maxSize codeSize code patchedSize r f = do {
     (ok, b, r, f) \<leftarrow> patchFileRead e 0 3 r f;
     if \<not> ok then Some (False, code, codeSize, r, f)
     else if b = ascii ''EOF'' then ips_eof e maxSize code codeSize patchedSize r f
     else do {
       let offset = be24 b;
       (ok, b, r, f) \<leftarrow> patchFileRead e 0 2 r f;
       if \<not> ok then Some (False, code, codeSize, r, f)
       else do {
         let patchSize = be16 b;
         (ok, code, patchedSize, r, f) \<leftarrow>
           (if patchSize = 0 then ips_fill e maxSize offset code patchedSize r f
            else ips_copy e maxSize offset patchSize code patchedSize r f);
         if \<not> ok then Some (False, code, codeSize, r, f)
         else ips_loop k e maxSize codeSize code patchedSize r f
       }
     }
   }"

definition applyCodeIpsPatch :: "nat \<Rightarrow> 'f fs_env \<Rightarrow> bool \<Rightarrow> u32 \<Rightarrow> u64 \<Rightarrow> bytes \<Rightarrow> u32 \<Rightarrow> 'f \<Rightarrow> (bool \<times> bytes \<times> u32 \<times> 'f) option" where
  "applyCodeIpsPatch k e isSdMode maxSize progId code codeSize f =
     (let (found, i, f) = openLumaFile e isSdMode (patch_path ''ips'' progId) f
      in if \<not> found then Some (True, code, codeSize, f)
         else do {
           (ok, b, r, f) \<leftarrow> patchFileRead e 0 5 (new_reader i) f;
           (ret, code, codeSize, r, f) \<leftarrow>
             (if \<not> ok \<or> b \<noteq> ascii ''PATCH'' then Some (False, code, codeSize, r, f)
              else ips_loop k e maxSize codeSize code codeSize r f);
           let (res, i, f) = IFile_Close e (r_file r) f;
           Some (ret, code, codeSize, f)
         })"

section \<open>UPS\<close>

definition UPS_FOOTER_SIZE :: nat where "UPS_FOOTER_SIZE = 12"

text \<open>The flag, the byte, the reader, the bytes left before the footer.\<close>

definition upsReadByte :: "'f fs_env \<Rightarrow> patch_reader \<Rightarrow> u32 \<Rightarrow> 'f \<Rightarrow> (bool \<times> u8 \<times> patch_reader \<times> u32 \<times> 'f) option" where
  "upsReadByte e r left f =
     (if left = 0 then Some (False, 0, r, left, f)
      else let left = left - 1
           in if r_pos r \<noteq> length (r_buf r)
              then Some (True, r_buf r ! r_pos r, r\<lparr>r_pos := r_pos r + 1\<rparr>, left, f)
              else do {
                (ok, b, r, f) \<leftarrow> patchFileRead e 0 1 r f;
                Some (ok, if ok then b ! 0 else 0, r, left, f)
              })"

fun vuint_loop :: "nat \<Rightarrow> 'f fs_env \<Rightarrow> nat \<Rightarrow> u64 \<Rightarrow> patch_reader \<Rightarrow> u32 \<Rightarrow> 'f \<Rightarrow> (bool \<times> u32 \<times> patch_reader \<times> u32 \<times> 'f) option" where
  "vuint_loop 0 e sh v r left f = None"
| "vuint_loop (Suc k) e sh v r left f =
     (if \<not> sh < 32 then Some (False, 0, r, left, f)
      else do {
        (ok, b, r, left, f) \<leftarrow> upsReadByte e r left f;
        if \<not> ok then Some (False, 0, r, left, f)
        else
          let v = v + push_bit sh (ucast (b AND 0x7F));
              v = (if b AND 0x80 = 0 then v + push_bit (sh + 7) 1 else v)
          in if v > 0xFFFFFFFF then Some (False, 0, r, left, f)
             else if b AND 0x80 \<noteq> 0 then Some (True, ucast v, r, left, f)
             else vuint_loop k e (sh + 7) v r left f
      })"

text \<open>The shifts are 0, 7, 14, 21 and 28.\<close>

definition upsReadVuint :: "'f fs_env \<Rightarrow> patch_reader \<Rightarrow> u32 \<Rightarrow> 'f \<Rightarrow> (bool \<times> u32 \<times> patch_reader \<times> u32 \<times> 'f) option" where
  "upsReadVuint e r left f = vuint_loop 6 e 0 0 r left f"

text \<open>One run of changed bytes up to its terminator. The fuel bounds the bytes left.\<close>

fun xor_run :: "nat \<Rightarrow> 'f fs_env \<Rightarrow> u32 \<Rightarrow> bytes \<Rightarrow> u32 \<Rightarrow> patch_reader \<Rightarrow> u32 \<Rightarrow> 'f \<Rightarrow> (bool \<times> bytes \<times> u32 \<times> patch_reader \<times> u32 \<times> 'f) option" where
  "xor_run 0 e xorSize code offset r left f = None"
| "xor_run (Suc k) e xorSize code offset r left f = do {
     (ok, m, r, left, f) \<leftarrow> upsReadByte e r left f;
     if \<not> ok then Some (False, code, offset, r, left, f)
     else if m = 0 then Some (True, code, if offset < xorSize then offset + 1 else offset, r, left, f)
     else if offset \<ge> xorSize then Some (False, code, offset, r, left, f)
     else if \<not> unat offset < length code then None
     else xor_run k e xorSize (code[unat offset := code ! unat offset XOR m]) (offset + 1) r left f
   }"

fun ups_loop :: "nat \<Rightarrow> 'f fs_env \<Rightarrow> u32 \<Rightarrow> bytes \<Rightarrow> u32 \<Rightarrow> patch_reader \<Rightarrow> u32 \<Rightarrow> 'f \<Rightarrow> (bool \<times> bytes \<times> patch_reader \<times> 'f) option" where
  "ups_loop 0 e xorSize code offset r left f = None"
| "ups_loop (Suc k) e xorSize code offset r left f =
     (if left = 0 then Some (True, code, r, f)
      else do {
        (ok, delta, r, left, f) \<leftarrow> upsReadVuint e r left f;
        if \<not> ok \<or> delta > xorSize - offset then Some (False, code, r, f)
        else
          let offset = offset + delta
          in if offset = xorSize then Some (left = 0, code, r, f)
             else do {
               (ok, code, offset, r, left, f) \<leftarrow> xor_run (unat left + 1) e xorSize code offset r left f;
               if \<not> ok then Some (False, code, r, f)
               else ups_loop k e xorSize code offset r left f
             }
      })"

definition ups_body :: "'f fs_env \<Rightarrow> u32 \<Rightarrow> bytes \<Rightarrow> u32 \<Rightarrow> patch_reader \<Rightarrow> u32 \<Rightarrow> 'f \<Rightarrow> (bool \<times> bytes \<times> u32 \<times> patch_reader \<times> 'f) option" where
  "ups_body e maxSize code codeSize r left f = do {
     (ok, header, r, f) \<leftarrow> patchFileRead e 0 4 r f;
     if \<not> ok \<or> header \<noteq> ascii ''UPS1'' then Some (False, code, codeSize, r, f)
     else do {
       (ok, baseSize, r, left, f) \<leftarrow> upsReadVuint e r left f;
       if \<not> ok then Some (False, code, codeSize, r, f)
       else do {
         (ok, patchedSize, r, left, f) \<leftarrow> upsReadVuint e r left f;
         if \<not> ok \<or> baseSize \<noteq> codeSize \<or> patchedSize > maxSize then Some (False, code, codeSize, r, f)
         else do {
           code \<leftarrow> (if patchedSize > baseSize then fill_code code (unat baseSize) 0 (unat (patchedSize - baseSize)) else Some code);
           (ret, code, r, f) \<leftarrow> ups_loop (unat left + 1) e (max baseSize patchedSize) code 0 r left f;
           Some (ret, code, if ret then patchedSize else codeSize, r, f)
         }
       }
     }
   }"

definition applyCodeUpsPatch :: "'f fs_env \<Rightarrow> bool \<Rightarrow> u32 \<Rightarrow> u64 \<Rightarrow> bytes \<Rightarrow> u32 \<Rightarrow> 'f \<Rightarrow> (bool \<times> bytes \<times> u32 \<times> 'f) option" where
  "applyCodeUpsPatch e isSdMode maxSize progId code codeSize f =
     (let (found, i, f) = openLumaFile e isSdMode (patch_path ''ups'' progId) f
      in if \<not> found then Some (True, code, codeSize, f)
         else do {
           let (res, fileSize, i, f) = IFile_GetSize e i f;
           (ret, code, codeSize, r, f) \<leftarrow>
             (if FS_FAILED e res \<or> fileSize < 4 + word_of_nat UPS_FOOTER_SIZE \<or> fileSize > 0xFFFFFFFF
              then Some (False, code, codeSize, new_reader i, f)
              else ups_body e maxSize code codeSize (new_reader i) (ucast fileSize - word_of_nat UPS_FOOTER_SIZE - 4) f);
           let (res, i, f) = IFile_Close e (r_file r) f;
           Some (ret, code, codeSize, f)
         })"

end
