(* ===== verification/Loader_Patches_Proofs.thy ===== *)
theory Loader_Patches_Proofs
  imports Loader_Patches
begin

text \<open>
  Lemmas on the patch files: the buffered reader, with its direct reads, is the plain byte stream of the
  file; a record of an IPS file is read from the stream and applied to the code.
\<close>

section \<open>The reader is the stream\<close>

lemma whole_sectors: "unat (w AND NOT 0x1FF :: u32) = unat w - unat w mod 512"
proof -
  have m: "(0x1FF :: u32) = mask 9" by (simp add: mask_eq_decr_exp)
  have "push_bit 9 (drop_bit 9 w) + take_bit 9 w = w" by (rule bits_ident)
  moreover have "w AND NOT (mask 9) = push_bit 9 (drop_bit 9 w)" by (rule bit_eqI) (auto simp: bit_simps)
  ultimately have "w AND NOT (mask 9) = w - take_bit 9 w" by (metis add_diff_cancel_right')
  moreover have "unat (take_bit 9 w) = unat w mod 512" by (simp add: take_bit_eq_mod unat_mod)
  ultimately show ?thesis unfolding m by (simp add: unat_sub word_le_nat_alt)
qed

definition patch_rest :: "('f \<Rightarrow> handle \<Rightarrow> bytes) \<Rightarrow> patch_reader \<Rightarrow> 'f \<Rightarrow> bytes" where
  "patch_rest content r f = drop (r_pos r) (r_buf r) @ drop (unat (f_pos (r_file r))) (content f (f_handle (r_file r)))"

definition reader_ok :: "('f \<Rightarrow> handle \<Rightarrow> bytes) \<Rightarrow> patch_reader \<Rightarrow> 'f \<Rightarrow> bool" where
  "reader_ok content r f \<longleftrightarrow> r_pos r \<le> length (r_buf r) \<and>
     (r_eof r \<longrightarrow> drop (unat (f_pos (r_file r))) (content f (f_handle (r_file r))) = []) \<and>
     length (content f (f_handle (r_file r))) < 2 ^ 63 \<and> unat (f_pos (r_file r)) < 2 ^ 63"

lemma reader_ok_new: "length (content f (f_handle i)) < 2 ^ 63 \<Longrightarrow> f_pos i = 0 \<Longrightarrow> reader_ok content (new_reader i) f"
  by (simp add: reader_ok_def new_reader_def)

lemma patch_rest_new: "f_pos i = 0 \<Longrightarrow> patch_rest content (new_reader i) f = content f (f_handle i)"
  by (simp add: patch_rest_def new_reader_def)

text \<open>Reading from the file itself: the next bytes of the stream.\<close>

lemma file_read:
  assumes s: "server_ok e content" and ok: "reader_ok content r f" and e: "r_pos r = length (r_buf r)"
  shows "\<exists>res i' f'. IFile_Read (unat n) e n (r_file r) f = Some (res, take (unat n) (patch_rest content r f), i', f') \<and>
    \<not> FS_FAILED e res \<and> content f' = content f \<and> f_handle i' = f_handle (r_file r) \<and> unat (f_pos i') < 2 ^ 63 \<and>
    drop (unat (f_pos i')) (content f' (f_handle i')) = drop (unat n) (patch_rest content r f)"
proof -
  let ?c = "content f (f_handle (r_file r))" and ?p = "unat (f_pos (r_file r))"
  have pr: "patch_rest content r f = drop ?p ?c" by (simp add: patch_rest_def e)
  have b: "?p < 2 ^ 63" "length ?c < 2 ^ 63" using ok by (auto simp: reader_ok_def)
  have "unat n < 2 ^ 32" using unsigned_less [of n] by simp
  then have lt: "?p + unat n < 2 ^ 64" using b by simp
  from IFile_Read_all [OF s order_refl lt, of f] obtain res i' f' where
    R: "IFile_Read (unat n) e n (r_file r) f = Some (res, take (unat n) (drop ?p ?c), i', f')" "\<not> FS_FAILED e res"
    "content f' = content f" "f_handle i' = f_handle (r_file r)" "unat (f_pos i') = ?p + min (unat n) (length (drop ?p ?c))" by blast
  have "drop (unat (f_pos i')) ?c = drop (unat n) (drop ?p ?c)"
    unfolding R(5) by (cases "unat n \<le> length (drop ?p ?c)") (auto simp: add.commute)
  moreover have "unat (f_pos i') < 2 ^ 63" using R(5) b by (cases "?p \<le> length ?c") auto
  ultimately show ?thesis using R by (auto simp: pr)
qed

lemma reader_okD:
  assumes "reader_ok content r f"
  shows "r_pos r \<le> length (r_buf r)"
    and "r_eof r \<Longrightarrow> r_pos r = length (r_buf r) \<Longrightarrow> patch_rest content r f = []"
  using assms by (auto simp: reader_ok_def patch_rest_def)

text \<open>What a read of \<open>n\<close> bytes gives: all of them with the flag, or a part without it.\<close>

definition stream_read :: "('f \<Rightarrow> handle \<Rightarrow> bytes) \<Rightarrow> bytes \<Rightarrow> nat \<Rightarrow> handle \<Rightarrow> 'f \<Rightarrow> bytes \<Rightarrow> (bool \<times> bytes \<times> patch_reader \<times> 'f) option \<Rightarrow> bool" where
  "stream_read content s n h f out result \<longleftrightarrow>
     (\<exists>ok bs r' f'. result = Some (ok, out @ bs, r', f') \<and> content f' = content f \<and> f_handle (r_file r') = h \<and>
        (ok \<longleftrightarrow> n \<le> length s) \<and>
        (ok \<longrightarrow> bs = take n s \<and> reader_ok content r' f' \<and> patch_rest content r' f' = drop n s) \<and>
        (\<not> ok \<longrightarrow> length bs < n \<and> bs = take (length bs) s))"

lemma stream_read_step:
  assumes "stream_read content (drop m s) (n - m) h f1 (out @ take m s) result" and "content f1 = content f"
    and "m \<le> n" and "m \<le> length s"
  shows "stream_read content s n h f out result"
proof -
  obtain ok bs r' f' where R: "result = Some (ok, (out @ take m s) @ bs, r', f')" "content f' = content f1"
    "f_handle (r_file r') = h" "ok \<longleftrightarrow> n - m \<le> length (drop m s)"
    "ok \<longrightarrow> bs = take (n - m) (drop m s) \<and> reader_ok content r' f' \<and> patch_rest content r' f' = drop (n - m) (drop m s)"
    "\<not> ok \<longrightarrow> length bs < n - m \<and> bs = take (length bs) (drop m s)"
    using assms(1) unfolding stream_read_def by blast
  show ?thesis unfolding stream_read_def
  proof (intro exI conjI)
    show "result = Some (ok, out @ (take m s @ bs), r', f')" using R(1) by simp
    show "content f' = content f" using R(2) assms(2) by simp
    show "f_handle (r_file r') = h" by (rule R(3))
    show "ok \<longleftrightarrow> n \<le> length s" using R(4) assms(3,4) by auto
    have "take m s @ take (n - m) (drop m s) = take n s" using assms(3) by (metis le_add_diff_inverse take_add)
    moreover have "drop (n - m) (drop m s) = drop n s" using assms(3) by simp
    ultimately show "ok \<longrightarrow> take m s @ bs = take n s \<and> reader_ok content r' f' \<and> patch_rest content r' f' = drop n s"
      using R(5) by simp
    show "\<not> ok \<longrightarrow> length (take m s @ bs) < n \<and> take m s @ bs = take (length (take m s @ bs)) s"
    proof
      assume "\<not> ok"
      then have b: "length bs < n - m" "bs = take (length bs) (drop m s)" using R(6) by auto
      have "take (m + length bs) s = take m s @ take (length bs) (drop m s)" by (rule take_add)
      then show "length (take m s @ bs) < n \<and> take m s @ bs = take (length (take m s @ bs)) s" using b assms(4) by simp
    qed
  qed
qed

lemma patch_read_loop_stream:
  assumes s: "server_ok e content"
  shows "reader_ok content r f \<Longrightarrow> unat len \<le> k \<Longrightarrow>
    stream_read content (patch_rest content r f) (unat len) (f_handle (r_file r)) f out (patch_read_loop k e align len out r f)"
proof (induction k arbitrary: len out r f)
  case 0
  then have "len = 0" by (simp add: unat_eq_0)
  with 0 show ?case unfolding stream_read_def by (intro exI [of _ True] exI [of _ "[]"] exI [of _ r] exI [of _ f]) simp
next
  case (Suc k)
  let ?s = "patch_rest content r f"
  note R = reader_okD [OF Suc.prems(1)]
  consider "len = 0" | (direct) "len \<noteq> 0" "r_pos r = length (r_buf r)" "\<not> r_eof r" "len \<ge> PATCH_SECTOR_SIZE" "(align + length out) mod 4 = 0"
    | (buffered) "len \<noteq> 0" "\<not> (r_pos r = length (r_buf r) \<and> \<not> r_eof r \<and> len \<ge> PATCH_SECTOR_SIZE \<and> (align + length out) mod 4 = 0)" by argo
  then show ?case
  proof cases
    case 1
    with Suc.prems(1) show ?thesis unfolding stream_read_def by (intro exI [of _ True] exI [of _ "[]"] exI [of _ r] exI [of _ f]) simp
  next
    case direct
    let ?d = "len AND NOT (PATCH_SECTOR_SIZE - 1)"
    have ud: "unat ?d = unat len - unat len mod 512" using whole_sectors [of len] by (simp add: PATCH_SECTOR_SIZE_def)
    have "512 \<le> unat len" using direct(4) by (simp add: PATCH_SECTOR_SIZE_def word_le_nat_alt)
    moreover have "unat len mod 512 < 512" by simp
    ultimately have d: "0 < unat ?d" "unat ?d \<le> unat len" using ud by linarith+
    have sub: "unat (len - ?d) = unat len - unat ?d" using d(2) by (simp add: unat_sub word_le_nat_alt)
    obtain res i' f' where rd: "IFile_Read (unat ?d) e ?d (r_file r) f = Some (res, take (unat ?d) ?s, i', f')"
      "\<not> FS_FAILED e res" "content f' = content f" "f_handle i' = f_handle (r_file r)" "unat (f_pos i') < 2 ^ 63"
      "drop (unat (f_pos i')) (content f' (f_handle i')) = drop (unat ?d) ?s"
      using file_read [OF s Suc.prems(1) direct(2)] by blast
    let ?r = "r\<lparr>r_file := i'\<rparr>"
    show ?thesis
    proof (cases "unat ?d \<le> length ?s")
      case False
      then have "patch_read_loop (Suc k) e align len out r f = Some (False, out @ ?s, ?r, f')"
        using direct rd(1,2) by (simp add: Let_def)
      then show ?thesis unfolding stream_read_def using False d(2) rd(3,4)
        by (intro exI [of _ False] exI [of _ "?s"] exI [of _ ?r] exI [of _ f']) auto
    next
      case True
      have ok: "reader_ok content ?r f'" using Suc.prems(1) direct(2,3) rd(3-5) by (auto simp: reader_ok_def)
      have pr: "patch_rest content ?r f' = drop (unat ?d) ?s" using rd(6) direct(2) by (simp add: patch_rest_def)
      have "unat (len - ?d) \<le> k" using sub d Suc.prems(2) by simp
      from Suc.IH [OF ok this, of "out @ take (unat ?d) ?s"]
      have "stream_read content (drop (unat ?d) ?s) (unat len - unat ?d) (f_handle (r_file r)) f' (out @ take (unat ?d) ?s)
          (patch_read_loop k e align (len - ?d) (out @ take (unat ?d) ?s) ?r f')"
        by (simp add: pr sub rd(4))
      moreover have "patch_read_loop (Suc k) e align len out r f = patch_read_loop k e align (len - ?d) (out @ take (unat ?d) ?s) ?r f'"
        using direct rd(1,2) True by (simp add: Let_def min_def)
      ultimately show ?thesis using stream_read_step rd(3) d(2) True by metis
    qed
  next
    case buffered
    let ?fill = "if r_pos r = length (r_buf r) then patchFileReaderFill e r f else Some (True, r, f)"
    obtain ok r1 f1 where F: "?fill = Some (ok, r1, f1)" "content f1 = content f" "f_handle (r_file r1) = f_handle (r_file r)"
      "\<not> ok \<longrightarrow> ?s = []" "ok \<longrightarrow> reader_ok content r1 f1 \<and> patch_rest content r1 f1 = ?s \<and> r_pos r1 < length (r_buf r1)"
    proof (cases "r_pos r = length (r_buf r)")
      case False
      then show ?thesis using that [of True r f] Suc.prems(1) R(1) by simp
    next
      case drained: True
      show ?thesis
      proof (cases "r_eof r")
        case True
        then show ?thesis using that [of False "r\<lparr>r_pos := 0, r_buf := []\<rparr>" f] drained R(2) by (simp add: patchFileReaderFill_def Let_def)
      next
        case False
        obtain res i' f' where rd: "IFile_Read 1024 e 1024 (r_file r) f = Some (res, take 1024 ?s, i', f')"
          "\<not> FS_FAILED e res" "content f' = content f" "f_handle i' = f_handle (r_file r)" "unat (f_pos i') < 2 ^ 63"
          "drop (unat (f_pos i')) (content f' (f_handle i')) = drop 1024 ?s"
          using file_read [OF s Suc.prems(1) drained, of 1024] by auto
        let ?r1 = "r\<lparr>r_pos := 0, r_file := i', r_buf := take 1024 ?s, r_eof := length (take 1024 ?s) \<noteq> 1024\<rparr>"
        have fill: "patchFileReaderFill e r f = Some (?s \<noteq> [], ?r1, f')"
          using False rd(1,2) by (simp add: patchFileReaderFill_def Let_def PATCH_BUFFER_SIZE_def PATCH_SECTOR_SIZE_def)
        have "reader_ok content ?r1 f'" using Suc.prems(1) rd(3-6) by (auto simp: reader_ok_def)
        moreover have "patch_rest content ?r1 f' = take 1024 ?s @ drop (unat (f_pos i')) (content f' (f_handle i'))"
          unfolding patch_rest_def [of content ?r1 f'] by simp
        then have "patch_rest content ?r1 f' = ?s" unfolding rd(6) by (simp only: append_take_drop_id)
        ultimately show ?thesis using that [of "?s \<noteq> []" ?r1 f'] fill drained rd(3,4) by simp
      qed
    qed
    show ?thesis
    proof (cases ok)
      case False
      then have "patch_read_loop (Suc k) e align len out r f = Some (False, out, r1, f1)"
        using buffered F(1) by (simp only: patch_read_loop.simps if_False bind.bind_lunit prod.case) simp
      then show ?thesis unfolding stream_read_def using False F(2-4) buffered(1)
        by (intro exI [of _ False] exI [of _ "[]"] exI [of _ r1] exI [of _ f1]) (simp add: unat_gt_0)
    next
      case True
      let ?n = "min (length (r_buf r1) - r_pos r1) (unat len)"
      let ?r2 = "r1\<lparr>r_pos := r_pos r1 + ?n\<rparr>" and ?out = "out @ take ?n (drop (r_pos r1) (r_buf r1))"
      have G: "reader_ok content r1 f1" "patch_rest content r1 f1 = ?s" "r_pos r1 < length (r_buf r1)" using F(5) True by auto
      have n: "0 < ?n" "?n \<le> unat len" using G(3) buffered(1) by (auto simp: unat_gt_0)
      have "unat len < 2 ^ 32" using unsigned_less [of len] by simp
      with n(2) have "?n < 2 ^ 32" by linarith
      then have un: "unat (word_of_nat ?n :: u32) = ?n" by (simp add: unat_of_nat)
      then have sub: "unat (len - word_of_nat ?n) = unat len - ?n" using n(2) by (simp add: unat_sub word_le_nat_alt)
      note S = G(2) [symmetric, unfolded patch_rest_def [of content r1 f1]]
      have tk: "take ?n (drop (r_pos r1) (r_buf r1)) = take ?n ?s" unfolding S by simp
      have ls: "?n \<le> length ?s" unfolding S by simp
      have ok: "reader_ok content ?r2 f1" using G(1) by (auto simp: reader_ok_def)
      have pr: "patch_rest content ?r2 f1 = drop ?n ?s" unfolding S patch_rest_def [of content ?r2 f1] by (simp add: add.commute)
      have "unat (len - word_of_nat ?n) \<le> k" using sub n(1) Suc.prems(2) by linarith
      from Suc.IH [OF ok this, of ?out]
      have "stream_read content (drop ?n ?s) (unat len - ?n) (f_handle (r_file r)) f1 (out @ take ?n ?s)
          (patch_read_loop k e align (len - word_of_nat ?n) ?out ?r2 f1)"
        by (simp only: pr sub tk) (simp add: F(3))
      moreover have "patch_read_loop (Suc k) e align len out r f = patch_read_loop k e align (len - word_of_nat ?n) ?out ?r2 f1"
        using buffered F(1) True by (simp only: patch_read_loop.simps if_False bind.bind_lunit prod.case Let_def) simp
      ultimately show ?thesis using stream_read_step F(2) n(2) ls by metis
    qed
  qed
qed

text \<open>A read of the program, by its result: the bytes, or too few are left.\<close>

lemma patchFileRead_cases:
  assumes "server_ok e content" and "reader_ok content r f"
  obtains (all) r' f' where "patchFileRead e align n r f = Some (True, take (unat n) (patch_rest content r f), r', f')"
      "unat n \<le> length (patch_rest content r f)" "reader_ok content r' f'"
      "patch_rest content r' f' = drop (unat n) (patch_rest content r f)" "content f' = content f" "f_handle (r_file r') = f_handle (r_file r)"
    | (short) bs r' f' where "patchFileRead e align n r f = Some (False, bs, r', f')"
      "length (patch_rest content r f) < unat n" "length bs < unat n" "content f' = content f" "f_handle (r_file r') = f_handle (r_file r)"
proof -
  have "stream_read content (patch_rest content r f) (unat n) (f_handle (r_file r)) f [] (patchFileRead e align n r f)"
    unfolding patchFileRead_def using patch_read_loop_stream [OF assms order_refl] .
  then show ?thesis unfolding stream_read_def using all short by (auto simp: not_le)
qed

section \<open>What an IPS file means\<close>

text \<open>The image of the code: \<open>dat\<close> is stored at an offset, behind the end after zeros.\<close>

definition put_image :: "nat \<Rightarrow> bytes \<Rightarrow> bytes \<Rightarrow> bytes" where
  "put_image off dat img =
     (if dat = [] then img
      else take off (img @ replicate (off - length img) 0) @ dat @ drop (off + length dat) img)"

definition resize_image :: "nat \<Rightarrow> bytes \<Rightarrow> bytes" where
  "resize_image n img = take n (img @ replicate (n - length img) 0)"

definition put_within :: "nat \<Rightarrow> nat \<Rightarrow> bytes \<Rightarrow> bytes \<Rightarrow> bytes option" where
  "put_within m off dat img = (if off + length dat > m then None else Some (put_image off dat img))"

definition ips_end :: "nat \<Rightarrow> bytes \<Rightarrow> bytes \<Rightarrow> bytes option" where
  "ips_end m s img =
     (if s = [] then Some img
      else if length s = 3 \<and> unat (be24 s) \<le> m then Some (resize_image (unat (be24 s)) img) else None)"

text \<open>The records of a file up to its end marker.\<close>

function ips_run :: "nat \<Rightarrow> bytes \<Rightarrow> bytes \<Rightarrow> bytes option" where
  "ips_run m s img =
     (if length s < 3 then None
      else if take 3 s = ascii ''EOF'' then ips_end m (drop 3 s) img
      else if length s < 5 then None
      else let off = unat (be24 s); n = unat (be16 (drop 3 s))
           in if n = 0 then
                if length s < 8 then None
                else (case put_within m off (replicate (unat (be16 (drop 5 s))) (s ! 7)) img of
                        None \<Rightarrow> None | Some img \<Rightarrow> ips_run m (drop 8 s) img)
              else if length s < 5 + n then None
              else (case put_within m off (take n (drop 5 s)) img of
                      None \<Rightarrow> None | Some img \<Rightarrow> ips_run m (drop (5 + n) s) img))"
  by pat_completeness auto

termination by (relation "measure (\<lambda>(m, s, img). length s)") auto

declare ips_run.simps [simp del]

definition ips_meaning :: "nat \<Rightarrow> bytes \<Rightarrow> bytes \<Rightarrow> bytes option" where
  "ips_meaning m file img = (if take 5 file = ascii ''PATCH'' then ips_run m (drop 5 file) img else None)"

section \<open>The patcher does what the file means\<close>

lemma length_splice: "p + length rep \<le> length code \<Longrightarrow> length (splice code p rep) = length code"
  by (simp add: splice_def)

lemma drop_splice: "p + length rep \<le> m \<Longrightarrow> m \<le> length code \<Longrightarrow> drop m (splice code p rep) = drop m code"
  by (simp add: splice_def)

lemma write_code_inside:
  assumes "p + length rep \<le> m" and "m \<le> length code"
  shows "write_code code (int p) rep = Some (splice code p rep)" and "length (splice code p rep) = length code"
    and "drop m (splice code p rep) = drop m code"
  using assms by (auto simp: write_code_def length_splice drop_splice)

text \<open>The code and its patched size stand for an image; the region beyond the limit is never touched.\<close>

definition code_image :: "nat \<Rightarrow> bytes \<Rightarrow> bytes \<Rightarrow> u32 \<Rightarrow> bytes \<Rightarrow> bool" where
  "code_image m code0 code ps img \<longleftrightarrow>
     unat ps \<le> m \<and> m \<le> length code \<and> length code = length code0 \<and> drop m code = drop m code0 \<and> img = take (unat ps) code"

lemma code_image_length: "code_image m code0 code ps img \<Longrightarrow> length img = unat ps"
  by (auto simp: code_image_def)

lemma take_splice_put:
  assumes i: "img = take ps code" and ps: "ps \<le> length code" and d: "dat \<noteq> []" and l: "off + length dat \<le> length code"
    and c: "code1 = (if off > ps then splice code ps (replicate (off - ps) 0) else code)"
  shows "take (max ps (off + length dat)) (splice code1 off dat) = put_image off dat img"
proof (cases "off > ps")
  case True
  have t: "take off code1 = img @ replicate (off - ps) 0"
    using True c i ps l by (simp add: splice_def)
  have lc: "length code1 = length code" using True c l by (simp add: length_splice)
  have "take (off + length dat) (splice code1 off dat) = take off code1 @ dat"
    using lc l by (simp add: splice_def)
  moreover have "put_image off dat img = img @ replicate (off - ps) 0 @ dat"
    using d i ps True by (simp add: put_image_def)
  ultimately show ?thesis using t True by (simp add: max_def)
next
  case False
  then have "code1 = code" "off \<le> ps" using c by auto
  moreover have "off < length code" using d l by (cases dat) auto
  ultimately show ?thesis using d i ps l by (simp add: put_image_def splice_def min_def max_def drop_take)
qed

lemma grow_put:
  assumes ci: "code_image m code0 code ps img" and m: "m = unat maxSize"
    and fit: "unat offset + unat sz \<le> m" and n: "0 < unat sz"
  shows "\<exists>code1 ps1. ipsGrowToFit code ps maxSize offset sz = Some (True, code1, ps1) \<and> length code1 = length code \<and>
    drop m code1 = drop m code \<and>
    (\<forall>dat. length dat = unat sz \<longrightarrow> code_image m code0 (splice code1 (unat offset) dat) ps1 (put_image (unat offset) dat img))"
proof -
  have lt: "unat maxSize < 2 ^ 32" using unsigned_less [of maxSize] by simp
  have us: "unat (offset + sz) = unat offset + unat sz" using fit m lt by (simp add: unat_word_ariths)
  have c: "unat ps \<le> m" "m \<le> length code" "length code = length code0" "drop m code = drop m code0" "img = take (unat ps) code"
    using ci by (auto simp: code_image_def)
  let ?code1 = "if unat offset > unat ps then splice code (unat ps) (replicate (unat offset - unat ps) 0) else code"
  let ?ps1 = "if offset + sz > ps then offset + sz else ps"
  have ups: "unat ?ps1 = max (unat ps) (unat offset + unat sz)" using us by (simp add: word_less_nat_alt max_def)
  have g: "ipsGrowToFit code ps maxSize offset sz = Some (True, ?code1, ?ps1)"
  proof -
    have "\<not> offset + sz > maxSize" using us fit m by (simp add: word_less_nat_alt)
    moreover have "sz \<noteq> 0" using n by auto
    moreover have "offset > ps \<Longrightarrow> unat (offset - ps) = unat offset - unat ps" by (simp add: unat_sub word_less_nat_alt word_le_nat_alt)
    moreover have "offset > ps \<Longrightarrow> unat ps + (unat offset - unat ps) \<le> m" using fit by (simp add: word_less_nat_alt)
    ultimately show ?thesis using c(2) write_code_inside(1) [of "unat ps" "replicate (unat offset - unat ps) 0" m code]
      by (auto simp: ipsGrowToFit_def fill_code_def word_less_nat_alt)
  qed
  have l1: "length ?code1 = length code" "drop m ?code1 = drop m code"
    using write_code_inside(2,3) [of "unat ps" "replicate (unat offset - unat ps) 0" m code] fit c(2) by auto
  have "code_image m code0 (splice ?code1 (unat offset) dat) ?ps1 (put_image (unat offset) dat img)" if d: "length dat = unat sz" for dat
  proof -
    have dn: "dat \<noteq> []" using d n by auto
    have "unat offset + length dat \<le> m" "m \<le> length ?code1" using d fit c(2) l1(1) by auto
    note w = write_code_inside [OF this]
    have "take (unat ?ps1) (splice ?code1 (unat offset) dat) = put_image (unat offset) dat img"
      unfolding ups d [symmetric] by (rule take_splice_put [OF c(5) _ dn _ refl]) (use c d fit in auto)
    moreover have "unat ?ps1 \<le> m" using ups c(1) fit by simp
    ultimately show ?thesis unfolding code_image_def using w(2,3) l1 c(2-4) by simp
  qed
  with g l1 show ?thesis by blast
qed

lemma grow_fails: "unat offset + unat sz < 2 ^ 32 \<Longrightarrow> unat maxSize < unat offset + unat sz \<Longrightarrow>
    ipsGrowToFit code ps maxSize offset sz = Some (False, code, ps)"
  by (simp add: ipsGrowToFit_def unat_word_ariths word_less_nat_alt)

lemma be_bounds: "unat (be16 b) < 2 ^ 16" "unat (be24 b) < 2 ^ 24"
proof -
  have b8: "bit x n \<Longrightarrow> n < 8" for x :: u8 and n by (drule bit_imp_le_length) simp
  have "be16 b = take_bit 16 (be16 b)" unfolding be16_def by (rule bit_eqI) (auto simp: bit_simps dest: b8)
  then have "unat (be16 b) = take_bit 16 (unat (be16 b))" by (metis unsigned_take_bit_eq)
  then show "unat (be16 b) < 2 ^ 16" by (metis take_bit_nat_less_exp)
  have "be24 b = take_bit 24 (be24 b)" unfolding be24_def by (rule bit_eqI) (auto simp: bit_simps dest: b8)
  then have "unat (be24 b) = take_bit 24 (unat (be24 b))" by (metis unsigned_take_bit_eq)
  then show "unat (be24 b) < 2 ^ 24" by (metis take_bit_nat_less_exp)
qed

text \<open>The result of the program against a meaning: the image, or a failure that leaves the size.\<close>

definition follows :: "nat \<Rightarrow> bytes \<Rightarrow> u32 \<Rightarrow> bytes option \<Rightarrow> (bool \<times> bytes \<times> u32 \<times> 'r) option \<Rightarrow> bool" where
  "follows m code0 codeSize meaning result \<longleftrightarrow>
     (\<exists>code cs r'. result = Some (meaning \<noteq> None, code, cs, r') \<and> length code = length code0 \<and> drop m code = drop m code0 \<and>
        (case meaning of None \<Rightarrow> cs = codeSize | Some img \<Rightarrow> code_image m code0 code cs img))"

lemma follows_fail [simp]:
  "follows m code0 codeSize None (Some (False, code, cs, r)) \<longleftrightarrow> length code = length code0 \<and> drop m code = drop m code0 \<and> cs = codeSize"
  by (simp add: follows_def)

lemma follows_done: "code_image m code0 code cs img \<Longrightarrow> follows m code0 codeSize (Some img) (Some (True, code, cs, r))"
  by (simp add: follows_def code_image_def)

lemma ips_trailer_stream:
  assumes s: "server_ok e content"
  shows "reader_ok content r f \<Longrightarrow> \<exists>r' f'. ips_trailer k e b r f = Some (b @ take k (patch_rest content r f), r', f')"
proof (induction k arbitrary: b r f)
  case (Suc k)
  from s Suc.prems show ?case
  proof (cases rule: patchFileRead_cases [where align = 0 and n = 1])
    case (all r' f')
    obtain x xs where x: "patch_rest content r f = x # xs" using all(2) by (cases "patch_rest content r f") auto
    from Suc.IH [OF all(3), of "b @ [x]"] show ?thesis using all(1,4) x by simp
  next
    case (short bs r' f')
    then show ?thesis by simp
  qed
qed simp

lemma resize_code:
  assumes ci: "code_image m code0 code ps img" and m: "m = unat maxSize" and n: "unat newSize \<le> m"
  shows "\<exists>code1. (if newSize < ps then fill_code code (unat newSize) 0 (unat (ps - newSize))
        else fill_code code (unat ps) 0 (unat (newSize - ps))) = Some code1 \<and>
      code_image m code0 code1 newSize (resize_image (unat newSize) img)"
proof -
  have c: "unat ps \<le> m" "m \<le> length code" "length code = length code0" "drop m code = drop m code0" "img = take (unat ps) code"
    using ci by (auto simp: code_image_def)
  show ?thesis
  proof (cases "newSize < ps")
    case True
    then have u: "unat (ps - newSize) = unat ps - unat newSize" "unat newSize < unat ps"
      by (simp_all add: unat_sub word_less_nat_alt word_le_nat_alt)
    have "unat newSize + length (replicate (unat ps - unat newSize) (0 :: u8)) \<le> m" using u c(1) by simp
    note w = write_code_inside [OF this c(2)]
    have "take (unat newSize) (splice code (unat newSize) (replicate (unat ps - unat newSize) 0)) = resize_image (unat newSize) img"
      using u c by (simp add: splice_def resize_image_def min_def)
    then show ?thesis using True u w c n by (simp add: fill_code_def code_image_def)
  next
    case False
    then have u: "unat (newSize - ps) = unat newSize - unat ps" "unat ps \<le> unat newSize"
      by (simp_all add: unat_sub word_less_nat_alt word_le_nat_alt)
    have "unat ps + length (replicate (unat newSize - unat ps) (0 :: u8)) \<le> m" using u n by simp
    note w = write_code_inside [OF this c(2)]
    have "take (unat newSize) (splice code (unat ps) (replicate (unat newSize - unat ps) 0)) = resize_image (unat newSize) img"
      using u c n by (simp add: splice_def resize_image_def min_def)
    then show ?thesis using False u w c n by (simp add: fill_code_def code_image_def)
  qed
qed

lemma ips_eof_follows:
  assumes s: "server_ok e content" and ok: "reader_ok content r f" and ci: "code_image (unat maxSize) code0 code ps img"
  shows "follows (unat maxSize) code0 codeSize (ips_end (unat maxSize) (patch_rest content r f) img) (ips_eof e maxSize code codeSize ps r f)"
proof -
  let ?s = "patch_rest content r f"
  have same: "length code = length code0" "drop (unat maxSize) code = drop (unat maxSize) code0" using ci by (auto simp: code_image_def)
  obtain r' f' where t: "ips_trailer 4 e [] r f = Some (take 4 ?s, r', f')" using ips_trailer_stream [OF s ok, of 4 "[]"] by auto
  consider "?s = []" | (bad) "?s \<noteq> []" "length ?s \<noteq> 3" | (long) "length ?s = 3" "unat (be24 ?s) > unat maxSize"
    | (new) "length ?s = 3" "unat (be24 ?s) \<le> unat maxSize" by force
  then show ?thesis
  proof cases
    case 1
    then show ?thesis using t follows_done [OF ci] by (simp add: ips_eof_def ips_end_def)
  next
    case bad
    then have "length (take 4 ?s) \<noteq> 0 \<and> length (take 4 ?s) \<noteq> 3" by auto
    then show ?thesis using t bad same by (simp add: ips_eof_def ips_end_def)
  next
    case long
    then have "take 4 ?s = ?s" "?s \<noteq> []" by auto
    then show ?thesis using t long same by (simp add: ips_eof_def ips_end_def word_less_nat_alt)
  next
    case new
    then have "take 4 ?s = ?s" "?s \<noteq> []" by auto
    moreover obtain code1 where "(if be24 ?s < ps then fill_code code (unat (be24 ?s)) 0 (unat (ps - be24 ?s))
        else fill_code code (unat ps) 0 (unat (be24 ?s - ps))) = Some code1"
      "code_image (unat maxSize) code0 code1 (be24 ?s) (resize_image (unat (be24 ?s)) img)"
      using resize_code [OF ci refl new(2)] by blast
    ultimately show ?thesis using t new follows_done
      by (simp add: ips_eof_def ips_end_def word_less_nat_alt Let_def)
  qed
qed

text \<open>One record of the file takes \<open>n\<close> bytes of the stream.\<close>

definition takes :: "('f \<Rightarrow> handle \<Rightarrow> bytes) \<Rightarrow> nat \<Rightarrow> bytes \<Rightarrow> bytes \<Rightarrow> bytes option \<Rightarrow> (bool \<times> bytes \<times> u32 \<times> patch_reader \<times> 'f) option \<Rightarrow> bool" where
  "takes content m code0 s' meaning result \<longleftrightarrow>
     (\<exists>code ps r f. result = Some (meaning \<noteq> None, code, ps, r, f) \<and> length code = length code0 \<and> drop m code = drop m code0 \<and>
        (\<forall>img. meaning = Some img \<longrightarrow> code_image m code0 code ps img \<and> reader_ok content r f \<and> patch_rest content r f = s'))"

lemma takes_fail [simp]:
  "takes content m code0 s' None (Some (False, code, ps, r, f)) \<longleftrightarrow> length code = length code0 \<and> drop m code = drop m code0"
  by (simp add: takes_def)

lemma take_nth: "i < n \<Longrightarrow> take n s ! i = s ! i"
  by simp

lemma be_take: "2 \<le> n \<Longrightarrow> be16 (take n s) = be16 s" "3 \<le> n \<Longrightarrow> be24 (take n s) = be24 s"
  by (simp_all add: be16_def be24_def)

lemma code_image_same: "code_image m code0 code ps img \<Longrightarrow> length code = length code0 \<and> drop m code = drop m code0 \<and> m \<le> length code"
  by (auto simp: code_image_def)

lemma grow_empty:
  assumes "m = unat maxSize" and "unat sz = 0"
  shows "ipsGrowToFit code ps maxSize offset sz = Some (unat offset \<le> m, code, ps)"
proof -
  have "sz = 0" using assms(2) by (simp add: unat_eq_0)
  then show ?thesis using assms(1) by (auto simp: ipsGrowToFit_def word_less_nat_alt)
qed

lemma ips_fill_takes:
  assumes s: "server_ok e content" and ok: "reader_ok content r f" and ci: "code_image (unat maxSize) code0 code ps img"
    and off: "unat offset < 2 ^ 24" and S: "S = patch_rest content r f"
  shows "takes content (unat maxSize) code0 (drop 3 S)
    (if length S < 3 then None else put_within (unat maxSize) (unat offset) (replicate (unat (be16 S)) (S ! 2)) img)
    (ips_fill e maxSize offset code ps r f)"
  using s ok
proof (cases rule: patchFileRead_cases [where align = 0 and n = 3])
  case (short bs r' f')
  then show ?thesis using code_image_same [OF ci] by (simp add: ips_fill_def S)
next
  case (all r' f')
  let ?m = "unat maxSize" and ?n = "be16 S"
  note same = code_image_same [OF ci]
  have rd: "patchFileRead e 0 3 r f = Some (True, take 3 S, r', f')" "3 \<le> length S" using all(1,2) by (simp_all add: S)
  have b: "be16 (take 3 S) = ?n" "take 3 S ! 2 = S ! 2" by (simp_all add: be_take)
  have r: "reader_ok content r' f'" "patch_rest content r' f' = drop 3 S" using all(3,4) by (simp_all add: S)
  have lt: "unat offset + unat ?n < 2 ^ 32" using off be_bounds(1) [of S] by simp
  consider (over) "unat offset + unat ?n > ?m" | (none) "unat offset + unat ?n \<le> ?m" "unat ?n = 0"
    | (some) "unat offset + unat ?n \<le> ?m" "0 < unat ?n" by linarith
  then show ?thesis
  proof cases
    case over
    then show ?thesis using rd b grow_fails [OF lt over, of code ps] same
      by (simp add: ips_fill_def put_within_def Let_def)
  next
    case none
    have "fill_code code (unat offset) (S ! 2) 0 = Some code"
      using none same by (simp add: fill_code_def write_code_def splice_def)
    then show ?thesis using rd b none grow_empty [where maxSize = maxSize and code = code and ps = ps and offset = offset, OF refl none(2)] ci same r
      by (simp add: ips_fill_def put_within_def put_image_def Let_def takes_def)
  next
    case some
    obtain code1 ps1 where g: "ipsGrowToFit code ps maxSize offset ?n = Some (True, code1, ps1)" "length code1 = length code"
      "drop ?m code1 = drop ?m code"
      "\<forall>dat. length dat = unat ?n \<longrightarrow> code_image ?m code0 (splice code1 (unat offset) dat) ps1 (put_image (unat offset) dat img)"
      using grow_put [OF ci refl some] by blast
    let ?d = "replicate (unat ?n) (S ! 2)"
    have ci2: "code_image ?m code0 (splice code1 (unat offset) ?d) ps1 (put_image (unat offset) ?d img)" using g(4) by simp
    have "fill_code code1 (unat offset) (S ! 2) (unat ?n) = Some (splice code1 (unat offset) ?d)"
      using some same g(2) by (simp add: fill_code_def write_code_def)
    then show ?thesis using rd b g(1) some ci2 code_image_same [OF ci2] r
      by (simp add: ips_fill_def put_within_def Let_def takes_def)
  qed
qed

lemma ips_copy_takes:
  assumes s: "server_ok e content" and ok: "reader_ok content r f" and ci: "code_image (unat maxSize) code0 code ps img"
    and off: "unat offset < 2 ^ 24" and n: "0 < unat sz" "unat sz < 2 ^ 16" and S: "S = patch_rest content r f"
  shows "takes content (unat maxSize) code0 (drop (unat sz) S)
    (if length S < unat sz then None else put_within (unat maxSize) (unat offset) (take (unat sz) S) img)
    (ips_copy e maxSize offset sz code ps r f)"
proof (cases "unat offset + unat sz > unat maxSize")
  case True
  moreover have "unat offset + unat sz < 2 ^ 32" using off n(2) by simp
  ultimately show ?thesis using grow_fails [of offset sz maxSize code ps] code_image_same [OF ci]
    by (auto simp: ips_copy_def put_within_def)
next
  case False
  let ?m = "unat maxSize"
  note same = code_image_same [OF ci]
  have fit: "unat offset + unat sz \<le> ?m" using False by simp
  obtain code1 ps1 where g: "ipsGrowToFit code ps maxSize offset sz = Some (True, code1, ps1)" "length code1 = length code"
    "drop ?m code1 = drop ?m code"
    "\<forall>dat. length dat = unat sz \<longrightarrow> code_image ?m code0 (splice code1 (unat offset) dat) ps1 (put_image (unat offset) dat img)"
    using grow_put [OF ci refl fit n(1)] by blast
  have m1: "?m \<le> length code1" using same g(2) by simp
  have w: "write_code code1 (uint offset) bs = Some (splice code1 (unat offset) bs)" "length (splice code1 (unat offset) bs) = length code0"
    "drop ?m (splice code1 (unat offset) bs) = drop ?m code0" if "length bs \<le> unat sz" for bs
    using write_code_inside [of "unat offset" bs ?m code1] that fit m1 same g(2,3) by simp_all
  from s ok show ?thesis
  proof (cases rule: patchFileRead_cases [where align = "unat offset mod 4" and n = sz])
    case (short bs r' f')
    then show ?thesis using g(1) w [of bs] by (simp add: ips_copy_def S)
  next
    case (all r' f')
    have l: "length (take (unat sz) S) = unat sz" using all(2) by (simp add: S)
    have "code_image ?m code0 (splice code1 (unat offset) (take (unat sz) S)) ps1 (put_image (unat offset) (take (unat sz) S) img)"
      using g(4) l by blast
    moreover have "patchFileRead e (unat offset mod 4) sz r f = Some (True, take (unat sz) S, r', f')" using all(1) by (simp only: S)
    then have "ips_copy e maxSize offset sz code ps r f = Some (True, splice code1 (unat offset) (take (unat sz) S), ps1, r', f')"
      using g(1) w(1) [of "take (unat sz) S"] l by (simp add: ips_copy_def)
    moreover have "(if length S < unat sz then None else put_within ?m (unat offset) (take (unat sz) S) img)
        = Some (put_image (unat offset) (take (unat sz) S) img)"
      using all(2) fit by (simp add: put_within_def S)
    moreover have "patch_rest content r' f' = drop (unat sz) S" using all(4) by (simp only: S)
    ultimately show ?thesis unfolding takes_def using w(2,3) [of "take (unat sz) S"] all(3)
      by (simp only: option.simps) simp
  qed
qed

end
