(* ===== verification/Loader_Patches_Claims.thy ===== *)
theory Loader_Patches_Claims
  imports Loader_Patches_Proofs
begin

text \<open>
  The properties of the patches in the IPS format: the program gives exactly the image the file
  describes, refuses every other file, and never writes beyond the region of the code.
\<close>

section \<open>The loop over the records\<close>

lemma take_eq_prefix: "take 3 s = ascii ''EOF'' \<Longrightarrow> 3 \<le> length s"
  by (cases "length s < 3") (auto simp: ascii_def dest: arg_cong [of _ _ length])

lemma ips_loop_follows:
  assumes s: "server_ok e content"
  shows "reader_ok content r f \<Longrightarrow> code_image (unat maxSize) code0 code ps img \<Longrightarrow> length (patch_rest content r f) < k \<Longrightarrow>
    follows (unat maxSize) code0 codeSize (ips_run (unat maxSize) (patch_rest content r f) img)
      (ips_loop k e maxSize codeSize code ps r f)"
proof (induction k arbitrary: r f code ps img)
  case (Suc k)
  let ?m = "unat maxSize" and ?s = "patch_rest content r f"
  note same = code_image_same [OF Suc.prems(2)]
  from s Suc.prems(1) show ?case
  proof (cases rule: patchFileRead_cases [where align = 0 and n = 3])
    case (short bs r' f')
    then have "ips_run ?m ?s img = None" by (simp add: ips_run.simps [of ?m ?s])
    then show ?thesis using short(1) same by simp
  next
    case (all r1 f1)
    have rd1: "patchFileRead e 0 3 r f = Some (True, take 3 ?s, r1, f1)" "3 \<le> length ?s" using all(1,2) by simp_all
    have r1: "patch_rest content r1 f1 = drop 3 ?s" using all(4) by simp
    show ?thesis
    proof (cases "take 3 ?s = ascii ''EOF''")
      case True
      then have "ips_run ?m ?s img = ips_end ?m (drop 3 ?s) img" using rd1(2) by (simp add: ips_run.simps [of ?m ?s])
      moreover have "ips_loop (Suc k) e maxSize codeSize code ps r f = ips_eof e maxSize code codeSize ps r1 f1"
        using rd1(1) True by simp
      ultimately show ?thesis using ips_eof_follows [OF s all(3) Suc.prems(2)] r1 by simp
    next
      case ne: False
      from s all(3) show ?thesis
      proof (cases rule: patchFileRead_cases [where align = 0 and n = 2])
        case (short bs r' f')
        then have "length ?s < 5" using r1 rd1(2) by simp
        then have "ips_run ?m ?s img = None" using rd1(2) ne by (simp add: ips_run.simps [of ?m ?s])
        moreover have "ips_loop (Suc k) e maxSize codeSize code ps r f = Some (False, code, codeSize, r', f')"
          using rd1(1) ne short(1) by simp
        ultimately show ?thesis using same by simp
      next
        case two: (all r2 f2)
        have rd2: "patchFileRead e 0 2 r1 f1 = Some (True, take 2 (drop 3 ?s), r2, f2)" "5 \<le> length ?s" using two(1,2) r1 rd1(2) by auto
        have r2: "patch_rest content r2 f2 = drop 5 ?s" using two(4) r1 by simp
        let ?off = "be24 ?s" and ?n = "be16 (drop 3 ?s)"
        have b: "be24 (take 3 ?s) = ?off" "be16 (take 2 (drop 3 ?s)) = ?n" by (simp_all add: be_take)
        let ?rec = "if ?n = 0 then ips_fill e maxSize ?off code ps r2 f2 else ips_copy e maxSize ?off ?n code ps r2 f2"
        let ?s' = "if ?n = 0 then drop 8 ?s else drop (5 + unat ?n) ?s"
        let ?mean = "if ?n = 0 then
            (if length (drop 5 ?s) < 3 then None else put_within ?m (unat ?off) (replicate (unat (be16 (drop 5 ?s))) (drop 5 ?s ! 2)) img)
          else (if length (drop 5 ?s) < unat ?n then None else put_within ?m (unat ?off) (take (unat ?n) (drop 5 ?s)) img)"
        have T: "takes content ?m code0 ?s' ?mean ?rec"
        proof (cases "?n = 0")
          case True
          then show ?thesis using ips_fill_takes [OF s two(3) Suc.prems(2) be_bounds(2) r2 [symmetric], of ?s] by simp
        next
          case False
          then have "0 < unat ?n" by (simp add: unat_gt_0)
          from ips_copy_takes [OF s two(3) Suc.prems(2) be_bounds(2) this be_bounds(1) r2 [symmetric], of ?s]
          show ?thesis using False by (simp add: add.commute)
        qed
        have run: "ips_run ?m ?s img = (case ?mean of None \<Rightarrow> None | Some img \<Rightarrow> ips_run ?m ?s' img)"
          using rd2(2) ne by (subst ips_run.simps) (auto simp: unat_eq_0 Let_def)
        obtain code1 ps1 r3 f3 where R: "?rec = Some (?mean \<noteq> None, code1, ps1, r3, f3)" "length code1 = length code0"
          "drop ?m code1 = drop ?m code0"
          "\<forall>img. ?mean = Some img \<longrightarrow> code_image ?m code0 code1 ps1 img \<and> reader_ok content r3 f3 \<and> patch_rest content r3 f3 = ?s'"
          using T unfolding takes_def by blast
        have loop: "ips_loop (Suc k) e maxSize codeSize code ps r f =
            (if ?mean = None then Some (False, code1, codeSize, r3, f3) else ips_loop k e maxSize codeSize code1 ps1 r3 f3)"
          using rd1(1) rd2(1) ne R(1)
          by (simp only: ips_loop.simps bind.bind_lunit prod.case Let_def b not_True_eq_False if_False not_False_eq_True) simp
        show ?thesis
        proof (cases ?mean)
          case None
          have "ips_run ?m ?s img = None" unfolding run None by simp
          moreover have "ips_loop (Suc k) e maxSize codeSize code ps r f = Some (False, code1, codeSize, r3, f3)"
            unfolding loop None by simp
          ultimately show ?thesis using R(2,3) by simp
        next
          case (Some img1)
          have q: "code_image ?m code0 code1 ps1 img1" "reader_ok content r3 f3" "patch_rest content r3 f3 = ?s'" using R(4) Some by blast+
          have "length ?s' < k" using Suc.prems(3) rd2(2) by auto
          then have "follows ?m code0 codeSize (ips_run ?m ?s' img1) (ips_loop k e maxSize codeSize code1 ps1 r3 f3)"
            using Suc.IH [OF q(2,1)] q(3) by simp
          moreover have "ips_run ?m ?s img = ips_run ?m ?s' img1" unfolding run Some by simp
          moreover have "ips_loop (Suc k) e maxSize codeSize code ps r f = ips_loop k e maxSize codeSize code1 ps1 r3 f3"
            unfolding loop Some by simp
          ultimately show ?thesis by simp
        qed
      qed
    qed
  qed
qed simp

lemma applyCodeIpsPatch_follows:
  assumes s: "server_ok e content" and "openLumaFile e sd (patch_path ''ips'' progId) f = (True, i, f1)"
    and "length (content f1 (f_handle i)) < 2 ^ 63" and "length (content f1 (f_handle i)) < k"
    and "codeSize \<le> maxSize" and "unat maxSize \<le> length code"
  shows "follows (unat maxSize) code codeSize (ips_meaning (unat maxSize) (content f1 (f_handle i)) (take (unat codeSize) code))
    (applyCodeIpsPatch k e sd maxSize progId code codeSize f)"
proof -
  let ?m = "unat maxSize" and ?c = "content f1 (f_handle i)"
  have p: "f_pos i = 0" using assms(2) by (auto simp: openLumaFile_def fileOpen_def IFile_Open_def split: prod.splits)
  note ok = reader_ok_new [where content = content and f = f1, OF assms(3) p]
  note rest = patch_rest_new [OF p, of content f1]
  have ci: "code_image ?m code code codeSize (take (unat codeSize) code)"
    using assms(5,6) by (simp add: code_image_def word_le_nat_alt)
  have fin: "follows m code0 cs0 meaning (do {
       (ret, code, codeSize, r, f) \<leftarrow> result;
       let (res, i, f) = IFile_Close e (r_file r) f;
       Some (ret, code, codeSize, f) })" if "follows m code0 cs0 meaning result" for m code0 cs0 meaning result
    using that by (fastforce simp: follows_def split: prod.splits)
  from s ok show ?thesis
  proof (cases rule: patchFileRead_cases [where align = 0 and n = 5])
    case (short bs r' f')
    then have "length ?c < 5" using rest by simp
    then have "ips_meaning ?m ?c (take (unat codeSize) code) = None"
      by (auto simp: ips_meaning_def ascii_def dest: arg_cong [of _ _ length])
    then show ?thesis using assms(2) short(1) code_image_same [OF ci] fin [of ?m code codeSize None "Some (False, code, codeSize, r', f')"]
      by (simp add: applyCodeIpsPatch_def)
  next
    case (all r' f')
    have rd: "patchFileRead e 0 5 (new_reader i) f1 = Some (True, take 5 ?c, r', f')" "patch_rest content r' f' = drop 5 ?c"
      using all(1,4) rest by simp_all
    show ?thesis
    proof (cases "take 5 ?c = ascii ''PATCH''")
      case False
      then show ?thesis using assms(2) rd(1) fin [of ?m code codeSize None "Some (False, code, codeSize, r', f')"]
        by (simp add: applyCodeIpsPatch_def ips_meaning_def)
    next
      case True
      have "length (patch_rest content r' f') < k" using assms(4) rd(2) by simp
      from ips_loop_follows [OF s all(3) ci this, of codeSize]
      have "follows ?m code codeSize (ips_meaning ?m ?c (take (unat codeSize) code)) (ips_loop k e maxSize codeSize code codeSize r' f')"
        using True rd(2) by (simp add: ips_meaning_def)
      then show ?thesis using fin assms(2) rd(1) True by (simp add: applyCodeIpsPatch_def)
    qed
  qed
qed

section \<open>Files written from records\<close>

datatype ips_record = Copy_record u32 bytes | Fill_record u32 u32 u8

definition be24_bytes :: "u32 \<Rightarrow> bytes" where
  "be24_bytes w = [ucast (drop_bit 16 w), ucast (drop_bit 8 w), ucast w]"

definition be16_bytes :: "u32 \<Rightarrow> bytes" where
  "be16_bytes w = [ucast (drop_bit 8 w), ucast w]"

fun record_text :: "ips_record \<Rightarrow> bytes" where
  "record_text (Copy_record off dat) = be24_bytes off @ be16_bytes (word_of_nat (length dat)) @ dat"
| "record_text (Fill_record off n v) = be24_bytes off @ [0, 0] @ be16_bytes n @ [v]"

definition ips_text :: "ips_record list \<Rightarrow> bytes \<Rightarrow> bytes" where
  "ips_text rs trailer = ascii ''PATCH'' @ concat (map record_text rs) @ ascii ''EOF'' @ trailer"

text \<open>What follows the end marker: nothing, or a size.\<close>

definition size_text :: "u32 option \<Rightarrow> bytes" where
  "size_text n = (case n of None \<Rightarrow> [] | Some n \<Rightarrow> be24_bytes n)"

text \<open>An offset that spells the end marker cannot be written in this format.\<close>

fun record_ok :: "nat \<Rightarrow> ips_record \<Rightarrow> bool" where
  "record_ok m (Copy_record off dat) \<longleftrightarrow> unat off < 2 ^ 24 \<and> off \<noteq> 0x454F46 \<and> dat \<noteq> [] \<and> length dat < 2 ^ 16 \<and> unat off + length dat \<le> m"
| "record_ok m (Fill_record off n v) \<longleftrightarrow> unat off < 2 ^ 24 \<and> off \<noteq> 0x454F46 \<and> unat n < 2 ^ 16 \<and> unat off + unat n \<le> m"

fun do_record :: "ips_record \<Rightarrow> bytes \<Rightarrow> bytes" where
  "do_record (Copy_record off dat) = put_image (unat off) dat"
| "do_record (Fill_record off n v) = put_image (unat off) (replicate (unat n) v)"

lemma be24_back: "unat w < 2 ^ 24 \<Longrightarrow> be24 (be24_bytes w @ r) = w"
proof -
  assume "unat w < 2 ^ 24"
  then have "take_bit 24 w = w" by (metis take_bit_nat_eq_self unsigned_take_bit_eq word_unat_eq_iff)
  moreover have "be24 (be24_bytes w @ r) = take_bit 24 w"
  proof (rule bit_eqI)
    fix n :: nat
    consider "n < 8" | "8 \<le> n" "n < 16" | "16 \<le> n" by linarith
    then show "bit (be24 (be24_bytes w @ r)) n \<longleftrightarrow> bit (take_bit 24 w) n"
      by cases (auto simp: be24_def be24_bytes_def bit_simps)
  qed
  ultimately show ?thesis by simp
qed

lemma be16_back: "unat w < 2 ^ 16 \<Longrightarrow> be16 (be16_bytes w @ r) = w"
proof -
  assume "unat w < 2 ^ 16"
  then have "take_bit 16 w = w" by (metis take_bit_nat_eq_self unsigned_take_bit_eq word_unat_eq_iff)
  moreover have "be16 (be16_bytes w @ r) = take_bit 16 w"
    unfolding be16_def be16_bytes_def by (rule bit_eqI) (auto simp: bit_simps)
  ultimately show ?thesis by simp
qed

lemma no_marker:
  assumes "unat w < 2 ^ 24" and "w \<noteq> 0x454F46"
  shows "be24_bytes w \<noteq> ascii ''EOF''"
proof
  assume "be24_bytes w = ascii ''EOF''"
  then have "be24 (ascii ''EOF'' @ []) = w" using be24_back [OF assms(1), of "[]"] by simp
  then show False using assms(2) by (simp add: be24_def ascii_def)
qed

lemma ips_run_record:
  assumes "record_ok m rc"
  shows "ips_run m (record_text rc @ s) img = ips_run m s (do_record rc img)"
proof (cases rc)
  case (Copy_record off dat)
  let ?n = "word_of_nat (length dat) :: u32"
  let ?s = "be24_bytes off @ be16_bytes ?n @ dat @ s"
  have o: "unat off < 2 ^ 24" "off \<noteq> 0x454F46" "dat \<noteq> []" "length dat < 2 ^ 16" "unat off + length dat \<le> m"
    using assms Copy_record by auto
  have un: "unat ?n = length dat" using o(4) by (simp add: unat_of_nat)
  have l: "length (be24_bytes off) = 3" "length (be16_bytes ?n) = 2" by (simp_all add: be24_bytes_def be16_bytes_def)
  have d: "take 3 ?s = be24_bytes off" "drop 3 ?s = be16_bytes ?n @ dat @ s" "drop 5 ?s = dat @ s"
    "drop (5 + length dat) ?s = s" using l by simp_all
  have b: "be24 ?s = off" "be16 (be16_bytes ?n @ dat @ s) = ?n" using be24_back [OF o(1)] be16_back [of ?n] un o(4) by simp_all
  have "ips_run m ?s img = ips_run m s (put_image (unat off) dat img)"
    unfolding ips_run.simps [of m ?s] d b using no_marker [OF o(1,2)] l o un by (simp add: put_within_def Let_def)
  then show ?thesis using Copy_record by simp
next
  case (Fill_record off n v)
  let ?s = "be24_bytes off @ [0, 0] @ be16_bytes n @ [v] @ s"
  have o: "unat off < 2 ^ 24" "off \<noteq> 0x454F46" "unat n < 2 ^ 16" "unat off + unat n \<le> m"
    using assms Fill_record by auto
  have l: "length (be24_bytes off) = 3" "length (be16_bytes n) = 2" by (simp_all add: be24_bytes_def be16_bytes_def)
  have d: "take 3 ?s = be24_bytes off" "drop 3 ?s = [0, 0] @ be16_bytes n @ [v] @ s" "drop 5 ?s = be16_bytes n @ [v] @ s"
    "drop 8 ?s = s" "?s ! 7 = v" using l by (simp_all add: nth_append)
  have b: "be24 ?s = off" "be16 ([0, 0] @ be16_bytes n @ [v] @ s) = 0" "be16 (be16_bytes n @ [v] @ s) = n"
    using be24_back [OF o(1)] be16_back [OF o(3)] by (simp_all add: be16_def)
  have "ips_run m ?s img = ips_run m s (put_image (unat off) (replicate (unat n) v) img)"
    unfolding ips_run.simps [of m ?s] d b using no_marker [OF o(1,2)] l o by (simp add: put_within_def Let_def)
  then show ?thesis using Fill_record by simp
qed

lemma ips_meaning_text:
  assumes "\<forall>rc \<in> set rs. record_ok m rc"
  shows "ips_meaning m (ips_text rs trailer) img = ips_end m trailer (fold do_record rs img)"
proof -
  have end_: "ips_run m (ascii ''EOF'' @ trailer) img' = ips_end m trailer img'" for img'
    by (subst ips_run.simps) (simp add: ascii_def)
  have "\<forall>rc \<in> set rs. record_ok m rc \<Longrightarrow>
      ips_run m (concat (map record_text rs) @ ascii ''EOF'' @ trailer) img = ips_end m trailer (fold do_record rs img)"
    by (induction rs arbitrary: img) (simp_all add: ips_run_record end_)
  with assms show ?thesis by (simp add: ips_meaning_def ips_text_def ascii_def)
qed

lemma ips_end_size:
  assumes "\<forall>n. newSize = Some n \<longrightarrow> unat n < 2 ^ 24 \<and> unat n \<le> m"
  shows "ips_end m (size_text newSize) img = Some (case newSize of None \<Rightarrow> img | Some n \<Rightarrow> resize_image (unat n) img)"
proof (cases newSize)
  case (Some n)
  then have "be24 (be24_bytes n) = n" using be24_back [of n "[]"] assms by simp
  then show ?thesis using Some assms by (simp add: size_text_def ips_end_def be24_bytes_def)
qed (simp add: size_text_def ips_end_def)

section \<open>Properties\<close>

text \<open>C33: whatever the file of the patch holds, the patcher ends; it accepts the file exactly if the file is well
  formed and stays within the region, and then the code is the image the file describes and has
  its size; it never writes behind the region and leaves the size alone when it refuses.\<close>

theorem ips_patch_is_its_meaning:
  assumes "server_ok e content" and "openLumaFile e sd (patch_path ''ips'' progId) f = (True, i, f1)"
    and "length (content f1 (f_handle i)) < min k (2 ^ 63)" and "codeSize \<le> maxSize" and "unat maxSize \<le> length code"
  shows "\<exists>ret code' size' f'. applyCodeIpsPatch k e sd maxSize progId code codeSize f = Some (ret, code', size', f') \<and>
    length code' = length code \<and> drop (unat maxSize) code' = drop (unat maxSize) code \<and>
    (case ips_meaning (unat maxSize) (content f1 (f_handle i)) (take (unat codeSize) code) of
       None \<Rightarrow> \<not> ret \<and> size' = codeSize
     | Some img \<Rightarrow> ret \<and> unat size' = length img \<and> take (unat size') code' = img)"
proof -
  let ?mean = "ips_meaning (unat maxSize) (content f1 (f_handle i)) (take (unat codeSize) code)"
  have "follows (unat maxSize) code codeSize ?mean (applyCodeIpsPatch k e sd maxSize progId code codeSize f)"
    by (rule applyCodeIpsPatch_follows [OF assms(1,2)]) (use assms(3-5) in auto)
  then obtain code' cs r' where r: "applyCodeIpsPatch k e sd maxSize progId code codeSize f = Some (?mean \<noteq> None, code', cs, r')"
    "length code' = length code" "drop (unat maxSize) code' = drop (unat maxSize) code"
    "case ?mean of None \<Rightarrow> cs = codeSize | Some img \<Rightarrow> code_image (unat maxSize) code code' cs img"
    unfolding follows_def by blast
  then show ?thesis by (cases ?mean) (auto simp: code_image_def)
qed

text \<open>C34: a patch file written from records that fit, with or without a size behind its end marker, does what
  the records say, one after the other. With a size the code is cut or extended with zeros to it; without
  one the code has the length of what the records leave.\<close>

theorem ips_records_applied:
  assumes "server_ok e content" and "openLumaFile e sd (patch_path ''ips'' progId) f = (True, i, f1)"
    and "content f1 (f_handle i) = ips_text rs (size_text newSize)"
    and "length (ips_text rs (size_text newSize)) < min k (2 ^ 63)"
    and "\<forall>rc \<in> set rs. record_ok (unat maxSize) rc"
    and "\<forall>n. newSize = Some n \<longrightarrow> unat n < 2 ^ 24 \<and> n \<le> maxSize"
    and "codeSize \<le> maxSize" and "unat maxSize \<le> length code"
  shows "\<exists>code' size' f'. applyCodeIpsPatch k e sd maxSize progId code codeSize f = Some (True, code', size', f') \<and>
    (let img = fold do_record rs (take (unat codeSize) code)
     in case newSize of
          None \<Rightarrow> unat size' = length img \<and> take (length img) code' = img
        | Some n \<Rightarrow> size' = n \<and> take (unat n) code' = resize_image (unat n) img)"
proof -
  let ?img = "fold do_record rs (take (unat codeSize) code)"
  define img where "img = (case newSize of None \<Rightarrow> ?img | Some n \<Rightarrow> resize_image (unat n) ?img)"
  have m: "ips_meaning (unat maxSize) (content f1 (f_handle i)) (take (unat codeSize) code) = Some img"
    unfolding assms(3) ips_meaning_text [OF assms(5)] img_def by (rule ips_end_size) (use assms(6) in \<open>auto simp: word_le_nat_alt\<close>)
  have "follows (unat maxSize) code codeSize (ips_meaning (unat maxSize) (content f1 (f_handle i)) (take (unat codeSize) code))
    (applyCodeIpsPatch k e sd maxSize progId code codeSize f)"
    by (rule applyCodeIpsPatch_follows [OF assms(1,2)]) (use assms(3,4,7,8) in auto)
  then obtain code' cs r' where r: "applyCodeIpsPatch k e sd maxSize progId code codeSize f = Some (True, code', cs, r')"
    "code_image (unat maxSize) code code' cs img"
    unfolding m follows_def by auto
  have l: "unat cs = length img" using code_image_length [OF r(2)] by simp
  then have "newSize = Some n \<Longrightarrow> cs = n" for n by (simp add: img_def resize_image_def word_unat_eq_iff)
  with r l show ?thesis by (auto simp: code_image_def img_def Let_def split: option.splits)
qed

definition demo_records :: "ips_record list" where
  "demo_records = [Copy_record 1 [7, 7], Fill_record 6 2 9]"

text \<open>Opening the file of \<open>demo_fs\<close>; its patch stores two bytes, then two behind the end, then cuts to 7.\<close>

lemma demo_open: "openLumaFile demo_fs True path f = (True, \<lparr>f_handle = 1, f_pos = 0, f_size = 0\<rparr>, f)"
  by (simp add: openLumaFile_def fileOpen_def IFile_Open_def demo_fs_def)

lemma demo_records_ok: "\<forall>rc \<in> set demo_records. record_ok 10 rc"
  by (simp add: demo_records_def)

lemma demo_text: "ips_text demo_records (be24_bytes 7) =
    [0x50, 0x41, 0x54, 0x43, 0x48, 0, 0, 1, 0, 2, 7, 7, 0, 0, 6, 0, 0, 0, 2, 9, 0x45, 0x4F, 0x46, 0, 0, 7]"
  by (simp add: demo_records_def ips_text_def be24_bytes_def be16_bytes_def ascii_def)

lemma demo_fold: "fold do_record demo_records [1, 2, 3, 4] = [1, 7, 7, 4, 0, 0, 9, 9]"
  by code_simp

theorem ips_records_applied_witness:
  "(\<exists>code' f'. applyCodeIpsPatch 30 demo_fs True 10 5 ([1, 2, 3, 4] @ replicate 8 5) 4 (ips_text demo_records (be24_bytes 7)) =
     Some (True, code', 7, f') \<and> take 7 code' = [1, 7, 7, 4, 0, 0, 9]) \<and>
   (\<exists>code' f'. applyCodeIpsPatch 30 demo_fs True 10 5 ([1, 2, 3, 4] @ replicate 8 5) 4 (ips_text demo_records []) =
     Some (True, code', 8, f') \<and> take 8 code' = [1, 7, 7, 4, 0, 0, 9, 9])"
proof
  have m: "\<forall>rc \<in> set demo_records. record_ok (unat (10 :: u32)) rc" using demo_records_ok by simp
  have z: "resize_image 7 [1, 7, 7, 4, 0, 0, 9, 9] = [1, 7, 7, 4, 0, 0, 9 :: u8]" by (simp add: resize_image_def)
  have t: "size_text (Some 7) = be24_bytes 7" "size_text None = []" by (simp_all add: size_text_def)
  have l: "length (ips_text demo_records (size_text (Some 7))) < min 30 (2 ^ 63)"
    "length (ips_text demo_records (size_text None)) < min 30 (2 ^ 63)"
    unfolding t demo_text by (simp_all add: demo_records_def ips_text_def be24_bytes_def be16_bytes_def ascii_def)
  show "\<exists>code' f'. applyCodeIpsPatch 30 demo_fs True 10 5 ([1, 2, 3, 4] @ replicate 8 5) 4 (ips_text demo_records (be24_bytes 7)) =
     Some (True, code', 7, f') \<and> take 7 code' = [1, 7, 7, 4, 0, 0, 9]"
    using ips_records_applied [OF demo_fs_reads demo_open refl l(1) m, of 4 "[1, 2, 3, 4] @ replicate 8 5" 5]
    by (simp add: demo_fold z t)
  have u: "length [1, 7, 7, 4, 0, 0, 9, 9 :: u8] = 8" by simp
  have f: "fold do_record demo_records (take (unat (4 :: u32)) ([1, 2, 3, 4] @ replicate 8 5)) = [1, 7, 7, 4, 0, 0, 9, 9]"
    by (simp add: demo_fold)
  have b: "\<forall>n. None = Some n \<longrightarrow> unat n < 2 ^ 24 \<and> n \<le> (10 :: u32)" "(4 :: u32) \<le> 10"
    "unat (10 :: u32) \<le> length ([1, 2, 3, 4] @ replicate 8 5 :: bytes)" by simp_all
  obtain code' size' f' where r: "applyCodeIpsPatch 30 demo_fs True 10 5 ([1, 2, 3, 4] @ replicate 8 5) 4 (ips_text demo_records []) =
      Some (True, code', size', f')" "unat size' = 8" "take 8 code' = [1, 7, 7, 4, 0, 0, 9, 9]"
    using ips_records_applied [OF demo_fs_reads demo_open refl l(2) m b, of 5] unfolding t f Let_def option.case u by blast
  then have "size' = 8" by (simp add: word_unat_eq_iff)
  with r show "\<exists>code' f'. applyCodeIpsPatch 30 demo_fs True 10 5 ([1, 2, 3, 4] @ replicate 8 5) 4 (ips_text demo_records []) =
     Some (True, code', 8, f') \<and> take 8 code' = [1, 7, 7, 4, 0, 0, 9, 9]" by blast
qed

text \<open>A file that ends in the middle of a record is refused.\<close>

theorem ips_patch_is_its_meaning_witness:
  "\<exists>code' f'. applyCodeIpsPatch 30 demo_fs True 10 5 ([1, 2, 3, 4] @ replicate 8 5) 4 (ascii ''PATCH'' @ [0, 0, 1, 0, 2, 7]) =
     Some (False, code', 4, f') \<and> drop 10 code' = [5, 5]"
proof -
  let ?t = "ascii ''PATCH'' @ [0, 0, 1, 0, 2, 7]"
  have l: "length ?t < min 30 (2 ^ 63)" by (simp add: ascii_def)
  have "ips_meaning 10 ?t [1, 2, 3, 4] = None"
    by (simp add: ips_meaning_def ascii_def ips_run.simps be16_def be24_def)
  moreover have "replicate 2 5 = [5, 5 :: u8]" by (simp add: numeral_2_eq_2)
  ultimately show ?thesis
    using ips_patch_is_its_meaning [where f = ?t and k = 30 and progId = 5 and maxSize = 10 and codeSize = 4 and code = "[1, 2, 3, 4] @ replicate 8 5",
      OF demo_fs_reads demo_open l]
    by auto
qed

end
