(* ===== verification/Loader_Ups.thy ===== *)
theory Loader_Ups
  imports Loader_Patches_Claims
begin

text \<open>
  The properties of the patches in the UPS format: the program gives exactly the image the file
  describes, and a patch that keeps the size undoes itself.
\<close>

section \<open>What a UPS file means\<close>

text \<open>A variable-length number: seven bits a byte, the last byte is marked; every further byte adds one to the digit.\<close>

fun read_vuint :: "nat \<Rightarrow> nat \<Rightarrow> bytes \<Rightarrow> (nat \<times> bytes) option" where
  "read_vuint sh v [] = None"
| "read_vuint sh v (b # t) =
     (if \<not> sh < 32 then None
      else let v1 = v + unat (b AND 0x7F) * 2 ^ sh + (if b AND 0x80 = 0 then 2 ^ (sh + 7) else 0)
           in if v1 \<ge> 2 ^ 32 then None
              else if b AND 0x80 \<noteq> 0 then Some (v1, t) else read_vuint (sh + 7) v1 t)"

text \<open>A run of changed bytes: the offset behind it, the rest of the file, the image.\<close>

fun xor_image :: "nat \<Rightarrow> nat \<Rightarrow> bytes \<Rightarrow> bytes \<Rightarrow> (nat \<times> bytes \<times> bytes) option" where
  "xor_image n off [] img = None"
| "xor_image n off (m # t) img =
     (if m = 0 then Some (if off < n then off + 1 else off, t, img)
      else if off \<ge> n then None
      else xor_image n (off + 1) t (img[off := img ! off XOR m]))"

lemma read_vuint_shorter: "read_vuint sh v t = Some (w, t') \<Longrightarrow> length t' < length t"
  by (induction sh v t rule: read_vuint.induct) (auto simp: Let_def split: if_splits)

lemma xor_image_shorter: "xor_image n off t img = Some (off', t', img') \<Longrightarrow> length t' < length t"
  by (induction n off t img rule: xor_image.induct) (auto split: if_splits)

function ups_run :: "nat \<Rightarrow> nat \<Rightarrow> bytes \<Rightarrow> bytes \<Rightarrow> bytes option" where
  "ups_run n off t img =
     (if t = [] then Some img
      else case read_vuint 0 0 t of
             None \<Rightarrow> None
           | Some (delta, t1) \<Rightarrow>
               if delta > n - off then None
               else if off + delta = n then (if t1 = [] then Some img else None)
               else (case xor_image n (off + delta) t1 img of
                       None \<Rightarrow> None
                     | Some (off2, t2, img2) \<Rightarrow> ups_run n off2 t2 img2))"
  by pat_completeness auto

termination
proof (relation "measure (\<lambda>(n, off, t, img). length t)")
  fix n off t img p delta t1 q off2 r t2 img2
  assume "read_vuint 0 0 t = Some p" "(delta, t1) = p" "xor_image n (off + delta) t1 img = Some q" "(off2, r) = q" "(t2, img2) = r"
  then have "length t1 < length t" "length t2 < length t1" using read_vuint_shorter xor_image_shorter by blast+
  then show "((n, off2, t2, img2), (n, off, t, img)) \<in> measure (\<lambda>(n, off, t, img). length t)" by simp
qed simp

declare ups_run.simps [simp del]

lemma ups_run_simps [simp]:
  "ups_run n off [] img = Some img"
  "ups_run n off (b # s) img =
     (case read_vuint 0 0 (b # s) of
        None \<Rightarrow> None
      | Some (delta, t1) \<Rightarrow>
          if delta > n - off then None
          else if off + delta = n then (if t1 = [] then Some img else None)
          else (case xor_image n (off + delta) t1 img of
                  None \<Rightarrow> None
                | Some (off2, t2, img2) \<Rightarrow> ups_run n off2 t2 img2))"
  by (simp_all add: ups_run.simps [of n off])

text \<open>The file of at least a header and a footer, for an image of a given size.\<close>

definition ups_meaning :: "nat \<Rightarrow> bytes \<Rightarrow> bytes \<Rightarrow> bytes option" where
  "ups_meaning m file img =
     (if length file < 4 + UPS_FOOTER_SIZE \<or> take 4 file \<noteq> ascii ''UPS1'' then None
      else case read_vuint 0 0 (take (length file - 4 - UPS_FOOTER_SIZE) (drop 4 file)) of
             None \<Rightarrow> None
           | Some (baseSize, t) \<Rightarrow>
               (case read_vuint 0 0 t of
                  None \<Rightarrow> None
                | Some (patchedSize, t) \<Rightarrow>
                    if baseSize \<noteq> length img \<or> patchedSize > m then None
                    else map_option (take patchedSize)
                           (ups_run (max baseSize patchedSize) 0 t (img @ replicate (patchedSize - baseSize) 0))))"

section \<open>The program reads the stream\<close>

text \<open>The reader has \<open>left\<close> bytes before the footer, which are \<open>t\<close>.\<close>

definition before_footer :: "('f \<Rightarrow> handle \<Rightarrow> bytes) \<Rightarrow> patch_reader \<Rightarrow> 'f \<Rightarrow> u32 \<Rightarrow> bytes \<Rightarrow> bool" where
  "before_footer content r f left t \<longleftrightarrow> reader_ok content r f \<and> unat left = length t \<and>
     t = take (length t) (patch_rest content r f)"

lemma before_footerD:
  assumes "before_footer content r f left (b # t)"
  shows "left \<noteq> 0" "unat (left - 1) = length t" "\<exists>rs. patch_rest content r f = b # t @ rs"
proof -
  have l: "unat left = length t + 1" using assms by (simp add: before_footer_def)
  then show "left \<noteq> 0" by auto
  have "0 < left" using l by (simp add: word_less_nat_alt)
  then show "unat (left - 1) = length t" using l by (simp add: unat_minus_one word_gt_0)
  have "take (Suc (length t)) (patch_rest content r f) = b # t" using assms by (simp add: before_footer_def)
  then show "\<exists>rs. patch_rest content r f = b # t @ rs" by (metis append_take_drop_id append_Cons)
qed

lemma before_footer_nil: "before_footer content r f left [] \<Longrightarrow> left = 0"
  by (simp add: before_footer_def unat_eq_0)

lemma upsReadByte_stream:
  assumes s: "server_ok e content"
  shows "before_footer content r f left [] \<Longrightarrow> \<exists>r' left' f'. upsReadByte e r left f = Some (False, 0, r', left', f')"
    and "before_footer content r f left (b # t) \<Longrightarrow>
      \<exists>r' left' f'. upsReadByte e r left f = Some (True, b, r', left', f') \<and> before_footer content r' f' left' t"
proof -
  show "before_footer content r f left [] \<Longrightarrow> \<exists>r' left' f'. upsReadByte e r left f = Some (False, 0, r', left', f')"
    by (drule before_footer_nil) (simp add: upsReadByte_def)
  assume bf: "before_footer content r f left (b # t)"
  note l = before_footerD(1,2) [OF bf]
  obtain rs where rs: "patch_rest content r f = b # t @ rs" using before_footerD(3) [OF bf] by blast
  have ok: "reader_ok content r f" using bf by (simp add: before_footer_def)
  show "\<exists>r' left' f'. upsReadByte e r left f = Some (True, b, r', left', f') \<and> before_footer content r' f' left' t"
  proof (cases "r_pos r = length (r_buf r)")
    case False
    let ?r = "r\<lparr>r_pos := r_pos r + 1\<rparr>"
    have p: "r_pos r < length (r_buf r)" using False reader_okD(1) [OF ok] by simp
    then have "patch_rest content r f = r_buf r ! r_pos r # patch_rest content ?r f"
      unfolding patch_rest_def by (simp add: Cons_nth_drop_Suc [symmetric])
    then have "r_buf r ! r_pos r = b" "patch_rest content ?r f = t @ rs" using rs by simp_all
    moreover have "reader_ok content ?r f" using ok p by (simp add: reader_ok_def)
    ultimately show ?thesis using l False by (simp add: upsReadByte_def before_footer_def)
  next
    case True
    from s ok show ?thesis
    proof (cases rule: patchFileRead_cases [where align = 0 and n = 1])
      case (short bs r' f')
      then show ?thesis using rs by simp
    next
      case (all r' f')
      then show ?thesis using l True rs by (simp add: upsReadByte_def before_footer_def)
    qed
  qed
qed

lemma bit7: "unat (b AND 0x7F :: u8) < 128"
proof -
  have "b AND 0x7F = take_bit 7 b" by (simp add: take_bit_eq_mask mask_eq_decr_exp)
  then have "unat (b AND 0x7F) = unat b mod 128" by (simp add: take_bit_eq_mod unat_mod)
  then show ?thesis by simp
qed

lemma vuint_loop_stream:
  assumes s: "server_ok e content"
  shows "before_footer content r f left t \<Longrightarrow> unat v < 2 ^ 32 \<Longrightarrow> sh + 7 * k = 42 \<Longrightarrow> 0 < k \<Longrightarrow>
    (case read_vuint sh (unat v) t of
       None \<Rightarrow> \<exists>w r' left' f'. vuint_loop k e sh v r left f = Some (False, w, r', left', f')
     | Some (n, t') \<Rightarrow> n < 2 ^ 32 \<and>
         (\<exists>r' left' f'. vuint_loop k e sh v r left f = Some (True, word_of_nat n, r', left', f') \<and> before_footer content r' f' left' t'))"
proof (induction k arbitrary: sh v r left f t)
  case (Suc k)
  show ?case
  proof (cases "sh < 32")
    case False
    then show ?thesis by (cases t) auto
  next
    case sh: True
    show ?thesis
    proof (cases t)
      case Nil
      with upsReadByte_stream(1) [OF s] Suc.prems(1) sh show ?thesis by fastforce
    next
      case (Cons b t1)
      obtain r1 left1 f1 where rd: "upsReadByte e r left f = Some (True, b, r1, left1, f1)" "before_footer content r1 f1 left1 t1"
        using upsReadByte_stream(2) [OF s] Suc.prems(1) Cons by blast
      let ?d = "unat (b AND 0x7F) * 2 ^ sh" and ?x = "if b AND 0x80 = 0 then (2::nat) ^ (sh + 7) else 0"
      let ?v = "v + push_bit sh (ucast (b AND 0x7F))"
      let ?v1 = "if b AND 0x80 = 0 then ?v + push_bit (sh + 7) 1 else ?v"
      have le: "(2::nat) ^ sh \<le> 2 ^ 31" "(2::nat) ^ (sh + 7) \<le> 2 ^ 38" by (rule power_increasing; use sh in simp)+
      have "?d \<le> 127 * 2 ^ sh" using bit7 [of b] by (intro mult_right_mono) auto
      also have "\<dots> \<le> 127 * 2 ^ 31" using le(1) by simp
      finally have d: "?d \<le> 127 * 2 ^ 31" .
      have u1: "unat (push_bit sh (ucast (b AND 0x7F)) :: u64) = ?d"
      proof -
        have "unat (ucast (b AND 0x7F) :: u64) = unat (b AND 0x7F)" using bit7 [of b] by (simp add: unsigned_ucast_eq take_bit_nat_eq_self)
        then have "unat (push_bit sh (ucast (b AND 0x7F)) :: u64) = take_bit 64 (push_bit sh (unat (b AND 0x7F)))"
          by (simp add: unsigned_push_bit_eq)
        also have "\<dots> = ?d" using d by (simp add: push_bit_eq_mult take_bit_nat_eq_self)
        finally show ?thesis .
      qed
      have u2: "unat (push_bit (sh + 7) 1 :: u64) = 2 ^ (sh + 7)"
        unfolding unsigned_push_bit_eq using le(2) sh by (simp add: push_bit_eq_mult take_bit_nat_eq_self)
      have uv: "unat ?v = unat v + ?d" using u1 d Suc.prems(2) by (simp add: unat_word_ariths)
      have uv1: "unat ?v1 = unat v + ?d + ?x"
        using uv u2 d le(2) Suc.prems(2) by (auto simp: unat_word_ariths)
      have ov: "w > 0xFFFFFFFF \<longleftrightarrow> unat w \<ge> 2 ^ 32" for w :: u64
        unfolding word_less_nat_alt by (simp add: Suc_le_eq [symmetric])
      show ?thesis
      proof (cases "unat ?v1 \<ge> 2 ^ 32")
        case True
        then have "vuint_loop (Suc k) e sh v r left f = Some (False, 0, r1, left1, f1)"
          using rd(1) sh ov by (simp add: Let_def)
        then show ?thesis using True sh Cons unfolding uv1 by (auto simp: Let_def)
      next
        case False
        show ?thesis
        proof (cases "b AND 0x80 = 0")
          case fin: False
          then have "vuint_loop (Suc k) e sh v r left f = Some (True, ucast ?v1, r1, left1, f1)"
            using rd(1) sh ov False by (simp add: Let_def)
          moreover have "read_vuint sh (unat v) t = Some (unat ?v1, t1)"
            using Cons sh fin False unfolding uv1 by (simp add: Let_def)
          moreover have "\<exists>r' left' f'. Some (True, ucast x :: u32, r1, left1, f1) = Some (True, word_of_nat (unat x), r', left', f') \<and>
              before_footer content r' f' left' t1" for x :: u64
            using rd(2) by simp
          ultimately show ?thesis using False by (simp only: option.case prod.case not_le simp_thms)
        next
          case more: True
          then have l: "vuint_loop (Suc k) e sh v r left f = vuint_loop k e (sh + 7) ?v1 r1 left1 f1"
            using rd(1) sh ov False by (simp add: Let_def)
          have m: "read_vuint sh (unat v) t = read_vuint (sh + 7) (unat ?v1) t1"
            using Cons sh more False unfolding uv1 by (simp add: Let_def)
          have "0 < k" using Suc.prems(3) sh by (cases k) auto
          then show ?thesis unfolding l m using Suc.IH [OF rd(2), of ?v1 "sh + 7"] False Suc.prems(3) by simp
        qed
      qed
    qed
  qed
qed simp

lemma upsReadVuint_stream:
  assumes "server_ok e content" and "before_footer content r f left t"
  shows "read_vuint 0 0 t = None \<Longrightarrow> \<exists>w r' left' f'. upsReadVuint e r left f = Some (False, w, r', left', f')"
    and "read_vuint 0 0 t = Some (n, t') \<Longrightarrow> n < 2 ^ 32 \<and>
      (\<exists>r' left' f'. upsReadVuint e r left f = Some (True, word_of_nat n, r', left', f') \<and> before_footer content r' f' left' t')"
  using vuint_loop_stream [OF assms, of 0 0 6] by (simp_all add: upsReadVuint_def)

lemma xor_run_stream:
  assumes s: "server_ok e content" and n: "unat n \<le> m"
  shows "before_footer content r f left t \<Longrightarrow> length t < k \<Longrightarrow> m \<le> length code \<Longrightarrow> unat off \<le> unat n \<Longrightarrow>
    \<exists>ok code' off' r' left' f'. xor_run k e n code off r left f = Some (ok, code', off', r', left', f') \<and>
      length code' = length code \<and> drop m code' = drop m code \<and>
      (case xor_image (unat n) (unat off) t (take (unat n) code) of
         None \<Rightarrow> \<not> ok
       | Some (o', t', img') \<Rightarrow> ok \<and> unat off' = o' \<and> o' \<le> unat n \<and> take (unat n) code' = img' \<and> before_footer content r' f' left' t')"
proof (induction k arbitrary: code off r left f t)
  case (Suc k)
  show ?case
  proof (cases t)
    case Nil
    with upsReadByte_stream(1) [OF s] Suc.prems(1) show ?thesis by fastforce
  next
    case (Cons b t1)
    obtain r1 left1 f1 where rd: "upsReadByte e r left f = Some (True, b, r1, left1, f1)" "before_footer content r1 f1 left1 t1"
      using upsReadByte_stream(2) [OF s] Suc.prems(1) Cons by blast
    have cmp: "off \<ge> n \<longleftrightarrow> unat off \<ge> unat n" "off < n \<longleftrightarrow> unat off < unat n" by (simp_all add: word_le_nat_alt word_less_nat_alt)
    have lt: "unat n < 2 ^ 32" using unsigned_less [of n] by simp
    have inc: "unat off < unat n \<Longrightarrow> unat (off + 1) = unat off + 1" using lt by (simp add: unat_word_ariths)
    consider "b = 0" | (full) "b \<noteq> 0" "unat off \<ge> unat n" | (x) "b \<noteq> 0" "unat off < unat n" by linarith
    then show ?thesis
    proof cases
      case 1
      then show ?thesis using rd Cons cmp inc Suc.prems(4) by auto
    next
      case full
      then show ?thesis using rd Cons cmp by (simp add: ex_bool_eq)
    next
      case x
      let ?c = "code[unat off := code ! unat off XOR b]"
      have st: "xor_run (Suc k) e n code off r left f = xor_run k e n ?c (off + 1) r1 left1 f1"
        using x rd cmp n Suc.prems(3) by simp
      have im: "xor_image (unat n) (unat off) t (take (unat n) code) = xor_image (unat n) (unat (off + 1)) t1 (take (unat n) ?c)"
        using x Cons inc by (simp add: take_update_swap)
      have dr: "drop m ?c = drop m code" using x n by simp
      show ?thesis unfolding st im
        using Suc.IH [OF rd(2), of ?c "off + 1"] Suc.prems(2,3) Cons x inc dr by simp
    qed
  qed
qed simp

lemma ups_loop_stream:
  assumes s: "server_ok e content" and n: "unat n \<le> m"
  shows "before_footer content r f left t \<Longrightarrow> length t < k \<Longrightarrow> m \<le> length code \<Longrightarrow> unat off \<le> unat n \<Longrightarrow>
    \<exists>code' r' f'. ups_loop k e n code off r left f =
        Some (ups_run (unat n) (unat off) t (take (unat n) code) \<noteq> None, code', r', f') \<and>
      length code' = length code \<and> drop m code' = drop m code \<and>
      (\<forall>img'. ups_run (unat n) (unat off) t (take (unat n) code) = Some img' \<longrightarrow> take (unat n) code' = img')"
proof (induction k arbitrary: code off r left f t)
  case (Suc k)
  let ?img = "take (unat n) code" and ?run = "ups_run (unat n) (unat off) t (take (unat n) code)"
  have un: "unat left = length t" using Suc.prems(1) by (simp add: before_footer_def)
  show ?case
  proof (cases "t = []")
    case True
    then have "left = 0" using un by (simp add: unat_eq_0)
    then show ?thesis using True by (simp add: ups_run.simps)
  next
    case ne: False
    then have l0: "left \<noteq> 0" using un by auto
    show ?thesis
    proof (cases "read_vuint 0 0 t")
      case None
      then have "?run = None" using ne by (simp add: ups_run.simps [of "unat n" "unat off" t])
      then show ?thesis using upsReadVuint_stream(1) [OF s Suc.prems(1) None] l0 by auto
    next
      case (Some p)
      obtain d t1 where p: "p = (d, t1)" by (cases p)
      obtain r1 left1 f1 where rd: "d < 2 ^ 32" "upsReadVuint e r left f = Some (True, word_of_nat d, r1, left1, f1)"
        "before_footer content r1 f1 left1 t1"
        using upsReadVuint_stream(2) [OF s Suc.prems(1)] Some p by blast
      have sh: "length t1 < length t" using read_vuint_shorter Some p by blast
      have ud: "unat (word_of_nat d :: u32) = d" using rd(1) by (simp add: unat_of_nat)
      have sub: "unat (n - off) = unat n - unat off" using Suc.prems(4) by (simp add: unat_sub word_le_nat_alt)
      have big: "word_of_nat d > n - off \<longleftrightarrow> d > unat n - unat off" by (simp add: word_less_nat_alt ud sub)
      have run: "?run = (if d > unat n - unat off then None
               else if unat off + d = unat n then (if t1 = [] then Some ?img else None)
               else (case xor_image (unat n) (unat off + d) t1 ?img of
                       None \<Rightarrow> None
                     | Some (off2, t2, img2) \<Rightarrow> ups_run (unat n) off2 t2 img2))"
        by (subst ups_run.simps) (simp add: ne Some p)
      show ?thesis
      proof (cases "d > unat n - unat off")
        case True
        then show ?thesis unfolding run using rd(2) l0 big by simp
      next
        case False
        have lt: "unat n < 2 ^ 32" using unsigned_less [of n] by simp
        then have uo: "unat (off + word_of_nat d) = unat off + d"
          using False Suc.prems(4) ud by (simp add: unat_word_ariths)
        have eq: "off + word_of_nat d = n \<longleftrightarrow> unat off + d = unat n" by (simp add: word_unat_eq_iff uo)
        have ul1: "left1 = 0 \<longleftrightarrow> t1 = []" using rd(3) by (auto simp: before_footer_def unat_eq_0 [symmetric])
        show ?thesis
        proof (cases "unat off + d = unat n")
          case True
          then show ?thesis unfolding run using rd(2) l0 big False eq ul1 by simp
        next
          case other: False
          have le: "unat (off + word_of_nat d) \<le> unat n" using uo False Suc.prems(4) by simp
          have k1: "length t1 < unat left1 + 1" using rd(3) by (simp add: before_footer_def)
          let ?o = "off + word_of_nat d"
          obtain ok code' off' r' left' f' where X: "xor_run (unat left1 + 1) e n code ?o r1 left1 f1 = Some (ok, code', off', r', left', f')"
            "length code' = length code" "drop m code' = drop m code"
            "case xor_image (unat n) (unat ?o) t1 ?img of None \<Rightarrow> \<not> ok
             | Some (o', t', img') \<Rightarrow> ok \<and> unat off' = o' \<and> o' \<le> unat n \<and> take (unat n) code' = img' \<and> before_footer content r' f' left' t'"
            using xor_run_stream [OF s n rd(3) k1 Suc.prems(3) le] by blast
          have st: "ups_loop (Suc k) e n code off r left f =
              (if ok then ups_loop k e n code' off' r' left' f' else Some (False, code', r', f'))"
            using rd(2) l0 big False eq other X(1) by (simp add: Let_def del: xor_run.simps)
          show ?thesis
          proof (cases "xor_image (unat n) (unat ?o) t1 ?img")
            case None
            then show ?thesis using X(2-4) other False st run uo by simp
          next
            case (Some q)
            obtain o2 t2 i2 where q: "q = (o2, t2, i2)" by (cases q)
            have Y: "ok" "unat off' = o2" "o2 \<le> unat n" "take (unat n) code' = i2" "before_footer content r' f' left' t2"
              using X(4) Some q by auto
            have "length t2 < length t1" using xor_image_shorter Some q by blast
            then have k2: "length t2 < k" using sh Suc.prems(2) by simp
            have "?run = ups_run (unat n) (unat off') t2 (take (unat n) code')"
              using run other False Some q uo Y by simp
            then show ?thesis using Suc.IH [OF Y(5) k2, of code' off'] Suc.prems(3) X(2,3) Y(1-3) st by simp
          qed
        qed
      qed
    qed
  qed
qed simp

section \<open>The whole file\<close>

lemma ups_body_follows:
  assumes s: "server_ok e content" and ok: "reader_ok content r f" and l: "4 + UPS_FOOTER_SIZE \<le> length (patch_rest content r f)"
    and left: "unat left = length (patch_rest content r f) - 4 - UPS_FOOTER_SIZE"
    and c: "codeSize \<le> maxSize" "unat maxSize \<le> length code"
  shows "follows (unat maxSize) code codeSize (ups_meaning (unat maxSize) (patch_rest content r f) (take (unat codeSize) code))
    (ups_body e maxSize code codeSize r left f)"
  using s ok
proof (cases rule: patchFileRead_cases [where align = 0 and n = 4])
  case (short bs r' f')
  then show ?thesis using l by (simp add: UPS_FOOTER_SIZE_def)
next
  case (all r0 f0)
  let ?m = "unat maxSize" and ?s = "patch_rest content r f" and ?img = "take (unat codeSize) code"
  let ?t = "take (length ?s - 4 - UPS_FOOTER_SIZE) (drop 4 ?s)"
  have rd0: "patchFileRead e 0 4 r f = Some (True, take 4 ?s, r0, f0)" "patch_rest content r0 f0 = drop 4 ?s" using all(1,4) by simp_all
  have li: "length ?img = unat codeSize" using c by (simp add: word_le_nat_alt)
  have bf0: "before_footer content r0 f0 left ?t" using all(3) rd0(2) left l by (simp add: before_footer_def)
  note no = UPS_FOOTER_SIZE_def
  show ?thesis
  proof (cases "take 4 ?s = ascii ''UPS1''")
    case False
    then show ?thesis using rd0(1) by (simp add: ups_body_def ups_meaning_def)
  next
    case hd: True
    show ?thesis
    proof (cases "read_vuint 0 0 ?t")
      case None
      then have "ups_meaning ?m ?s ?img = None" by (simp add: ups_meaning_def)
      then show ?thesis using upsReadVuint_stream(1) [OF s bf0 None] rd0(1) hd by (auto simp: ups_body_def)
    next
      case (Some p)
      obtain b t1 where p: "p = (b, t1)" by (cases p)
      obtain r1 left1 f1 where rd1: "b < 2 ^ 32" "upsReadVuint e r0 left f0 = Some (True, word_of_nat b, r1, left1, f1)"
        "before_footer content r1 f1 left1 t1"
        using upsReadVuint_stream(2) [OF s bf0] Some p by blast
      show ?thesis
      proof (cases "read_vuint 0 0 t1")
        case None
        then have "ups_meaning ?m ?s ?img = None" using Some p by (simp add: ups_meaning_def)
        then show ?thesis using upsReadVuint_stream(1) [OF s rd1(3) None] rd0(1) hd rd1(2) by (auto simp: ups_body_def)
      next
        case (Some q)
        obtain n t2 where q: "q = (n, t2)" by (cases q)
        obtain r2 left2 f2 where rd2: "n < 2 ^ 32" "upsReadVuint e r1 left1 f1 = Some (True, word_of_nat n, r2, left2, f2)"
          "before_footer content r2 f2 left2 t2"
          using upsReadVuint_stream(2) [OF s rd1(3)] Some q by blast
        have ub: "unat (word_of_nat b :: u32) = b" "unat (word_of_nat n :: u32) = n" using rd1(1) rd2(1) by (simp_all add: unat_of_nat)
        have mean: "ups_meaning ?m ?s ?img = (if b \<noteq> unat codeSize \<or> n > ?m then None
            else map_option (take n) (ups_run (max b n) 0 t2 (?img @ replicate (n - b) 0)))"
          using l hd \<open>read_vuint 0 0 ?t = Some p\<close> p Some q li by (simp add: ups_meaning_def)
        show ?thesis
        proof (cases "b \<noteq> unat codeSize \<or> n > ?m")
          case True
          then have "(word_of_nat b :: u32) \<noteq> codeSize \<or> word_of_nat n > maxSize" using ub by (auto simp: word_less_nat_alt)
          then have "ups_body e maxSize code codeSize r left f = Some (False, code, codeSize, r2, f2)"
            using rd0(1) hd rd1(2) rd2(2) by (simp add: ups_body_def)
          then show ?thesis using True mean by simp
        next
          case False
          then have b: "b = unat codeSize" "n \<le> ?m" "b \<le> ?m" using c(1) by (auto simp: word_le_nat_alt)
          then have bw: "(word_of_nat b :: u32) = codeSize" "\<not> word_of_nat n > maxSize" using ub by (auto simp: word_less_nat_alt)
          let ?code1 = "if n > b then splice code b (replicate (n - b) 0) else code"
          have fill: "(if (word_of_nat n :: u32) > word_of_nat b then fill_code code (unat (word_of_nat b :: u32)) 0
              (unat (word_of_nat n - word_of_nat b :: u32)) else Some code) = Some ?code1"
          proof (cases "n > b")
            case True
            then have "(word_of_nat n :: u32) > word_of_nat b" "unat (word_of_nat n - word_of_nat b :: u32) = n - b"
              using ub by (simp_all add: word_less_nat_alt unat_sub word_le_nat_alt)
            then show ?thesis using True ub write_code_inside(1) [of b "replicate (n - b) 0" ?m code] b c by (simp add: fill_code_def)
          next
            case False
            then show ?thesis using ub by (simp add: word_less_nat_alt)
          qed
          have l1: "length ?code1 = length code" "drop ?m ?code1 = drop ?m code"
            using write_code_inside(2,3) [of b "replicate (n - b) 0" ?m code] b c(2) by auto
          let ?x = "max (word_of_nat b) (word_of_nat n) :: u32"
          have ux: "unat ?x = max b n" using ub by (auto simp: max_def word_le_nat_alt)
          have xm: "unat ?x \<le> ?m" using ux b by simp
          have t1: "take (unat ?x) ?code1 = ?img @ replicate (n - b) 0"
            using b c(2) unfolding ux by (simp add: splice_def max_def)
          have k: "length t2 < unat left2 + 1" using rd2(3) by (simp add: before_footer_def)
          have mc: "?m \<le> length ?code1" using c(2) l1(1) by simp
          obtain code' r3 f3 where L: "ups_loop (unat left2 + 1) e ?x ?code1 0 r2 left2 f2 =
              Some (ups_run (max b n) 0 t2 (?img @ replicate (n - b) 0) \<noteq> None, code', r3, f3)"
            "length code' = length ?code1" "drop ?m code' = drop ?m ?code1"
            "\<forall>img'. ups_run (max b n) 0 t2 (?img @ replicate (n - b) 0) = Some img' \<longrightarrow> take (max b n) code' = img'"
            using ups_loop_stream [OF s xm rd2(3) k mc, of 0] unfolding t1 unfolding ux by auto
          let ?run = "ups_run (max b n) 0 t2 (?img @ replicate (n - b) 0)"
          have body: "ups_body e maxSize code codeSize r left f =
              Some (?run \<noteq> None, code', if ?run \<noteq> None then word_of_nat n else codeSize, r3, f3)"
            using rd0(1) hd rd1(2) rd2(2) bw fill [unfolded bw(1)] L(1) [unfolded bw(1)] unfolding ups_body_def
            by (simp del: ups_loop.simps)
          show ?thesis
          proof (cases ?run)
            case None
            then show ?thesis using body mean False L(2,3) l1 by simp
          next
            case (Some img')
            then have "take n code' = take n img'" using L(4) by (metis max.cobounded2 min.absorb1 take_take)
            then have "code_image ?m code code' (word_of_nat n) (take n img')"
              using L(2,3) l1 b c(2) ub by (simp add: code_image_def)
            then show ?thesis using follows_done body mean False Some by (simp add: option.map)
          qed
        qed
      qed
    qed
  qed
qed

text \<open>The file server tells the size of a file.\<close>

definition sizes_ok :: "'f fs_env \<Rightarrow> ('f \<Rightarrow> handle \<Rightarrow> bytes) \<Rightarrow> bool" where
  "sizes_ok e content \<longleftrightarrow> (\<forall>f h. case FSFILE_GetSize e f h of (res, n, f1) \<Rightarrow>
     \<not> FS_FAILED e res \<and> n = word_of_nat (length (content f h)) \<and> content f1 = content f)"

lemma applyCodeUpsPatch_follows:
  assumes s: "server_ok e content" and z: "sizes_ok e content" and o: "openLumaFile e sd (patch_path ''ups'' progId) f = (True, i, f1)"
    and l: "length (content f1 (f_handle i)) < 2 ^ 32" and c: "codeSize \<le> maxSize" "unat maxSize \<le> length code"
  shows "follows (unat maxSize) code codeSize (ups_meaning (unat maxSize) (content f1 (f_handle i)) (take (unat codeSize) code))
    (applyCodeUpsPatch e sd maxSize progId code codeSize f)"
proof -
  let ?c = "content f1 (f_handle i)"
  obtain res n f2 where g: "FSFILE_GetSize e f1 (f_handle i) = (res, n, f2)" by (rule prod_cases3)
  have G: "\<not> FS_FAILED e res" "n = word_of_nat (length ?c)" "content f2 = content f1"
    using spec [OF spec [OF z [unfolded sizes_ok_def], of f1], of "f_handle i"] unfolding g prod.case by blast+
  let ?i = "i\<lparr>f_size := n\<rparr>"
  have p: "f_pos ?i = 0" using o by (auto simp: openLumaFile_def fileOpen_def IFile_Open_def split: prod.splits)
  have un: "unat n = length ?c" using l G(2) by (simp add: unat_of_nat)
  have ok: "reader_ok content (new_reader ?i) f2" by (rule reader_ok_new) (use l G(3) p in auto)
  have rest: "patch_rest content (new_reader ?i) f2 = ?c" using patch_rest_new [OF p, of content f2] G(3) by simp
  have small: "n < 4 + word_of_nat UPS_FOOTER_SIZE \<longleftrightarrow> length ?c < 4 + UPS_FOOTER_SIZE"
    by (simp add: word_less_nat_alt un UPS_FOOTER_SIZE_def)
  have big: "\<not> n > 0xFFFFFFFF" using l un by (simp add: word_less_nat_alt)
  have fin: "follows m code0 cs0 meaning (do {
       (ret, code, codeSize, r, f) \<leftarrow> result;
       let (res, i, f) = IFile_Close e (r_file r) f;
       Some (ret, code, codeSize, f) })" if "follows m code0 cs0 meaning result" for m code0 cs0 meaning result
    using that by (fastforce simp: follows_def split: prod.splits)
  have size: "IFile_GetSize e i f1 = (res, n, ?i, f2)" using g G(1) by (simp add: IFile_GetSize_def)
  show ?thesis
  proof (cases "length ?c < 4 + UPS_FOOTER_SIZE")
    case True
    then have "follows (unat maxSize) code codeSize None (Some (False, code, codeSize, new_reader ?i, f2))" by simp
    moreover have "ups_meaning (unat maxSize) ?c (take (unat codeSize) code) = None" using True by (simp add: ups_meaning_def)
    ultimately show ?thesis using o size True small by (simp add: applyCodeUpsPatch_def split: prod.splits)
  next
    case False
    have "unat (ucast n :: u32) = length ?c" using l un by (simp add: unsigned_ucast_eq take_bit_nat_eq_self)
    then have left: "unat (ucast n - word_of_nat UPS_FOOTER_SIZE - 4 :: u32) = length ?c - 4 - UPS_FOOTER_SIZE"
      using False by (simp add: UPS_FOOTER_SIZE_def unat_sub word_le_nat_alt)
    have "follows (unat maxSize) code codeSize (ups_meaning (unat maxSize) ?c (take (unat codeSize) code))
        (ups_body e maxSize code codeSize (new_reader ?i) (ucast n - word_of_nat UPS_FOOTER_SIZE - 4) f2)"
      using ups_body_follows [OF s ok _ _ c, of "ucast n - word_of_nat UPS_FOOTER_SIZE - 4"] False left unfolding rest by simp
    then show ?thesis using fin o size False small big G(1) by (simp add: applyCodeUpsPatch_def)
  qed
qed

section \<open>A patch is a mask\<close>

definition xor_bytes :: "bytes \<Rightarrow> bytes \<Rightarrow> bytes" where
  "xor_bytes a b = map2 (XOR) a b"

lemma xor_bytes_back: "length a = length b \<Longrightarrow> xor_bytes (xor_bytes a b) b = a"
  unfolding xor_bytes_def by (induction a b rule: list_induct2) (simp_all add: xor.assoc)

lemma length_xor_bytes [simp]: "length (xor_bytes a b) = min (length a) (length b)"
  by (simp add: xor_bytes_def)

lemma xor_image_mask:
  "xor_image n off t img = Some (off', t', img') \<Longrightarrow>
   \<exists>M. length M = n \<and> (\<forall>im. length im = n \<longrightarrow> xor_image n off t im = Some (off', t', xor_bytes im M))"
proof (induction n off t img rule: xor_image.induct)
  case (2 n off m t img)
  have zero: "xor_bytes im (replicate (length im) 0) = im" for im
    unfolding xor_bytes_def by (induction im) auto
  show ?case
  proof (cases "m = 0")
    case True
    then show ?thesis using 2 zero by (intro exI [of _ "replicate n 0"]) auto
  next
    case False
    then have lt: "off < n" using 2 by (auto split: if_splits)
    obtain M where M: "length M = n"
      "\<And>im. length im = n \<Longrightarrow> xor_image n (off + 1) t im = Some (off', t', xor_bytes im M)"
      using 2 False lt by (auto split: if_splits)
    let ?M = "M[off := M ! off XOR m]"
    have "xor_bytes (im[off := im ! off XOR m]) M = xor_bytes im ?M" if "length im = n" for im
      using that M(1) lt unfolding xor_bytes_def
      by (intro nth_equalityI) (auto simp: nth_list_update xor.assoc xor.commute xor.left_commute)
    then show ?thesis using False lt M by (intro exI [of _ ?M]) auto
  qed
qed simp

lemma ups_run_mask:
  "ups_run n off t img = Some img' \<Longrightarrow> length img = n \<Longrightarrow>
   \<exists>M. length M = n \<and> (\<forall>im. length im = n \<longrightarrow> ups_run n off t im = Some (xor_bytes im M))"
proof (induction "length t" arbitrary: off t img rule: less_induct)
  case less
  have zero: "xor_bytes im (replicate k 0) = im" if "length im = k" for im k
    unfolding that [symmetric] xor_bytes_def by (induction im) auto
  show ?case
  proof (cases "t = []")
    case True
    then show ?thesis using zero by (intro exI [of _ "replicate n 0"]) (auto simp: ups_run.simps)
  next
    case ne: False
    then obtain d t1 where v: "read_vuint 0 0 t = Some (d, t1)"
      using less.prems(1) by (auto simp: ups_run.simps [of n off t] split: option.splits)
    have run: "ups_run n off t im = (if d > n - off then None
               else if off + d = n then (if t1 = [] then Some im else None)
               else (case xor_image n (off + d) t1 im of
                       None \<Rightarrow> None | Some (off2, t2, img2) \<Rightarrow> ups_run n off2 t2 img2))" for im
      by (subst ups_run.simps) (simp add: ne v)
    have d: "\<not> d > n - off" using less.prems(1) run by (auto split: if_splits)
    show ?thesis
    proof (cases "off + d = n")
      case True
      then have "t1 = []" using less.prems(1) run d by (auto split: if_splits)
      then have "ups_run n off t im = Some (xor_bytes im (replicate n 0))" if "length im = n" for im
        using run [of im] d True zero [OF that] by simp
      then show ?thesis by (intro exI [of _ "replicate n 0"]) simp
    next
      case False
      then obtain o2 t2 i2 where x: "xor_image n (off + d) t1 img = Some (o2, t2, i2)" "ups_run n o2 t2 i2 = Some img'"
        using less.prems(1) run d by (auto split: option.splits)
      obtain M1 where M1: "length M1 = n" "\<And>im. length im = n \<Longrightarrow> xor_image n (off + d) t1 im = Some (o2, t2, xor_bytes im M1)"
        using xor_image_mask [OF x(1)] by blast
      have "length t2 < length t" using read_vuint_shorter [OF v] xor_image_shorter [OF x(1)] by simp
      moreover have "length i2 = n" using M1 x(1) less.prems(2) by auto
      ultimately obtain M2 where M2: "length M2 = n" "\<And>im. length im = n \<Longrightarrow> ups_run n o2 t2 im = Some (xor_bytes im M2)"
        using less.hyps x(2) by blast
      have "xor_bytes (xor_bytes im M1) M2 = xor_bytes im (xor_bytes M1 M2)" if "length im = n" for im
        using that M1(1) M2(1) unfolding xor_bytes_def by (intro nth_equalityI) (auto simp: xor.assoc)
      then show ?thesis using run d False M1 M2 by (intro exI [of _ "xor_bytes M1 M2"]) auto
    qed
  qed
qed

lemma ups_meaning_twice:
  assumes "ups_meaning m file img = Some img'" and "length img' = length img"
  shows "ups_meaning m file img' = Some img"
proof -
  obtain b t where b: "read_vuint 0 0 (take (length file - 4 - UPS_FOOTER_SIZE) (drop 4 file)) = Some (b, t)"
    using assms(1) by (auto simp: ups_meaning_def split: if_splits option.splits)
  then obtain p t1 where p: "read_vuint 0 0 t = Some (p, t1)"
    using assms(1) by (auto simp: ups_meaning_def split: if_splits option.splits)
  have hd: "\<not> (length file < 4 + UPS_FOOTER_SIZE \<or> take 4 file \<noteq> ascii ''UPS1'')" using assms(1) by (auto simp: ups_meaning_def split: if_splits)
  have mean: "ups_meaning m file im = (if b \<noteq> length im \<or> p > m then None
      else map_option (take p) (ups_run (max b p) 0 t1 (im @ replicate (p - b) 0)))" for im
    using hd b p by (simp add: ups_meaning_def)
  have bl: "b = length img" "p \<le> m" using assms(1) mean by (auto split: if_splits)
  obtain im1 where r: "ups_run (max b p) 0 t1 (img @ replicate (p - b) 0) = Some im1" "img' = take p im1"
    using assms(1) mean bl by auto
  have ll: "length (img @ replicate (p - b) 0) = max b p" using bl by simp
  obtain M where M: "length M = max b p" "\<And>im. length im = max b p \<Longrightarrow> ups_run (max b p) 0 t1 im = Some (xor_bytes im M)"
    using ups_run_mask [OF r(1) ll] by blast
  have i1: "im1 = xor_bytes (img @ replicate (p - b) 0) M" using M(2) [OF ll] r(1) by simp
  have "length im1 = max b p" using i1 ll M(1) by simp
  then have pb: "p = b" using assms(2) r(2) bl by (auto simp: max_def min_def split: if_splits)
  then have "im1 = xor_bytes img M" "img' = im1" using i1 r(2) \<open>length im1 = max b p\<close> by auto
  then have "ups_run b 0 t1 img' = Some img" using M bl pb xor_bytes_back [of img M] by simp
  then show ?thesis using mean [of img'] bl pb assms(2) by simp
qed

section \<open>Properties\<close>

text \<open>C35: the same for UPS: the patcher always ends; it accepts the file exactly if it is well formed, made for code of this
  size and stays within the region, and then the code is the image that the file describes.\<close>

theorem ups_patch_is_its_meaning:
  assumes "server_ok e content" and "sizes_ok e content" and "openLumaFile e sd (patch_path ''ups'' progId) f = (True, i, f1)"
    and "length (content f1 (f_handle i)) < 2 ^ 32" and "codeSize \<le> maxSize" and "unat maxSize \<le> length code"
  shows "\<exists>ret code' size' f'. applyCodeUpsPatch e sd maxSize progId code codeSize f = Some (ret, code', size', f') \<and>
    length code' = length code \<and> drop (unat maxSize) code' = drop (unat maxSize) code \<and>
    (case ups_meaning (unat maxSize) (content f1 (f_handle i)) (take (unat codeSize) code) of
       None \<Rightarrow> \<not> ret \<and> size' = codeSize
     | Some img \<Rightarrow> ret \<and> unat size' = length img \<and> take (unat size') code' = img)"
proof -
  let ?mean = "ups_meaning (unat maxSize) (content f1 (f_handle i)) (take (unat codeSize) code)"
  obtain code' cs r' where r: "applyCodeUpsPatch e sd maxSize progId code codeSize f = Some (?mean \<noteq> None, code', cs, r')"
    "length code' = length code" "drop (unat maxSize) code' = drop (unat maxSize) code"
    "case ?mean of None \<Rightarrow> cs = codeSize | Some img \<Rightarrow> code_image (unat maxSize) code code' cs img"
    using applyCodeUpsPatch_follows [OF assms] unfolding follows_def by blast
  then show ?thesis by (cases ?mean) (auto simp: code_image_def)
qed

text \<open>C36: a UPS patch that does not change the size undoes itself: applied a second time, to the patched code, it
  succeeds and gives the code there was.\<close>

theorem ups_patch_undoes_itself:
  assumes "server_ok e content" and "sizes_ok e content" and "codeSize \<le> maxSize" and "unat maxSize \<le> length code"
    and "openLumaFile e sd (patch_path ''ups'' progId) f = (True, i, f1)" and "length (content f1 (f_handle i)) < 2 ^ 32"
    and "applyCodeUpsPatch e sd maxSize progId code codeSize f = Some (True, code1, codeSize, f2)"
    and "openLumaFile e sd (patch_path ''ups'' progId) f2 = (True, j, f3)" and "content f3 (f_handle j) = content f1 (f_handle i)"
  shows "\<exists>code2 f4. applyCodeUpsPatch e sd maxSize progId code1 codeSize f2 = Some (True, code2, codeSize, f4) \<and>
    take (unat codeSize) code2 = take (unat codeSize) code"
proof -
  let ?file = "content f1 (f_handle i)" and ?img = "take (unat codeSize) code" and ?img1 = "take (unat codeSize) code1"
  have l: "length ?img = unat codeSize" using assms(3,4) by (simp add: word_le_nat_alt)
  have 1: "ups_meaning (unat maxSize) ?file ?img = Some ?img1" "length code1 = length code"
    using applyCodeUpsPatch_follows [OF assms(1,2,5,6,3,4)] assms(7)
    by (auto simp: follows_def code_image_def split: option.splits)
  have "length ?img1 = length ?img" using l 1(2) assms(3,4) by (simp add: word_le_nat_alt)
  note 2 = ups_meaning_twice [OF 1(1) this]
  have "length (content f3 (f_handle j)) < 2 ^ 32" "unat maxSize \<le> length code1" using assms(6,9,4) 1(2) by simp_all
  from applyCodeUpsPatch_follows [OF assms(1,2,8) this(1) assms(3) this(2)]
  obtain code2 cs f4 where 3: "applyCodeUpsPatch e sd maxSize progId code1 codeSize f2 = Some (True, code2, cs, f4)"
    "code_image (unat maxSize) code1 code2 cs ?img"
    unfolding assms(9) 2 follows_def by auto
  have "unat cs = length ?img" using code_image_length [OF 3(2)] by simp
  then have "cs = codeSize" using l by (simp add: word_unat_eq_iff)
  with 3 show ?thesis by (auto simp: code_image_def)
qed

lemma demo_fs_sizes: "sizes_ok demo_fs (\<lambda>f h. f)"
  by (simp add: sizes_ok_def demo_fs_def)

text \<open>A file of 26 bytes: code of 5 bytes stays 5 bytes long, bytes 1 and 2 are changed.\<close>

definition demo_ups :: bytes where
  "demo_ups = ascii ''UPS1'' @ [0x85, 0x85, 0x81, 7, 9, 0] @ replicate 12 0"

lemma demo_ups_meaning: "ups_meaning 6 demo_ups [1, 2, 3, 4, 5] = Some [1, 5, 10, 4, 5]"
  by (simp add: demo_ups_def ups_meaning_def UPS_FOOTER_SIZE_def ascii_def)

theorem ups_patch_is_its_meaning_witness:
  "\<exists>code' size' f'. applyCodeUpsPatch demo_fs True 6 5 [1, 2, 3, 4, 5, 6, 7] 5 demo_ups = Some (True, code', size', f') \<and>
     unat size' = 5 \<and> take (unat size') code' = [1, 5, 10, 4, 5] \<and> drop 6 code' = [7]"
  using ups_patch_is_its_meaning [where maxSize = 6 and codeSize = 5 and code = "[1, 2, 3, 4, 5, 6, 7]" and progId = 5 and f = demo_ups,
    OF demo_fs_reads demo_fs_sizes demo_open] demo_ups_meaning
  by (auto simp: demo_ups_def ascii_def)

theorem ups_patch_undoes_itself_witness:
  "\<exists>code1 code2 f2 f4. applyCodeUpsPatch demo_fs True 6 5 [1, 2, 3, 4, 5, 6, 7] 5 demo_ups = Some (True, code1, 5, f2) \<and>
     applyCodeUpsPatch demo_fs True 6 5 code1 5 f2 = Some (True, code2, 5, f4) \<and> take 5 code2 = [1, 2, 3, 4, 5]"
proof -
  have l: "length demo_ups < 2 ^ 32" by (simp add: demo_ups_def ascii_def)
  have *: "applyCodeUpsPatch demo_fs True 6 5 [1, 2, 3, 4, 5, 6, 7] 5 demo_ups =
      Some (True, [1, 5, 10, 4, 5, 6, 7], 5, demo_ups)" unfolding demo_ups_def by code_simp
  show ?thesis
    using * ups_patch_undoes_itself [OF demo_fs_reads demo_fs_sizes _ _ demo_open l * demo_open refl] by simp
qed

end
