(* ===== verification/Loader_Paslr.thy ===== *)
theory Loader_Paslr
  imports Prelude
begin

text \<open>
  The allocation of the memory of a program (\<open>loader/source/paslr.c\<close>): the pages are cut into up to
  eight chunks of random length that are allocated in a random order, so that virtual addresses do
  not tell physical ones.

  Numbers of pages are natural numbers: a size of 32 bits has less than \<open>2 ^ 20\<close> pages. The kernel is an
  environment; the calls of \<open>svcControlMemory\<close> that were made are returned in their order.

  Lemmas: the chunks tile the region, the order is a permutation, and a partial last page group stays last.
\<close>

section \<open>Operations\<close>

record 'n mem_env =
  svcGetSystemTick :: "'n \<Rightarrow> u64 \<times> 'n"
  svcControlMemory :: "'n \<Rightarrow> u32 \<Rightarrow> u32 \<Rightarrow> u32 \<Rightarrow> result \<times> 'n"

definition MEMOP_FREE :: u32 where "MEMOP_FREE = 1"
definition MEMOP_ALLOC :: u32 where "MEMOP_ALLOC = 3"
definition MEMOP_REGION_APP :: u32 where "MEMOP_REGION_APP = 0x100"
definition MEMOP_REGION_SYSTEM :: u32 where "MEMOP_REGION_SYSTEM = 0x200"

text \<open>The shift of the tick is the one of signed numbers.\<close>

definition getRandomInt :: "'n mem_env \<Rightarrow> u32 \<Rightarrow> u64 \<Rightarrow> 'n \<Rightarrow> u32 \<times> u64 \<times> 'n" where
  "getRandomInt e maxNum st n =
     (let (tick, n) = svcGetSystemTick e n;
          tmp = drop_bit 7 st - signed_drop_bit 2 tick;
          st = (tmp XOR st) AND 0x49CC9BA7FC61CA67;
          tmp = 0x5D588B656C078965 * st + 0x29EC3
      in (ucast (drop_bit 32 (drop_bit 32 tmp * ucast maxNum)), st, n))"

definition titleUidListForPaslr :: "u32 list" where
  "titleUidListForPaslr =
     [0x0209, 0x0219, 0x0229, 0x0269, 0x0289, 0x0334, 0x0335, 0x0336, 0x0343, 0x0465, 0x04B3,
      0x0913, 0x09FA, 0x0933, 0x07FD, 0x0961, 0x0A5D, 0x0A5E, 0x0A6F, 0x0C61, 0x0C81,
      0x0D7C, 0x0D7D, 0x0D7E, 0x11C4, 0x11C5, 0x149B, 0x1746, 0x1744, 0x1773, 0x12C1, 0x136E, 0x17C1]"

text \<open>What the routine reads of the extended header: the descriptors, the category, the title.\<close>

record exheader_info =
  descriptors :: "u32 list"
  reslimit_category :: nat
  exh_title_id :: u64

definition RESLIMIT_CATEGORY_LIB_APPLET :: nat where "RESLIMIT_CATEGORY_LIB_APPLET = 2"

text \<open>The region and the kernel version: the last descriptors of their kinds.\<close>

definition scan_descriptors :: "u32 list \<Rightarrow> u32 \<times> u16" where
  "scan_descriptors ds =
     fold (\<lambda>desc (region, ver).
       if drop_bit 23 desc = 0x1FE then (desc AND 0xF00, ver)
       else if drop_bit 25 desc = 0x7E then (region, ucast desc) else (region, ver)) ds (0, 0)"

text \<open>\<open>enabled\<close> is the choice of the build (\<open>LOADER_ENABLE_PASLR\<close>).\<close>

definition needsPaslr :: "bool \<Rightarrow> exheader_info \<Rightarrow> bool \<times> u32" where
  "needsPaslr enabled exhi =
     (let (region, minKernelVer) = scan_descriptors (take 28 (descriptors exhi))
      in (if \<not> enabled then False
          else if region \<noteq> MEMOP_REGION_APP \<and> region \<noteq> MEMOP_REGION_SYSTEM then False
          else if region = MEMOP_REGION_SYSTEM \<and> reslimit_category exhi = RESLIMIT_CATEGORY_LIB_APPLET then False
          else if minKernelVer \<ge> 0x0239 then True
          else if drop_bit 46 (exh_title_id exhi) \<noteq> 0x10 then False
          else ucast (drop_bit 8 (exh_title_id exhi) AND 0xFFFFF) \<in> set titleUidListForPaslr, region))"

type_synonym chunk = "u32 \<times> u32"

definition chunk_of :: "u32 \<Rightarrow> nat \<Rightarrow> nat \<Rightarrow> chunk" where
  "chunk_of vaddr curPage numPages = (vaddr + push_bit 12 (word_of_nat curPage), push_bit 12 (word_of_nat numPages))"

text \<open>Up to seven chunks of a random number of 64 KB; the pages behind them are in \<open>curPage\<close>.\<close>

primrec chunk_loop :: "nat \<Rightarrow> 'n mem_env \<Rightarrow> u32 \<Rightarrow> nat \<Rightarrow> nat \<Rightarrow> chunk list \<Rightarrow> u64 \<Rightarrow> 'n \<Rightarrow> nat \<times> chunk list \<times> u64 \<times> 'n" where
  "chunk_loop 0 e vaddr totalNumPages curPage chunks st n = (curPage, chunks, st, n)"
| "chunk_loop (Suc k) e vaddr totalNumPages curPage chunks st n =
     (let maxUnits = (totalNumPages - curPage) div 16
      in if maxUnits = 0 then (curPage, chunks, st, n)
         else let maxUnits = (if maxUnits > 15 then 15 else maxUnits);
                  (r, st, n) = getRandomInt e (word_of_nat maxUnits) st n;
                  numPages = 16 * (1 + unat r)
              in chunk_loop k e vaddr totalNumPages (curPage + numPages) (chunks @ [chunk_of vaddr curPage numPages]) st n)"

definition make_chunks :: "'n mem_env \<Rightarrow> u32 \<Rightarrow> nat \<Rightarrow> u64 \<Rightarrow> 'n \<Rightarrow> chunk list \<times> u64 \<times> 'n" where
  "make_chunks e vaddr totalNumPages st n =
     (let (curPage, chunks, st, n) = chunk_loop 7 e vaddr totalNumPages 0 [] st n
      in (if curPage < totalNumPages then chunks @ [chunk_of vaddr curPage (totalNumPages - curPage)] else chunks, st, n))"

text \<open>The random order of the first \<open>m\<close> of the chunks.\<close>

primrec shuffle :: "nat \<Rightarrow> 'n mem_env \<Rightarrow> nat list \<Rightarrow> u64 \<Rightarrow> 'n \<Rightarrow> nat list \<times> u64 \<times> 'n" where
  "shuffle 0 e order st n = (order, st, n)"
| "shuffle (Suc i) e order st n =
     (let (r, st, n) = getRandomInt e (word_of_nat (i + 1)) st n; j = unat r
      in shuffle i e (order[i := order ! j, j := order ! i]) st n)"

type_synonym mem_call = "u32 \<times> u32 \<times> u32"

text \<open>The allocations, up to the first that fails; the position where it stopped.\<close>

fun alloc_loop :: "'n mem_env \<Rightarrow> u32 \<Rightarrow> chunk list \<Rightarrow> nat list \<Rightarrow> nat \<Rightarrow> 'n \<Rightarrow> result \<times> nat \<times> mem_call list \<times> 'n" where
  "alloc_loop e flags chunks [] i n = (0, i, [], n)"
| "alloc_loop e flags chunks (idx # order) i n =
     (let (a, s) = chunks ! idx; (res, n) = svcControlMemory e n flags a s
      in if sint res < 0 then (res, i, [(flags, a, s)], n)
         else let (res', i', calls, n) = alloc_loop e flags chunks order (i + 1) n
              in (if order = [] then res else res', i', (flags, a, s) # calls, n))"

text \<open>The calls that clean up; their number is the first argument.\<close>

primrec free_loop :: "nat \<Rightarrow> 'n mem_env \<Rightarrow> chunk \<Rightarrow> 'n \<Rightarrow> mem_call list \<times> 'n" where
  "free_loop 0 e c n = ([], n)"
| "free_loop (Suc j) e c n =
     (let (res, n) = svcControlMemory e n MEMOP_FREE (fst c) (snd c); (calls, n) = free_loop j e c n
      in ((MEMOP_FREE, fst c, snd c) # calls, n))"

definition allocateProgramMemory :: "'n mem_env \<Rightarrow> bool \<Rightarrow> exheader_info \<Rightarrow> u32 \<Rightarrow> u32 \<Rightarrow> u64 \<Rightarrow> 'n \<Rightarrow> result \<times> mem_call list \<times> u64 \<times> 'n" where
  "allocateProgramMemory e enabled exhi vaddr sz st n =
     (let (doPaslr, region) = needsPaslr enabled exhi
      in if region = 0 then (0xD8E00402, [], st, n)
         else let allocFlags = MEMOP_ALLOC OR region
              in if \<not> doPaslr then (let (res, n) = svcControlMemory e n allocFlags vaddr sz in (res, [(allocFlags, vaddr, sz)], st, n))
                 else let totalNumPages = unat (drop_bit 12 sz);
                          (chunks, st, n) = make_chunks e vaddr totalNumPages st n;
                          numChunks = length chunks;
                          toRandomize = (if totalNumPages mod 16 \<noteq> 0 then numChunks - 1 else numChunks);
                          (order, st, n) = shuffle toRandomize e [0..<8] st n;
                          (res, i, calls, n) = alloc_loop e allocFlags chunks (take numChunks order) 0 n
                      in if i = numChunks then (res, calls, st, n)
                         else let (frees, n) = free_loop i e (chunks ! (order ! i)) n in (res, calls @ frees, st, n))"

section \<open>Random numbers\<close>

lemma random_below:
  assumes "0 < maxNum" and "getRandomInt e maxNum st n = (r, st', n')"
  shows "r < maxNum"
proof -
  obtain tick n1 where t: "svcGetSystemTick e n = (tick, n1)" by (cases "svcGetSystemTick e n")
  obtain x :: u64 where r: "r = ucast (drop_bit 32 (drop_bit 32 x * ucast maxNum))"
    using assms(2) t by (auto simp: getRandomInt_def Let_def)
  have m: "unat maxNum < 2 ^ 32" using unsigned_less [of maxNum] by simp
  have um: "unat (ucast maxNum :: u64) = unat maxNum" using m by (simp add: unsigned_ucast_eq take_bit_nat_eq_self)
  have "unat x < 2 ^ 64" using unsigned_less [of x] by simp
  then have ux: "unat (drop_bit 32 x) < 2 ^ 32" by (simp add: drop_bit_eq_div unat_div)
  have "unat (drop_bit 32 x) * unat maxNum < 2 ^ 32 * 2 ^ 32" using ux m by (intro mult_strict_mono) auto
  then have p: "unat (drop_bit 32 x * ucast maxNum) = unat (drop_bit 32 x) * unat maxNum" by (simp add: unat_word_ariths um)
  have "unat (drop_bit 32 x) * unat maxNum < 2 ^ 32 * unat maxNum"
    using ux assms(1) by (simp add: word_less_nat_alt)
  then have "unat (drop_bit 32 x) * unat maxNum div 2 ^ 32 < unat maxNum"
    by (intro less_mult_imp_div_less) (simp add: mult.commute)
  moreover have "unat (drop_bit 32 y) = unat y div 2 ^ 32" for y :: u64 by (metis drop_bit_eq_div unat_drop_bit_eq)
  ultimately have q: "unat (drop_bit 32 (drop_bit 32 x * ucast maxNum)) < unat maxNum" using p by metis
  then have "unat r = unat (drop_bit 32 (drop_bit 32 x * ucast maxNum))"
    unfolding r using m by (simp add: unsigned_ucast_eq take_bit_nat_eq_self)
  with q show ?thesis by (simp add: word_less_nat_alt)
qed

section \<open>The chunks\<close>

text \<open>Consecutive chunks of the given numbers of pages.\<close>

fun cut_pages :: "u32 \<Rightarrow> nat \<Rightarrow> nat list \<Rightarrow> chunk list" where
  "cut_pages vaddr cur [] = []"
| "cut_pages vaddr cur (k # ks) = chunk_of vaddr cur k # cut_pages vaddr (cur + k) ks"

lemma length_cut_pages [simp]: "length (cut_pages vaddr cur ks) = length ks"
  by (induction ks arbitrary: cur) simp_all

lemma cut_pages_append: "cut_pages vaddr cur (ks @ ls) = cut_pages vaddr cur ks @ cut_pages vaddr (cur + sum_list ks) ls"
  by (induction ks arbitrary: cur) (simp_all add: add.assoc)

lemma chunk_loop_cut:
  assumes "chunk_loop k e vaddr tot cur chunks st n = (cur', chunks', st', n')" and "cur \<le> tot"
  shows "\<exists>lens. chunks' = chunks @ cut_pages vaddr cur lens \<and> cur' = cur + sum_list lens \<and> cur' \<le> tot \<and> length lens \<le> k \<and>
    (\<forall>l \<in> set lens. 0 < l \<and> 16 dvd l) \<and> (tot - cur' < 16 \<or> length lens = k)"
  using assms
proof (induction k arbitrary: cur chunks st n)
  case 0
  then show ?case by (intro exI [of _ "[]"]) simp
next
  case (Suc k)
  let ?mu = "(tot - cur) div 16"
  show ?case
  proof (cases "?mu = 0")
    case True
    then have "tot - cur < 16" by auto
    then show ?thesis using Suc.prems True by (intro exI [of _ "[]"]) simp
  next
    case False
    let ?m = "if ?mu > 15 then 15 else ?mu"
    obtain r st1 n1 where g: "getRandomInt e (word_of_nat ?m) st n = (r, st1, n1)" by (rule prod_cases3)
    have m: "0 < ?m" "?m \<le> 15" "?m \<le> ?mu" using False by auto
    then have um: "unat (word_of_nat ?m :: u32) = ?m" by (simp add: unat_of_nat)
    then have "0 < (word_of_nat ?m :: u32)" using m(1) by (simp add: word_less_nat_alt)
    from random_below [OF this g] have r: "unat r < ?m" by (simp add: word_less_nat_alt um)
    let ?p = "16 * (1 + unat r)"
    have "1 + unat r \<le> ?mu" using r m by linarith
    then have "?p \<le> 16 * ?mu" by simp
    also have "\<dots> \<le> tot - cur" by simp
    finally have "?p \<le> tot - cur" .
    then have c: "cur + ?p \<le> tot" using Suc.prems(2) by linarith
    have step: "chunk_loop k e vaddr tot (cur + ?p) (chunks @ [chunk_of vaddr cur ?p]) st1 n1 = (cur', chunks', st', n')"
      using Suc.prems(1) False g by (simp add: Let_def split: if_splits)
    obtain lens where L: "chunks' = (chunks @ [chunk_of vaddr cur ?p]) @ cut_pages vaddr (cur + ?p) lens" "cur' = cur + ?p + sum_list lens"
      "cur' \<le> tot" "length lens \<le> k" "\<forall>l \<in> set lens. 0 < l \<and> 16 dvd l" "tot - cur' < 16 \<or> length lens = k"
      using Suc.IH [OF step c] by blast
    show ?thesis by (rule exI [of _ "?p # lens"]) (use L in auto)
  qed
qed

text \<open>The numbers of pages: their sum is the total, all but perhaps the last are multiples of 64 KB.\<close>

definition chunks_ok :: "nat \<Rightarrow> nat list \<Rightarrow> bool" where
  "chunks_ok tot lens \<longleftrightarrow> sum_list lens = tot \<and> length lens \<le> 8 \<and> (\<forall>l \<in> set lens. 0 < l) \<and>
     (\<forall>l \<in> set (if tot mod 16 = 0 then lens else butlast lens). 16 dvd l)"

lemma make_chunks_ok:
  assumes "make_chunks e vaddr tot st n = (chunks, st', n')"
  shows "\<exists>lens. chunks = cut_pages vaddr 0 lens \<and> chunks_ok tot lens"
proof -
  obtain cur ch st1 n1 where l: "chunk_loop 7 e vaddr tot 0 [] st n = (cur, ch, st1, n1)" by (rule prod_cases4)
  from chunk_loop_cut [OF this] obtain lens where L: "ch = cut_pages vaddr 0 lens" "cur = sum_list lens" "cur \<le> tot" "length lens \<le> 7"
    "\<forall>l \<in> set lens. 0 < l \<and> 16 dvd l" by auto
  have d: "16 dvd sum_list lens" using L(5) by (induction lens) auto
  show ?thesis
  proof (cases "cur < tot")
    case True
    have "16 dvd (tot - cur)" if "tot mod 16 = 0" using that d L(2,3) by (simp add: dvd_diff_nat mod_eq_0_iff_dvd)
    then have "chunks_ok tot (lens @ [tot - cur])" using L True by (auto simp: chunks_ok_def)
    moreover have "chunks = cut_pages vaddr 0 (lens @ [tot - cur])" using assms l L(1,2) True by (simp add: make_chunks_def cut_pages_append)
    ultimately show ?thesis by blast
  next
    case False
    then have "cur = tot" using L(3) by simp
    then have "chunks_ok tot lens" using L d by (auto simp: chunks_ok_def mod_eq_0_iff_dvd)
    moreover have "chunks = cut_pages vaddr 0 lens" using assms l L(1) False by (simp add: make_chunks_def)
    ultimately show ?thesis by blast
  qed
qed

section \<open>The order\<close>

lemma shuffle_permutes:
  assumes "shuffle m e order st n = (order', st', n')" and "m \<le> length order"
  shows "mset (take m order') = mset (take m order) \<and> drop m order' = drop m order \<and> length order' = length order"
  using assms
proof (induction m arbitrary: order st n)
  case (Suc i)
  obtain r st1 n1 where g: "getRandomInt e (word_of_nat (i + 1)) st n = (r, st1, n1)" by (rule prod_cases3)
  let ?j = "unat r" and ?o = "order[i := order ! unat r, unat r := order ! i]"
  have "?j \<le> i"
  proof (cases "(word_of_nat (i + 1) :: u32) = 0")
    case False
    then have "0 < (word_of_nat (i + 1) :: u32)" by (simp add: word_gt_0)
    from random_below [OF this g] have "unat r < unat (word_of_nat (i + 1) :: u32)" by (simp add: word_less_nat_alt)
    also have "\<dots> \<le> i + 1" by (simp add: unat_of_nat del: of_nat_Suc of_nat_add)
    finally show ?thesis by simp
  next
    case True
    then have "r = 0" using g by (auto simp: getRandomInt_def Let_def split: prod.splits)
    then show ?thesis by simp
  qed
  then have j: "?j < Suc i" "i < Suc i" by simp_all
  have l: "Suc i \<le> length order" using Suc.prems(2) .
  have sw: "take (Suc i) ?o = (take (Suc i) order)[i := take (Suc i) order ! ?j, ?j := take (Suc i) order ! i]"
    using j by (simp add: take_update_swap)
  have "mset (take (Suc i) ?o) = mset (take (Suc i) order)"
    unfolding sw by (rule mset_swap) (use l j in auto)
  moreover have "drop (Suc i) ?o = drop (Suc i) order" using j by simp
  moreover have sh: "shuffle i e ?o st1 n1 = (order', st', n')" using Suc.prems(1) g by (simp add: Let_def)
  have "mset (take i order') = mset (take i ?o) \<and> drop i order' = drop i ?o \<and> length order' = length ?o"
    by (rule Suc.IH [OF sh]) (use l in simp)
  moreover from this have "mset (take (Suc i) order') = mset (take (Suc i) ?o)"
  proof -
    assume a: "mset (take i order') = mset (take i ?o) \<and> drop i order' = drop i ?o \<and> length order' = length ?o"
    have t: "take (Suc i) xs = take i xs @ take 1 (drop i xs)" for xs :: "nat list" using take_add [of i 1 xs] by simp
    show ?thesis unfolding t using a by simp
  qed
  moreover from calculation have "drop (Suc i) order' = drop (Suc i) ?o" by (metis drop_Suc_Cons drop_drop plus_1_eq_Suc)
  ultimately show ?case by simp
qed simp

section \<open>The calls\<close>

lemma alloc_loop_all:
  assumes "\<And>n f a s. 0 \<le> sint (fst (svcControlMemory e n f a s))"
  shows "\<exists>res n'. alloc_loop e flags chunks order i n =
      (res, i + length order, map (\<lambda>idx. (flags, fst (chunks ! idx), snd (chunks ! idx))) order, n') \<and> 0 \<le> sint res"
proof (induction order arbitrary: i n)
  case (Cons idx order)
  obtain a s where c: "chunks ! idx = (a, s)" by (cases "chunks ! idx")
  obtain r n1 where k: "svcControlMemory e n flags a s = (r, n1)" by (cases "svcControlMemory e n flags a s")
  have r: "\<not> sint r < 0" using assms [of n flags a s] k by simp
  obtain res n2 where "alloc_loop e flags chunks order (i + 1) n1 =
      (res, i + 1 + length order, map (\<lambda>idx. (flags, fst (chunks ! idx), snd (chunks ! idx))) order, n2)" "0 \<le> sint res"
    using Cons.IH by blast
  then show ?case using c k r by simp
qed simp

text \<open>C37: with address randomisation, whatever the random numbers, the kernel is asked for chunks that tile
  exactly the pages of the region, each once, at most eight, in an order that is a permutation; the
  chunks are multiples of 64 KB but for the last, and that one stays last when the region is not a multiple.\<close>

theorem paslr_tiles_region:
  assumes "needsPaslr enabled exhi = (True, region)" and "region \<noteq> 0"
    and "\<And>n f a s. 0 \<le> sint (fst (svcControlMemory e n f a s))"
    and "allocateProgramMemory e enabled exhi vaddr sz st n = (res, calls, st', n')"
  shows "0 \<le> sint res \<and> (\<exists>lens order. chunks_ok (unat (drop_bit 12 sz)) lens \<and>
    mset order = mset [0..<length lens] \<and>
    calls = map (\<lambda>k. (MEMOP_ALLOC OR region, fst (cut_pages vaddr 0 lens ! k), snd (cut_pages vaddr 0 lens ! k))) order \<and>
    (unat (drop_bit 12 sz) mod 16 \<noteq> 0 \<longrightarrow> last order = length lens - 1))"
proof -
  let ?tot = "unat (drop_bit 12 sz)"
  obtain chunks st1 n1 where mk: "make_chunks e vaddr ?tot st n = (chunks, st1, n1)" by (rule prod_cases3)
  from make_chunks_ok [OF mk] obtain lens where L: "chunks = cut_pages vaddr 0 lens" "chunks_ok ?tot lens" by blast
  let ?m = "length lens" and ?r = "if ?tot mod 16 \<noteq> 0 then length lens - 1 else length lens"
  obtain ord st2 n2 where sh: "shuffle ?r e [0..<8] st1 n1 = (ord, st2, n2)" by (rule prod_cases3)
  have m8: "?m \<le> 8" using L(2) by (simp add: chunks_ok_def)
  have r8: "?r \<le> length [0..<8]" using m8 by auto
  have P: "mset (take ?r ord) = mset (take ?r [0..<8])" "drop ?r ord = drop ?r [0..<8]" "length ord = 8"
    using shuffle_permutes [OF sh r8] by (simp_all only: length_upt diff_zero simp_thms)
  obtain res1 n3 where al: "alloc_loop e (MEMOP_ALLOC OR region) chunks (take ?m ord) 0 n2 =
      (res1, ?m, map (\<lambda>idx. (MEMOP_ALLOC OR region, fst (chunks ! idx), snd (chunks ! idx))) (take ?m ord), n3)" "0 \<le> sint res1"
    using alloc_loop_all [OF assms(3), of "MEMOP_ALLOC OR region" chunks "take ?m ord" 0 n2] P(3) m8 by (auto simp: min_def)
  have run: "res = res1 \<and> calls = map (\<lambda>idx. (MEMOP_ALLOC OR region, fst (chunks ! idx), snd (chunks ! idx))) (take ?m ord)"
  proof -
    have lc: "length chunks = ?m" using L(1) by simp
    show ?thesis using assms(2,4)
      unfolding allocateProgramMemory_def assms(1) Let_def prod.case mk lc sh al(1) by simp
  qed
  have rm: "?r \<le> ?m" by simp
  have tk: "take ?m xs = take ?r xs @ take (?m - ?r) (drop ?r xs)" for xs :: "nat list"
    using take_add [of ?r "?m - ?r" xs] rm by simp
  have mord: "mset (take ?m ord) = mset [0..<?m]"
  proof -
    have "mset (take ?m ord) = mset (take ?m [0..<8])" unfolding tk using P(1,2) by simp
    then show ?thesis using m8 by (simp add: take_upt)
  qed
  have lst: "last (take ?m ord) = ?m - 1" if "?tot mod 16 \<noteq> 0"
  proof -
    have "lens \<noteq> []" using L(2) that by (auto simp: chunks_ok_def)
    then obtain k where k: "?m = Suc k" by (cases lens) auto
    have "take ?m ord = take k ord @ take 1 (drop k ord)" using take_add [of k 1 ord] k by simp
    moreover have "drop k ord = drop k [0..<8]" using P(2) that k by simp
    moreover have "k < 8" using k m8 by simp
    then have "drop k [0..<8] = k # [Suc k..<8]" by (simp only: drop_upt add_0) (rule upt_conv_Cons)
    ultimately show ?thesis using k by simp
  qed
  show ?thesis using run al(2) L mord lst by blast
qed

definition demo_mem :: "nat mem_env" where
  "demo_mem = \<lparr>svcGetSystemTick = (\<lambda>n. (word_of_nat n * 0x123456789ABCDEF, n + 1)), svcControlMemory = (\<lambda>n f a s. (0, n))\<rparr>"

definition demo_exh :: exheader_info where
  "demo_exh = \<lparr>descriptors = [0xFF000100, 0xFC000240], reslimit_category = 0, exh_title_id = 0\<rparr>"

theorem paslr_tiles_region_witness:
  "\<exists>res calls st' n'. allocateProgramMemory demo_mem True demo_exh 0x10000000 0x25000 0 7 = (res, calls, st', n') \<and> 0 \<le> sint res \<and>
    (\<exists>lens order. chunks_ok 37 lens \<and> mset order = mset [0..<length lens] \<and> length calls = length order)"
proof -
  obtain res calls st' n' where a: "allocateProgramMemory demo_mem True demo_exh 0x10000000 0x25000 0 7 = (res, calls, st', n')"
    by (rule prod_cases4)
  have "needsPaslr True demo_exh = (True, 0x100)" by code_simp
  moreover have "0 \<le> sint (fst (svcControlMemory demo_mem n f a s))" for n f a s by (simp add: demo_mem_def)
  ultimately have "0 \<le> sint res \<and> (\<exists>lens order. chunks_ok (unat (drop_bit 12 (0x25000 :: u32))) lens \<and> mset order = mset [0..<length lens] \<and>
    calls = map (\<lambda>k. (MEMOP_ALLOC OR 0x100, fst (cut_pages 0x10000000 0 lens ! k), snd (cut_pages 0x10000000 0 lens ! k))) order \<and>
    (unat (drop_bit 12 (0x25000 :: u32)) mod 16 \<noteq> 0 \<longrightarrow> last order = length lens - 1))"
    using a by (intro paslr_tiles_region) simp_all
  moreover have "unat (drop_bit 12 (0x25000 :: u32)) = 37" by code_simp
  ultimately show ?thesis using a by fastforce
qed

text \<open>When a later allocation fails, the clean-up frees the chunk that could not be allocated, as often as there are
  allocated ones, which stay allocated.\<close>

lemma clean_up_frees_failed_chunk: "fst (free_loop j e c n) = replicate j (MEMOP_FREE, fst c, snd c)"
  by (induction j arbitrary: n) (auto split: prod.splits simp: prod_eq_iff)

lemma failed_allocation_leaks:
  assumes "needsPaslr enabled exhi = (True, region)" and "region \<noteq> 0"
    and "make_chunks e vaddr (unat (drop_bit 12 sz)) st n = (chunks, st1, n1)"
    and "shuffle (if unat (drop_bit 12 sz) mod 16 \<noteq> 0 then length chunks - 1 else length chunks) e [0..<8] st1 n1 = (order, st2, n2)"
    and "alloc_loop e (MEMOP_ALLOC OR region) chunks (take (length chunks) order) 0 n2 = (res, i, allocs, n3)" and "i \<noteq> length chunks"
  shows "\<exists>n'. allocateProgramMemory e enabled exhi vaddr sz st n =
    (res, allocs @ replicate i (MEMOP_FREE, fst (chunks ! (order ! i)), snd (chunks ! (order ! i))), st2, n')"
  using assms clean_up_frees_failed_chunk [of i e "chunks ! (order ! i)" n3]
  by (cases "free_loop i e (chunks ! (order ! i)) n3") (simp add: allocateProgramMemory_def Let_def)

end
