(* ===== verification/Gdb_Points.thy ===== *)
theory Gdb_Points
  imports Prelude
begin

text \<open>
  Breakpoints of the debugger (\<open>rosalina/source/gdb/breakpoints.c\<close>).

  The array of breakpoints with its count is the list of its used entries; a saved instruction is
  its four bytes in memory. The kernel calls on the memory of the process are an environment. An error
  number is negative, as in the source.

  Lemmas: the binary search finds the lower bound; the list stays sorted and is a finite map.
\<close>

section \<open>Breakpoints\<close>

definition MAX_BREAKPOINT :: nat where "MAX_BREAKPOINT = 64"
definition BREAKPOINT_INSTRUCTION_ARM :: u32 where "BREAKPOINT_INSTRUCTION_ARM = 0xEF0000FF"
definition BREAKPOINT_INSTRUCTION_THUMB :: u32 where "BREAKPOINT_INSTRUCTION_THUMB = 0xDFFF"
definition EINVAL :: int where "EINVAL = 22"
definition EBUSY :: int where "EBUSY = 16"
definition EFAULT :: int where "EFAULT = 14"

record breakpoint =
  bp_address :: u32
  savedInstruction :: bytes
  instructionSize :: nat
  persistent :: bool

record 'n target_env =
  svcReadProcessMemory :: "'n \<Rightarrow> u32 \<Rightarrow> nat \<Rightarrow> result \<times> bytes \<times> 'n"
  svcWriteProcessMemory :: "'n \<Rightarrow> bytes \<Rightarrow> u32 \<Rightarrow> result \<times> 'n"

function slot_loop :: "breakpoint list \<Rightarrow> u32 \<Rightarrow> nat \<Rightarrow> nat \<Rightarrow> nat" where
  "slot_loop bps address a b =
     (let m = (a + b) div 2
      in if bp_address (bps ! m) < address then (if b - m > 1 then slot_loop bps address m b else b)
         else if bp_address (bps ! m) > address then (if m - a > 1 then slot_loop bps address a m else m)
         else m)"
  by pat_completeness auto
termination
proof (relation "measure (\<lambda>(bps, address, a, b). b - a)", goal_cases)
  case (2 bps address a b m)
  then have "b - m < b - a" by arith
  then show ?case by simp
next
  case (3 bps address a b m)
  then have "m - a < b - a" by arith
  then show ?case by simp
qed simp

declare slot_loop.simps [simp del]

definition GDB_FindClosestBreakpointSlot :: "breakpoint list \<Rightarrow> u32 \<Rightarrow> nat" where
  "GDB_FindClosestBreakpointSlot bps address =
     (if bps = [] \<or> address \<le> bp_address (bps ! 0) then 0
      else if address > bp_address (bps ! (length bps - 1)) then length bps
      else slot_loop bps address 0 (length bps - 1))"

definition GDB_GetBreakpointInstruction :: "breakpoint list \<Rightarrow> u32 \<Rightarrow> int \<times> bytes option" where
  "GDB_GetBreakpointInstruction bps address =
     (let id = GDB_FindClosestBreakpointSlot bps address
      in if id = length bps \<or> bp_address (bps ! id) \<noteq> address then (- EINVAL, None)
         else (0, Some (savedInstruction (bps ! id))))"

text \<open>The entry at the slot before it is filled: what the shifted array holds there.\<close>

definition slot_content :: "breakpoint list \<Rightarrow> nat \<Rightarrow> breakpoint" where
  "slot_content bps i = (if i < length bps then bps ! i
     else \<lparr>bp_address = 0, savedInstruction = replicate 4 0, instructionSize = 0, persistent = False\<rparr>)"

definition GDB_AddBreakpoint ::
    "'n target_env \<Rightarrow> u32 \<Rightarrow> bool \<Rightarrow> bool \<Rightarrow> breakpoint list \<Rightarrow> 'n \<Rightarrow> int \<times> breakpoint list \<times> 'n" where
  "GDB_AddBreakpoint e address thumb persist bps n =
     (if \<not> thumb \<and> address AND 3 \<noteq> 0 then (- EINVAL, bps, n)
      else let address = address AND NOT 1; id = GDB_FindClosestBreakpointSlot bps address
           in if id \<noteq> length bps \<and> instructionSize (bps ! id) \<noteq> 0 \<and> bp_address (bps ! id) = address then (0, bps, n)
              else if length bps = MAX_BREAKPOINT then (- EBUSY, bps, n)
              else let k = (if thumb then 2 else 4);
                       instr = (if thumb then BREAKPOINT_INSTRUCTION_THUMB else BREAKPOINT_INSTRUCTION_ARM);
                       (res, bs, n) = svcReadProcessMemory e n address k
                   in if rfailed res then (- EFAULT, bps, n)
                      else let (res, n) = svcWriteProcessMemory e n (take k (word_bytes instr)) address
                           in if rfailed res then (- EFAULT, bps, n)
                              else (0, take id bps @ [\<lparr>bp_address = address,
                                      savedInstruction = bs @ drop (length bs) (savedInstruction (slot_content bps id)),
                                      instructionSize = k, persistent = persist\<rparr>] @ drop id bps, n))"

definition GDB_DisableBreakpointById :: "'n target_env \<Rightarrow> breakpoint \<Rightarrow> 'n \<Rightarrow> int \<times> 'n" where
  "GDB_DisableBreakpointById e bkpt n =
     (let (res, n) = svcWriteProcessMemory e n (take (instructionSize bkpt) (savedInstruction bkpt)) (bp_address bkpt)
      in (if rfailed res then - EFAULT else 0, n))"

definition GDB_RemoveBreakpoint :: "'n target_env \<Rightarrow> u32 \<Rightarrow> breakpoint list \<Rightarrow> 'n \<Rightarrow> int \<times> breakpoint list \<times> 'n" where
  "GDB_RemoveBreakpoint e address bps n =
     (let address = address AND NOT 1; id = GDB_FindClosestBreakpointSlot bps address
      in if id = length bps \<or> bp_address (bps ! id) \<noteq> address then (- EINVAL, bps, n)
         else let (r, n) = GDB_DisableBreakpointById e (bps ! id) n
              in if r \<noteq> 0 then (r, bps, n) else (0, take id bps @ drop (id + 1) bps, n))"

section \<open>The search\<close>

definition bp_sorted :: "breakpoint list \<Rightarrow> bool" where
  "bp_sorted bps \<longleftrightarrow> sorted_wrt (<) (map bp_address bps)"

text \<open>The number of breakpoints below an address.\<close>

definition lower_bound :: "breakpoint list \<Rightarrow> u32 \<Rightarrow> nat" where
  "lower_bound bps address = length (takeWhile (\<lambda>b. bp_address b < address) bps)"

lemma bp_sorted_nth: "bp_sorted bps \<Longrightarrow> i < j \<Longrightarrow> j < length bps \<Longrightarrow> bp_address (bps ! i) < bp_address (bps ! j)"
  unfolding bp_sorted_def using sorted_wrt_nth_less [of "(<)" "map bp_address bps" i j] by simp

lemma lower_bound_eqI:
  assumes "bp_sorted bps" and "i \<le> length bps" and "i > 0 \<Longrightarrow> bp_address (bps ! (i - 1)) < address"
    and "i < length bps \<Longrightarrow> address \<le> bp_address (bps ! i)"
  shows "lower_bound bps address = i"
proof -
  have "bp_address b < address" if "b \<in> set (take i bps)" for b
  proof -
    obtain j where j: "j < i" "b = bps ! j" using \<open>b \<in> set (take i bps)\<close> assms(2) by (auto simp: in_set_conv_nth)
    show ?thesis
    proof (cases "j = i - 1")
      case True
      then show ?thesis using assms(3) j by simp
    next
      case False
      then have "bp_address (bps ! j) < bp_address (bps ! (i - 1))" using j assms(2) by (intro bp_sorted_nth [OF assms(1)]) auto
      then show ?thesis using assms(3) j by simp
    qed
  qed
  then have "takeWhile (\<lambda>b. bp_address b < address) (take i bps @ drop i bps) =
      take i bps @ takeWhile (\<lambda>b. bp_address b < address) (drop i bps)"
    by (intro takeWhile_append2) blast
  moreover have "takeWhile (\<lambda>b. bp_address b < address) (drop i bps) = []"
  proof (cases "i < length bps")
    case True
    then have "\<not> bp_address (bps ! i) < address" using assms(4) by simp
    then show ?thesis using True by (simp add: Cons_nth_drop_Suc [symmetric])
  qed simp
  ultimately show ?thesis using assms(2) by (simp add: lower_bound_def)
qed

lemma slot_loop_lower_bound:
  assumes "bp_sorted bps" and "a < b" and "b < length bps" and "bp_address (bps ! a) < address" and "address \<le> bp_address (bps ! b)"
  shows "slot_loop bps address a b = lower_bound bps address"
  using assms
proof (induction bps address a b rule: slot_loop.induct)
  case (1 bps address a b)
  let ?m = "(a + b) div 2"
  have m: "a \<le> ?m" "?m < b" using 1(4) by auto
  consider (less) "bp_address (bps ! ?m) < address" | (greater) "bp_address (bps ! ?m) > address" | (eq) "bp_address (bps ! ?m) = address"
    by (meson linorder_cases)
  then show ?case
  proof cases
    case less
    show ?thesis
    proof (cases "b - ?m > 1")
      case True
      then show ?thesis using 1 m less unfolding slot_loop.simps [of bps address a b] Let_def by simp
    next
      case False
      then have "?m = b - 1" using m by simp
      then have "lower_bound bps address = b" using 1 less by (intro lower_bound_eqI) auto
      then show ?thesis using False less unfolding slot_loop.simps [of bps address a b] Let_def by simp
    qed
  next
    case greater
    show ?thesis
    proof (cases "?m - a > 1")
      case True
      have n: "\<not> bp_address (bps ! ?m) < address" using greater by simp
      have "slot_loop bps address a ?m = lower_bound bps address"
        using 1(2) [OF refl n greater True 1(3)] True m 1(4-6) greater by simp
      then show ?thesis unfolding slot_loop.simps [of bps address a b] Let_def using n greater True by simp
    next
      case False
      have "?m \<noteq> a" using greater 1(6) by auto
      then have "a = ?m - 1" "0 < ?m" using False m by auto
      then have "lower_bound bps address = ?m" using 1 greater m by (intro lower_bound_eqI) (auto simp: less_imp_le)
      moreover have "\<not> bp_address (bps ! ?m) < address" using greater by simp
      ultimately show ?thesis unfolding slot_loop.simps [of bps address a b] Let_def using False greater by simp
    qed
  next
    case eq
    have "?m > 0 \<Longrightarrow> bp_address (bps ! (?m - 1)) < address" using 1 m eq bp_sorted_nth [of bps "?m - 1" ?m] by auto
    then have "lower_bound bps address = ?m" using 1 m eq by (intro lower_bound_eqI) auto
    then show ?thesis using eq unfolding slot_loop.simps [of bps address a b] Let_def by simp
  qed
qed

lemma closest_slot: "bp_sorted bps \<Longrightarrow> GDB_FindClosestBreakpointSlot bps address = lower_bound bps address"
proof -
  assume s: "bp_sorted bps"
  consider (empty) "bps = []" | (first) "bps \<noteq> []" "address \<le> bp_address (bps ! 0)"
    | (last) "bps \<noteq> []" "\<not> address \<le> bp_address (bps ! 0)" "address > bp_address (bps ! (length bps - 1))"
    | (inside) "bps \<noteq> []" "\<not> address \<le> bp_address (bps ! 0)" "\<not> address > bp_address (bps ! (length bps - 1))" by blast
  then show ?thesis
  proof cases
    case empty then show ?thesis by (simp add: GDB_FindClosestBreakpointSlot_def lower_bound_def)
  next
    case first
    then have "lower_bound bps address = 0" by (intro lower_bound_eqI [OF s]) auto
    then show ?thesis using first by (simp add: GDB_FindClosestBreakpointSlot_def)
  next
    case last
    then have "lower_bound bps address = length bps" by (intro lower_bound_eqI [OF s]) auto
    then show ?thesis using last by (simp add: GDB_FindClosestBreakpointSlot_def)
  next
    case inside
    then have "0 < length bps - 1" by (metis Suc_pred length_greater_0_conv linorder_not_less neq0_conv nat_neq_iff)
    then have "slot_loop bps address 0 (length bps - 1) = lower_bound bps address"
      using inside by (intro slot_loop_lower_bound [OF s]) auto
    then show ?thesis using inside by (simp add: GDB_FindClosestBreakpointSlot_def)
  qed
qed

section \<open>The list as a map\<close>

definition find_bp :: "breakpoint list \<Rightarrow> u32 \<rightharpoonup> breakpoint" where
  "find_bp bps = map_of (map (\<lambda>b. (bp_address b, b)) bps)"

lemma find_bp_None: "find_bp bps a = None \<longleftrightarrow> (\<forall>x \<in> set bps. bp_address x \<noteq> a)"
  unfolding find_bp_def by (induction bps) auto

lemma lower_bound_le: "lower_bound bps address \<le> length bps"
  unfolding lower_bound_def by (rule length_takeWhile_le)

lemma take_lower: "b \<in> set (take (lower_bound bps address) bps) \<Longrightarrow> bp_address b < address"
  unfolding lower_bound_def by (metis set_takeWhileD takeWhile_eq_take)

lemma drop_lower:
  assumes "bp_sorted bps" and "b \<in> set (drop (lower_bound bps address) bps)"
  shows "address \<le> bp_address b"
proof -
  have s: "drop (lower_bound bps address) bps = dropWhile (\<lambda>b. bp_address b < address) bps"
    by (simp add: lower_bound_def dropWhile_eq_drop)
  obtain x xs where x: "dropWhile (\<lambda>b. bp_address b < address) bps = x # xs" using assms(2) s by (cases "dropWhile (\<lambda>b. bp_address b < address) bps") auto
  then have h: "address \<le> bp_address x" using hd_dropWhile [of "\<lambda>b. bp_address b < address" bps] by auto
  have "sorted_wrt (<) (map bp_address (takeWhile (\<lambda>b. bp_address b < address) bps @ x # xs))"
    using assms(1) by (simp add: bp_sorted_def x [symmetric])
  then have "\<forall>b \<in> set xs. bp_address x < bp_address b" by (simp add: sorted_wrt_append)
  then show ?thesis using assms(2) h unfolding s x by force
qed

text \<open>An entry with the address stands at its lower bound, or there is none.\<close>

lemma at_slot:
  assumes "bp_sorted bps"
  shows "find_bp bps address =
    (if lower_bound bps address < length bps \<and> bp_address (bps ! lower_bound bps address) = address
     then Some (bps ! lower_bound bps address) else None)"
proof (cases "lower_bound bps address < length bps \<and> bp_address (bps ! lower_bound bps address) = address")
  case True
  let ?i = "lower_bound bps address"
  have "distinct (map bp_address bps)" using assms unfolding bp_sorted_def by (simp add: strict_sorted_iff)
  moreover have "(bp_address (bps ! ?i), bps ! ?i) \<in> set (map (\<lambda>b. (bp_address b, b)) bps)"
    unfolding set_map by (rule imageI) (use True in simp)
  ultimately have "map_of (map (\<lambda>b. (bp_address b, b)) bps) (bp_address (bps ! ?i)) = Some (bps ! ?i)"
    by (intro map_of_is_SomeI) (simp_all add: comp_def)
  then show ?thesis using True by (simp add: find_bp_def)
next
  case False
  let ?i = "lower_bound bps address"
  have "bp_address b \<noteq> address" if b: "b \<in> set bps" for b
  proof
    assume e: "bp_address b = address"
    obtain j where j: "j < length bps" "b = bps ! j" using b by (auto simp: in_set_conv_nth)
    have "\<not> j < ?i"
    proof
      assume "j < ?i"
      then have "take ?i bps ! j \<in> set (take ?i bps)" using j by (intro nth_mem) simp
      then show False using take_lower [of "bps ! j" bps address] j e \<open>j < ?i\<close> by simp
    qed
    then have "?i \<le> j" "?i < length bps" using j by auto
    then have "bps ! ?i \<in> set (drop ?i bps)" by (simp add: Cons_nth_drop_Suc [symmetric])
    then have "address \<le> bp_address (bps ! ?i)" by (rule drop_lower [OF assms])
    moreover have "bp_address (bps ! ?i) \<le> bp_address (bps ! j)"
      using bp_sorted_nth [OF assms, of ?i j] \<open>?i \<le> j\<close> j by (cases "?i = j") auto
    ultimately show False using False \<open>?i < length bps\<close> e j by simp
  qed
  then have "find_bp bps address = None" by (simp add: find_bp_None)
  then show ?thesis using False by auto
qed

lemma insert_sorted:
  assumes "bp_sorted bps" and "find_bp bps (bp_address b) = None"
  shows "bp_sorted (take (lower_bound bps (bp_address b)) bps @ [b] @ drop (lower_bound bps (bp_address b)) bps)" (is "bp_sorted ?new")
    and "find_bp (take (lower_bound bps (bp_address b)) bps @ [b] @ drop (lower_bound bps (bp_address b)) bps) = (find_bp bps)(bp_address b \<mapsto> b)"
proof -
  let ?i = "lower_bound bps (bp_address b)"
  have n: "\<forall>x \<in> set bps. bp_address x \<noteq> bp_address b" using assms(2) by (simp add: find_bp_None)
  have s: "sorted_wrt (<) (map bp_address (take ?i bps) @ map bp_address (drop ?i bps))"
    using assms(1) unfolding bp_sorted_def by (simp flip: map_append)
  have "\<forall>x \<in> set (drop ?i bps). bp_address b < bp_address x"
    using drop_lower [OF assms(1)] n by (metis in_set_dropD order_le_imp_less_or_eq)
  then show "bp_sorted ?new" using s take_lower [of _ bps "bp_address b"] unfolding bp_sorted_def by (auto simp: sorted_wrt_append)
  show "find_bp ?new = (find_bp bps)(bp_address b \<mapsto> b)"
  proof
    fix x
    have "x = bp_address b \<Longrightarrow> map_of (map (\<lambda>b. (bp_address b, b)) (take ?i bps)) x = None"
      using n by (auto simp: map_of_eq_None_iff dest: in_set_takeD)
    moreover have "find_bp bps x = (map_of (map (\<lambda>b. (bp_address b, b)) (drop ?i bps)) ++ map_of (map (\<lambda>b. (bp_address b, b)) (take ?i bps))) x"
      unfolding find_bp_def by (metis append_take_drop_id map_append map_of_append)
    ultimately show "find_bp ?new x = ((find_bp bps)(bp_address b \<mapsto> b)) x"
      unfolding find_bp_def by (auto simp: map_add_def split: option.split)
  qed
qed

lemma remove_sorted:
  assumes "bp_sorted bps" and "i < length bps"
  shows "bp_sorted (take i bps @ drop (i + 1) bps)"
    and "find_bp (take i bps @ drop (i + 1) bps) = (find_bp bps)(bp_address (bps ! i) := None)"
proof -
  have e: "bps = take i bps @ bps ! i # drop (i + 1) bps" using assms(2) by (simp add: id_take_nth_drop)
  have s: "sorted_wrt (<) (map bp_address (take i bps @ bps ! i # drop (i + 1) bps))"
    using assms(1) unfolding bp_sorted_def using e by simp
  then show "bp_sorted (take i bps @ drop (i + 1) bps)" unfolding bp_sorted_def by (auto simp: sorted_wrt_append)
  have n: "\<forall>x \<in> set (take i bps @ drop (i + 1) bps). bp_address x \<noteq> bp_address (bps ! i)"
    using s by (auto simp: sorted_wrt_append)
  show "find_bp (take i bps @ drop (i + 1) bps) = (find_bp bps)(bp_address (bps ! i) := None)"
  proof
    fix x
    have none: "x = bp_address (bps ! i) \<Longrightarrow> map_of (map (\<lambda>b. (bp_address b, b)) (take i bps @ drop (i + 1) bps)) x = None"
      using n by (auto simp: map_of_eq_None_iff simp del: map_append)
    have "find_bp bps x = find_bp (take i bps @ bps ! i # drop (i + 1) bps) x" using e by simp
    then show "find_bp (take i bps @ drop (i + 1) bps) x = ((find_bp bps)(bp_address (bps ! i) := None)) x"
      using none by (auto simp: find_bp_def map_add_def split: option.split)
  qed
qed

section \<open>Results of the operations\<close>

lemma get_instruction_is_lookup:
  assumes "bp_sorted bps"
  shows "GDB_GetBreakpointInstruction bps a =
    (case find_bp bps a of None \<Rightarrow> (- EINVAL, None) | Some b \<Rightarrow> (0, Some (savedInstruction b)))"
  using at_slot [OF assms, of a] lower_bound_le [of bps a]
  by (auto simp: GDB_GetBreakpointInstruction_def Let_def closest_slot [OF assms])

lemma add_result:
  assumes "bp_sorted bps" and "\<forall>b \<in> set bps. instructionSize b \<noteq> 0" and "GDB_AddBreakpoint e a thumb persist bps n = (r, bps', n')"
  obtains (unaligned) "\<not> thumb" "a AND 3 \<noteq> 0" "r = - EINVAL" "bps' = bps" "n' = n"
  | (there) "thumb \<or> a AND 3 = 0" "find_bp bps (a AND NOT 1) \<noteq> None" "r = 0" "bps' = bps" "n' = n"
  | (full) "thumb \<or> a AND 3 = 0" "find_bp bps (a AND NOT 1) = None" "length bps = MAX_BREAKPOINT" "r = - EBUSY" "bps' = bps" "n' = n"
  | (unreadable) res bs where "svcReadProcessMemory e n (a AND NOT 1) (if thumb then 2 else 4) = (res, bs, n')" "rfailed res" "r = - EFAULT" "bps' = bps"
  | (unwritable) res bs n1 res2 where "svcReadProcessMemory e n (a AND NOT 1) (if thumb then 2 else 4) = (res, bs, n1)" "\<not> rfailed res"
      "svcWriteProcessMemory e n1 (take (if thumb then 2 else 4) (word_bytes (if thumb then BREAKPOINT_INSTRUCTION_THUMB else BREAKPOINT_INSTRUCTION_ARM))) (a AND NOT 1) = (res2, n')"
      "rfailed res2" "r = - EFAULT" "bps' = bps"
  | (added) res bs n1 res2 b where "thumb \<or> a AND 3 = 0" "find_bp bps (a AND NOT 1) = None" "length bps \<noteq> MAX_BREAKPOINT"
      "svcReadProcessMemory e n (a AND NOT 1) (if thumb then 2 else 4) = (res, bs, n1)" "\<not> rfailed res"
      "svcWriteProcessMemory e n1 (take (if thumb then 2 else 4) (word_bytes (if thumb then BREAKPOINT_INSTRUCTION_THUMB else BREAKPOINT_INSTRUCTION_ARM))) (a AND NOT 1) = (res2, n')"
      "\<not> rfailed res2" "r = 0" "bp_address b = a AND NOT 1" "instructionSize b = (if thumb then 2 else 4)" "persistent b = persist"
      "take (length bs) (savedInstruction b) = bs"
      "bps' = take (lower_bound bps (a AND NOT 1)) bps @ [b] @ drop (lower_bound bps (a AND NOT 1)) bps"
proof -
  let ?a = "a AND NOT 1" and ?i = "lower_bound bps (a AND NOT 1)"
  note s = closest_slot [OF assms(1), of ?a]
  show ?thesis
  proof (cases "\<not> thumb \<and> a AND 3 \<noteq> 0")
    case True
    show ?thesis by (rule unaligned) (use assms(3) True in \<open>auto simp: GDB_AddBreakpoint_def\<close>)
  next
    case F1: False
    have there': "(?i \<noteq> length bps \<and> instructionSize (bps ! ?i) \<noteq> 0 \<and> bp_address (bps ! ?i) = ?a) \<longleftrightarrow> find_bp bps ?a \<noteq> None"
      using at_slot [OF assms(1), of ?a] lower_bound_le [of bps ?a] assms(2) by auto
    show ?thesis
    proof (cases "find_bp bps ?a \<noteq> None \<or> length bps = MAX_BREAKPOINT")
      case True
      then have "(r, bps', n') = (if find_bp bps ?a \<noteq> None then (0, bps, n) else (- EBUSY, bps, n))"
        using assms(3) F1 there' unfolding GDB_AddBreakpoint_def Let_def s by auto
      then show ?thesis
      proof (cases "find_bp bps ?a")
        case None
        show ?thesis by (rule full) (use \<open>(r, bps', n') = _\<close> True None F1 in auto)
      next
        case (Some b)
        show ?thesis by (rule there) (use \<open>(r, bps', n') = _\<close> Some F1 in auto)
      qed
    next
      case F2: False
      obtain res bs n1 where rd: "svcReadProcessMemory e n ?a (if thumb then 2 else 4) = (res, bs, n1)" by (rule prod_cases3)
      obtain res2 n2 where wr: "svcWriteProcessMemory e n1 (take (if thumb then 2 else 4)
          (word_bytes (if thumb then BREAKPOINT_INSTRUCTION_THUMB else BREAKPOINT_INSTRUCTION_ARM))) ?a = (res2, n2)" by force
      have c: "(\<not> thumb \<and> a AND 3 \<noteq> 0) = False" "(length bps = MAX_BREAKPOINT) = False"
        "(?i \<noteq> length bps \<and> instructionSize (bps ! ?i) \<noteq> 0 \<and> bp_address (bps ! ?i) = ?a) = False" using F1 F2 there' by blast+
      have "(if rfailed res then (- EFAULT, bps, n1) else if rfailed res2 then (- EFAULT, bps, n2)
          else (0, take ?i bps @ [\<lparr>bp_address = ?a, savedInstruction = bs @ drop (length bs) (savedInstruction (slot_content bps ?i)),
            instructionSize = (if thumb then 2 else 4), persistent = persist\<rparr>] @ drop ?i bps, n2)) = (r, bps', n')"
        using assms(3) unfolding GDB_AddBreakpoint_def Let_def s c if_False rd prod.case wr .
      note eq = this [symmetric]
      show ?thesis
      proof (cases "rfailed res")
        case True
        show ?thesis by (rule unreadable [of res bs]) (use eq rd True in simp_all)
      next
        case R: False
        show ?thesis
        proof (cases "rfailed res2")
          case True
          show ?thesis by (rule unwritable [of res bs n1 res2]) (use eq rd wr R True in simp_all)
        next
          case False
          show ?thesis
            by (rule added [of res bs n1 res2 "\<lparr>bp_address = ?a, savedInstruction = bs @ drop (length bs) (savedInstruction (slot_content bps ?i)),
                instructionSize = (if thumb then 2 else 4), persistent = persist\<rparr>"])
               (use eq rd wr R False F1 F2 in simp_all)
        qed
      qed
    qed
  qed
qed

lemma remove_result:
  assumes "bp_sorted bps" and "GDB_RemoveBreakpoint e a bps n = (r, bps', n')"
  obtains (missing) "find_bp bps (a AND NOT 1) = None" "r = - EINVAL" "bps' = bps" "n' = n"
  | (unwritable) b res where "find_bp bps (a AND NOT 1) = Some b"
      "svcWriteProcessMemory e n (take (instructionSize b) (savedInstruction b)) (bp_address b) = (res, n')" "rfailed res" "r = - EFAULT" "bps' = bps"
  | (removed) i res where "i < length bps" "bp_address (bps ! i) = a AND NOT 1" "find_bp bps (a AND NOT 1) = Some (bps ! i)"
      "svcWriteProcessMemory e n (take (instructionSize (bps ! i)) (savedInstruction (bps ! i))) (bp_address (bps ! i)) = (res, n')"
      "\<not> rfailed res" "r = 0" "bps' = take i bps @ drop (i + 1) bps"
proof -
  let ?a = "a AND NOT 1" and ?i = "lower_bound bps (a AND NOT 1)"
  note s = closest_slot [OF assms(1), of ?a]
  show ?thesis
  proof (cases "find_bp bps ?a")
    case None
    then have "?i = length bps \<or> bp_address (bps ! ?i) \<noteq> ?a" using at_slot [OF assms(1), of ?a] lower_bound_le [of bps ?a] by (auto split: if_splits)
    then have "(r, bps', n') = (- EINVAL, bps, n)" using assms(2) unfolding GDB_RemoveBreakpoint_def Let_def s by simp
    then show ?thesis by (intro missing [OF None]) simp_all
  next
    case (Some b)
    then have i: "?i < length bps" "bp_address (bps ! ?i) = ?a" "b = bps ! ?i" using at_slot [OF assms(1), of ?a] by (auto split: if_splits)
    obtain res n1 where wr: "svcWriteProcessMemory e n (take (instructionSize b) (savedInstruction b)) (bp_address b) = (res, n1)" by force
    show ?thesis
    proof (cases "rfailed res")
      case True
      then have "r = - EFAULT" "bps' = bps" "n' = n1" using assms(2) i wr unfolding GDB_RemoveBreakpoint_def Let_def s
        by (simp_all add: GDB_DisableBreakpointById_def EFAULT_def)
      then show ?thesis by (intro unwritable [OF Some _ True]) (use wr in simp_all)
    next
      case False
      then have "r = 0" "bps' = take ?i bps @ drop (?i + 1) bps" "n' = n1" using assms(2) i wr unfolding GDB_RemoveBreakpoint_def Let_def s
        by (simp_all add: GDB_DisableBreakpointById_def EFAULT_def)
      then show ?thesis by (intro removed [OF i(1,2) _ _ False]) (use wr Some i(3) in simp_all)
    qed
  qed
qed

end
