(* ===== verification/Gdb_Points_Claims.thy ===== *)
theory Gdb_Points_Claims
  imports Gdb_Points
begin

text \<open>
  The memory under the breakpoints: however breakpoints come and go, and whichever kernel calls fail, the
  process sees its program with the breakpoint instructions at the listed places.
\<close>

section \<open>Aligned blocks\<close>

lemma unat_and_not_mask: "unat (x AND NOT (mask j) :: u32) = unat x - unat x mod 2 ^ j"
proof -
  have "(x AND mask j) AND (x AND NOT (mask j)) = 0" "(x AND mask j) OR (x AND NOT (mask j)) = x"
    by (auto simp: bit_eq_iff bit_simps)
  then have "(x AND mask j) + (x AND NOT (mask j)) = x" using word_plus_and_or [of "x AND mask j" "x AND NOT (mask j)"] by simp
  then have "x AND NOT (mask j) = x - take_bit j x" by (simp add: take_bit_eq_mask algebra_simps)
  moreover have t: "unat (take_bit j x) = unat x mod 2 ^ j" unfolding unsigned_take_bit_eq take_bit_eq_mod [where 'a = nat] ..
  moreover have "take_bit j x \<le> x" unfolding word_le_nat_alt t by simp
  ultimately show ?thesis by (simp add: unat_sub)
qed

lemma block_of_aligned:
  assumes a: "a AND mask j = (0 :: u32)" and j: "j < 32"
  shows "unat (x - a) < 2 ^ j \<longleftrightarrow> x AND NOT (mask j) = a"
proof -
  have am: "unat a mod 2 ^ j = 0"
    using a by (metis take_bit_eq_mask take_bit_eq_mod unsigned_take_bit_eq unsigned_0)
  have p: "(2 :: nat) ^ 32 = 2 ^ j * 2 ^ (32 - j)" using j by (simp flip: power_add)
  obtain q where q: "unat a = 2 ^ j * q" using am by auto
  have "unat a < 2 ^ 32" using unsigned_less [of a] by simp
  then have "2 ^ j * q < 2 ^ j * 2 ^ (32 - j)" unfolding q p .
  then have "q < 2 ^ (32 - j)" by simp
  then have "2 ^ j * (q + 1) \<le> 2 ^ j * 2 ^ (32 - j)" by (intro mult_le_mono2) simp
  then have top: "unat a + 2 ^ j \<le> 2 ^ 32" unfolding p q by simp
  show ?thesis
  proof
    assume d: "unat (x - a) < 2 ^ j"
    have "unat (a + (x - a)) = unat a + unat (x - a)"
      by (rule unat_add_lem [THEN iffD1]) (use d top in simp)
    then have ux: "unat x = unat a + unat (x - a)" by simp
    have "unat (x AND NOT (mask j)) = unat a" unfolding unat_and_not_mask ux using q d by simp
    then show "x AND NOT (mask j) = a" by (simp only: word_unat_eq_iff)
  next
    assume "x AND NOT (mask j) = a"
    then have "unat a = unat x - unat x mod 2 ^ j" using unat_and_not_mask [of x j] by simp
    then have "unat a \<le> unat x" "unat x - unat a = unat x mod 2 ^ j" by simp_all
    then show "unat (x - a) < 2 ^ j" by (simp add: unat_sub word_le_nat_alt)
  qed
qed

section \<open>The memory of the process\<close>

text \<open>What the kernel calls are for: \<open>mem\<close> is the memory of the process in a state of the system.\<close>

definition overwrite :: "(u32 \<Rightarrow> u8) \<Rightarrow> u32 \<Rightarrow> bytes \<Rightarrow> u32 \<Rightarrow> u8" where
  "overwrite m a bs = (\<lambda>x. if unat (x - a) < length bs then bs ! unat (x - a) else m x)"

definition mem_bytes :: "(u32 \<Rightarrow> u8) \<Rightarrow> u32 \<Rightarrow> nat \<Rightarrow> bytes" where
  "mem_bytes m a k = map (\<lambda>i. m (a + word_of_nat i)) [0..<k]"

definition target_ok :: "'n target_env \<Rightarrow> ('n \<Rightarrow> u32 \<Rightarrow> u8) \<Rightarrow> bool" where
  "target_ok e mem \<longleftrightarrow>
     (\<forall>n a k r bs n'. svcReadProcessMemory e n a k = (r, bs, n') \<longrightarrow> mem n' = mem n \<and> (\<not> rfailed r \<longrightarrow> bs = mem_bytes (mem n) a k)) \<and>
     (\<forall>n bs a r n'. svcWriteProcessMemory e n bs a = (r, n') \<longrightarrow> mem n' = (if rfailed r then mem n else overwrite (mem n) a bs))"

text \<open>The bits of an address within an instruction of the set, the instruction that stops, and the program with it.\<close>

definition instr_bits :: "bool \<Rightarrow> nat" where "instr_bits thumb = (if thumb then 1 else 2)"

definition stop_bytes :: "bool \<Rightarrow> bytes" where
  "stop_bytes thumb = take (if thumb then 2 else 4) (word_bytes (if thumb then BREAKPOINT_INSTRUCTION_THUMB else BREAKPOINT_INSTRUCTION_ARM))"

definition planted :: "bool \<Rightarrow> breakpoint list \<Rightarrow> (u32 \<Rightarrow> u8) \<Rightarrow> u32 \<Rightarrow> u8" where
  "planted thumb bps orig = (\<lambda>x. case find_bp bps (x AND NOT (mask (instr_bits thumb))) of
     None \<Rightarrow> orig x | Some b \<Rightarrow> stop_bytes thumb ! unat (x - bp_address b))"

definition bp_fits :: "bool \<Rightarrow> (u32 \<Rightarrow> u8) \<Rightarrow> breakpoint \<Rightarrow> bool" where
  "bp_fits thumb orig b \<longleftrightarrow> instructionSize b = 2 ^ instr_bits thumb \<and> bp_address b AND mask (instr_bits thumb) = 0 \<and>
     take (instructionSize b) (savedInstruction b) = mem_bytes orig (bp_address b) (instructionSize b)"

definition points_inv :: "bool \<Rightarrow> (u32 \<Rightarrow> u8) \<Rightarrow> (u32 \<Rightarrow> u8) \<Rightarrow> breakpoint list \<Rightarrow> bool" where
  "points_inv thumb orig m bps \<longleftrightarrow> bp_sorted bps \<and> length bps \<le> MAX_BREAKPOINT \<and> (\<forall>b \<in> set bps. bp_fits thumb orig b) \<and>
     m = planted thumb bps orig"

lemma stop_size: "(if thumb then 2 else 4) = (2 :: nat) ^ instr_bits thumb" "length (stop_bytes thumb) = 2 ^ instr_bits thumb"
  "instr_bits thumb < 32"
  by (simp_all add: instr_bits_def stop_bytes_def)

lemma length_mem_bytes [simp]: "length (mem_bytes m a k) = k"
  by (simp add: mem_bytes_def)

text \<open>The bytes of a block read where no breakpoint stands are the program's.\<close>

lemma planted_elsewhere:
  assumes "a AND mask (instr_bits thumb) = 0" and "find_bp bps a = None"
  shows "mem_bytes (planted thumb bps orig) a (2 ^ instr_bits thumb) = mem_bytes orig a (2 ^ instr_bits thumb)"
proof -
  have "planted thumb bps orig (a + word_of_nat i) = orig (a + word_of_nat i)" if "i < 2 ^ instr_bits thumb" for i
  proof -
    have "(2 :: nat) ^ instr_bits thumb < 2 ^ 32" by (simp add: instr_bits_def)
    then have "unat (word_of_nat i :: u32) = i" using that by (simp add: unat_of_nat del: One_nat_def)
    then have "unat (a + word_of_nat i - a) < 2 ^ instr_bits thumb" using that by simp
    then have "(a + word_of_nat i) AND NOT (mask (instr_bits thumb)) = a" using block_of_aligned [OF assms(1) stop_size(3)] by blast
    then show ?thesis using assms(2) by (simp add: planted_def)
  qed
  then show ?thesis by (simp add: mem_bytes_def)
qed

lemma plant_one:
  assumes "bp_address b AND mask (instr_bits thumb) = 0" and "find_bp bps' = (find_bp bps)(bp_address b \<mapsto> b)"
  shows "overwrite (planted thumb bps orig) (bp_address b) (stop_bytes thumb) = planted thumb bps' orig"
  using block_of_aligned [OF assms(1) stop_size(3)]
  by (auto simp: overwrite_def planted_def stop_size(2) assms(2) fun_eq_iff)

lemma unplant_one:
  assumes "bp_fits thumb orig b" and "find_bp bps' = (find_bp bps)(bp_address b := None)"
  shows "overwrite (planted thumb bps orig) (bp_address b) (take (instructionSize b) (savedInstruction b)) = planted thumb bps' orig"
proof
  fix x
  have a: "bp_address b AND mask (instr_bits thumb) = 0" "instructionSize b = 2 ^ instr_bits thumb"
    "take (instructionSize b) (savedInstruction b) = mem_bytes orig (bp_address b) (2 ^ instr_bits thumb)"
    using assms(1) by (auto simp: bp_fits_def)
  have "mem_bytes orig (bp_address b) (2 ^ instr_bits thumb) ! unat (x - bp_address b) = orig x" if "unat (x - bp_address b) < 2 ^ instr_bits thumb"
    using that by (simp add: mem_bytes_def)
  then show "overwrite (planted thumb bps orig) (bp_address b) (take (instructionSize b) (savedInstruction b)) x = planted thumb bps' orig x"
    using block_of_aligned [OF a(1) stop_size(3), of x] unfolding a(3)
    by (auto simp: overwrite_def planted_def assms(2))
qed

section \<open>The operations keep it\<close>

lemma clear_low_bit:
  assumes "thumb \<or> a AND 3 = (0 :: u32)"
  shows "(a AND NOT 1) AND mask (instr_bits thumb) = 0"
proof (cases thumb)
  case True
  have "(a AND NOT 1) AND 1 = (0 :: u32)" by (simp add: bit_eq_iff bit_simps) (auto simp: bit_simps)
  then show ?thesis using True by (simp add: instr_bits_def mask_eq_exp_minus_1)
next
  case False
  have "(a AND NOT 1) AND 3 = (a AND 3) AND NOT 1" by (simp add: ac_simps)
  then show ?thesis using False assms by (simp add: instr_bits_def mask_eq_exp_minus_1)
qed

lemma add_keeps:
  assumes "target_ok e mem" and "points_inv thumb orig (mem n) bps" and "GDB_AddBreakpoint e a thumb persist bps n = (r, bps', n')"
  shows "points_inv thumb orig (mem n') bps'"
proof -
  let ?a = "a AND NOT 1"
  have I: "bp_sorted bps" "length bps \<le> MAX_BREAKPOINT" "\<forall>b \<in> set bps. bp_fits thumb orig b" "mem n = planted thumb bps orig"
    using assms(2) by (auto simp: points_inv_def)
  have sz: "\<forall>b \<in> set bps. instructionSize b \<noteq> 0" using I(3) by (auto simp: bp_fits_def)
  have R: "mem n2 = mem n1 \<and> (\<not> rfailed res \<longrightarrow> bs = mem_bytes (mem n1) x k)" if "svcReadProcessMemory e n1 x k = (res, bs, n2)" for n1 x k res bs n2
    using assms(1) that unfolding target_ok_def by blast
  have W: "mem n2 = (if rfailed res then mem n1 else overwrite (mem n1) x bs)" if "svcWriteProcessMemory e n1 bs x = (res, n2)" for n1 bs x res n2
    using assms(1) that unfolding target_ok_def by blast
  show ?thesis using I(1) sz assms(3)
  proof (cases rule: add_result)
    case (unreadable res bs)
    then show ?thesis using R assms(2) by simp
  next
    case (unwritable res bs n1 res2)
    then show ?thesis using R W assms(2) by simp
  next
    case (added res bs n1 res2 b)
    have al: "bp_address b AND mask (instr_bits thumb) = 0" using clear_low_bit [OF added(1)] added(9) by simp
    have none: "find_bp bps (bp_address b) = None" using added(2,9) by simp
    have m1: "mem n1 = mem n" "bs = mem_bytes (mem n) (bp_address b) (2 ^ instr_bits thumb)"
      using R [OF added(4)] added(5,9) stop_size(1) by auto
    have "bs = mem_bytes orig (bp_address b) (2 ^ instr_bits thumb)" using m1(2) planted_elsewhere [OF al none] I(4) by simp
    then have fits: "bp_fits thumb orig b"
      using al added(10,12) stop_size(1) by (auto simp: bp_fits_def)
    have "mem n' = overwrite (mem n) (bp_address b) (stop_bytes thumb)"
      using W [OF added(6)] added(7,9) m1(1) by (simp add: stop_bytes_def)
    also have "\<dots> = planted thumb bps' orig"
      unfolding I(4) by (rule plant_one [OF al]) (use insert_sorted(2) [OF I(1) none] added(9,13) in simp)
    finally have "mem n' = planted thumb bps' orig" .
    moreover have "bp_sorted bps'" using insert_sorted(1) [OF I(1) none] added(9,13) by simp
    moreover have "length bps' \<le> MAX_BREAKPOINT" using added(3,13) I(2) lower_bound_le [of bps ?a] by simp
    moreover have "\<forall>b \<in> set bps'. bp_fits thumb orig b" using fits I(3) unfolding added(13) by (auto dest: in_set_takeD in_set_dropD)
    ultimately show ?thesis by (simp add: points_inv_def)
  qed (use assms(2) in simp_all)
qed

lemma remove_keeps:
  assumes "target_ok e mem" and "points_inv thumb orig (mem n) bps" and "GDB_RemoveBreakpoint e a bps n = (r, bps', n')"
  shows "points_inv thumb orig (mem n') bps'"
proof -
  have I: "bp_sorted bps" "length bps \<le> MAX_BREAKPOINT" "\<forall>b \<in> set bps. bp_fits thumb orig b" "mem n = planted thumb bps orig"
    using assms(2) by (auto simp: points_inv_def)
  have W: "mem n2 = (if rfailed res then mem n1 else overwrite (mem n1) x bs)" if "svcWriteProcessMemory e n1 bs x = (res, n2)" for n1 bs x res n2
    using assms(1) that unfolding target_ok_def by blast
  show ?thesis using I(1) assms(3)
  proof (cases rule: remove_result)
    case (unwritable b res)
    then show ?thesis using W assms(2) by simp
  next
    case (removed i res)
    note rs = remove_sorted [OF I(1) removed(1)]
    have fits: "bp_fits thumb orig (bps ! i)" using I(3) removed(1) by simp
    have "mem n' = planted thumb bps' orig"
      using W [OF removed(4)] removed(5) unplant_one [OF fits, of bps'] rs(2) removed(7) I(4) by simp
    moreover have "\<forall>b \<in> set bps'. bp_fits thumb orig b" using I(3) unfolding removed(7) by (auto dest: in_set_takeD in_set_dropD)
    ultimately show ?thesis using rs(1) removed(7) I(2) by (simp add: points_inv_def)
  qed (use assms(2) in simp)
qed

datatype bp_op = Add_point u32 bool | Remove_point u32

definition do_bp :: "'n target_env \<Rightarrow> bool \<Rightarrow> bp_op \<Rightarrow> breakpoint list \<times> 'n \<Rightarrow> breakpoint list \<times> 'n" where
  "do_bp e thumb oper = (\<lambda>(bps, n). case oper of
     Add_point a persist \<Rightarrow> snd (GDB_AddBreakpoint e a thumb persist bps n)
   | Remove_point a \<Rightarrow> snd (GDB_RemoveBreakpoint e a bps n))"

text \<open>C40: however breakpoints of one instruction set are added and removed, and whichever accesses to the
  memory fail, the table stays sorted, without duplicates and within its size, every entry keeps the
  instruction it replaced, and the memory is the program with the breakpoint instruction exactly at the
  addresses of the table: when the last one is gone the program is as it was.\<close>

theorem breakpoints_cover_program:
  assumes "target_ok e mem" and "fold (do_bp e thumb) ops ([], n) = (bps, n')"
  shows "bp_sorted bps \<and> length bps \<le> MAX_BREAKPOINT \<and> (\<forall>b \<in> set bps. bp_fits thumb (mem n) b) \<and>
    mem n' = planted thumb bps (mem n) \<and> (bps = [] \<longrightarrow> mem n' = mem n)"
proof -
  have step: "points_inv thumb orig (mem (snd (do_bp e thumb oper s))) (fst (do_bp e thumb oper s))"
    if "points_inv thumb orig (mem (snd s)) (fst s)" for oper s orig
  proof (cases oper)
    case (Add_point a persist)
    obtain r bps' n' where r: "GDB_AddBreakpoint e a thumb persist (fst s) (snd s) = (r, bps', n')" by (rule prod_cases3)
    from add_keeps [OF assms(1) that r] show ?thesis using r Add_point by (simp add: do_bp_def split_beta)
  next
    case (Remove_point a)
    obtain r bps' n' where r: "GDB_RemoveBreakpoint e a (fst s) (snd s) = (r, bps', n')" by (rule prod_cases3)
    from remove_keeps [OF assms(1) that r] show ?thesis using r Remove_point by (simp add: do_bp_def split_beta)
  qed
  have "points_inv thumb orig (mem (snd s)) (fst s) \<Longrightarrow> points_inv thumb orig (mem (snd (fold (do_bp e thumb) ops s))) (fst (fold (do_bp e thumb) ops s))" for s orig
    using step by (induction ops arbitrary: s) auto
  moreover have "points_inv thumb (mem n) (mem n) []"
    by (simp add: points_inv_def planted_def bp_sorted_def find_bp_def)
  ultimately have "points_inv thumb (mem n) (mem n') bps" using assms(2) by (metis fst_conv snd_conv)
  then show ?thesis by (auto simp: points_inv_def planted_def find_bp_def)
qed

text \<open>A process whose memory is all zeros but that cannot be written at 0x2000.\<close>

definition demo_target :: "(u32 \<Rightarrow> u8) target_env" where
  "demo_target = \<lparr>svcReadProcessMemory = (\<lambda>m a k. (0, mem_bytes m a k, m)),
     svcWriteProcessMemory = (\<lambda>m bs a. if a = 0x2000 then (-1, m) else (0, overwrite m a bs))\<rparr>"

lemma demo_target_ok: "target_ok demo_target (\<lambda>m. m)"
  by (auto simp: target_ok_def demo_target_def rfailed_def)

theorem breakpoints_cover_program_witness:
  "\<exists>bps m. fold (do_bp demo_target False) [Add_point 0x1000 False, Add_point 0x800 True, Add_point 0x2000 False] ([], \<lambda>a. 0) = (bps, m) \<and>
     map bp_address bps = [0x800, 0x1000] \<and> m = planted False bps (\<lambda>a. 0)"
proof -
  obtain bps m where r: "fold (do_bp demo_target False) [Add_point 0x1000 False, Add_point 0x800 True, Add_point 0x2000 False] ([], \<lambda>a. 0) = (bps, m)"
    by (metis prod.exhaust)
  have "map bp_address bps = [0x800, 0x1000]"
    using r by (auto simp: do_bp_def GDB_AddBreakpoint_def demo_target_def rfailed_def GDB_FindClosestBreakpointSlot_def slot_loop.simps MAX_BREAKPOINT_def)
  moreover have "m = planted False bps (\<lambda>a. 0)" using breakpoints_cover_program [OF demo_target_ok r] by blast
  ultimately show ?thesis using r by (intro exI conjI)
qed

end
