(* ===== verification/Gdb_Watch.thy ===== *)
theory Gdb_Watch
  imports Gdb_Points
begin

text \<open>
  Watchpoints of the debugger (\<open>rosalina/source/gdb/watchpoints.c\<close>): two register pairs shared by all debugged
  processes, and the list each connection keeps of its own.

  \<open>w_lock\<close> counts how often the manager's lock is held. Kernel calls are an environment. \<^term>\<open>None\<close>: a shift by
  more than the width of a word, which C leaves undefined.

  Lemmas: a watchpoint that was added is found; and the places where the lock stays held or another
  watchpoint is removed.
\<close>

datatype watchpoint_kind = WATCHPOINT_DISABLED | WATCHPOINT_READ | WATCHPOINT_WRITE | WATCHPOINT_READWRITE

fun kind_code :: "watchpoint_kind \<Rightarrow> u32" where
  "kind_code WATCHPOINT_DISABLED = 0"
| "kind_code WATCHPOINT_READ = 1"
| "kind_code WATCHPOINT_WRITE = 2"
| "kind_code WATCHPOINT_READWRITE = 3"

record watchpoint =
  wp_address :: u32
  wp_size :: u32
  wp_kind :: watchpoint_kind
  wp_debug :: handle

definition no_watchpoint :: watchpoint where
  "no_watchpoint = \<lparr>wp_address = 0, wp_size = 0, wp_kind = WATCHPOINT_DISABLED, wp_debug = 0\<rparr>"

record watch_state =
  w_total :: u32
  w_points :: "watchpoint list"
  w_lock :: nat

text \<open>What the routines use of a connection: the debug handle and its own watchpoints.\<close>

record watch_ctx =
  ctx_debug :: handle
  ctx_watchpoints :: "u32 list"
  nbWatchpoints :: nat

record 'n watch_env =
  kernel_set_state :: "'n \<Rightarrow> u32 list \<Rightarrow> 'n"
  svcGetHandleInfo :: "'n \<Rightarrow> handle \<Rightarrow> u32 \<Rightarrow> result \<times> u64 \<times> 'n"

definition GDB_ResetWatchpoints :: "'n watch_env \<Rightarrow> watch_state \<Rightarrow> 'n \<Rightarrow> watch_state \<times> 'n" where
  "GDB_ResetWatchpoints e s n =
     (let n = kernel_set_state e n [0x10003]; n = kernel_set_state e n [0x10004, 0]; n = kernel_set_state e n [0x10004, 1]
      in (s\<lparr>w_total := 0, w_points := [no_watchpoint, no_watchpoint]\<rparr>, n))"

definition watch_id :: "watch_state \<Rightarrow> (watchpoint \<Rightarrow> bool) \<Rightarrow> nat" where
  "watch_id s stop = (if stop (w_points s ! 0) then 0 else if stop (w_points s ! 1) then 1 else 2)"

definition GDB_GetWatchpointKind :: "watch_state \<Rightarrow> watch_ctx \<Rightarrow> u32 \<Rightarrow> watchpoint_kind" where
  "GDB_GetWatchpointKind s ctx address =
     (let id = watch_id s (\<lambda>w. \<not> (wp_address w \<noteq> address \<or> wp_debug w \<noteq> ctx_debug ctx))
      in if id = 2 then WATCHPOINT_DISABLED else wp_kind (w_points s ! id))"

definition watch_control :: "nat \<Rightarrow> u32 \<Rightarrow> watchpoint_kind \<Rightarrow> u32 \<Rightarrow> u32" where
  "watch_control i offset kind sz =
     push_bit 20 1 OR push_bit 16 (4 + word_of_nat i) OR push_bit 5 (push_bit (unat offset) (push_bit (unat sz) 1 - 1)) OR
     push_bit 3 (kind_code kind) OR push_bit 1 2 OR 1"

definition GDB_AddWatchpoint ::
    "'n watch_env \<Rightarrow> u32 \<Rightarrow> u32 \<Rightarrow> watchpoint_kind \<Rightarrow> watch_state \<Rightarrow> watch_ctx \<Rightarrow> 'n \<Rightarrow> (int \<times> watch_state \<times> watch_ctx \<times> 'n) option" where
  "GDB_AddWatchpoint e address sz kind s ctx n =
     (let locked = s\<lparr>w_lock := w_lock s + 1\<rparr>; offset = address - (address AND NOT 3)
      in if w_total s = 2 then Some (- EBUSY, locked, ctx, n)
         else if sz = 0 \<or> offset + sz > 4 \<or> kind = WATCHPOINT_DISABLED then Some (- EINVAL, locked, ctx, n)
         else if GDB_GetWatchpointKind s ctx address \<noteq> WATCHPOINT_DISABLED then Some (- EINVAL, locked, ctx, n)
         else if sz \<ge> 32 then None
         else let id = (if wp_kind (w_points s ! 0) = WATCHPOINT_DISABLED then 0 else 1);
                  (r, out, n) = svcGetHandleInfo e n (ctx_debug ctx) 0x10000
              in if rfailed r then Some (- EINVAL, s, ctx, n)
                 else let n = kernel_set_state e n [if id = 0 then 0x10005 else 0x10006, address, watch_control id offset kind sz, ucast out];
                          w = \<lparr>wp_address = address, wp_size = sz, wp_kind = kind, wp_debug = ctx_debug ctx\<rparr>
                      in Some (0, s\<lparr>w_total := w_total s + 1, w_points := (w_points s)[id := w]\<rparr>,
                           ctx\<lparr>ctx_watchpoints := (ctx_watchpoints ctx)[nbWatchpoints ctx := address], nbWatchpoints := nbWatchpoints ctx + 1\<rparr>, n))"

definition drop_own_watchpoint :: "u32 \<Rightarrow> watch_ctx \<Rightarrow> watch_ctx" where
  "drop_own_watchpoint address ctx =
     (let own = ctx_watchpoints ctx
      in if own ! 0 = address then ctx\<lparr>ctx_watchpoints := own[0 := own ! 1, 1 := 0], nbWatchpoints := nbWatchpoints ctx - 1\<rparr>
         else if own ! 1 = address then ctx\<lparr>ctx_watchpoints := own[1 := 0], nbWatchpoints := nbWatchpoints ctx - 1\<rparr>
         else ctx)"

definition GDB_RemoveWatchpoint ::
    "'n watch_env \<Rightarrow> u32 \<Rightarrow> watchpoint_kind \<Rightarrow> watch_state \<Rightarrow> watch_ctx \<Rightarrow> 'n \<Rightarrow> int \<times> watch_state \<times> watch_ctx \<times> 'n" where
  "GDB_RemoveWatchpoint e address kind s ctx n =
     (let id = watch_id s (\<lambda>w. \<not> (wp_address w \<noteq> address \<and> wp_debug w \<noteq> ctx_debug ctx))
      in if id = 2 \<or> (kind \<noteq> WATCHPOINT_DISABLED \<and> wp_kind (w_points s ! id) \<noteq> kind) then (- EINVAL, s, ctx, n)
         else (0, s\<lparr>w_points := (w_points s)[id := no_watchpoint], w_total := w_total s - 1\<rparr>, drop_own_watchpoint address ctx,
               kernel_set_state e n [0x10004, word_of_nat id]))"

text \<open>A watchpoint that was added has its kind, covers its bytes in the control word and leaves the lock free.\<close>

lemma add_watchpoint_found:
  assumes "GDB_AddWatchpoint e address sz kind s ctx n = Some (0, s', ctx', n')" and "length (w_points s) = 2"
  shows "GDB_GetWatchpointKind s' ctx address = kind \<and> kind \<noteq> WATCHPOINT_DISABLED \<and> w_lock s' = w_lock s"
proof -
  obtain res out n1 where g: "svcGetHandleInfo e n (ctx_debug ctx) 0x10000 = (res, out, n1)" by (rule prod_cases3)
  have none: "GDB_GetWatchpointKind s ctx address = WATCHPOINT_DISABLED" and k: "kind \<noteq> WATCHPOINT_DISABLED"
    using assms(1) unfolding GDB_AddWatchpoint_def Let_def g prod.case by (simp_all add: EBUSY_def EINVAL_def split: if_splits)
  define i where "i = (if wp_kind (w_points s ! 0) = WATCHPOINT_DISABLED then 0 else (1 :: nat))"
  have i: "w_points s' = (w_points s)[i := \<lparr>wp_address = address, wp_size = sz, wp_kind = kind, wp_debug = ctx_debug ctx\<rparr>]" "w_lock s' = w_lock s"
    using assms(1) unfolding GDB_AddWatchpoint_def Let_def g prod.case i_def [symmetric] by (auto simp: EBUSY_def EINVAL_def split: if_splits)
  obtain a b where ab: "w_points s = [a, b]" using assms(2) by (auto simp: length_Suc_conv numeral_2_eq_2)
  show ?thesis
  proof (cases "i = 0")
    case True
    then show ?thesis using i ab k by (simp add: GDB_GetWatchpointKind_def watch_id_def)
  next
    case False
    then have "i = 1" "wp_kind a \<noteq> WATCHPOINT_DISABLED" using ab by (auto simp: i_def split: if_splits)
    then have "\<not> (wp_address a = address \<and> wp_debug a = ctx_debug ctx)" using none ab by (auto simp: GDB_GetWatchpointKind_def watch_id_def)
    then show ?thesis using i \<open>i = 1\<close> ab k by (auto simp: GDB_GetWatchpointKind_def watch_id_def)
  qed
qed

text \<open>A refused request leaves the lock held: the next thread that asks for it waits for ever.\<close>

lemma refused_watchpoint_keeps_lock:
  assumes "w_total s = 2 \<or> sz = 0 \<or> kind = WATCHPOINT_DISABLED"
  shows "\<exists>r. GDB_AddWatchpoint e address sz kind s ctx n = Some (r, s\<lparr>w_lock := w_lock s + 1\<rparr>, ctx, n) \<and> r < 0"
  unfolding GDB_AddWatchpoint_def Let_def using assms by (auto simp: EBUSY_def EINVAL_def)

text \<open>Removing the second watchpoint of a process takes the first one away.\<close>

lemma remove_takes_other_watchpoint:
  assumes "w_points s = [w, v]" and "wp_debug w = ctx_debug ctx" and "wp_kind w = kind"
  shows "\<exists>s' ctx' n'. GDB_RemoveWatchpoint e address kind s ctx n = (0, s', ctx', n') \<and> w_points s' = [no_watchpoint, v]"
  using assms by (simp add: GDB_RemoveWatchpoint_def watch_id_def)

section \<open>Detaching\<close>

text \<open>The part of \<open>GDB_DetachFromProcess\<close> (\<open>gdb.c\<close>) that frees the stop points: the instructions of the breakpoints that
  are not to persist are written back; then the connection's watchpoints. There are two of them at most.\<close>

fun restore_breakpoints :: "'n target_env \<Rightarrow> breakpoint list \<Rightarrow> 'n \<Rightarrow> 'n" where
  "restore_breakpoints e [] n = n"
| "restore_breakpoints e (b # bps) n =
     restore_breakpoints e bps (if persistent b then n else snd (GDB_DisableBreakpointById e b n))"

fun detach_watchpoints :: "nat \<Rightarrow> 'n watch_env \<Rightarrow> nat \<Rightarrow> watch_state \<Rightarrow> watch_ctx \<Rightarrow> 'n \<Rightarrow> watch_state \<times> watch_ctx \<times> 'n" where
  "detach_watchpoints 0 e i s ctx n = (s, ctx\<lparr>nbWatchpoints := 0\<rparr>, n)"
| "detach_watchpoints (Suc k) e i s ctx n =
     (if i < nbWatchpoints ctx then
        let (r, s, ctx, n) = GDB_RemoveWatchpoint e (ctx_watchpoints ctx ! i) WATCHPOINT_DISABLED s ctx n
        in detach_watchpoints k e (i + 1) s (ctx\<lparr>ctx_watchpoints := (ctx_watchpoints ctx)[i := 0]\<rparr>) n
      else (s, ctx\<lparr>nbWatchpoints := 0\<rparr>, n))"

text \<open>The removal moves the second watchpoint to the front and takes one off the count, so the loop ends after the first:
  a connection with two watchpoints leaves one of them armed.\<close>

lemma detach_leaves_second:
  assumes "w_points s = [w, v]" and "wp_debug w = ctx_debug ctx" and "nbWatchpoints ctx = 2" and "ctx_watchpoints ctx = [wp_address w, wp_address v]"
  shows "\<exists>s' ctx' n'. detach_watchpoints 2 e 0 s ctx n = (s', ctx', n') \<and> w_points s' = [no_watchpoint, v]"
  using assms by (simp add: numeral_2_eq_2 GDB_RemoveWatchpoint_def watch_id_def drop_own_watchpoint_def)

end
