(* ===== verification/Spec2Isabelle.thy ===== *)
theory Spec2Isabelle
  imports Sm_Claims Cheat_Claims Cheat_File_Claims Cheat_Top Discord_Session_Claims Discord_Config_Claims Custom_Rpc_Claims Discord_Http Ndm_Yield_Claims Discord_Rpc_Claims
    Discord_Activity_Claims Presence_Aux Loader_Ups Loader_Patches_Claims Loader_Paslr
    Gdb_Points_Claims Gdb_Watch
begin

text \<open>
  A verification development of Presence3DS, a custom firmware of the Nintendo 3DS with a client
  that tells a server which title is running.

  \<^bold>\<open>The parts of the program.\<close> The firmware is a boot loader (\<open>arm9\<close>, \<open>arm11\<close>), an extension of the
  kernel (\<open>k11_extension\<close>) and replacements of system modules (\<open>sysmodules\<close>): \<open>sm\<close> the service
  manager, \<open>pm\<close> the process manager, \<open>loader\<close>, \<open>pxi\<close>, and \<open>rosalina\<close> with the menus, the cheat engine,
  the debugger and the Presence client. The modules are processes: they meet through sessions of
  the service manager, the file server and kernel calls. Modelled here are the service manager,
  the cheat engine with its files, the Presence client, of the loader the search and the patching
  of code and the allocation of memory, and of the debugger its stop points.

  \<^bold>\<open>Conventions.\<close> Definitions have the names of the functions and types they translate. A struct is a
  record, an unsigned integer of \<open>w\<close> bits a word, a buffer the list of its bytes, a C string the
  list of bytes before the terminator. State is passed explicitly. A trap of the program is
  \<^term>\<open>None\<close>; a loop that may run for ever takes fuel and is \<^term>\<open>None\<close> when the fuel is used up (in
  \<open>Discord_Rpc\<close> the state reached so far).
  Kernel calls, other services and hardware are fields of an environment record that the
  definitions take as an argument: nothing is assumed about them but what a theorem states.
  Theory \<open>Prelude\<close> has the types, the C string routines and shared lemmas.

  \<^bold>\<open>The service manager\<close> (\<open>sysmodules/sm/source\<close>).
  \<^item> \<open>Sm_List\<close> (\<open>list.c\<close>): the intrusive doubly linked lists over pools, as maps of pointers. Every
    pointer operation refines the operation on abstract lists; the pool stays partitioned.
  \<^item> \<open>Sm_State\<close> (\<open>common.h\<close>, the globals of \<open>main.c\<close>), \<open>Sm_Processes\<close> (\<open>processes.c\<close>),
    \<open>Sm_Notifications\<close> (\<open>notifications.c\<close>), \<open>Sm_Services\<close> (\<open>services.c\<close>): one operation per function;
    the ring of pending notifications is a queue, the table of services a finite map.
  \<^item> \<open>Sm_Srv\<close> (\<open>srv.c\<close>, \<open>srv_pm.c\<close>): the handlers of both ports and the invariant they keep.
  \<^item> \<open>Sm_Main\<close> (\<open>main.c\<close>): one turn of the main loop, events as the kernel reports them.
  \<^item> \<open>Sm_Claims\<close>: the properties, over the states reachable by any sequence of turns.

  \<^bold>\<open>The cheat engine\<close> (\<open>sysmodules/rosalina/source/menus/cheats.c\<close>).
  \<^item> \<open>Cheat_State\<close>: registers, the scratch page, the memory accessors.
  \<^item> \<open>Cheat_Exec\<close>: the interpreter, one definition per code type, and its main loop \<open>run\<close>. Its fuel is the
    number of lines executed; \<open>Cheat_Proofs\<close> gives the measure that bounds it for cheats of at most
    128 lines whose payloads end by line 255.
  \<^item> \<open>Cheat_Claims\<close>: termination, the stack of conditions, skipped lines, and the places where the code
    departs from what it means to do.
  \<^item> \<open>Ifile\<close> (\<open>ifile.c\<close>), \<open>Cheat_File\<close>: the files, the buffered reader, lines, codes and the loader, down
    from the file server. \<open>Cheat_File_Proofs\<close> and \<open>Cheat_File_Round\<close> prove the reader against the byte
    stream and the loader against the text it reads; \<open>Cheat_File_Claims\<close> has the properties. The fuel of
    a read is the number of bytes asked for, that of the loader the number of lines and one.
  \<^item> \<open>Cheat_Top\<close>: attaching to the process and applying the active cheats.

  \<^bold>\<open>The Presence client\<close> (\<open>sysmodules/rosalina/source/discord\<close>).
  \<^item> \<open>Sha256\<close>, \<open>Sha256_Proofs\<close> (\<open>utils/sha256.c\<close>): the streaming hash is the hash of FIPS 180-4. \<open>Fips180\<close> is the
    standard, written without any definition of the program; its constants are bits of roots of primes.
  \<^item> \<open>Aes256\<close>, \<open>Aes256_Proofs\<close> (\<open>utils/aes256_cbc.c\<close>): the cipher, with the inverse of every step and of CBC.
  \<^item> \<open>Discord_Util\<close> (\<open>utils/discord_util.c\<close>): form encoding, fields of responses, the packed counter.
  \<^item> \<open>Discord_Session\<close> (\<open>discord_session.c\<close>): the requests and the counter of accepted ones;
    \<open>Discord_Session_Claims\<close> joins the three above into what an accepted answer proves.
  \<^item> \<open>Discord_Config\<close> (\<open>utils/config_reader.c\<close>, \<open>discord_config.c\<close>, \<open>user_prefs.c\<close>), \<open>Discord_Config_Proofs\<close>: the
    reader of \<open>KEY=VALUE\<close> files is the fold of its handler over the entries. \<open>Discord_Config_Claims\<close>: the
    account is the last valid value of each key, preferences keep their types and survive a save.
  \<^item> \<open>Custom_Rpc\<close> (\<open>customRPC/read_memory.c\<close>, \<open>customRPC/memory_config.c\<close>): the mapping of the title's memory
    and the table of addresses the server asks for. \<open>Custom_Rpc_Claims\<close>: text and table are inverse, all
    values are sent, reads stay in the mapping, and the mapping is the kernel's.
  \<^item> \<open>Discord_Update\<close> (\<open>discord_update.c\<close>, \<open>utils/discord_led.c\<close>): versions are compared by their numbers; the
    marker file keeps the notice of an update over any number of restarts.
  \<^item> \<open>Discord_Http\<close> (\<open>discord_http.c\<close>, \<open>utils/soc_utils.c\<close>): connecting with a limit of time, sending over partial
    writes, receiving with a limit of silence.
  \<^item> \<open>Ndm_Yield\<close> (\<open>ndm_yield.c\<close>, \<open>minisoc.c\<close>, and of the kernel extension \<open>ndmu_yield.c\<close> with its cases in
    \<open>svc/SendSyncRequest.c\<close>, \<open>svc/KernelSetState.c\<close> and \<open>svc/GetSystemInfo.c\<close>): a game, the kernel and rosalina
    agree on who has the radio. \<open>Ndm_Yield_Claims\<close>: a request is answered, a loan is never missed by the
    client and is taken back when the game is done. The block of the kernel follows the network in every
    interleaving, also during a loan, where the code means to lift it.
  \<^item> \<open>Discord_Rpc\<close> (\<open>discord_rpc_main.c\<close>, \<open>net_watch.c\<close>): the thread of the client. Its loops take fuel, one unit a
    turn. \<open>Discord_Rpc_Claims\<close>: the calls of every run, ended or not, are in the order the protocol asks for,
    and a run ends once the stop flag is raised: the looks at the flag until then are enough fuel.

  \<^item> \<open>Discord_Activity\<close> (\<open>discord_activity.c\<close>): the title, its name, its script and the text of an update.
    \<open>Discord_Activity_Claims\<close>: the server reads back what was put into the text; in every run the values
    sent belong to the running title and to a script that was signed for it.
  \<^item> \<open>Presence_Aux\<close> (\<open>presence_ipc.c\<close>, \<open>utils/mii_utils.c\<close>): the version for other processes, the Mii as text.

  \<^bold>\<open>The loader\<close> (\<open>sysmodules/loader/source\<close>).
  \<^item> \<open>Loader_Search\<close> (\<open>memory.c\<close>, \<open>patchMemory\<close> of \<open>patcher.c\<close>): the search that shifts by a table is the search for
    the first occurrence.
  \<^item> \<open>Loader_Patches\<close> (\<open>patcher.c\<close>, \<open>strings.c\<close>): the buffered reader of patch files, IPS and UPS. The meaning of a
    patch file is a function of its bytes and the code; \<open>Loader_Patches_Proofs\<close> and \<open>Loader_Patches_Claims\<close> (IPS),
    \<open>Loader_Ups\<close> (UPS) prove that the patcher computes it, through any splitting of the reads. The fuel of the
    IPS loop is more than the bytes of the file; the other loops carry a bound that is never reached.
  \<^item> \<open>Loader_Paslr\<close> (\<open>paslr.c\<close>): the random chunks tile the memory of the program.

  \<^bold>\<open>The debugger\<close> (\<open>sysmodules/rosalina/source/gdb\<close>, \<open>gdb.c\<close>).
  \<^item> \<open>Gdb_Points\<close> (\<open>breakpoints.c\<close>): the binary search and the table. \<open>Gdb_Points_Claims\<close>: the table is a finite map
    and the memory of the process is its program with the breakpoint instructions planted.
  \<^item> \<open>Gdb_Watch\<close> (\<open>watchpoints.c\<close>, the end of a session in \<open>gdb.c\<close>): the register pairs, and three places where the
    code departs from what it means to do.

  \<^bold>\<open>Not modelled.\<close> The boot loader, most hooks of the kernel extension, \<open>pm\<close>, the commands of \<open>loader\<close>, \<open>pxi\<close>, the protocol of the
  debugger and the plugin loader; drawing, menus and hardware registers; the third-party file system and formatter.
  Of the modelled parts: the drawing half of the cheat menu, log lines, and the contents of static
  buffers that carry nothing from one call to the next. Floating point arithmetic of the cheats is
  a parameter.
\<close>

end
